(* ===== verification/Prelude.thy ===== *)
theory Prelude
  imports Main "HOL-Library.Word" "HOL-Library.Monad_Syntax"
begin

unbundle bit_operations_syntax

section \<open>Shared types, panics and word arithmetic\<close>

text \<open>
  The vocabulary every component uses.
  \<^item> Rust's \<open>usize\<close>, \<open>u64\<close>, \<open>u32\<close>, \<open>u16\<close> and \<open>u8\<close> are words of that width.
    Addresses, lengths and system-call arguments are \<open>usize\<close>; array positions and
    counters that the code only uses to index fixed-size arrays are \<open>nat\<close>.
  \<^item> A function that can panic returns \<open>'a panics\<close>: \<open>None\<close> is the panic (an assertion,
    an \<open>expect\<close>, an index out of range, an arithmetic overflow of a debug build), so
    that "does not panic" is a theorem and not an assumption.
  \<^item> \<open>Result<T, E>\<close> is \<open>'e + 'a\<close> with \<open>Inl\<close> the error; \<open>Option<T>\<close> is \<open>'a option\<close>.
  The lemmas relate checked arithmetic and masks on words to arithmetic on \<open>nat\<close>.
\<close>

type_synonym u8 = "8 word"
type_synonym u16 = "16 word"
type_synonym u32 = "32 word"
type_synonym u64 = "64 word"
type_synonym usize = "64 word"

type_synonym 'a panics = "'a option"

abbreviation Panic :: "'a panics" where
  "Panic \<equiv> None"

abbreviation Ret :: "'a \<Rightarrow> 'a panics" where
  "Ret \<equiv> Some"

named_theorems checked_simps \<open>inversion of checked arithmetic\<close>

subsection \<open>Checked arithmetic\<close>

definition checked_add :: "'l::len word \<Rightarrow> 'l word \<Rightarrow> 'l word option" where
  "checked_add a b = (if unat a + unat b < 2 ^ LENGTH('l) then Some (a + b) else None)"

definition checked_sub :: "'l::len word \<Rightarrow> 'l word \<Rightarrow> 'l word option" where
  "checked_sub a b = (if b \<le> a then Some (a - b) else None)"

definition checked_mul :: "'l::len word \<Rightarrow> 'l word \<Rightarrow> 'l word option" where
  "checked_mul a b = (if unat a * unat b < 2 ^ LENGTH('l) then Some (a * b) else None)"

lemma checked_add_Some_iff [checked_simps]:
  "checked_add a b = Some c \<longleftrightarrow> unat a + unat b < 2 ^ LENGTH('l) \<and> c = a + b"
  for a b :: "'l::len word"
  by (auto simp: checked_add_def)

lemma checked_add_None_iff [checked_simps]:
  "checked_add a b = None \<longleftrightarrow> 2 ^ LENGTH('l) \<le> unat a + unat b"
  for a b :: "'l::len word"
  by (auto simp: checked_add_def not_less)

lemma checked_sub_Some_iff [checked_simps]:
  "checked_sub a b = Some c \<longleftrightarrow> b \<le> a \<and> c = a - b"
  by (auto simp: checked_sub_def)

lemma checked_sub_None_iff [checked_simps]:
  "checked_sub a b = None \<longleftrightarrow> a < b"
  by (auto simp: checked_sub_def not_le)

lemma checked_mul_Some_iff [checked_simps]:
  "checked_mul a b = Some c \<longleftrightarrow> unat a * unat b < 2 ^ LENGTH('l) \<and> c = a * b"
  for a b :: "'l::len word"
  by (auto simp: checked_mul_def)

lemma unat_add_no_overflow:
  "unat a + unat b < 2 ^ LENGTH('l) \<Longrightarrow> unat (a + b) = unat a + unat b"
  for a b :: "'l::len word"
  by (simp add: unat_word_ariths)

lemma checked_add_unat:
  "checked_add a b = Some c \<Longrightarrow> unat c = unat a + unat b"
  by (auto simp: checked_add_Some_iff unat_add_no_overflow)

lemma checked_sub_unat:
  "checked_sub a b = Some c \<Longrightarrow> unat c = unat a - unat b"
  by (auto simp: checked_sub_Some_iff unat_sub)

lemma unat_of_nat_small:
  "n < 2 ^ LENGTH('l) \<Longrightarrow> unat (of_nat n :: 'l::len word) = n"
  by (simp add: unat_of_nat)

lemma unat_of_nat_u64 [simp]: "n < 18446744073709551616 \<Longrightarrow> unat (of_nat n :: 64 word) = n"
  using unat_of_nat_small [of n, where 'l = 64] by simp

lemma unat_u64_bound: "unat (x :: 64 word) < 18446744073709551616"
  using unsigned_less [of x] by simp

subsection \<open>Frames and masks\<close>

text \<open>\<open>FRAME_SIZE\<close> of \<open>memory/frame.rs\<close> and \<open>PAGE_SIZE\<close> of \<open>paging.rs\<close>.\<close>

definition FRAME_SIZE :: usize where
  "FRAME_SIZE = 4096"

definition PAGE_SIZE :: usize where
  "PAGE_SIZE = 4096"

definition USER_SPACE_END :: usize where
  "USER_SPACE_END = 0x0000800000000000"

lemma mask_12_eq: "(mask 12 :: 64 word) = 4095"
  by (simp add: mask_eq_exp_minus_1)

lemma mask_9_eq: "(mask 9 :: 64 word) = 511"
  by (simp add: mask_eq_exp_minus_1)

lemma unat_and_low12: "unat ((x :: 64 word) AND 4095) = unat x mod 4096"
proof -
  have "x AND 4095 = take_bit 12 x"
    by (metis mask_12_eq take_bit_eq_mask)
  then show ?thesis
    by (simp add: take_bit_eq_mod unat_mod_distrib)
qed

lemma unat_and_not_low12:
  "unat ((x :: 64 word) AND NOT 4095) = unat x - unat x mod 4096"
proof -
  have "(x AND NOT 4095) + (x AND 4095) = (x AND NOT 4095) OR (x AND 4095)"
    by (rule disjunctive_add_eq_or) (simp add: bit_eq_iff bit_simps)
  also have "\<dots> = x"
    by (auto simp: bit_eq_iff bit_simps)
  finally have "x AND NOT 4095 = x - (x AND 4095)"
    by (metis add_diff_cancel_right')
  moreover have "x AND 4095 \<le> x"
    by (rule word_and_le2)
  ultimately show ?thesis
    by (simp add: unat_sub unat_and_low12)
qed

lemma align_down_bounds:
  "unat ((x :: 64 word) AND NOT 4095) \<le> unat x"
  "unat x < unat ((x :: 64 word) AND NOT 4095) + 4096"
  unfolding unat_and_not_low12 by simp_all

definition frame_aligned :: "usize \<Rightarrow> bool" where
  "frame_aligned a \<longleftrightarrow> a mod FRAME_SIZE = 0"

lemma frame_aligned_unat: "frame_aligned a \<longleftrightarrow> unat a mod 4096 = 0"
  by (simp add: frame_aligned_def FRAME_SIZE_def unat_mod_distrib unat_eq_zero flip: unat_0_iff)

end
