(* ===== verification/Memory.thy ===== *)
theory Memory
  imports Prelude
begin

section \<open>Memory: bytes, addresses, regions and the direct map\<close>

text \<open>
  The data types of \<open>src/src/memory/mod.rs\<close> and the byte-addressed memory behind the
  kernel's raw pointers. \<open>PhysicalAddr\<close> and \<open>VirtualAddr\<close> are transparent wrappers of
  \<open>usize\<close>. Physical memory is reached through the direct map: \<open>DirectMap::translate\<close>
  turns a physical into a virtual address, and \<open>mem\<close> gives the byte at each virtual
  address of that map. Raw reads and writes of multi-byte values are little-endian.
\<close>

type_synonym PhysicalAddr = usize
type_synonym VirtualAddr = usize
type_synonym mem = "usize \<Rightarrow> u8"

subsection \<open>Little-endian words\<close>

text \<open>\<open>uN::from_le_bytes\<close> and \<open>to_le_bytes\<close>.\<close>

definition from_le_bytes :: "u8 list \<Rightarrow> 'l::len word" where
  "from_le_bytes bs = foldr (\<lambda>b acc. ucast b OR push_bit 8 acc) bs 0"

definition to_le_bytes :: "nat \<Rightarrow> 'l::len word \<Rightarrow> u8 list" where
  "to_le_bytes n w = map (\<lambda>i. ucast (drop_bit (8 * i) w)) [0..<n]"

definition from_be_bytes :: "u8 list \<Rightarrow> 'l::len word" where
  "from_be_bytes bs = from_le_bytes (rev bs)"

lemma length_to_le_bytes [simp]: "length (to_le_bytes n w) = n"
  by (simp add: to_le_bytes_def)

lemma from_le_bytes_Cons:
  "from_le_bytes (b # bs) = (ucast b OR push_bit 8 (from_le_bytes bs))"
  by (simp add: from_le_bytes_def)

lemma bit_from_le_bytes:
  "bit (from_le_bytes bs :: 'l::len word) n \<longleftrightarrow>
     n < LENGTH('l) \<and> n div 8 < length bs \<and> bit (bs ! (n div 8)) (n mod 8)"
proof (induction bs arbitrary: n)
  case Nil
  then show ?case by (simp add: from_le_bytes_def)
next
  case (Cons b bs)
  show ?case
  proof (cases "n < 8")
    case True
    then show ?thesis
      by (auto simp: from_le_bytes_Cons bit_simps)
  next
    case False
    then have *: "n div 8 = Suc ((n - 8) div 8)" "n mod 8 = (n - 8) mod 8"
      by (simp_all add: le_div_geq le_mod_geq)
    have "\<not> bit b n"
      using False by (auto dest: bit_imp_le_length)
    then show ?thesis
      using False Cons.IH [of "n - 8"] * by (auto simp: from_le_bytes_Cons bit_simps)
  qed
qed

lemma from_to_le_bytes:
  assumes "LENGTH('l) = 8 * n"
  shows "from_le_bytes (to_le_bytes n w) = (w :: 'l::len word)"
proof (rule bit_word_eqI)
  fix k assume k: "k < LENGTH('l)"
  then have "k div 8 < n" using assms by linarith
  then show "bit (from_le_bytes (to_le_bytes n w) :: 'l word) k = bit w k"
    using k by (simp add: bit_from_le_bytes to_le_bytes_def bit_simps)
qed

subsection \<open>Bytes in memory\<close>

definition read_bytes :: "mem \<Rightarrow> usize \<Rightarrow> nat \<Rightarrow> u8 list" where
  "read_bytes m a n = map (\<lambda>i. m (a + of_nat i)) [0..<n]"

definition write_bytes :: "mem \<Rightarrow> usize \<Rightarrow> u8 list \<Rightarrow> mem" where
  "write_bytes m a bs = (\<lambda>b. if unat (b - a) < length bs then bs ! unat (b - a) else m b)"

text \<open>\<open>core::ptr::write_bytes(ptr, value, count)\<close>.\<close>

definition fill_bytes :: "mem \<Rightarrow> usize \<Rightarrow> u8 \<Rightarrow> nat \<Rightarrow> mem" where
  "fill_bytes m a v n = (\<lambda>b. if unat (b - a) < n then v else m b)"

definition read_u64 :: "mem \<Rightarrow> usize \<Rightarrow> u64" where
  "read_u64 m a = from_le_bytes (read_bytes m a 8)"

definition write_u64 :: "mem \<Rightarrow> usize \<Rightarrow> u64 \<Rightarrow> mem" where
  "write_u64 m a v = write_bytes m a (to_le_bytes 8 v)"

lemma length_read_bytes [simp]: "length (read_bytes m a n) = n"
  by (simp add: read_bytes_def)

lemma in_range_iff:
  fixes a b :: usize
  assumes "unat a + n \<le> 2 ^ 64"
  shows "unat (b - a) < n \<longleftrightarrow> unat a \<le> unat b \<and> unat b < unat a + n"
proof (cases "a \<le> b")
  case True
  then show ?thesis by (auto simp: unat_sub word_le_nat_alt)
next
  case False
  then have "unat (b - a) = 2 ^ 64 + unat b - unat a"
    by (simp add: unat_sub_if_size word_size word_le_nat_alt)
  then show ?thesis using False assms by (auto simp: word_le_nat_alt)
qed

lemma read_write_bytes:
  assumes "length bs \<le> 2 ^ 64"
  shows "read_bytes (write_bytes m a bs) a (length bs) = bs"
  using assms by (auto intro!: nth_equalityI simp: read_bytes_def write_bytes_def)

lemma read_bytes_cong:
  "(\<And>i. i < n \<Longrightarrow> m (a + of_nat i) = m' (a + of_nat i)) \<Longrightarrow> read_bytes m a n = read_bytes m' a n"
  by (simp add: read_bytes_def)

lemma read_u64_write_same [simp]: "read_u64 (write_u64 m a v) a = v"
  using read_write_bytes [of "to_le_bytes 8 v" m a]
  by (simp add: read_u64_def write_u64_def from_to_le_bytes)

lemma unat_add_small:
  "unat a + n < 2 ^ 64 \<Longrightarrow> unat (a + of_nat n) = unat a + n" for a :: usize
  by (simp add: unat_word_ariths)

lemma read_bytes_write_other:
  assumes "unat a + n \<le> 2 ^ 64" "unat b + length bs \<le> 2 ^ 64"
    and "unat a + n \<le> unat b \<or> unat b + length bs \<le> unat a"
  shows "read_bytes (write_bytes m b bs) a n = read_bytes m a n"
proof (rule read_bytes_cong)
  fix i assume "i < n"
  then have "unat (a + of_nat i) = unat a + i"
    using assms(1) unat_add_small [of a i] by linarith
  then show "write_bytes m b bs (a + of_nat i) = m (a + of_nat i)"
    using assms \<open>i < n\<close> by (auto simp: write_bytes_def in_range_iff [OF assms(2)])
qed

lemma read_u64_write_other:
  assumes "unat a + 8 \<le> 2 ^ 64" "unat b + 8 \<le> 2 ^ 64"
    and "unat a + 8 \<le> unat b \<or> unat b + 8 \<le> unat a"
  shows "read_u64 (write_u64 m b v) a = read_u64 m a"
  using read_bytes_write_other [of a 8 b "to_le_bytes 8 v" m] assms
  by (simp add: read_u64_def write_u64_def)

lemma read_bytes_fill_inside:
  assumes "unat b + k \<le> 2 ^ 64" "unat b \<le> unat a" "unat a + n \<le> unat b + k"
  shows "read_bytes (fill_bytes m b v k) a n = replicate n v"
proof (rule nth_equalityI)
  fix i assume "i < length (read_bytes (fill_bytes m b v k) a n)"
  then have i: "i < n" by simp
  then have "unat (a + of_nat i) = unat a + i"
    using assms unat_add_small [of a i] by linarith
  then have "unat (a + of_nat i - b) < k"
    using i assms in_range_iff [OF assms(1), of "a + of_nat i"] by simp
  then show "read_bytes (fill_bytes m b v k) a n ! i = replicate n v ! i"
    using i by (simp add: read_bytes_def fill_bytes_def)
qed simp

lemma read_bytes_fill_other:
  assumes "unat a + n \<le> 2 ^ 64" "unat b + k \<le> 2 ^ 64"
    and "unat a + n \<le> unat b \<or> unat b + k \<le> unat a"
  shows "read_bytes (fill_bytes m b v k) a n = read_bytes m a n"
proof (rule read_bytes_cong)
  fix i assume "i < n"
  then have "unat (a + of_nat i) = unat a + i"
    using assms(1) unat_add_small [of a i] by linarith
  then show "fill_bytes m b v k (a + of_nat i) = m (a + of_nat i)"
    using assms \<open>i < n\<close> by (auto simp: fill_bytes_def in_range_iff [OF assms(2)])
qed

lemma from_le_bytes_zeros [simp]: "from_le_bytes (replicate n 0) = 0"
  by (rule bit_word_eqI) (auto simp: bit_from_le_bytes)

subsection \<open>Regions, permissions and the direct map\<close>

datatype MemoryRegionKind =
  Usable | RegionReserved | AcpiReclaimable | AcpiNvs | BadMemory | BootloaderReclaimable
| KernelAndModules | Framebuffer | MappedReserved

datatype CachePolicy = Uncacheable | WriteBack

record MemoryRegion =
  region_start :: PhysicalAddr
  region_length :: usize
  region_kind :: MemoryRegionKind

record PagePermissions =
  writable :: bool
  executable :: bool
  user_accessible :: bool

definition page_permissions :: "bool \<Rightarrow> bool \<Rightarrow> bool \<Rightarrow> PagePermissions" where
  "page_permissions w x u = \<lparr>writable = w, executable = x, user_accessible = u\<rparr>"

record KernelSegment =
  seg_physical_base :: PhysicalAddr
  seg_virtual_base :: VirtualAddr
  seg_length :: usize
  seg_permissions :: PagePermissions

record DirectMap =
  dm_offset :: usize

definition translate :: "DirectMap \<Rightarrow> PhysicalAddr \<Rightarrow> VirtualAddr option" where
  "translate dm addr = checked_add addr (dm_offset dm)"

lemma translate_Some_iff:
  "translate dm a = Some v \<longleftrightarrow> unat a + unat (dm_offset dm) < 2 ^ 64 \<and> v = a + dm_offset dm"
  by (simp add: translate_def checked_add_Some_iff)

lemma translate_unat:
  "translate dm a = Some v \<Longrightarrow> unat v = unat a + unat (dm_offset dm)"
  by (auto simp: translate_def dest: checked_add_unat)

subsection \<open>The boot memory map and boot strings\<close>

definition MAX_MEMORY_REGIONS :: nat where
  "MAX_MEMORY_REGIONS = 128"

definition EMPTY_MEMORY_REGION :: MemoryRegion where
  "EMPTY_MEMORY_REGION = \<lparr>region_start = 0, region_length = 0, region_kind = RegionReserved\<rparr>"

datatype MemoryMapError = TooManyRegions

record MemoryMap =
  map_entries :: "MemoryRegion list"
  map_len :: nat

definition memory_map_new :: MemoryMap where
  "memory_map_new = \<lparr>map_entries = replicate MAX_MEMORY_REGIONS EMPTY_MEMORY_REGION, map_len = 0\<rparr>"

definition memory_map_push :: "MemoryMap \<Rightarrow> MemoryRegion \<Rightarrow> (MemoryMapError + unit) \<times> MemoryMap" where
  "memory_map_push mm e =
     (if MAX_MEMORY_REGIONS \<le> map_len mm then (Inl TooManyRegions, mm)
      else (Inr (), mm\<lparr>map_entries := (map_entries mm)[map_len mm := e], map_len := map_len mm + 1\<rparr>))"

definition memory_map_iter :: "MemoryMap \<Rightarrow> MemoryRegion list" where
  "memory_map_iter mm = take (map_len mm) (map_entries mm)"

definition memory_map_inv :: "MemoryMap \<Rightarrow> bool" where
  "memory_map_inv mm \<longleftrightarrow> length (map_entries mm) = MAX_MEMORY_REGIONS \<and> map_len mm \<le> MAX_MEMORY_REGIONS"

lemma memory_map_new_inv [simp]: "memory_map_inv memory_map_new"
  by (simp add: memory_map_inv_def memory_map_new_def)

lemma memory_map_push_iter:
  assumes "memory_map_inv mm" "memory_map_push mm e = (Inr (), mm')"
  shows "memory_map_inv mm' \<and> memory_map_iter mm' = memory_map_iter mm @ [e]"
  using assms
  by (auto simp: memory_map_inv_def memory_map_push_def memory_map_iter_def take_Suc_conv_app_nth
      split: if_splits)

record BootString =
  bs_bytes :: "u8 list"
  bs_len :: nat

definition boot_string_from_bytes :: "nat \<Rightarrow> u8 list \<Rightarrow> BootString panics" where
  "boot_string_from_bytes N bytes =
     (if length bytes \<le> N
      then Ret \<lparr>bs_bytes = bytes @ replicate (N - length bytes) 0, bs_len = length bytes\<rparr>
      else Panic)"

definition boot_string_bytes :: "BootString \<Rightarrow> u8 list" where
  "boot_string_bytes s = take (bs_len s) (bs_bytes s)"

end
