(* ===== verification/Frame.thy ===== *)
theory Frame
  imports Memory
begin

section \<open>The physical frame allocator\<close>

text \<open>
  \<open>src/src/memory/frame.rs\<close>: a bitmap with two bits per 4 KiB frame and a next-fit
  search. The bitmap's storage is a byte list of its own, indexed from \<open>bm_start\<close>;
  the frames that hold it stay \<open>Reserved\<close> (theorem about \<open>frame_allocator_new\<close>), so no
  frame handed out overlaps it. Frame indices are \<open>nat\<close>; a frame address is the
  \<open>usize\<close> \<open>index * FRAME_SIZE\<close>. Every assertion, \<open>expect\<close> and explicit \<open>panic!\<close> of the
  file is a \<open>Panic\<close> of the model.
\<close>

definition align_up_to_frame :: "usize \<Rightarrow> usize option" where
  "align_up_to_frame addr =
     map_option (\<lambda>a. a AND NOT (FRAME_SIZE - 1)) (checked_add addr (FRAME_SIZE - 1))"

definition align_down_to_frame :: "usize \<Rightarrow> usize" where
  "align_down_to_frame addr = addr AND NOT (FRAME_SIZE - 1)"

datatype FrameState = Reserved | Free | Allocated

primrec frame_state_code :: "FrameState \<Rightarrow> u8" where
  "frame_state_code Reserved = 0"
| "frame_state_code Free = 1"
| "frame_state_code Allocated = 2"

subsection \<open>The bitmap\<close>

record Bitmap =
  bm_start :: VirtualAddr
  bm_frame_count :: nat
  bm_bytes :: "u8 list"

text \<open>The \<open>match\<close> on the two bits in \<open>Bitmap::state\<close>.\<close>

definition decode_frame_state :: "u8 \<Rightarrow> FrameState panics" where
  "decode_frame_state code =
     (if code = 0 then Ret Reserved
      else if code = 1 then Ret Free
      else if code = 2 then Ret Allocated
      else Panic)"

definition bitmap_state :: "Bitmap \<Rightarrow> nat \<Rightarrow> FrameState panics" where
  "bitmap_state bm frame_idx =
     (if frame_idx < bm_frame_count bm \<and> frame_idx div 4 < length (bm_bytes bm)
      then let byte = bm_bytes bm ! (frame_idx div 4);
               shift = (frame_idx mod 4) * 2
           in decode_frame_state (drop_bit shift byte AND 3)
      else Panic)"

definition bitmap_set_state :: "Bitmap \<Rightarrow> nat \<Rightarrow> FrameState \<Rightarrow> Bitmap panics" where
  "bitmap_set_state bm frame_idx st =
     (if frame_idx < bm_frame_count bm \<and> frame_idx div 4 < length (bm_bytes bm)
      then let byte_idx = frame_idx div 4;
               shift = (frame_idx mod 4) * 2;
               byte = bm_bytes bm ! byte_idx;
               msk = push_bit shift 3
           in Ret (bm\<lparr>bm_bytes := (bm_bytes bm)
                 [byte_idx := (byte AND NOT msk) OR push_bit shift (frame_state_code st)]\<rparr>)
      else Panic)"

subsection \<open>The allocator\<close>

datatype FrameAllocatorInitError =
  AddressOverflow | NoUsableFrames | NoBitmapStorage | BitmapOutsideDirectMap

record FrameAllocator =
  fa_bitmap :: Bitmap
  fa_next_search :: nat
  fa_allocatable_frames :: nat
  fa_free_frames :: nat
  fa_direct_map :: DirectMap

definition usable_frame_range :: "MemoryRegion \<Rightarrow> FrameAllocatorInitError + nat \<times> nat" where
  "usable_frame_range region =
     (case checked_add (region_start region) (region_length region) of
        None \<Rightarrow> Inl AddressOverflow
      | Some region_end \<Rightarrow>
          (case align_up_to_frame (region_start region) of
             None \<Rightarrow> Inl AddressOverflow
           | Some start \<Rightarrow>
               Inr (unat (start div FRAME_SIZE), unat (align_down_to_frame region_end div FRAME_SIZE))))"

fun should_track :: "MemoryRegionKind \<Rightarrow> bool" where
  "should_track Usable = True"
| "should_track BootloaderReclaimable = True"
| "should_track AcpiReclaimable = True"
| "should_track _ = False"

definition can_store_bitmap :: "MemoryRegionKind \<Rightarrow> bool" where
  "can_store_bitmap kind \<longleftrightarrow> kind = Usable"

definition is_initially_free :: "MemoryRegionKind \<Rightarrow> bool" where
  "is_initially_free kind \<longleftrightarrow> kind = Usable"

text \<open>The three loops of \<open>FrameAllocator::new\<close>.\<close>

fun highest_frame_scan ::
  "MemoryRegion list \<Rightarrow> nat option \<Rightarrow> FrameAllocatorInitError + nat option" where
  "highest_frame_scan [] acc = Inr acc"
| "highest_frame_scan (region # regions) acc =
     (if \<not> should_track (region_kind region) then highest_frame_scan regions acc
      else (case usable_frame_range region of
              Inl e \<Rightarrow> Inl e
            | Inr (s, e) \<Rightarrow>
                if e \<le> s then highest_frame_scan regions acc
                else highest_frame_scan regions
                       (Some (case acc of None \<Rightarrow> e | Some current \<Rightarrow> max current e))))"

fun bitmap_start_scan ::
  "MemoryRegion list \<Rightarrow> nat \<Rightarrow> FrameAllocatorInitError + nat option" where
  "bitmap_start_scan [] count = Inr None"
| "bitmap_start_scan (region # regions) count =
     (if \<not> can_store_bitmap (region_kind region) then bitmap_start_scan regions count
      else (case usable_frame_range region of
              Inl e \<Rightarrow> Inl e
            | Inr (s, e) \<Rightarrow>
                if e \<le> s then bitmap_start_scan regions count
                else if e - s < count then bitmap_start_scan regions count
                else Inr (Some s)))"

fun mark_frames_free ::
  "nat list \<Rightarrow> nat \<Rightarrow> nat \<Rightarrow> Bitmap \<times> nat \<times> nat \<Rightarrow> (Bitmap \<times> nat \<times> nat) panics" where
  "mark_frames_free [] bs be acc = Ret acc"
| "mark_frames_free (frame_idx # is) bs be (bm, allocatable, free) =
     (if bs \<le> frame_idx \<and> frame_idx < be then mark_frames_free is bs be (bm, allocatable, free)
      else do {
        bm' \<leftarrow> bitmap_set_state bm frame_idx Free;
        mark_frames_free is bs be (bm', allocatable + 1, free + 1) })"

fun mark_regions_free ::
  "MemoryRegion list \<Rightarrow> nat \<Rightarrow> nat \<Rightarrow> Bitmap \<times> nat \<times> nat \<Rightarrow>
   (FrameAllocatorInitError + Bitmap \<times> nat \<times> nat) panics" where
  "mark_regions_free [] bs be acc = Ret (Inr acc)"
| "mark_regions_free (region # regions) bs be acc =
     (if \<not> is_initially_free (region_kind region) then mark_regions_free regions bs be acc
      else (case usable_frame_range region of
              Inl e \<Rightarrow> Ret (Inl e)
            | Inr (s, e) \<Rightarrow> do {
                acc' \<leftarrow> mark_frames_free [s..<e] bs be acc;
                mark_regions_free regions bs be acc' }))"

definition frame_allocator_new ::
  "MemoryRegion list \<Rightarrow> DirectMap \<Rightarrow> (FrameAllocatorInitError + FrameAllocator) panics" where
  "frame_allocator_new regions direct_map =
     (case highest_frame_scan regions None of
        Inl e \<Rightarrow> Ret (Inl e)
      | Inr None \<Rightarrow> Ret (Inl NoUsableFrames)
      | Inr (Some highest_frame) \<Rightarrow>
          let bitmap_bytes = (highest_frame + 3) div 4;
              bitmap_frame_count = (bitmap_bytes + 4095) div 4096
          in if 2 ^ 64 \<le> bitmap_frame_count * 4096 then Ret (Inl AddressOverflow)
             else (case bitmap_start_scan regions bitmap_frame_count of
                Inl e \<Rightarrow> Ret (Inl e)
              | Inr None \<Rightarrow> Ret (Inl NoBitmapStorage)
              | Inr (Some bitmap_start_frame) \<Rightarrow>
                  if 2 ^ 64 \<le> bitmap_start_frame * 4096 then Panic
                  else (case translate direct_map (of_nat (bitmap_start_frame * 4096)) of
                     None \<Rightarrow> Ret (Inl BitmapOutsideDirectMap)
                   | Some bitmap_virtual \<Rightarrow>
                       if 2 ^ 64 \<le> bitmap_start_frame + bitmap_frame_count
                       then Ret (Inl AddressOverflow)
                       else do {
                         r \<leftarrow> mark_regions_free regions bitmap_start_frame
                                (bitmap_start_frame + bitmap_frame_count)
                                (\<lparr>bm_start = bitmap_virtual, bm_frame_count = highest_frame,
                                  bm_bytes = replicate (bitmap_frame_count * 4096) 0\<rparr>, 0, 0);
                         (case r of
                            Inl e \<Rightarrow> Ret (Inl e)
                          | Inr (bm, allocatable, free) \<Rightarrow>
                              Ret (Inr \<lparr>fa_bitmap = bm,
                                        fa_next_search = bitmap_start_frame + bitmap_frame_count,
                                        fa_allocatable_frames = allocatable,
                                        fa_free_frames = free,
                                        fa_direct_map = direct_map\<rparr>)) })))"

fun find_free :: "Bitmap \<Rightarrow> nat list \<Rightarrow> nat option panics" where
  "find_free bm [] = Ret None"
| "find_free bm (index # is) = do {
     st \<leftarrow> bitmap_state bm index;
     if st = Free then Ret (Some index) else find_free bm is }"

definition find_free_in :: "FrameAllocator \<Rightarrow> nat \<Rightarrow> nat \<Rightarrow> nat option panics" where
  "find_free_in fa s e = find_free (fa_bitmap fa) [s..<e]"

definition find_free_frame :: "FrameAllocator \<Rightarrow> nat option panics" where
  "find_free_frame fa = do {
     r \<leftarrow> find_free_in fa (fa_next_search fa) (bm_frame_count (fa_bitmap fa));
     (case r of
        Some i \<Rightarrow> Ret (Some i)
      | None \<Rightarrow> find_free_in fa 0 (fa_next_search fa)) }"

text \<open>\<open>FrameAddr\<close> and \<open>OwnedFrame\<close> wrap the physical start address.\<close>

type_synonym FrameAddr = PhysicalAddr

definition from_start_address :: "PhysicalAddr \<Rightarrow> FrameAddr option" where
  "from_start_address address = (if address mod FRAME_SIZE \<noteq> 0 then None else Some address)"

definition frame_from_index :: "nat \<Rightarrow> FrameAddr panics" where
  "frame_from_index index = (if index * 4096 < 2 ^ 64 then Ret (of_nat (index * 4096)) else Panic)"

definition frame_index :: "FrameAddr \<Rightarrow> nat" where
  "frame_index f = unat (f div FRAME_SIZE)"

fun reclaim_frames :: "nat list \<Rightarrow> FrameAllocator \<Rightarrow> FrameAllocator panics" where
  "reclaim_frames [] fa = Ret fa"
| "reclaim_frames (frame_idx # is) fa = do {
     st \<leftarrow> bitmap_state (fa_bitmap fa) frame_idx;
     if st \<noteq> Reserved then reclaim_frames is fa
     else do {
       bm' \<leftarrow> bitmap_set_state (fa_bitmap fa) frame_idx Free;
       reclaim_frames is (fa\<lparr>fa_bitmap := bm',
         fa_allocatable_frames := fa_allocatable_frames fa + 1,
         fa_free_frames := fa_free_frames fa + 1,
         fa_next_search := min (fa_next_search fa) frame_idx\<rparr>) } }"

fun reclaim_region_list ::
  "MemoryRegion list \<Rightarrow> MemoryRegionKind \<Rightarrow> FrameAllocator \<Rightarrow> FrameAllocator panics" where
  "reclaim_region_list [] kind fa = Ret fa"
| "reclaim_region_list (region # regions) kind fa =
     (if region_kind region = kind
      then (case usable_frame_range region of
              Inl e \<Rightarrow> Panic
            | Inr (s, e) \<Rightarrow> do {
                fa' \<leftarrow> reclaim_frames [s..<e] fa;
                reclaim_region_list regions kind fa' })
      else reclaim_region_list regions kind fa)"

definition reclaim_regions ::
  "FrameAllocator \<Rightarrow> MemoryRegion list \<Rightarrow> MemoryRegionKind \<Rightarrow> FrameAllocator panics" where
  "reclaim_regions fa memory_map kind =
     (if \<not> (kind = BootloaderReclaimable \<or> kind = AcpiReclaimable) then Ret fa
      else reclaim_region_list memory_map kind fa)"

definition alloc_nozero :: "FrameAllocator \<Rightarrow> (FrameAddr option \<times> FrameAllocator) panics" where
  "alloc_nozero fa =
     (if fa_free_frames fa = 0 then Ret (None, fa)
      else do {
        r \<leftarrow> find_free_frame fa;
        (case r of
           None \<Rightarrow> Ret (None, fa)
         | Some frame_idx \<Rightarrow> do {
             bm' \<leftarrow> bitmap_set_state (fa_bitmap fa) frame_idx Allocated;
             frame \<leftarrow> frame_from_index frame_idx;
             Ret (Some frame, fa\<lparr>fa_bitmap := bm', fa_free_frames := fa_free_frames fa - 1,
                                 fa_next_search := frame_idx + 1\<rparr>) }) })"

definition alloc ::
  "FrameAllocator \<Rightarrow> mem \<Rightarrow> (FrameAddr option \<times> FrameAllocator \<times> mem) panics" where
  "alloc fa m = do {
     (r, fa') \<leftarrow> alloc_nozero fa;
     (case r of
        None \<Rightarrow> Ret (None, fa', m)
      | Some frame \<Rightarrow> do {
          start \<leftarrow> translate (fa_direct_map fa') frame;
          Ret (Some frame, fa', fill_bytes m start 0 4096) }) }"

definition dealloc :: "FrameAllocator \<Rightarrow> FrameAddr \<Rightarrow> FrameAllocator panics" where
  "dealloc fa frame = do {
     st \<leftarrow> bitmap_state (fa_bitmap fa) (frame_index frame);
     (case st of
        Allocated \<Rightarrow> do {
          bm' \<leftarrow> bitmap_set_state (fa_bitmap fa) (frame_index frame) Free;
          Ret (fa\<lparr>fa_bitmap := bm', fa_free_frames := fa_free_frames fa + 1,
                  fa_next_search := min (fa_next_search fa) (frame_index frame)\<rparr>) }
      | Free \<Rightarrow> Panic
      | Reserved \<Rightarrow> Panic) }"

subsection \<open>Bit-level facts of the bitmap\<close>

lemma bit_3_int [simp]: "bit (3 :: int) n \<longleftrightarrow> n < 2"
proof -
  have "bit (mask 2 :: int) n \<longleftrightarrow> n < 2" by (simp add: bit_mask_iff)
  then show ?thesis by (simp add: mask_eq_exp_minus_1)
qed

lemma frame_state_code_bits:
  "bit (frame_state_code st) n \<Longrightarrow> n < 2"
  by (cases st) (auto simp: bit_1_iff bit_numeral_rec split: if_splits nat.splits dest: bit_imp_le_length)

lemma crumb_write_same:
  assumes "k < 4"
  shows "drop_bit (k * 2) ((b AND NOT (push_bit (k * 2) 3)) OR push_bit (k * 2) (frame_state_code st)) AND 3
       = frame_state_code st" (is "?l = _")
proof (rule bit_word_eqI)
  fix n assume "n < LENGTH(8)"
  then show "bit ?l n = bit (frame_state_code st) n"
    using assms frame_state_code_bits [of st n] by (auto simp: bit_simps)
qed

lemma crumb_write_other:
  assumes "k < 4" "j < 4" "j \<noteq> k"
  shows "drop_bit (j * 2) ((b AND NOT (push_bit (k * 2) 3)) OR push_bit (k * 2) (frame_state_code st)) AND 3
       = drop_bit (j * 2) (b :: u8) AND 3" (is "?l = ?r")
proof (rule bit_word_eqI)
  fix n assume "n < LENGTH(8)"
  have "n < 2 \<Longrightarrow> \<not> (k * 2 \<le> j * 2 + n \<and> j * 2 + n - k * 2 < 2)"
    using assms by auto
  then show "bit ?l n = bit ?r n"
    using frame_state_code_bits [of st "j * 2 + n - k * 2"]
    by (auto simp: bit_simps dest: bit_imp_le_length)
qed

definition bitmap_wf :: "Bitmap \<Rightarrow> bool" where
  "bitmap_wf bm \<longleftrightarrow> bm_frame_count bm \<le> 2 ^ 52 \<and> bm_frame_count bm \<le> 4 * length (bm_bytes bm)
     \<and> (\<forall>i<bm_frame_count bm. bitmap_state bm i \<noteq> None)"

lemma div4_in_storage:
  "bm_frame_count bm \<le> 4 * length (bm_bytes bm) \<Longrightarrow> i < bm_frame_count bm \<Longrightarrow>
   i div 4 < length (bm_bytes bm)"
  by linarith

lemma decode_frame_state_code [simp]: "decode_frame_state (frame_state_code st) = Ret st"
  by (cases st) (auto simp: decode_frame_state_def)

lemma bitmap_state_after_set:
  assumes "bitmap_set_state bm i st = Ret bm'"
  shows "bitmap_state bm' j = (if j = i then Ret st else bitmap_state bm j)"
proof -
  let ?k = "i mod 4" and ?j = "j mod 4"
  from assms have i: "i < bm_frame_count bm" "i div 4 < length (bm_bytes bm)"
    and bm': "bm' = bm\<lparr>bm_bytes := (bm_bytes bm)[i div 4 :=
       (bm_bytes bm ! (i div 4) AND NOT (push_bit (?k * 2) 3)) OR push_bit (?k * 2) (frame_state_code st)]\<rparr>"
    by (auto simp: bitmap_set_state_def Let_def split: if_splits)
  have neq: "j div 4 = i div 4 \<Longrightarrow> j \<noteq> i \<Longrightarrow> ?j \<noteq> ?k"
    by (metis div_mult_mod_eq)
  show ?thesis
  proof (cases "j = i")
    case True
    show ?thesis
      unfolding True bm' bitmap_state_def Let_def using i crumb_write_same [of ?k] by simp
  next
    case False
    then show ?thesis
      using i crumb_write_other [of ?k ?j "bm_bytes bm ! (i div 4)" st] neq
      by (cases "j div 4 = i div 4") (simp_all add: bm' bitmap_state_def Let_def)
  qed
qed

lemma bitmap_set_state_frame:
  "bitmap_set_state bm i st = Ret bm' \<Longrightarrow>
   bm_frame_count bm' = bm_frame_count bm \<and> bm_start bm' = bm_start bm
   \<and> length (bm_bytes bm') = length (bm_bytes bm) \<and> i < bm_frame_count bm"
  by (auto simp: bitmap_set_state_def Let_def split: if_splits)

lemma bitmap_set_state_ok:
  assumes "bitmap_wf bm" "i < bm_frame_count bm"
  obtains bm' where "bitmap_set_state bm i st = Ret bm'" "bitmap_wf bm'"
proof -
  have "i div 4 < length (bm_bytes bm)"
    using assms div4_in_storage unfolding bitmap_wf_def by blast
  then obtain bm' where bm': "bitmap_set_state bm i st = Ret bm'"
    using assms(2) by (simp add: bitmap_set_state_def Let_def)
  have "bitmap_wf bm'"
    using assms(1) bitmap_set_state_frame [OF bm'] bitmap_state_after_set [OF bm']
    by (auto simp: bitmap_wf_def)
  with bm' that show ?thesis by blast
qed

subsection \<open>The allocator's invariant\<close>

definition count_state :: "Bitmap \<Rightarrow> FrameState \<Rightarrow> nat" where
  "count_state bm st = length (filter (\<lambda>i. bitmap_state bm i = Ret st) [0..<bm_frame_count bm])"

text \<open>
  The counters agree with the bitmap, the search position is in range, and every tracked
  frame lies in the direct map.
\<close>

definition fa_inv :: "FrameAllocator \<Rightarrow> bool" where
  "fa_inv fa \<longleftrightarrow>
     bitmap_wf (fa_bitmap fa)
   \<and> fa_next_search fa \<le> bm_frame_count (fa_bitmap fa)
   \<and> fa_free_frames fa = count_state (fa_bitmap fa) Free
   \<and> fa_allocatable_frames fa =
       count_state (fa_bitmap fa) Free + count_state (fa_bitmap fa) Allocated
   \<and> unat (dm_offset (fa_direct_map fa)) + bm_frame_count (fa_bitmap fa) * 4096 \<le> 2 ^ 64"

lemma length_filter_point_update:
  assumes "i < n" "P i" "\<not> Q i" "\<And>j. j \<noteq> i \<Longrightarrow> Q j = P j"
  shows "length (filter P [0..<n]) = Suc (length (filter Q [0..<n]))"
proof -
  have split: "[0..<n] = [0..<i] @ i # [Suc i..<n]"
    using assms(1) by (metis less_imp_add_positive upt_add_eq_append upt_conv_Cons zero_le add.commute le_add1 less_imp_le_nat add_diff_cancel_left' linorder_not_less plus_nat.add_0)
  have "filter Q [0..<i] = filter P [0..<i]" "filter Q [Suc i..<n] = filter P [Suc i..<n]"
    using assms(4) by (auto intro: filter_cong)
  then show ?thesis
    using assms(2,3) by (simp add: split)
qed

lemma count_state_set:
  assumes "bitmap_set_state bm i st = Ret bm'" "bitmap_state bm i = Ret old" "old \<noteq> st"
  shows "count_state bm old = Suc (count_state bm' old)"
    and "count_state bm' st = Suc (count_state bm st)"
    and "s \<noteq> old \<Longrightarrow> s \<noteq> st \<Longrightarrow> count_state bm' s = count_state bm s"
proof -
  note eff = bitmap_state_after_set [OF assms(1)] and frm = bitmap_set_state_frame [OF assms(1)]
  show "count_state bm old = Suc (count_state bm' old)"
    unfolding count_state_def using frm assms(2,3)
    by (simp, intro length_filter_point_update [of i]) (auto simp: eff)
  show "count_state bm' st = Suc (count_state bm st)"
    unfolding count_state_def using frm assms(2,3)
    by (simp, intro length_filter_point_update [of i]) (auto simp: eff)
  show "count_state bm' s = count_state bm s" if "s \<noteq> old" "s \<noteq> st"
    unfolding count_state_def using frm assms(2) that
    by (auto simp: eff intro!: arg_cong [where f = length] filter_cong)
qed

lemma find_free_spec:
  assumes "\<And>i. i \<in> set is \<Longrightarrow> bitmap_state bm i \<noteq> None"
  shows "\<exists>r. find_free bm is = Ret r \<and>
    (case r of None \<Rightarrow> \<forall>i\<in>set is. bitmap_state bm i \<noteq> Ret Free
             | Some i \<Rightarrow> i \<in> set is \<and> bitmap_state bm i = Ret Free)"
  using assms
proof (induction "is")
  case Nil
  then show ?case by simp
next
  case (Cons i "is")
  then obtain st where st: "bitmap_state bm i = Ret st" by fastforce
  obtain r where r: "find_free bm is = Ret r"
      "case r of None \<Rightarrow> \<forall>i\<in>set is. bitmap_state bm i \<noteq> Ret Free
               | Some i \<Rightarrow> i \<in> set is \<and> bitmap_state bm i = Ret Free"
    using Cons by auto
  then show ?case
    using st by (cases "st = Free") (auto split: option.splits)
qed

lemma find_free_frame_spec:
  assumes "fa_inv fa"
  shows "\<exists>r. find_free_frame fa = Ret r \<and>
    (case r of None \<Rightarrow> count_state (fa_bitmap fa) Free = 0
             | Some i \<Rightarrow> i < bm_frame_count (fa_bitmap fa) \<and> bitmap_state (fa_bitmap fa) i = Ret Free)"
proof -
  let ?bm = "fa_bitmap fa" and ?n = "fa_next_search fa" and ?c = "bm_frame_count (fa_bitmap fa)"
  have valid: "\<And>i. i < ?c \<Longrightarrow> bitmap_state ?bm i \<noteq> None" and le: "?n \<le> ?c"
    using assms by (auto simp: fa_inv_def bitmap_wf_def)
  obtain r1 where r1: "find_free_in fa ?n ?c = Ret r1"
      "case r1 of None \<Rightarrow> \<forall>i\<in>set [?n..<?c]. bitmap_state ?bm i \<noteq> Ret Free
               | Some i \<Rightarrow> i \<in> set [?n..<?c] \<and> bitmap_state ?bm i = Ret Free"
    using find_free_spec [of "[?n..<?c]" ?bm] valid unfolding find_free_in_def by auto
  obtain r2 where r2: "find_free_in fa 0 ?n = Ret r2"
      "case r2 of None \<Rightarrow> \<forall>i\<in>set [0..<?n]. bitmap_state ?bm i \<noteq> Ret Free
               | Some i \<Rightarrow> i \<in> set [0..<?n] \<and> bitmap_state ?bm i = Ret Free"
    using find_free_spec [of "[0..<?n]" ?bm] valid le unfolding find_free_in_def by auto
  show ?thesis
  proof (cases r1)
    case (Some i)
    then show ?thesis using r1 by (auto simp: find_free_frame_def)
  next
    case None
    then have "r2 = None \<Longrightarrow> \<forall>i<?c. bitmap_state ?bm i \<noteq> Ret Free"
      using r1(2) r2(2) by (auto simp: not_less)
    then show ?thesis
      using None r1(1) r2 le
      by (auto simp: find_free_frame_def count_state_def filter_empty_conv split: option.splits)
  qed
qed

subsection \<open>What a client of the allocator sees: the status of each frame\<close>

definition fa_state :: "FrameAllocator \<Rightarrow> FrameAddr \<Rightarrow> FrameState option" where
  "fa_state fa f =
     (if frame_aligned f \<and> frame_index f < bm_frame_count (fa_bitmap fa)
      then bitmap_state (fa_bitmap fa) (frame_index f) else None)"

lemma frame_index_unat: "frame_index f = unat f div 4096"
  by (simp add: frame_index_def FRAME_SIZE_def unat_div_distrib)

lemma frame_index_of_nat:
  assumes "i < 2 ^ 52"
  shows "frame_index (of_nat (i * 4096)) = i \<and> frame_aligned (of_nat (i * 4096))"
proof -
  have "unat (of_nat (i * 4096) :: usize) = i * 4096"
    using assms by (intro unat_of_nat_u64) simp
  then show ?thesis by (simp add: frame_index_unat frame_aligned_unat del: of_nat_mult)
qed

lemma frame_unat_index: "frame_aligned f \<Longrightarrow> unat f = frame_index f * 4096"
  using div_mult_mod_eq [of "unat f" 4096] by (simp add: frame_index_unat frame_aligned_unat)

lemma frame_index_inj:
  "frame_aligned f \<Longrightarrow> frame_aligned g \<Longrightarrow> frame_index f = frame_index g \<longleftrightarrow> f = g"
  using frame_unat_index [of f] frame_unat_index [of g] by (auto simp: word_unat_eq_iff)

lemma fa_state_update:
  assumes "bitmap_set_state (fa_bitmap fa) (frame_index f) st = Ret bm'" "frame_aligned f"
  shows "fa_state (fa\<lparr>fa_bitmap := bm', fa_free_frames := n, fa_next_search := k\<rparr>)
       = (fa_state fa)(f \<mapsto> st)"
proof
  fix g
  show "fa_state (fa\<lparr>fa_bitmap := bm', fa_free_frames := n, fa_next_search := k\<rparr>) g
       = ((fa_state fa)(f \<mapsto> st)) g"
    using bitmap_state_after_set [OF assms(1), of "frame_index g"] bitmap_set_state_frame [OF assms(1)]
      frame_index_inj [OF _ assms(2), of g] assms(2)
    by (auto simp: fa_state_def)
qed

lemma alloc_nozero_spec:
  assumes "fa_inv fa"
  shows "\<exists>r fa'. alloc_nozero fa = Ret (r, fa') \<and> fa_inv fa'
      \<and> fa_direct_map fa' = fa_direct_map fa
      \<and> (case r of
           None \<Rightarrow> fa' = fa \<and> (\<forall>f. fa_state fa f \<noteq> Some Free)
         | Some f \<Rightarrow> fa_state fa f = Some Free \<and> fa_state fa' = (fa_state fa)(f \<mapsto> Allocated))"
proof (cases "count_state (fa_bitmap fa) Free = 0")
  case True
  then have "alloc_nozero fa = Ret (None, fa)"
    using assms by (simp add: alloc_nozero_def fa_inv_def)
  moreover have "\<forall>f. fa_state fa f \<noteq> Some Free"
    using True by (auto simp: fa_state_def count_state_def filter_empty_conv)
  ultimately show ?thesis using assms by auto
next
  case False
  then obtain i where i: "find_free_frame fa = Ret (Some i)" "i < bm_frame_count (fa_bitmap fa)"
      "bitmap_state (fa_bitmap fa) i = Ret Free"
    using find_free_frame_spec [OF assms] by (auto split: option.splits)
  have wf: "bitmap_wf (fa_bitmap fa)" and free: "fa_free_frames fa \<noteq> 0"
    using assms False by (auto simp: fa_inv_def)
  obtain bm' where bm': "bitmap_set_state (fa_bitmap fa) i Allocated = Ret bm'" "bitmap_wf bm'"
    using bitmap_set_state_ok [OF wf i(2)] by blast
  define f :: FrameAddr where "f = of_nat (i * 4096)"
  have i52: "i < 2 ^ 52" using wf i(2) by (auto simp: bitmap_wf_def)
  then have f: "frame_index f = i" "frame_aligned f" "frame_from_index i = Ret f"
    using frame_index_of_nat [of i] by (auto simp: f_def frame_from_index_def)
  define fa' where "fa' = fa\<lparr>fa_bitmap := bm', fa_free_frames := fa_free_frames fa - 1,
                             fa_next_search := i + 1\<rparr>"
  have res: "alloc_nozero fa = Ret (Some f, fa')"
    using i bm' f free by (simp add: alloc_nozero_def fa'_def)
  have "count_state (fa_bitmap fa) Free = Suc (count_state bm' Free)"
       "count_state bm' Allocated = Suc (count_state (fa_bitmap fa) Allocated)"
    using count_state_set [OF bm'(1) i(3)] by auto
  then have inv': "fa_inv fa'"
    using assms bm'(2) bitmap_set_state_frame [OF bm'(1)] i(2) by (simp add: fa_inv_def fa'_def)
  have st': "fa_state fa' = (fa_state fa)(f \<mapsto> Allocated)"
    unfolding fa'_def using fa_state_update [of fa f Allocated bm'] bm'(1) f by simp
  have st: "fa_state fa f = Some Free"
    using f i by (simp add: fa_state_def)
  show ?thesis
    using res inv' st st' by (intro exI [of _ "Some f"] exI [of _ fa']) (simp add: fa'_def)
qed

lemma fa_state_in_direct_map:
  assumes "fa_inv fa" "fa_state fa f = Some st"
  shows "translate (fa_direct_map fa) f = Some (f + dm_offset (fa_direct_map fa))"
    and "unat (f + dm_offset (fa_direct_map fa)) + 4096 \<le> 2 ^ 64"
    and "unat (f + dm_offset (fa_direct_map fa)) = unat f + unat (dm_offset (fa_direct_map fa))"
proof -
  have "frame_aligned f" "frame_index f < bm_frame_count (fa_bitmap fa)"
    using assms(2) by (auto simp: fa_state_def split: if_splits)
  then have "unat f + 4096 \<le> bm_frame_count (fa_bitmap fa) * 4096"
    by (auto simp: frame_index_unat frame_aligned_unat)
  then have bound: "unat f + 4096 + unat (dm_offset (fa_direct_map fa)) \<le> 2 ^ 64"
    using assms(1) by (simp add: fa_inv_def)
  then show "translate (fa_direct_map fa) f = Some (f + dm_offset (fa_direct_map fa))"
    by (simp add: translate_Some_iff)
  then show eq: "unat (f + dm_offset (fa_direct_map fa)) = unat f + unat (dm_offset (fa_direct_map fa))"
    using translate_unat by blast
  show "unat (f + dm_offset (fa_direct_map fa)) + 4096 \<le> 2 ^ 64"
    using bound eq by simp
qed

lemma alloc_spec:
  assumes "fa_inv fa"
  shows "\<exists>r fa' m'. alloc fa m = Ret (r, fa', m') \<and> fa_inv fa'
      \<and> fa_direct_map fa' = fa_direct_map fa
      \<and> (case r of
           None \<Rightarrow> fa' = fa \<and> m' = m \<and> (\<forall>f. fa_state fa f \<noteq> Some Free)
         | Some f \<Rightarrow> fa_state fa f = Some Free \<and> fa_state fa' = (fa_state fa)(f \<mapsto> Allocated)
             \<and> m' = fill_bytes m (f + dm_offset (fa_direct_map fa)) 0 4096)"
proof -
  obtain r fa' where r: "alloc_nozero fa = Ret (r, fa')" "fa_inv fa'"
      "fa_direct_map fa' = fa_direct_map fa"
      "case r of None \<Rightarrow> fa' = fa \<and> (\<forall>f. fa_state fa f \<noteq> Some Free)
       | Some f \<Rightarrow> fa_state fa f = Some Free \<and> fa_state fa' = (fa_state fa)(f \<mapsto> Allocated)"
    using alloc_nozero_spec [OF assms] by blast
  show ?thesis
  proof (cases r)
    case None
    then show ?thesis using r assms by (simp add: alloc_def)
  next
    case (Some f)
    then have "translate (fa_direct_map fa) f = Some (f + dm_offset (fa_direct_map fa))"
      using r fa_state_in_direct_map(1) [OF assms, of f] by simp
    then show ?thesis using r Some by (simp add: alloc_def)
  qed
qed

lemma dealloc_spec:
  assumes "fa_inv fa" "fa_state fa f = Some Allocated"
  shows "\<exists>fa'. dealloc fa f = Ret fa' \<and> fa_inv fa' \<and> fa_direct_map fa' = fa_direct_map fa
      \<and> fa_state fa' = (fa_state fa)(f \<mapsto> Free)"
proof -
  have f: "frame_aligned f" "frame_index f < bm_frame_count (fa_bitmap fa)"
      "bitmap_state (fa_bitmap fa) (frame_index f) = Ret Allocated"
    using assms(2) by (auto simp: fa_state_def split: if_splits)
  have wf: "bitmap_wf (fa_bitmap fa)" using assms(1) by (simp add: fa_inv_def)
  obtain bm' where bm': "bitmap_set_state (fa_bitmap fa) (frame_index f) Free = Ret bm'" "bitmap_wf bm'"
    using bitmap_set_state_ok [OF wf f(2)] by blast
  define fa' where "fa' = fa\<lparr>fa_bitmap := bm', fa_free_frames := fa_free_frames fa + 1,
                             fa_next_search := min (fa_next_search fa) (frame_index f)\<rparr>"
  have "count_state (fa_bitmap fa) Allocated = Suc (count_state bm' Allocated)"
       "count_state bm' Free = Suc (count_state (fa_bitmap fa) Free)"
    using count_state_set [OF bm'(1) f(3)] by auto
  then have "fa_inv fa'"
    using assms(1) bm'(2) bitmap_set_state_frame [OF bm'(1)] by (auto simp: fa_inv_def fa'_def)
  moreover have "dealloc fa f = Ret fa'"
    using f bm' by (simp add: dealloc_def fa'_def)
  moreover have "fa_state fa' = (fa_state fa)(f \<mapsto> Free)"
    unfolding fa'_def by (rule fa_state_update [OF bm'(1) f(1)])
  ultimately show ?thesis by (auto simp: fa'_def)
qed

lemma dealloc_direct_map: "dealloc fa f = Ret fa' \<Longrightarrow> fa_direct_map fa' = fa_direct_map fa"
  by (auto simp: dealloc_def split: FrameState.splits bind_splits)

lemma dealloc_not_allocated:
  "frame_aligned f \<Longrightarrow> fa_state fa f \<noteq> Some Allocated \<Longrightarrow> dealloc fa f = Panic"
  by (auto simp: dealloc_def fa_state_def bitmap_state_def split: if_splits FrameState.splits option.splits bind_splits)

subsection \<open>The interface of a frame provider\<close>

text \<open>
  Page tables and stacks take frames one at a time and give them back when a later step
  fails. \<open>frame_provider\<close> states what they rely on; the facts about runs of allocations
  and their roll-back are proved once.
\<close>

primrec alloc_list :: "('s \<Rightarrow> ('f option \<times> 's) panics) \<Rightarrow> nat \<Rightarrow> 's \<Rightarrow> ('f list \<times> 's) panics" where
  "alloc_list al 0 s = Ret ([], s)"
| "alloc_list al (Suc n) s = do {
     (r, s') \<leftarrow> al s;
     (case r of
        None \<Rightarrow> Ret ([], s')
      | Some f \<Rightarrow> do { (fs, s'') \<leftarrow> alloc_list al n s'; Ret (f # fs, s'') }) }"

primrec dealloc_list :: "('s \<Rightarrow> 'f \<Rightarrow> 's panics) \<Rightarrow> 'f list \<Rightarrow> 's \<Rightarrow> 's panics" where
  "dealloc_list de [] s = Ret s"
| "dealloc_list de (f # fs) s = do { s' \<leftarrow> de s f; dealloc_list de fs s' }"

locale frame_provider =
  fixes inv :: "'s \<Rightarrow> bool"
    and status :: "'s \<Rightarrow> 'f \<Rightarrow> FrameState option"
    and al :: "'s \<Rightarrow> ('f option \<times> 's) panics"
    and de :: "'s \<Rightarrow> 'f \<Rightarrow> 's panics"
  assumes al_spec: "inv s \<Longrightarrow> \<exists>r s'. al s = Ret (r, s') \<and> inv s' \<and>
      (case r of None \<Rightarrow> s' = s \<and> (\<forall>f. status s f \<noteq> Some Free)
               | Some f \<Rightarrow> status s f = Some Free \<and> status s' = (status s)(f \<mapsto> Allocated))"
    and de_spec: "inv s \<Longrightarrow> status s f = Some Allocated \<Longrightarrow>
      \<exists>s'. de s f = Ret s' \<and> inv s' \<and> status s' = (status s)(f \<mapsto> Free)"
begin

lemma al_total: "inv s \<Longrightarrow> al s \<noteq> Panic"
  using al_spec [of s] by auto

lemma al_fresh:
  "inv s \<Longrightarrow> al s = Ret (Some f, s') \<Longrightarrow>
   status s f = Some Free \<and> status s' = (status s)(f \<mapsto> Allocated) \<and> inv s'"
  using al_spec [of s] by auto

lemma al_de_restores:
  assumes "inv s" "al s = Ret (Some f, s')"
  shows "\<exists>s''. de s' f = Ret s'' \<and> inv s'' \<and> status s'' = status s"
proof -
  have "status s f = Some Free" "status s' = (status s)(f \<mapsto> Allocated)" "inv s'"
    using al_fresh [OF assms] by auto
  then obtain s'' where "de s' f = Ret s''" "inv s''" "status s'' = (status s')(f \<mapsto> Free)"
    using de_spec [of s' f] by auto
  then show ?thesis
    using \<open>status s' = _\<close> \<open>status s f = Some Free\<close> by (auto simp: fun_eq_iff)
qed

lemma alloc_list_spec:
  "inv s \<Longrightarrow> \<exists>fs s'. alloc_list al n s = Ret (fs, s') \<and> inv s' \<and> distinct fs \<and> length fs \<le> n
     \<and> (\<forall>f\<in>set fs. status s f = Some Free)
     \<and> status s' = (\<lambda>f. if f \<in> set fs then Some Allocated else status s f)
     \<and> (length fs < n \<longrightarrow> (\<forall>f. status s' f \<noteq> Some Free))"
proof (induction n arbitrary: s)
  case 0
  then show ?case by auto
next
  case (Suc n)
  obtain r s1 where r: "al s = Ret (r, s1)" "inv s1"
      "case r of None \<Rightarrow> s1 = s \<and> (\<forall>f. status s f \<noteq> Some Free)
               | Some f \<Rightarrow> status s f = Some Free \<and> status s1 = (status s)(f \<mapsto> Allocated)"
    using al_spec [OF Suc.prems] by blast
  show ?case
  proof (cases r)
    case None
    then show ?thesis using r Suc.prems by auto
  next
    case (Some f)
    then have f: "status s f = Some Free" "status s1 = (status s)(f \<mapsto> Allocated)" using r by auto
    obtain fs s2 where fs: "alloc_list al n s1 = Ret (fs, s2)" "inv s2" "distinct fs" "length fs \<le> n"
        "\<forall>g\<in>set fs. status s1 g = Some Free"
        "status s2 = (\<lambda>g. if g \<in> set fs then Some Allocated else status s1 g)"
        "length fs < n \<longrightarrow> (\<forall>g. status s2 g \<noteq> Some Free)"
      using Suc.IH [OF r(2)] by blast
    have "f \<notin> set fs" using fs(5) f(2) by auto
    then have "status s2 = (\<lambda>g. if g \<in> set (f # fs) then Some Allocated else status s g)"
      using fs(6) f(2) by (auto simp: fun_eq_iff)
    then show ?thesis
      using fs f r Some \<open>f \<notin> set fs\<close>
      by (intro exI [of _ "f # fs"] exI [of _ s2]) (auto split: if_splits)
  qed
qed

lemma dealloc_list_spec:
  "inv s \<Longrightarrow> distinct fs \<Longrightarrow> \<forall>f\<in>set fs. status s f = Some Allocated \<Longrightarrow>
   \<exists>s'. dealloc_list de fs s = Ret s' \<and> inv s'
     \<and> status s' = (\<lambda>f. if f \<in> set fs then Some Free else status s f)"
proof (induction fs arbitrary: s)
  case Nil
  then show ?case by auto
next
  case (Cons f fs)
  obtain s1 where s1: "de s f = Ret s1" "inv s1" "status s1 = (status s)(f \<mapsto> Free)"
    using de_spec [of s f] Cons.prems by auto
  have "\<forall>g\<in>set fs. status s1 g = Some Allocated"
    using Cons.prems s1(3) by auto
  then obtain s2 where "dealloc_list de fs s1 = Ret s2" "inv s2"
      "status s2 = (\<lambda>g. if g \<in> set fs then Some Free else status s1 g)"
    using Cons.IH [OF s1(2)] Cons.prems(2) by auto
  then show ?case
    using s1 Cons.prems(2) by (auto simp: fun_eq_iff)
qed

lemma alloc_list_rollback:
  assumes "inv s" "alloc_list al n s = Ret (fs, s')"
  shows "\<exists>s''. dealloc_list de (rev fs) s' = Ret s'' \<and> inv s'' \<and> status s'' = status s"
proof -
  have fs: "inv s'" "distinct fs" "\<forall>f\<in>set fs. status s f = Some Free"
      "status s' = (\<lambda>f. if f \<in> set fs then Some Allocated else status s f)"
    using alloc_list_spec [OF assms(1), of n] assms(2) by auto
  then obtain s'' where "dealloc_list de (rev fs) s' = Ret s''" "inv s''"
      "status s'' = (\<lambda>f. if f \<in> set (rev fs) then Some Free else status s' f)"
    using dealloc_list_spec [of s' "rev fs"] by auto
  then show ?thesis
    using fs by (auto simp: fun_eq_iff)
qed

end

interpretation frames: frame_provider fa_inv fa_state alloc_nozero dealloc
  by unfold_locales (use alloc_nozero_spec dealloc_spec in \<open>blast+\<close>)

lemma dealloc_list_direct_map:
  "dealloc_list dealloc fs fa = Ret fa' \<Longrightarrow> fa_direct_map fa' = fa_direct_map fa"
proof (induction fs arbitrary: fa)
  case (Cons f fs)
  then obtain fa1 where "dealloc fa f = Ret fa1" "dealloc_list dealloc fs fa1 = Ret fa'"
    by (auto split: bind_splits)
  then show ?case using Cons.IH dealloc_direct_map by fastforce
qed simp

subsection \<open>Construction and reclaiming\<close>

definition region_frames :: "MemoryRegion \<Rightarrow> nat list" where
  "region_frames r = (case usable_frame_range r of Inl _ \<Rightarrow> [] | Inr (s, e) \<Rightarrow> [s..<e])"

definition frames_of_kind :: "MemoryRegionKind \<Rightarrow> MemoryRegion list \<Rightarrow> nat list" where
  "frames_of_kind k rs = concat (map region_frames (filter (\<lambda>r. region_kind r = k) rs))"

lemma mark_frames_free_spec:
  assumes "bitmap_wf bm" "distinct is" "\<forall>i\<in>set is. bitmap_state bm i = Ret Reserved"
  shows "\<exists>bm'. mark_frames_free is bs be (bm, a, f) =
            Ret (bm', a + (count_state bm' Free - count_state bm Free),
                 f + (count_state bm' Free - count_state bm Free))
     \<and> count_state bm Free \<le> count_state bm' Free
     \<and> count_state bm' Allocated = count_state bm Allocated
     \<and> bitmap_wf bm' \<and> bm_frame_count bm' = bm_frame_count bm
     \<and> (\<forall>j. bitmap_state bm' j =
            (if j \<in> set is \<and> \<not> (bs \<le> j \<and> j < be) then Ret Free else bitmap_state bm j))"
  using assms
proof (induction "is" arbitrary: bm a f)
  case Nil
  then show ?case by auto
next
  case (Cons i "is")
  show ?case
  proof (cases "bs \<le> i \<and> i < be")
    case True
    then show ?thesis
      using Cons.IH [of bm a f] Cons.prems by auto
  next
    case False
    have "i < bm_frame_count bm"
      using Cons.prems(3) by (auto simp: bitmap_state_def split: if_splits)
    then obtain bm1 where bm1: "bitmap_set_state bm i Free = Ret bm1" "bitmap_wf bm1"
      using bitmap_set_state_ok [OF Cons.prems(1)] by blast
    have c: "count_state bm1 Free = Suc (count_state bm Free)"
        "count_state bm1 Allocated = count_state bm Allocated"
      using count_state_set(2) [OF bm1(1), of Reserved] count_state_set(3) [OF bm1(1), of Reserved Allocated]
        Cons.prems(3) by auto
    have after: "bitmap_state bm1 j = (if j = i then Ret Free else bitmap_state bm j)" for j
      by (rule bitmap_state_after_set [OF bm1(1)])
    have "\<forall>j\<in>set is. bitmap_state bm1 j = Ret Reserved"
      using Cons.prems(2,3) after by auto
    then obtain bm2 where bm2: "mark_frames_free is bs be (bm1, Suc a, Suc f) =
            Ret (bm2, Suc a + (count_state bm2 Free - count_state bm1 Free),
                 Suc f + (count_state bm2 Free - count_state bm1 Free))"
        "count_state bm1 Free \<le> count_state bm2 Free"
        "count_state bm2 Allocated = count_state bm1 Allocated"
        "bitmap_wf bm2" "bm_frame_count bm2 = bm_frame_count bm1"
        "\<forall>j. bitmap_state bm2 j =
            (if j \<in> set is \<and> \<not> (bs \<le> j \<and> j < be) then Ret Free else bitmap_state bm1 j)"
      using Cons.IH [OF bm1(2), of "Suc a" "Suc f"] Cons.prems(2) by auto
    have "bm_frame_count bm1 = bm_frame_count bm"
      using bitmap_set_state_frame [OF bm1(1)] by simp
    then show ?thesis
      using False bm1 bm2 c after by (intro exI [of _ bm2]) (auto simp: Suc_diff_le)
  qed
qed

lemma frame_allocator_scan_bound:
  assumes "usable_frame_range r = Inr (s, e)"
  shows "e \<le> 2 ^ 52"
proof -
  obtain x :: usize where "e = unat x div 4096"
    using assms by (auto simp: usable_frame_range_def FRAME_SIZE_def unat_div_distrib split: option.splits)
  then show ?thesis using unat_u64_bound [of x] by simp
qed

lemma highest_frame_scan_ge:
  "highest_frame_scan rs acc = Inr (Some h) \<Longrightarrow>
   (\<forall>a. acc = Some a \<longrightarrow> a \<le> h) \<and>
   (\<forall>r\<in>set rs. should_track (region_kind r) \<longrightarrow>
      (\<exists>s e. usable_frame_range r = Inr (s, e)) \<and> (\<forall>i\<in>set (region_frames r). i < h))"
proof (induction rs acc rule: highest_frame_scan.induct)
  case (1 acc)
  then show ?case by simp
next
  case (2 r rs acc)
  show ?case
  proof (cases "should_track (region_kind r)")
    case False
    then show ?thesis using 2 by auto
  next
    case True
    then obtain s e where range: "usable_frame_range r = Inr (s, e)"
      using 2(4) by (auto split: sum.splits)
    then have fr: "region_frames r = [s..<e]" by (simp add: region_frames_def)
    show ?thesis
    proof (cases "e \<le> s")
      case True
      then show ?thesis using 2(2) 2(4) \<open>should_track (region_kind r)\<close> range fr by auto
    next
      case False
      let ?acc = "Some (case acc of None \<Rightarrow> e | Some current \<Rightarrow> max current e)"
      have "highest_frame_scan rs ?acc = Inr (Some h)"
        using 2(4) True False range by simp
      then have "(\<forall>a. ?acc = Some a \<longrightarrow> a \<le> h) \<and>
          (\<forall>r\<in>set rs. should_track (region_kind r) \<longrightarrow>
             (\<exists>s e. usable_frame_range r = Inr (s, e)) \<and> (\<forall>i\<in>set (region_frames r). i < h))"
        using 2(3) [of "(s, e)" s e] True False range by simp
      then show ?thesis
        using True range fr by (auto split: option.splits)
    qed
  qed
qed

lemma highest_frame_scan_le:
  "highest_frame_scan rs acc = Inr (Some h) \<Longrightarrow> (\<forall>a. acc = Some a \<longrightarrow> a \<le> 2 ^ 52) \<Longrightarrow> h \<le> 2 ^ 52"
proof (induction rs acc rule: highest_frame_scan.induct)
  case (1 acc)
  then show ?case by simp
next
  case (2 r rs acc)
  then show ?case
    using frame_allocator_scan_bound [of r]
    by (auto split: if_splits sum.splits option.splits)
qed

lemma mark_regions_free_spec:
  assumes "bitmap_wf bm"
    and "\<forall>r\<in>set rs. region_kind r = Usable \<longrightarrow> (\<exists>s e. usable_frame_range r = Inr (s, e))"
    and "distinct (frames_of_kind Usable rs)"
    and "\<forall>i\<in>set (frames_of_kind Usable rs). bitmap_state bm i = Ret Reserved"
  shows "\<exists>bm'. mark_regions_free rs bs be (bm, a, f) =
            Ret (Inr (bm', a + (count_state bm' Free - count_state bm Free),
                      f + (count_state bm' Free - count_state bm Free)))
     \<and> count_state bm Free \<le> count_state bm' Free
     \<and> count_state bm' Allocated = count_state bm Allocated
     \<and> bitmap_wf bm' \<and> bm_frame_count bm' = bm_frame_count bm
     \<and> (\<forall>j. bitmap_state bm' j =
            (if j \<in> set (frames_of_kind Usable rs) \<and> \<not> (bs \<le> j \<and> j < be)
             then Ret Free else bitmap_state bm j))"
  using assms
proof (induction rs arbitrary: bm a f)
  case Nil
  then show ?case by (auto simp: frames_of_kind_def)
next
  case (Cons r rs)
  show ?case
  proof (cases "region_kind r = Usable")
    case False
    then show ?thesis
      using Cons.IH [of bm a f] Cons.prems by (simp add: is_initially_free_def frames_of_kind_def)
  next
    case True
    then obtain s e where range: "usable_frame_range r = Inr (s, e)" using Cons.prems(2) by auto
    have split: "frames_of_kind Usable (r # rs) = [s..<e] @ frames_of_kind Usable rs"
      using True range by (simp add: frames_of_kind_def region_frames_def)
    have d: "distinct [s..<e]" "distinct (frames_of_kind Usable rs)"
        "set [s..<e] \<inter> set (frames_of_kind Usable rs) = {}"
      using Cons.prems(3) unfolding split by auto
    obtain bm1 where bm1: "mark_frames_free [s..<e] bs be (bm, a, f) =
            Ret (bm1, a + (count_state bm1 Free - count_state bm Free),
                 f + (count_state bm1 Free - count_state bm Free))"
        "count_state bm Free \<le> count_state bm1 Free"
        "count_state bm1 Allocated = count_state bm Allocated"
        "bitmap_wf bm1" "bm_frame_count bm1 = bm_frame_count bm"
        "\<forall>j. bitmap_state bm1 j =
            (if j \<in> set [s..<e] \<and> \<not> (bs \<le> j \<and> j < be) then Ret Free else bitmap_state bm j)"
      using mark_frames_free_spec [OF Cons.prems(1) d(1), of bs be a f] Cons.prems(4)
      unfolding split by auto
    let ?d = "count_state bm1 Free - count_state bm Free"
    have "\<forall>i\<in>set (frames_of_kind Usable rs). bitmap_state bm1 i = Ret Reserved"
      using Cons.prems(4) d(3) bm1(6) unfolding split by auto
    then obtain bm2 where bm2: "mark_regions_free rs bs be (bm1, ?d + a, ?d + f) =
            Ret (Inr (bm2, ?d + a + (count_state bm2 Free - count_state bm1 Free),
                 ?d + f + (count_state bm2 Free - count_state bm1 Free)))"
        "count_state bm1 Free \<le> count_state bm2 Free"
        "count_state bm2 Allocated = count_state bm1 Allocated"
        "bitmap_wf bm2" "bm_frame_count bm2 = bm_frame_count bm1"
        "\<forall>j. bitmap_state bm2 j =
            (if j \<in> set (frames_of_kind Usable rs) \<and> \<not> (bs \<le> j \<and> j < be)
             then Ret Free else bitmap_state bm1 j)"
      using Cons.IH [OF bm1(4) _ d(2), of "?d + a" "?d + f"] Cons.prems(2) by auto
    show ?thesis
      using True range bm1 bm2
      by (intro exI [of _ bm2]) (auto simp: is_initially_free_def split add.commute)
  qed
qed

lemma bitmap_start_scan_spec:
  "bitmap_start_scan rs n = Inr (Some b) \<Longrightarrow>
   \<exists>r\<in>set rs. \<exists>e. region_kind r = Usable \<and> usable_frame_range r = Inr (b, e) \<and> b < e \<and> n \<le> e - b"
  by (induction rs n rule: bitmap_start_scan.induct)
     (auto simp: can_store_bitmap_def split: if_splits sum.splits prod.splits)

lemma bitmap_start_scan_error:
  "bitmap_start_scan rs n = Inl e \<Longrightarrow> \<exists>r\<in>set rs. region_kind r = Usable \<and> usable_frame_range r = Inl e"
  by (induction rs n rule: bitmap_start_scan.induct)
     (auto simp: can_store_bitmap_def split: if_splits sum.splits prod.splits)

text \<open>The direct map reaches the end of every tracked region.\<close>

definition regions_in_direct_map :: "DirectMap \<Rightarrow> MemoryRegion list \<Rightarrow> bool" where
  "regions_in_direct_map dm rs \<longleftrightarrow> (\<forall>r\<in>set rs. should_track (region_kind r) \<longrightarrow>
     unat (region_start r) + unat (region_length r) + unat (dm_offset dm) \<le> 2 ^ 64)"

lemma usable_frame_range_end:
  assumes "usable_frame_range r = Inr (s, e)"
  shows "e * 4096 \<le> unat (region_start r) + unat (region_length r)"
proof -
  obtain x where x: "checked_add (region_start r) (region_length r) = Some x"
      "e = unat (x AND NOT 4095) div 4096"
    using assms by (auto simp: usable_frame_range_def FRAME_SIZE_def align_down_to_frame_def
        unat_div_distrib split: option.splits)
  have "e * 4096 \<le> unat (x AND NOT 4095)" using x(2) by simp
  also have "\<dots> \<le> unat x" by (rule align_down_bounds)
  finally show ?thesis using checked_add_unat [OF x(1)] by simp
qed

lemma highest_frame_scan_direct_map:
  "highest_frame_scan rs acc = Inr (Some h) \<Longrightarrow> regions_in_direct_map dm rs \<Longrightarrow>
   (\<forall>a. acc = Some a \<longrightarrow> a * 4096 + unat (dm_offset dm) \<le> 2 ^ 64) \<Longrightarrow>
   h * 4096 + unat (dm_offset dm) \<le> 2 ^ 64"
proof (induction rs acc rule: highest_frame_scan.induct)
  case (1 acc)
  then show ?case by simp
next
  case (2 r rs acc)
  have rs: "regions_in_direct_map dm rs" using 2(5) by (simp add: regions_in_direct_map_def)
  show ?case
  proof (cases "should_track (region_kind r)")
    case False
    then show ?thesis using 2 rs by auto
  next
    case True
    then obtain s e where range: "usable_frame_range r = Inr (s, e)"
      using 2(4) by (auto split: sum.splits)
    have "e * 4096 + unat (dm_offset dm) \<le> 2 ^ 64"
      using usable_frame_range_end [OF range] 2(5) True by (auto simp: regions_in_direct_map_def)
    then show ?thesis
      using 2(2,3) [of "(s, e)" s e] 2(4,6) True range rs
      by (auto split: if_splits option.splits simp: max_def)
  qed
qed

lemma bitmap_zero_state:
  "i < n \<Longrightarrow> n \<le> 4 * k \<Longrightarrow>
   bitmap_state \<lparr>bm_start = v, bm_frame_count = n, bm_bytes = replicate k 0\<rparr> i = Ret Reserved"
  by (auto simp: bitmap_state_def decode_frame_state_def)

lemma bitmap_zero:
  assumes "n \<le> 4 * k" "n \<le> 2 ^ 52"
    and "bm = \<lparr>bm_start = v, bm_frame_count = n, bm_bytes = replicate k 0\<rparr>"
  shows "bitmap_wf bm" "count_state bm Free = 0" "count_state bm Allocated = 0"
  using assms bitmap_zero_state [of _ n k v]
  by (auto simp: bitmap_wf_def count_state_def filter_empty_conv)

lemma bitmap_storage_enough: "h \<le> 4 * (((h + 3) div 4 + 4095) div 4096 * 4096)"
  for h :: nat
  by linarith

definition bitmap_storage_frames :: "nat \<Rightarrow> nat" where
  "bitmap_storage_frames highest = ((highest + 3) div 4 + 4095) div 4096"

lemma frame_allocator_new_spec:
  assumes disjoint: "distinct (frames_of_kind Usable rs)"
    and covered: "regions_in_direct_map dm rs"
  shows "\<exists>r. frame_allocator_new rs dm = Ret r \<and>
    (\<forall>fa. r = Inr fa \<longrightarrow> fa_inv fa \<and>
      (\<exists>b. set [b..<b + bitmap_storage_frames (bm_frame_count (fa_bitmap fa))] \<subseteq> set (frames_of_kind Usable rs)
        \<and> (\<forall>i<bm_frame_count (fa_bitmap fa). bitmap_state (fa_bitmap fa) i =
             Ret (if i \<in> set (frames_of_kind Usable rs)
                     \<and> i \<notin> set [b..<b + bitmap_storage_frames (bm_frame_count (fa_bitmap fa))]
                  then Free else Reserved))))"
proof (cases "highest_frame_scan rs None")
  case (Inl e)
  then show ?thesis by (simp add: frame_allocator_new_def)
next
  case (Inr acc)
  show ?thesis
  proof (cases acc)
    case None
    then show ?thesis using Inr by (simp add: frame_allocator_new_def)
  next
    case (Some h)
    let ?n = "bitmap_storage_frames h"
    have scan: "highest_frame_scan rs None = Inr (Some h)" using Inr Some by simp
    have h52: "h \<le> 2 ^ 52" using highest_frame_scan_le [OF scan] by simp
    have hdm: "h * 4096 + unat (dm_offset dm) \<le> 2 ^ 64"
      using highest_frame_scan_direct_map [OF scan covered] by simp
    have ranges: "\<forall>r\<in>set rs. region_kind r = Usable \<longrightarrow> (\<exists>s e. usable_frame_range r = Inr (s, e))"
      and below: "\<forall>i\<in>set (frames_of_kind Usable rs). i < h"
      using highest_frame_scan_ge [OF scan] by (auto simp: frames_of_kind_def)
    show ?thesis
    proof (cases "2 ^ 64 \<le> ?n * 4096 \<or> bitmap_start_scan rs ?n = Inr None")
      case True
      then show ?thesis
        using scan bitmap_start_scan_error [of rs ?n] ranges
        by (cases "bitmap_start_scan rs ?n")
           (auto simp: frame_allocator_new_def bitmap_storage_frames_def Let_def)
    next
      case False
      then obtain b where b: "bitmap_start_scan rs ?n = Inr (Some b)"
        using bitmap_start_scan_error [of rs ?n] ranges
        by (cases "bitmap_start_scan rs ?n") auto
      then obtain r e where r: "r \<in> set rs" "region_kind r = Usable"
          "usable_frame_range r = Inr (b, e)" "b < e" "?n \<le> e - b"
        using bitmap_start_scan_spec by blast
      have inside: "set [b..<b + ?n] \<subseteq> set (frames_of_kind Usable rs)"
        using r by (force simp: frames_of_kind_def region_frames_def)
      have bh: "b + ?n \<le> h"
      proof -
        have "e - 1 \<in> set (frames_of_kind Usable rs)"
          using r by (force simp: frames_of_kind_def region_frames_def)
        then show ?thesis using below r by auto
      qed
      have no_panic: "\<not> 2 ^ 64 \<le> b * 4096" "\<not> 2 ^ 64 \<le> b + ?n"
        using bh h52 r(3,4) frame_allocator_scan_bound [OF r(3)] by auto
      show ?thesis
      proof (cases "translate dm (of_nat (b * 4096))")
        case None
        then show ?thesis
          using scan b False no_panic
          by (simp add: frame_allocator_new_def bitmap_storage_frames_def Let_def)
      next
        case (Some v)
        define bm0 where "bm0 = \<lparr>bm_start = v, bm_frame_count = h, bm_bytes = replicate (?n * 4096) (0::u8)\<rparr>"
        have en: "h \<le> 4 * (?n * 4096)"
          using bitmap_storage_enough [of h] by (simp add: bitmap_storage_frames_def)
        have bm0: "bitmap_wf bm0" "count_state bm0 Free = 0" "count_state bm0 Allocated = 0"
          using bitmap_zero [OF en h52 bm0_def] by auto
        have z: "\<forall>i<h. bitmap_state bm0 i = Ret Reserved"
          unfolding bm0_def using bitmap_zero_state [OF _ en, of _ v] by auto
        obtain bm' where bm': "mark_regions_free rs b (b + ?n) (bm0, 0, 0) =
              Ret (Inr (bm', count_state bm' Free, count_state bm' Free))"
            "count_state bm' Allocated = 0" "bitmap_wf bm'" "bm_frame_count bm' = h"
            "\<forall>j. bitmap_state bm' j = (if j \<in> set (frames_of_kind Usable rs) \<and> \<not> (b \<le> j \<and> j < b + ?n)
               then Ret Free else bitmap_state bm0 j)"
          using mark_regions_free_spec [OF bm0(1) ranges disjoint, of b "b + ?n" 0 0] below z bm0
          by (auto simp: bm0_def)
        define fa where "fa = \<lparr>fa_bitmap = bm', fa_next_search = b + ?n,
            fa_allocatable_frames = count_state bm' Free, fa_free_frames = count_state bm' Free,
            fa_direct_map = dm\<rparr>"
        have "frame_allocator_new rs dm = Ret (Inr fa)"
          using scan b False no_panic Some bm'(1)
          by (simp add: frame_allocator_new_def bitmap_storage_frames_def Let_def bm0_def fa_def)
        moreover have "fa_inv fa"
          using bm' bh hdm by (simp add: fa_inv_def fa_def)
        moreover have "\<forall>i<h. bitmap_state bm' i = Ret (if i \<in> set (frames_of_kind Usable rs)
            \<and> i \<notin> set [b..<b + ?n] then Free else Reserved)"
          using bm'(5) z by auto
        ultimately show ?thesis
          using inside bm'(4) by (auto simp: fa_def)
      qed
    qed
  qed
qed

lemma reclaim_frames_spec:
  "fa_inv fa \<Longrightarrow> \<forall>i\<in>set is. i < bm_frame_count (fa_bitmap fa) \<Longrightarrow>
   \<exists>fa'. reclaim_frames is fa = Ret fa' \<and> fa_inv fa'
     \<and> bm_frame_count (fa_bitmap fa') = bm_frame_count (fa_bitmap fa)
     \<and> (\<forall>j. bitmap_state (fa_bitmap fa') j =
           (if j \<in> set is \<and> bitmap_state (fa_bitmap fa) j = Ret Reserved then Ret Free
            else bitmap_state (fa_bitmap fa) j))"
proof (induction "is" arbitrary: fa)
  case Nil
  then show ?case by auto
next
  case (Cons i "is")
  have wf: "bitmap_wf (fa_bitmap fa)" and i: "i < bm_frame_count (fa_bitmap fa)"
    using Cons.prems by (auto simp: fa_inv_def)
  obtain st where st: "bitmap_state (fa_bitmap fa) i = Ret st"
    using wf i by (fastforce simp: bitmap_wf_def)
  show ?case
  proof (cases "st = Reserved")
    case False
    then show ?thesis using Cons.IH [OF Cons.prems(1)] Cons.prems(2) st by auto
  next
    case True
    obtain bm' where bm': "bitmap_set_state (fa_bitmap fa) i Free = Ret bm'" "bitmap_wf bm'"
      using bitmap_set_state_ok [OF wf i] by blast
    define fa1 where "fa1 = fa\<lparr>fa_bitmap := bm', fa_allocatable_frames := fa_allocatable_frames fa + 1,
        fa_free_frames := fa_free_frames fa + 1, fa_next_search := min (fa_next_search fa) i\<rparr>"
    note frm = bitmap_set_state_frame [OF bm'(1)] and after = bitmap_state_after_set [OF bm'(1)]
    have "count_state bm' Free = Suc (count_state (fa_bitmap fa) Free)"
        "count_state bm' Allocated = count_state (fa_bitmap fa) Allocated"
      using count_state_set(2) [OF bm'(1), of Reserved] count_state_set(3) [OF bm'(1), of Reserved Allocated]
        st True by auto
    then have inv1: "fa_inv fa1"
      using Cons.prems(1) bm'(2) frm by (auto simp: fa_inv_def fa1_def)
    have "\<forall>j\<in>set is. j < bm_frame_count (fa_bitmap fa1)"
      using Cons.prems(2) frm by (simp add: fa1_def)
    then obtain fa2 where "reclaim_frames is fa1 = Ret fa2" "fa_inv fa2"
        "bm_frame_count (fa_bitmap fa2) = bm_frame_count (fa_bitmap fa1)"
        "\<forall>j. bitmap_state (fa_bitmap fa2) j =
           (if j \<in> set is \<and> bitmap_state (fa_bitmap fa1) j = Ret Reserved then Ret Free
            else bitmap_state (fa_bitmap fa1) j)"
      using Cons.IH [OF inv1] by blast
    then show ?thesis
      using st True bm'(1) frm after by (auto simp: fa1_def)
  qed
qed

lemma reclaim_region_list_spec:
  "fa_inv fa \<Longrightarrow> \<forall>i\<in>set (frames_of_kind k rs). i < bm_frame_count (fa_bitmap fa) \<Longrightarrow>
   \<forall>r\<in>set rs. region_kind r = k \<longrightarrow> (\<exists>s e. usable_frame_range r = Inr (s, e)) \<Longrightarrow>
   \<exists>fa'. reclaim_region_list rs k fa = Ret fa' \<and> fa_inv fa'
     \<and> bm_frame_count (fa_bitmap fa') = bm_frame_count (fa_bitmap fa)
     \<and> (\<forall>j. bitmap_state (fa_bitmap fa') j =
           (if j \<in> set (frames_of_kind k rs) \<and> bitmap_state (fa_bitmap fa) j = Ret Reserved then Ret Free
            else bitmap_state (fa_bitmap fa) j))"
proof (induction rs arbitrary: fa)
  case Nil
  then show ?case by (auto simp: frames_of_kind_def)
next
  case (Cons r rs)
  show ?case
  proof (cases "region_kind r = k")
    case False
    then show ?thesis using Cons.IH [of fa] Cons.prems by (simp add: frames_of_kind_def)
  next
    case True
    then obtain s e where range: "usable_frame_range r = Inr (s, e)" using Cons.prems(3) by auto
    have split: "frames_of_kind k (r # rs) = [s..<e] @ frames_of_kind k rs"
      using True range by (simp add: frames_of_kind_def region_frames_def)
    obtain fa1 where fa1: "reclaim_frames [s..<e] fa = Ret fa1" "fa_inv fa1"
        "bm_frame_count (fa_bitmap fa1) = bm_frame_count (fa_bitmap fa)"
        "\<forall>j. bitmap_state (fa_bitmap fa1) j =
           (if j \<in> set [s..<e] \<and> bitmap_state (fa_bitmap fa) j = Ret Reserved then Ret Free
            else bitmap_state (fa_bitmap fa) j)"
      using reclaim_frames_spec [OF Cons.prems(1), of "[s..<e]"] Cons.prems(2) unfolding split by auto
    then obtain fa2 where "reclaim_region_list rs k fa1 = Ret fa2" "fa_inv fa2"
        "bm_frame_count (fa_bitmap fa2) = bm_frame_count (fa_bitmap fa1)"
        "\<forall>j. bitmap_state (fa_bitmap fa2) j =
           (if j \<in> set (frames_of_kind k rs) \<and> bitmap_state (fa_bitmap fa1) j = Ret Reserved then Ret Free
            else bitmap_state (fa_bitmap fa1) j)"
      using Cons.IH [OF fa1(2)] Cons.prems(2,3) unfolding split by auto
    then show ?thesis
      using True range fa1 unfolding split by auto
  qed
qed

end
