(* ===== verification/Paging.thy ===== *)
theory Paging
  imports Frame
begin

section \<open>Page tables\<close>

text \<open>
  \<open>src/src/arch/x86_64/paging.rs\<close>: page-table entries as 64-bit words, and the four- or
  five-level tables they form in memory. A table is named by the frame that holds it and is
  read through the direct map (\<open>table\<close>); entry \<open>i\<close> is the little-endian word at byte
  offset \<open>8 * i\<close>. \<open>page_table_map\<close>, \<open>page_table_unmap\<close> and the two \<open>destroy\<close> functions
  take and return the allocator and the memory; an \<open>expect\<close> or \<open>assert\<close> that fails is
  \<open>Panic\<close>. TLB flushes change no memory and are left out; the value of CR3 that
  \<open>is_active\<close> reads is an argument.
\<close>

datatype PagingMode = FourLevel | FiveLevel

record PagingConfig =
  pc_physical_address_bits :: nat
  pc_global_pages :: bool
  pc_nx_enabled :: bool
  pc_mode :: PagingMode

definition physical_address_mask :: "PagingConfig \<Rightarrow> usize" where
  "physical_address_mask cfg = (push_bit (pc_physical_address_bits cfg) 1 - 1) AND NOT 0xFFF"

definition physical_address_limit :: "PagingConfig \<Rightarrow> usize" where
  "physical_address_limit cfg = push_bit (pc_physical_address_bits cfg) 1"

datatype PageTableLevel = Pml5 | Pml4 | Pdpt | PageDirectory

definition FOUR_LEVEL_INTERMEDIATES :: "PageTableLevel list" where
  "FOUR_LEVEL_INTERMEDIATES = [Pml4, Pdpt, PageDirectory]"

definition FIVE_LEVEL_INTERMEDIATES :: "PageTableLevel list" where
  "FIVE_LEVEL_INTERMEDIATES = [Pml5, Pml4, Pdpt, PageDirectory]"

primrec virtual_address_bits :: "PagingMode \<Rightarrow> nat" where
  "virtual_address_bits FourLevel = 48"
| "virtual_address_bits FiveLevel = 57"

primrec intermediate_levels :: "PagingMode \<Rightarrow> PageTableLevel list" where
  "intermediate_levels FourLevel = FOUR_LEVEL_INTERMEDIATES"
| "intermediate_levels FiveLevel = FIVE_LEVEL_INTERMEDIATES"

primrec level_shift :: "PageTableLevel \<Rightarrow> nat" where
  "level_shift Pml5 = 48"
| "level_shift Pml4 = 39"
| "level_shift Pdpt = 30"
| "level_shift PageDirectory = 21"

definition level_index :: "PageTableLevel \<Rightarrow> usize \<Rightarrow> nat" where
  "level_index level address = unat (drop_bit (level_shift level) address AND 0x1FF)"

primrec large_page_size :: "PageTableLevel \<Rightarrow> usize option" where
  "large_page_size Pml5 = None"
| "large_page_size Pml4 = None"
| "large_page_size Pdpt = Some (push_bit 30 1)"
| "large_page_size PageDirectory = Some (push_bit 21 1)"

definition p1_index :: "usize \<Rightarrow> nat" where
  "p1_index addr = unat (drop_bit 12 addr AND 0x1FF)"

definition page_offset :: "usize \<Rightarrow> usize" where
  "page_offset addr = addr AND 0xFFF"

subsection \<open>Entries\<close>

type_synonym PageTableEntry = u64

definition PRESENT :: u64 where "PRESENT = push_bit 0 1"
definition WRITABLE :: u64 where "WRITABLE = push_bit 1 1"
definition USER_ACCESSIBLE :: u64 where "USER_ACCESSIBLE = push_bit 2 1"
definition WRITE_THROUGH :: u64 where "WRITE_THROUGH = push_bit 3 1"
definition CACHE_DISABLED :: u64 where "CACHE_DISABLED = push_bit 4 1"
definition HUGE_PAGE :: u64 where "HUGE_PAGE = push_bit 7 1"
definition GLOBAL :: u64 where "GLOBAL = push_bit 8 1"
definition NX :: u64 where "NX = push_bit 63 1"

datatype PageTableEntryError = EntryPhysicalAddressTooLarge | EntryNoExecuteUnsupported

definition entry_new ::
  "PhysicalAddr \<Rightarrow> PagePermissions \<Rightarrow> CachePolicy \<Rightarrow> PagingConfig \<Rightarrow> bool \<Rightarrow>
   PageTableEntryError + PageTableEntry" where
  "entry_new physical_address permissions cache_policy config is_global =
     (if physical_address_limit config \<le> physical_address then Inl EntryPhysicalAddressTooLarge
      else let value = physical_address OR PRESENT;
               value = (if writable permissions then value OR WRITABLE else value);
               value = (if user_accessible permissions then value OR USER_ACCESSIBLE else value)
           in if \<not> executable permissions \<and> \<not> pc_nx_enabled config then Inl EntryNoExecuteUnsupported
              else let value = (if \<not> executable permissions then value OR NX else value);
                       value = (if is_global \<and> pc_global_pages config then value OR GLOBAL else value);
                       value = (case cache_policy of
                                  WriteBack \<Rightarrow> value
                                | Uncacheable \<Rightarrow> value OR (CACHE_DISABLED OR WRITE_THROUGH))
                   in Inr value)"

definition entry_new_table ::
  "FrameAddr \<Rightarrow> bool \<Rightarrow> PagingConfig \<Rightarrow> PageTableEntryError + PageTableEntry" where
  "entry_new_table frame user config =
     (if physical_address_limit config \<le> frame then Inl EntryPhysicalAddressTooLarge
      else let value = (frame OR PRESENT) OR WRITABLE
           in Inr (if user then value OR USER_ACCESSIBLE else value))"

definition entry_physical_address :: "PageTableEntry \<Rightarrow> PagingConfig \<Rightarrow> PhysicalAddr" where
  "entry_physical_address e config = e AND physical_address_mask config"

definition is_present :: "PageTableEntry \<Rightarrow> bool" where "is_present e \<longleftrightarrow> e AND PRESENT \<noteq> 0"
definition entry_writable :: "PageTableEntry \<Rightarrow> bool" where "entry_writable e \<longleftrightarrow> e AND WRITABLE \<noteq> 0"
definition entry_executable :: "PageTableEntry \<Rightarrow> bool" where "entry_executable e \<longleftrightarrow> e AND NX = 0"
definition is_user_accessible :: "PageTableEntry \<Rightarrow> bool" where
  "is_user_accessible e \<longleftrightarrow> e AND USER_ACCESSIBLE \<noteq> 0"
definition is_huge :: "PageTableEntry \<Rightarrow> bool" where "is_huge e \<longleftrightarrow> e AND HUGE_PAGE \<noteq> 0"
definition is_global_entry :: "PageTableEntry \<Rightarrow> bool" where "is_global_entry e \<longleftrightarrow> e AND GLOBAL \<noteq> 0"

definition table_frame :: "PageTableEntry \<Rightarrow> PagingConfig \<Rightarrow> FrameAddr option" where
  "table_frame e config =
     (if \<not> is_present e \<or> is_huge e then None
      else from_start_address (entry_physical_address e config))"

definition leaf_frame :: "PageTableEntry \<Rightarrow> PagingConfig \<Rightarrow> FrameAddr option" where
  "leaf_frame e config =
     (if \<not> is_present e then None else from_start_address (entry_physical_address e config))"

definition entry_permissions :: "PageTableEntry \<Rightarrow> PagePermissions" where
  "entry_permissions e = page_permissions (entry_writable e) (entry_executable e) (is_user_accessible e)"

subsection \<open>Page tables in memory\<close>

datatype PageTableMapError =
  PtInvalidVirtualAddress | PtVirtualAddressUnaligned | PtPhysicalAddressTooLarge
| PtPageAlreadyMapped | PtHugePageConflict | PtNoExecuteUnsupported | PtOutOfFrames
| PtPageTableOutsideDirectMap | PtInvalidPageTableEntry

datatype PageTableUnmapError =
  PuInvalidVirtualAddress | PuVirtualAddressUnaligned | PuPageNotMapped | PuHugePageConflict
| PuPageTableOutsideDirectMap | PuInvalidPageTableEntry

datatype PageTableCreateError = CrPhysicalAddressTooLarge | CrOutOfFrames

record EntryLocation =
  loc_table :: FrameAddr
  loc_index :: nat

record PageTable =
  pt_direct_map :: DirectMap
  pt_config :: PagingConfig
  pt_frame :: FrameAddr

type_synonym alloc_mem = "FrameAllocator \<times> mem"

definition page_table_new ::
  "DirectMap \<Rightarrow> PagingConfig \<Rightarrow> alloc_mem \<Rightarrow> ((PageTableCreateError + PageTable) \<times> alloc_mem) panics" where
  "page_table_new direct_map config = (\<lambda>(fa, m). do {
     (r, fa, m) \<leftarrow> alloc fa m;
     (case r of
        None \<Rightarrow> Ret (Inl CrOutOfFrames, fa, m)
      | Some frame \<Rightarrow>
          if physical_address_limit config \<le> frame
          then do { fa \<leftarrow> dealloc fa frame; Ret (Inl CrPhysicalAddressTooLarge, fa, m) }
          else Ret (Inr \<lparr>pt_direct_map = direct_map, pt_config = config, pt_frame = frame\<rparr>, fa, m)) })"

definition read_cr3 :: "PagingConfig \<Rightarrow> usize \<Rightarrow> FrameAddr panics" where
  "read_cr3 config cr3 = from_start_address (cr3 AND physical_address_mask config)"

definition is_active :: "PageTable \<Rightarrow> usize \<Rightarrow> bool panics" where
  "is_active pt cr3 = do { f \<leftarrow> read_cr3 (pt_config pt) cr3; Ret (f = pt_frame pt) }"

text \<open>\<open>table\<close> and \<open>table_mut\<close>: the virtual address of the table in a frame.\<close>

definition table :: "PageTable \<Rightarrow> FrameAddr \<Rightarrow> VirtualAddr option" where
  "table pt frame = translate (pt_direct_map pt) frame"

definition entry_at :: "mem \<Rightarrow> VirtualAddr \<Rightarrow> nat \<Rightarrow> PageTableEntry" where
  "entry_at m base i = read_u64 m (base + of_nat (8 * i))"

definition set_entry :: "mem \<Rightarrow> VirtualAddr \<Rightarrow> nat \<Rightarrow> PageTableEntry \<Rightarrow> mem" where
  "set_entry m base i e = write_u64 m (base + of_nat (8 * i)) e"

definition is_canonical :: "PageTable \<Rightarrow> usize \<Rightarrow> bool" where
  "is_canonical pt addr =
     (let shift = 64 - virtual_address_bits (pc_mode (pt_config pt))
      in signed_drop_bit shift (push_bit shift addr) = addr)"

definition pt_levels :: "PageTable \<Rightarrow> PageTableLevel list" where
  "pt_levels pt = intermediate_levels (pc_mode (pt_config pt))"

definition translate_huge_page ::
  "PageTableEntry \<Rightarrow> usize \<Rightarrow> usize \<Rightarrow> PagingConfig \<Rightarrow> PhysicalAddr option" where
  "translate_huge_page e virtual_addr page_size config =
     (let physical_base = entry_physical_address e config AND NOT (page_size - 1);
          offset = virtual_addr AND (page_size - 1)
      in checked_add physical_base offset)"

fun to_physical_walk ::
  "PageTable \<Rightarrow> mem \<Rightarrow> usize \<Rightarrow> PageTableLevel list \<Rightarrow> FrameAddr \<Rightarrow> PhysicalAddr option" where
  "to_physical_walk pt m address [] tbl = do {
     base \<leftarrow> table pt tbl;
     physical_base \<leftarrow> leaf_frame (entry_at m base (p1_index address)) (pt_config pt);
     checked_add physical_base (page_offset address) }"
| "to_physical_walk pt m address (level # levels) tbl = do {
     base \<leftarrow> table pt tbl;
     let e = entry_at m base (level_index level address);
     if \<not> is_present e then None
     else if is_huge e then do {
       sz \<leftarrow> large_page_size level;
       translate_huge_page e address sz (pt_config pt) }
     else do {
       next \<leftarrow> table_frame e (pt_config pt);
       to_physical_walk pt m address levels next } }"

definition page_table_to_physical :: "PageTable \<Rightarrow> mem \<Rightarrow> VirtualAddr \<Rightarrow> PhysicalAddr option" where
  "page_table_to_physical pt m addr =
     (if \<not> is_canonical pt addr then None
      else to_physical_walk pt m addr (pt_levels pt) (pt_frame pt))"

definition page_table_to_virtual :: "PageTable \<Rightarrow> PhysicalAddr \<Rightarrow> VirtualAddr option" where
  "page_table_to_virtual pt addr = translate (pt_direct_map pt) addr"

definition and_permissions :: "PagePermissions \<Rightarrow> PageTableEntry \<Rightarrow> PagePermissions" where
  "and_permissions p e =
     \<lparr>writable = writable p \<and> entry_writable e,
      executable = executable p \<and> entry_executable e,
      user_accessible = user_accessible p \<and> is_user_accessible e\<rparr>"

fun mapping_walk ::
  "PageTable \<Rightarrow> mem \<Rightarrow> usize \<Rightarrow> PageTableLevel list \<Rightarrow> FrameAddr \<Rightarrow> PagePermissions \<Rightarrow>
   PagePermissions option" where
  "mapping_walk pt m address [] tbl permissions = do {
     base \<leftarrow> table pt tbl;
     let e = entry_at m base (p1_index address);
     if \<not> is_present e then None else Some (and_permissions permissions e) }"
| "mapping_walk pt m address (level # levels) tbl permissions = do {
     base \<leftarrow> table pt tbl;
     let e = entry_at m base (level_index level address);
     if \<not> is_present e then None
     else if is_huge e then do {
       _ \<leftarrow> large_page_size level;
       Some (and_permissions permissions e) }
     else do {
       next \<leftarrow> table_frame e (pt_config pt);
       mapping_walk pt m address levels next (and_permissions permissions e) } }"

definition page_table_mapping :: "PageTable \<Rightarrow> mem \<Rightarrow> VirtualAddr \<Rightarrow> PagePermissions option" where
  "page_table_mapping pt m virtual_addr =
     (if \<not> is_canonical pt virtual_addr then None
      else mapping_walk pt m virtual_addr (pt_levels pt) (pt_frame pt) (page_permissions True True True))"

definition get_next_level ::
  "PageTable \<Rightarrow> mem \<Rightarrow> FrameAddr \<Rightarrow> nat \<Rightarrow> PageTableLevel \<Rightarrow> PageTableUnmapError + FrameAddr" where
  "get_next_level pt m parent index level =
     (case table pt parent of
        None \<Rightarrow> Inl PuPageTableOutsideDirectMap
      | Some base \<Rightarrow>
          let e = entry_at m base index
          in if is_huge e
             then if large_page_size level \<noteq> None then Inl PuHugePageConflict
                  else Inl PuInvalidPageTableEntry
             else (case table_frame e (pt_config pt) of
                     None \<Rightarrow> Inl PuPageNotMapped
                   | Some f \<Rightarrow> Inr f))"

fun apply_user_upgrades :: "PageTable \<Rightarrow> EntryLocation list \<Rightarrow> mem \<Rightarrow> mem panics" where
  "apply_user_upgrades pt [] m = Ret m"
| "apply_user_upgrades pt (loc # locs) m = do {
     base \<leftarrow> table pt (loc_table loc);
     apply_user_upgrades pt locs
       (set_entry m base (loc_index loc) (entry_at m base (loc_index loc) OR USER_ACCESSIBLE)) }"

subsection \<open>Mapping a page\<close>

text \<open>
  The descent of \<open>map\<close>: it ends at the last table, or at the first entry that is not
  present (its depth and location), and collects the entries that must become
  user-accessible.
\<close>

fun map_scan ::
  "PageTable \<Rightarrow> mem \<Rightarrow> usize \<Rightarrow> bool \<Rightarrow> PageTableLevel list \<Rightarrow> nat \<Rightarrow> FrameAddr \<Rightarrow> EntryLocation list \<Rightarrow>
   PageTableMapError + FrameAddr \<times> EntryLocation list \<times> (nat \<times> EntryLocation) option" where
  "map_scan pt m address user [] depth tbl upgrades = Inr (tbl, upgrades, None)"
| "map_scan pt m address user (level # levels) depth tbl upgrades =
     (let index = level_index level address
      in case table pt tbl of
           None \<Rightarrow> Inl PtPageTableOutsideDirectMap
         | Some base \<Rightarrow>
             let e = entry_at m base index;
                 loc = \<lparr>loc_table = tbl, loc_index = index\<rparr>
             in if \<not> is_present e then Inr (tbl, upgrades, Some (depth, loc))
                else if is_huge e
                then if large_page_size level \<noteq> None then Inl PtHugePageConflict
                     else Inl PtInvalidPageTableEntry
                else let upgrades' = (if user \<and> \<not> is_user_accessible e then upgrades @ [loc] else upgrades)
                     in case table_frame e (pt_config pt) of
                          None \<Rightarrow> Inl PtInvalidPageTableEntry
                        | Some next \<Rightarrow> map_scan pt m address user levels (depth + 1) next upgrades')"

fun alloc_private_tables ::
  "PageTable \<Rightarrow> bool \<Rightarrow> nat \<Rightarrow> alloc_mem \<Rightarrow>
   ((PageTableMapError + unit) \<times> FrameAddr list \<times> alloc_mem) panics" where
  "alloc_private_tables pt user 0 s = Ret (Inr (), [], s)"
| "alloc_private_tables pt user (Suc n) (fa, m) = do {
     (r, fa, m) \<leftarrow> alloc fa m;
     (case r of
        None \<Rightarrow> Ret (Inl PtOutOfFrames, [], fa, m)
      | Some frame \<Rightarrow>
          (case entry_new_table frame user (pt_config pt) of
             Inl _ \<Rightarrow> Ret (Inl PtPhysicalAddressTooLarge, [frame], fa, m)
           | Inr _ \<Rightarrow> do {
               (res, frames, s) \<leftarrow> alloc_private_tables pt user n (fa, m);
               Ret (res, frame # frames, s) })) }"

text \<open>Links each private table to the next one, and the last one to the page.\<close>

fun link_private_tables ::
  "PageTable \<Rightarrow> usize \<Rightarrow> bool \<Rightarrow> PageTableEntry \<Rightarrow> PageTableLevel list \<Rightarrow> FrameAddr list \<Rightarrow> mem \<Rightarrow>
   (PageTableMapError + unit) \<times> mem" where
  "link_private_tables pt address user leaf levels [] m = (Inr (), m)"
| "link_private_tables pt address user leaf levels [private] m =
     (case table pt private of
        None \<Rightarrow> (Inl PtPageTableOutsideDirectMap, m)
      | Some base \<Rightarrow> (Inr (), set_entry m base (p1_index address) leaf))"
| "link_private_tables pt address user leaf (level # levels) (private # child # rest) m =
     (case entry_new_table child user (pt_config pt) of
        Inl _ \<Rightarrow> (Inl PtPhysicalAddressTooLarge, m)
      | Inr child_entry \<Rightarrow>
          (case table pt private of
             None \<Rightarrow> (Inl PtPageTableOutsideDirectMap, m)
           | Some base \<Rightarrow>
               link_private_tables pt address user leaf levels (child # rest)
                 (set_entry m base (level_index level address) child_entry)))"
| "link_private_tables pt address user leaf [] (private # child # rest) m = (Inr (), m)"

definition prepare_private_tables ::
  "PageTable \<Rightarrow> usize \<Rightarrow> bool \<Rightarrow> PageTableEntry \<Rightarrow> nat \<Rightarrow> alloc_mem \<Rightarrow>
   ((PageTableMapError + PageTableEntry) \<times> FrameAddr list \<times> alloc_mem) panics" where
  "prepare_private_tables pt address user leaf missing_depth s = do {
     (res, frames, fa, m) \<leftarrow>
        alloc_private_tables pt user (length (pt_levels pt) - missing_depth) s;
     (case res of
        Inl e \<Rightarrow> Ret (Inl e, frames, fa, m)
      | Inr _ \<Rightarrow>
          (case link_private_tables pt address user leaf (drop (missing_depth + 1) (pt_levels pt)) frames m of
             (Inl e, m) \<Rightarrow> Ret (Inl e, frames, fa, m)
           | (Inr _, m) \<Rightarrow>
               (case frames of
                  [] \<Rightarrow> Panic
                | first # _ \<Rightarrow>
                    (case entry_new_table first user (pt_config pt) of
                       Inl _ \<Rightarrow> Ret (Inl PtPhysicalAddressTooLarge, frames, fa, m)
                     | Inr e \<Rightarrow> Ret (Inr e, frames, fa, m))))) }"

definition map_into_table ::
  "PageTable \<Rightarrow> usize \<Rightarrow> PageTableEntry \<Rightarrow> FrameAddr \<Rightarrow> EntryLocation list \<Rightarrow> alloc_mem \<Rightarrow>
   ((PageTableMapError + unit) \<times> alloc_mem) panics" where
  "map_into_table pt address leaf tbl upgrades = (\<lambda>(fa, m).
     (case table pt tbl of
        None \<Rightarrow> Ret (Inl PtPageTableOutsideDirectMap, fa, m)
      | Some base \<Rightarrow>
          if is_present (entry_at m base (p1_index address))
          then Ret (Inl PtPageAlreadyMapped, fa, m)
          else do {
            m' \<leftarrow> apply_user_upgrades pt upgrades m;
            base \<leftarrow> table pt tbl;
            Ret (Inr (), fa, set_entry m' base (p1_index address) leaf) }))"

definition map_with_new_tables ::
  "PageTable \<Rightarrow> usize \<Rightarrow> bool \<Rightarrow> PageTableEntry \<Rightarrow> nat \<Rightarrow> EntryLocation \<Rightarrow> EntryLocation list \<Rightarrow> alloc_mem \<Rightarrow>
   ((PageTableMapError + unit) \<times> alloc_mem) panics" where
  "map_with_new_tables pt address user leaf missing_depth loc upgrades s = do {
     (res, frames, fa, m) \<leftarrow> prepare_private_tables pt address user leaf missing_depth s;
     (case res of
        Inl e \<Rightarrow> do { fa \<leftarrow> dealloc_list dealloc (rev frames) fa; Ret (Inl e, fa, m) }
      | Inr publication_entry \<Rightarrow> do {
          m \<leftarrow> apply_user_upgrades pt upgrades m;
          base \<leftarrow> table pt (loc_table loc);
          Ret (Inr (), fa, set_entry m base (loc_index loc) publication_entry) }) }"

definition page_table_map ::
  "PageTable \<Rightarrow> VirtualAddr \<Rightarrow> FrameAddr \<Rightarrow> PagePermissions \<Rightarrow> CachePolicy \<Rightarrow> bool \<Rightarrow> alloc_mem \<Rightarrow>
   ((PageTableMapError + unit) \<times> alloc_mem) panics" where
  "page_table_map pt address frame permissions cache_policy is_global = (\<lambda>(fa, m).
     if \<not> is_canonical pt address then Ret (Inl PtInvalidVirtualAddress, fa, m)
     else if address mod PAGE_SIZE \<noteq> 0 then Ret (Inl PtVirtualAddressUnaligned, fa, m)
     else (case entry_new frame permissions cache_policy (pt_config pt) is_global of
        Inl EntryPhysicalAddressTooLarge \<Rightarrow> Ret (Inl PtPhysicalAddressTooLarge, fa, m)
      | Inl EntryNoExecuteUnsupported \<Rightarrow> Ret (Inl PtNoExecuteUnsupported, fa, m)
      | Inr leaf \<Rightarrow>
          (case map_scan pt m address (user_accessible permissions) (pt_levels pt) 0 (pt_frame pt) [] of
             Inl e \<Rightarrow> Ret (Inl e, fa, m)
           | Inr (tbl, upgrades, None) \<Rightarrow> map_into_table pt address leaf tbl upgrades (fa, m)
           | Inr (tbl, upgrades, Some (depth, loc)) \<Rightarrow>
               map_with_new_tables pt address (user_accessible permissions) leaf depth loc upgrades (fa, m))))"

subsection \<open>Unmapping a page\<close>

text \<open>The tables on the way to the page, from the root to the last-level table.\<close>

fun unmap_walk ::
  "PageTable \<Rightarrow> mem \<Rightarrow> usize \<Rightarrow> PageTableLevel list \<Rightarrow> FrameAddr \<Rightarrow> PageTableUnmapError + FrameAddr list" where
  "unmap_walk pt m address [] current = Inr [current]"
| "unmap_walk pt m address (level # levels) current =
     (case get_next_level pt m current (level_index level address) level of
        Inl e \<Rightarrow> Inl e
      | Inr next \<Rightarrow>
          (case unmap_walk pt m address levels next of
             Inl e \<Rightarrow> Inl e
           | Inr frames \<Rightarrow> Inr (current # frames)))"

definition table_is_empty :: "mem \<Rightarrow> VirtualAddr \<Rightarrow> bool" where
  "table_is_empty m base = list_all (\<lambda>i. \<not> is_present (entry_at m base i)) [0..<512]"

text \<open>The loop that clears the entries of tables that became empty, deepest first.\<close>

fun unmap_prune ::
  "PageTable \<Rightarrow> usize \<Rightarrow> (PageTableLevel \<times> FrameAddr \<times> FrameAddr) list \<Rightarrow> bool \<Rightarrow> mem \<Rightarrow>
   (FrameAddr list \<times> mem) panics" where
  "unmap_prune pt address [] child_is_empty m = Ret ([], m)"
| "unmap_prune pt address ((level, parent, child) # steps) child_is_empty m =
     (if \<not> child_is_empty then Ret ([], m)
      else do {
        base \<leftarrow> table pt parent;
        let m' = set_entry m base (level_index level address) 0;
        (frames, m'') \<leftarrow> unmap_prune pt address steps
           (if steps \<noteq> [] then table_is_empty m' base else child_is_empty) m';
        Ret (child # frames, m'') })"

definition page_table_unmap ::
  "PageTable \<Rightarrow> VirtualAddr \<Rightarrow> alloc_mem \<Rightarrow> ((PageTableUnmapError + FrameAddr) \<times> alloc_mem) panics" where
  "page_table_unmap pt address = (\<lambda>(fa, m).
     if \<not> is_canonical pt address then Ret (Inl PuInvalidVirtualAddress, fa, m)
     else if address mod PAGE_SIZE \<noteq> 0 then Ret (Inl PuVirtualAddressUnaligned, fa, m)
     else (case unmap_walk pt m address (pt_levels pt) (pt_frame pt) of
        Inl e \<Rightarrow> Ret (Inl e, fa, m)
      | Inr table_frames \<Rightarrow>
          (case table pt (last table_frames) of
             None \<Rightarrow> Ret (Inl PuPageTableOutsideDirectMap, fa, m)
           | Some base \<Rightarrow>
               (case leaf_frame (entry_at m base (p1_index address)) (pt_config pt) of
                  None \<Rightarrow> Ret (Inl PuPageNotMapped, fa, m)
                | Some frame \<Rightarrow> do {
                    let m = set_entry m base (p1_index address) 0;
                    (frames, m) \<leftarrow> unmap_prune pt address
                       (rev (zip (pt_levels pt) (zip table_frames (tl table_frames))))
                       (table_is_empty m base) m;
                    fa \<leftarrow> dealloc_list dealloc frames fa;
                    Ret (Inr frame, fa, m) }))))"

subsection \<open>Sharing the kernel half and destroying tables\<close>

fun copy_entries :: "nat list \<Rightarrow> VirtualAddr \<Rightarrow> VirtualAddr \<Rightarrow> mem \<Rightarrow> mem" where
  "copy_entries [] src dest m = m"
| "copy_entries (i # is) src dest m = copy_entries is src dest (set_entry m dest i (entry_at m src i))"

definition copy_kernel_mappings_to :: "PageTable \<Rightarrow> PageTable \<Rightarrow> mem \<Rightarrow> mem panics" where
  "copy_kernel_mappings_to pt destination m = do {
     src \<leftarrow> table pt (pt_frame pt);
     dest \<leftarrow> table destination (pt_frame destination);
     Ret (copy_entries [256..<512] src dest m) }"

text \<open>
  \<open>destroy_children\<close> with \<open>levels.len() - depth\<close> as the number of levels still below the
  table; \<open>destroy_entries\<close> is its loop over the entries.
\<close>

function (sequential) destroy_children ::
    "PageTable \<Rightarrow> FrameAddr \<Rightarrow> nat \<Rightarrow> alloc_mem \<Rightarrow> alloc_mem panics"
  and destroy_entries ::
    "PageTable \<Rightarrow> FrameAddr \<Rightarrow> nat \<Rightarrow> nat list \<Rightarrow> alloc_mem \<Rightarrow> alloc_mem panics" where
  "destroy_children pt tbl 0 s = Ret s"
| "destroy_children pt tbl (Suc below) s = destroy_entries pt tbl below [0..<512] s"
| "destroy_entries pt tbl below [] s = Ret s"
| "destroy_entries pt tbl below (idx # idxs) (fa, m) = do {
     base \<leftarrow> table pt tbl;
     let e = entry_at m base idx;
     if \<not> is_present e \<or> is_huge e then destroy_entries pt tbl below idxs (fa, m)
     else do {
       child \<leftarrow> table_frame e (pt_config pt);
       (fa, m) \<leftarrow> destroy_children pt child below (fa, m);
       base \<leftarrow> table pt tbl;
       fa' \<leftarrow> dealloc fa child;
       destroy_entries pt tbl below idxs (fa', set_entry m base idx 0) } }"
  by pat_completeness auto
termination
  by (relation "measures [\<lambda>x. case x of Inl (pt, tbl, n, s) \<Rightarrow> n | Inr (pt, tbl, n, is, s) \<Rightarrow> n,
                          \<lambda>x. case x of Inl _ \<Rightarrow> 0 | Inr (pt, tbl, n, is, s) \<Rightarrow> Suc (length is)]") auto

definition page_table_destroy :: "PageTable \<Rightarrow> usize \<Rightarrow> alloc_mem \<Rightarrow> alloc_mem panics" where
  "page_table_destroy pt cr3 s = do {
     active \<leftarrow> is_active pt cr3;
     if active then Panic
     else do {
       (fa, m) \<leftarrow> destroy_children pt (pt_frame pt) (length (pt_levels pt)) s;
       fa \<leftarrow> dealloc fa (pt_frame pt);
       Ret (fa, m) } }"

definition page_table_destroy_user :: "PageTable \<Rightarrow> usize \<Rightarrow> alloc_mem \<Rightarrow> alloc_mem panics" where
  "page_table_destroy_user pt cr3 s = do {
     active \<leftarrow> is_active pt cr3;
     if active then Panic
     else do {
       (fa, m) \<leftarrow> destroy_entries pt (pt_frame pt) (length (pt_levels pt) - 1) [0..<256] s;
       fa \<leftarrow> dealloc fa (pt_frame pt);
       Ret (fa, m) } }"

end
