(* ===== verification/Paging_Entries.thy ===== *)
theory Paging_Entries
  imports Paging
begin

section \<open>Page-table entries: encoding and decoding\<close>

text \<open>
  An entry packs a frame address and its flags into one word. The facts here decode every
  field of the words \<open>entry_new\<close> and \<open>entry_new_table\<close> build, and show that the
  user-access upgrade changes no other field.
\<close>

definition config_ok :: "PagingConfig \<Rightarrow> bool" where
  "config_ok cfg \<longleftrightarrow> 12 \<le> pc_physical_address_bits cfg \<and> pc_physical_address_bits cfg \<le> 52"

lemmas flag_defs = PRESENT_def WRITABLE_def USER_ACCESSIBLE_def WRITE_THROUGH_def
  CACHE_DISABLED_def HUGE_PAGE_def GLOBAL_def NX_def

lemma and_flag_iff: "(e AND push_bit k 1 = 0) \<longleftrightarrow> \<not> bit (e :: u64) k"
  by (metis and_exp_eq_0_iff_not_bit push_bit_of_1)

lemma entry_flags [simp]:
  "is_present e \<longleftrightarrow> bit e 0" "entry_writable e \<longleftrightarrow> bit e 1" "is_user_accessible e \<longleftrightarrow> bit e 2"
  "is_huge e \<longleftrightarrow> bit e 7" "is_global_entry e \<longleftrightarrow> bit e 8" "entry_executable e \<longleftrightarrow> \<not> bit e 63"
  unfolding is_present_def entry_writable_def is_user_accessible_def is_huge_def is_global_entry_def
    entry_executable_def flag_defs and_flag_iff by simp_all

lemma bit_flag: "bit (push_bit k 1 :: u64) n \<longleftrightarrow> n = k \<and> n < 64"
  by (auto simp: bit_simps)

lemma bit_flags [simp]:
  "bit PRESENT n \<longleftrightarrow> n = 0" "bit WRITABLE n \<longleftrightarrow> n = 1" "bit USER_ACCESSIBLE n \<longleftrightarrow> n = 2"
  "bit WRITE_THROUGH n \<longleftrightarrow> n = 3" "bit CACHE_DISABLED n \<longleftrightarrow> n = 4" "bit GLOBAL n \<longleftrightarrow> n = 8"
  "bit NX n \<longleftrightarrow> n = 63"
  unfolding flag_defs bit_flag by auto

lemma bit_low12: "bit (0xFFF :: 64 word) n \<longleftrightarrow> n < 12"
  unfolding mask_12_eq [symmetric] by (auto simp: bit_mask_iff)

lemma bit_address_mask:
  "config_ok cfg \<Longrightarrow> bit (physical_address_mask cfg) n \<longleftrightarrow> 12 \<le> n \<and> n < pc_physical_address_bits cfg"
proof -
  assume "config_ok cfg"
  moreover have "push_bit k 1 - 1 = (mask k :: 64 word)" for k
    by (simp add: mask_eq_exp_minus_1)
  ultimately show ?thesis
    unfolding physical_address_mask_def config_ok_def mask_12_eq [symmetric]
    by (auto simp: bit_and_iff bit_not_iff bit_mask_iff)
qed

lemma num_12_less_64: "(12 :: nat) < 64"
  by simp

lemma frame_aligned_bits: "frame_aligned a \<longleftrightarrow> (\<forall>n<12. \<not> bit a n)"
proof -
  have "frame_aligned a \<longleftrightarrow> a AND mask 12 = 0"
    by (simp only: mask_12_eq frame_aligned_unat unat_and_low12 flip: unat_eq_zero)
  also have "\<dots> \<longleftrightarrow> (\<forall>n<12. \<not> bit a n)"
    by (auto simp: bit_eq_iff bit_and_iff bit_mask_iff) (metis less_trans num_12_less_64)
  finally show ?thesis .
qed

lemma unat_exp_below: "k < 64 \<Longrightarrow> unat (2 ^ k :: 64 word) = 2 ^ k"
  using unat_of_nat_small [of "2 ^ k", where 'l = 64] power_strict_increasing [of k 64 "2 :: nat"] by simp

lemma below_limit_bits:
  assumes "a < physical_address_limit cfg" "config_ok cfg" "bit a n"
  shows "n < pc_physical_address_bits cfg"
proof -
  let ?b = "pc_physical_address_bits cfg"
  have "unat a < 2 ^ ?b"
    using assms(1,2) by (simp add: physical_address_limit_def word_less_nat_alt unat_exp_below config_ok_def)
  then have "\<not> bit (unat a) n" if "?b \<le> n"
    using that by (metis bit_take_bit_iff not_le take_bit_nat_eq_self)
  then show ?thesis
    using assms(3) by (auto simp: bit_unsigned_iff not_le [symmetric])
qed

lemma from_start_address_masked:
  "config_ok cfg \<Longrightarrow> from_start_address (e AND physical_address_mask cfg) = Some (e AND physical_address_mask cfg)"
  using frame_aligned_bits [of "e AND physical_address_mask cfg"]
  by (simp add: from_start_address_def frame_aligned_def bit_and_iff bit_address_mask)

lemma table_frame_eq:
  "config_ok cfg \<Longrightarrow> table_frame e cfg =
     (if bit e 0 \<and> \<not> bit e 7 then Some (entry_physical_address e cfg) else None)"
  by (simp add: table_frame_def entry_physical_address_def from_start_address_masked)

lemma leaf_frame_eq:
  "config_ok cfg \<Longrightarrow> leaf_frame e cfg = (if bit e 0 then Some (entry_physical_address e cfg) else None)"
  by (simp add: leaf_frame_def entry_physical_address_def from_start_address_masked)

lemma masked_frame_with_flags:
  assumes "config_ok cfg" "frame_aligned f" "f < physical_address_limit cfg"
    and "\<And>n. 12 \<le> n \<Longrightarrow> n < pc_physical_address_bits cfg \<Longrightarrow> bit e n = bit f n"
  shows "entry_physical_address e cfg = f"
proof (rule bit_word_eqI)
  fix n assume "n < LENGTH(64)"
  show "bit (entry_physical_address e cfg) n = bit f n"
  proof (cases "12 \<le> n")
    case True
    then show ?thesis
      using assms(4) [of n] below_limit_bits [OF assms(3,1), of n]
      by (auto simp: entry_physical_address_def bit_and_iff bit_address_mask [OF assms(1)])
  next
    case False
    then show ?thesis
      using assms(2) unfolding frame_aligned_bits
      by (auto simp: entry_physical_address_def bit_and_iff bit_address_mask [OF assms(1)])
  qed
qed

lemma or_if: "(if b then v OR x else v) = v OR (if b then x else 0 :: 64 word)"
  by simp

lemma or_cache:
  "(case c of WriteBack \<Rightarrow> v | Uncacheable \<Rightarrow> v OR x) = v OR (if c = Uncacheable then x else 0 :: 64 word)"
  by (cases c) simp_all

lemma entry_new_value:
  assumes "entry_new f perms cache cfg glob = Inr e"
  shows "e = f OR PRESENT OR (if writable perms then WRITABLE else 0)
      OR (if user_accessible perms then USER_ACCESSIBLE else 0)
      OR (if executable perms then 0 else NX) OR (if glob \<and> pc_global_pages cfg then GLOBAL else 0)
      OR (if cache = Uncacheable then CACHE_DISABLED OR WRITE_THROUGH else 0)"
    and "f < physical_address_limit cfg" and "executable perms \<or> pc_nx_enabled cfg"
  using assms unfolding entry_new_def or_if or_cache
  by (auto simp add: Let_def not_le or.assoc split: if_split_asm)

lemma bit_if_zero: "bit (if b then x else 0 :: 64 word) n \<longleftrightarrow> b \<and> bit x n"
  "bit (if b then 0 else x :: 64 word) n \<longleftrightarrow> \<not> b \<and> bit x n"
  by simp_all

lemma entry_new_bits:
  assumes "entry_new f perms cache cfg glob = Inr e"
  shows "bit e n \<longleftrightarrow> bit f n \<or> n = 0 \<or> (n = 1 \<and> writable perms) \<or> (n = 2 \<and> user_accessible perms)
      \<or> (n = 63 \<and> \<not> executable perms) \<or> (n = 8 \<and> glob \<and> pc_global_pages cfg)
      \<or> ((n = 3 \<or> n = 4) \<and> cache = Uncacheable)"
  unfolding entry_new_value(1) [OF assms] by (simp only: bit_or_iff bit_if_zero bit_flags) blast

lemma entry_new_decode:
  assumes "entry_new f perms cache cfg glob = Inr e" "frame_aligned f" "config_ok cfg"
  shows "is_present e" "entry_physical_address e cfg = f" "entry_permissions e = perms" "\<not> is_huge e"
    and "is_global_entry e \<longleftrightarrow> glob \<and> pc_global_pages cfg"
proof -
  note b = entry_new_bits [OF assms(1)] and lim = entry_new_value(2) [OF assms(1)]
  have low: "\<And>n. n < 12 \<Longrightarrow> \<not> bit f n" using assms(2) by (simp add: frame_aligned_bits)
  have high: "\<not> bit f 63" using below_limit_bits [OF lim assms(3), of 63] assms(3) by (auto simp: config_ok_def)
  show "is_present e" "\<not> is_huge e" "is_global_entry e \<longleftrightarrow> glob \<and> pc_global_pages cfg"
    using low by (auto simp: b)
  show "entry_permissions e = perms"
    using low [of 1] low [of 2] high by (simp add: entry_permissions_def page_permissions_def b)
  show "entry_physical_address e cfg = f"
    using assms(3) by (intro masked_frame_with_flags [OF assms(3,2) lim]) (auto simp: b config_ok_def)
qed

lemma entry_new_table_decode:
  assumes "entry_new_table f user cfg = Inr e" "frame_aligned f" "config_ok cfg"
  shows "bit e 0" "bit e 1" "bit e 2 = user" "\<not> bit e 7" "\<not> bit e 63" "entry_physical_address e cfg = f"
proof -
  have b: "bit e n \<longleftrightarrow> bit f n \<or> n = 0 \<or> n = 1 \<or> (n = 2 \<and> user)" for n
    using assms(1) by (auto simp: entry_new_table_def Let_def bit_or_iff split: if_splits)
  have lim: "f < physical_address_limit cfg"
    using assms(1) by (auto simp: entry_new_table_def split: if_splits)
  have low: "\<And>n. n < 12 \<Longrightarrow> \<not> bit f n" using assms(2) by (simp add: frame_aligned_bits)
  have high: "\<not> bit f 63" using below_limit_bits [OF lim assms(3), of 63] assms(3) by (auto simp: config_ok_def)
  show "bit e 0" "bit e 1" "bit e 2 = user" "\<not> bit e 7" "\<not> bit e 63" using low high by (auto simp: b)
  show "entry_physical_address e cfg = f"
    using assms(3) by (intro masked_frame_with_flags [OF assms(3,2) lim]) (auto simp: b config_ok_def)
qed

lemma entry_new_table_ok_iff:
  "(\<exists>e. entry_new_table f user cfg = Inr e) \<longleftrightarrow> f < physical_address_limit cfg"
  by (auto simp: entry_new_table_def Let_def)

lemma user_upgrade_fields:
  "config_ok cfg \<Longrightarrow> entry_physical_address (e OR USER_ACCESSIBLE) cfg = entry_physical_address e cfg"
  "bit (e OR USER_ACCESSIBLE) n \<longleftrightarrow> bit e n \<or> n = 2"
  by (auto intro!: bit_word_eqI simp: entry_physical_address_def bit_and_iff bit_or_iff bit_address_mask)

lemma null_entry [simp]: "\<not> bit (0 :: u64) n" by simp

subsection \<open>Table indices and page offsets\<close>

lemma and_511: "unat (x AND 0x1FF :: 64 word) = unat x mod 512"
proof -
  have "x AND 0x1FF = take_bit 9 x" by (metis mask_9_eq take_bit_eq_mask)
  then show ?thesis by (simp add: take_bit_eq_mod unat_mod_distrib)
qed

lemma level_index_unat: "level_index l a = unat a div 2 ^ level_shift l mod 512"
  unfolding level_index_def and_511 by (cases l) (simp_all add: drop_bit_eq_div unat_div_distrib)

lemma p1_index_unat: "p1_index a = unat a div 4096 mod 512"
  unfolding p1_index_def and_511 by (simp add: drop_bit_eq_div unat_div_distrib)

lemma index_bounds [simp]: "level_index l a < 512" "p1_index a < 512"
  by (simp_all add: level_index_unat p1_index_unat)

lemma page_offset_unat: "unat (page_offset a) = unat a mod 4096"
  by (simp add: page_offset_def unat_and_low12)

text \<open>The page of an address, as the sequence of its table indices.\<close>

definition page_path :: "PageTable \<Rightarrow> usize \<Rightarrow> nat list" where
  "page_path pt a = map (\<lambda>l. level_index l a) (pt_levels pt)"

lemma length_page_path [simp]: "length (page_path pt a) = length (pt_levels pt)"
  by (simp add: page_path_def)

lemma page_path_bounds: "i \<in> set (page_path pt a) \<Longrightarrow> i < 512"
  by (auto simp: page_path_def)

end
