(* ===== verification/Radix_Tree.thy ===== *)
theory Radix_Tree
  imports Main "HOL-Library.Sublist"
begin

section \<open>Radix trees as link functions\<close>

text \<open>
  A multi-level table is a function \<open>lk\<close> that gives, for a node and an index, the node the
  entry links to. \<open>walk\<close> follows a path of indices. The tables of a well-formed tree are
  reached by exactly one path (\<open>tree_inj\<close>); under that invariant the effect of writing one
  entry on every walk is known: linking a fresh subtree adds exactly its walks
  (\<open>walk_graft\<close>), clearing a link removes exactly the walks through it (\<open>walk_prune\<close>).
\<close>

primrec walk :: "('f \<Rightarrow> nat \<Rightarrow> 'f option) \<Rightarrow> 'f \<Rightarrow> nat list \<Rightarrow> 'f option" where
  "walk lk f [] = Some f"
| "walk lk f (i # is) = (case lk f i of None \<Rightarrow> None | Some g \<Rightarrow> walk lk g is)"

definition tree_inj :: "('f \<Rightarrow> nat \<Rightarrow> 'f option) \<Rightarrow> 'f \<Rightarrow> nat \<Rightarrow> bool" where
  "tree_inj lk root L \<longleftrightarrow> (\<forall>p q f. length p \<le> L \<longrightarrow> length q \<le> L \<longrightarrow>
     walk lk root p = Some f \<longrightarrow> walk lk root q = Some f \<longrightarrow> p = q)"

definition reach :: "('f \<Rightarrow> nat \<Rightarrow> 'f option) \<Rightarrow> 'f \<Rightarrow> nat \<Rightarrow> 'f set" where
  "reach lk root L = {f. \<exists>p. length p \<le> L \<and> walk lk root p = Some f}"

lemma tree_injD:
  "tree_inj lk root L \<Longrightarrow> length p \<le> L \<Longrightarrow> length q \<le> L \<Longrightarrow>
   walk lk root p = Some f \<Longrightarrow> walk lk root q = Some f \<Longrightarrow> p = q"
  by (auto simp: tree_inj_def)

lemma reachI: "walk lk root p = Some f \<Longrightarrow> length p \<le> L \<Longrightarrow> f \<in> reach lk root L"
  by (auto simp: reach_def)

lemma root_in_reach [simp]: "root \<in> reach lk root L"
  by (rule reachI [of _ _ "[]"]) auto

lemma walk_append:
  "walk lk f (p @ q) = (case walk lk f p of None \<Rightarrow> None | Some g \<Rightarrow> walk lk g q)"
  by (induction p arbitrary: f) (auto split: option.splits)

lemma walk_snoc:
  "walk lk f (p @ [i]) = (case walk lk f p of None \<Rightarrow> None | Some g \<Rightarrow> lk g i)"
  by (simp add: walk_append split: option.splits)

lemma walk_take:
  assumes "walk lk f p = Some g" "k \<le> length p"
  shows "\<exists>h. walk lk f (take k p) = Some h"
  using assms walk_append [of lk f "take k p" "drop k p"] by (auto split: option.splits)

lemma walk_step:
  assumes "walk lk f (take k p) = Some g" "k < length p"
  shows "walk lk f (take (Suc k) p) = lk g (p ! k)"
  using assms by (simp add: take_Suc_conv_app_nth walk_snoc)

lemma walk_cong:
  assumes "\<And>k g. k < length q \<Longrightarrow> walk lk f (take k q) = Some g \<Longrightarrow> lk' g (q ! k) = lk g (q ! k)"
  shows "walk lk' f q = walk lk f q"
  using assms
proof (induction q arbitrary: f)
  case (Cons i q)
  have first: "lk' f i = lk f i" using Cons.prems [of 0 f] by simp
  show ?case
  proof (cases "lk f i")
    case (Some h)
    have "lk' g (q ! k) = lk g (q ! k)" if "k < length q" "walk lk h (take k q) = Some g" for k g
      using Cons.prems [of "Suc k" g] that Some by simp
    then show ?thesis using Cons.IH [of h] first Some by simp
  qed (simp add: first)
qed simp

lemma not_prefix_visits:
  assumes "tree_inj lk root L" "length q \<le> L" "k < length q" "walk lk root (take k q) = Some t"
    and "walk lk root p = Some t" "length p \<le> L" "q ! k = i"
  shows "prefix (p @ [i]) q"
proof -
  have "take k q = p" using tree_injD [OF assms(1) _ assms(6,4,5)] assms(2) by simp
  then have "p @ [i] = take (Suc k) q" using assms(3,7) by (simp add: take_Suc_conv_app_nth)
  then show ?thesis by (metis take_is_prefix)
qed

text \<open>Changing one link changes no walk that does not go through it.\<close>

lemma walk_other:
  assumes inj: "tree_inj lk root L" and t: "walk lk root p = Some t" "length p < L"
    and same: "\<And>q g j. length q < L \<Longrightarrow> walk lk root q = Some g \<Longrightarrow> (g, j) \<noteq> (t, i) \<Longrightarrow> lk' g j = lk g j"
    and q: "length q \<le> L" "\<not> prefix (p @ [i]) q"
  shows "walk lk' root q = walk lk root q"
proof (rule walk_cong)
  fix k g assume k: "k < length q" "walk lk root (take k q) = Some g"
  have "(g, q ! k) \<noteq> (t, i)"
    using not_prefix_visits [OF inj q(1) k(1)] k t q(2) by auto
  then show "lk' g (q ! k) = lk g (q ! k)"
    using same [of "take k q" g] k q(1) by simp
qed

lemma walk_prune:
  assumes inj: "tree_inj lk root L" and t: "walk lk root p = Some t" "length p < L"
    and same: "\<And>q g j. length q < L \<Longrightarrow> walk lk root q = Some g \<Longrightarrow> (g, j) \<noteq> (t, i) \<Longrightarrow> lk' g j = lk g j"
    and gone: "lk' t i = None" and q: "length q \<le> L"
  shows "walk lk' root q = (if prefix (p @ [i]) q then None else walk lk root q)"
proof (cases "prefix (p @ [i]) q")
  case True
  then obtain r where r: "q = p @ i # r" by (auto simp: prefix_def)
  have "walk lk' root p = Some t"
    by (rule walk_other [OF inj t same, THEN trans]) (use t in \<open>auto dest: prefix_length_le\<close>)
  then show ?thesis using r True gone by (simp add: walk_append)
next
  case False
  then show ?thesis using walk_other [OF inj t same q] by simp
qed

lemma prune_inj:
  assumes "tree_inj lk root L" "\<And>q. length q \<le> L \<Longrightarrow> walk lk' root q = None \<or> walk lk' root q = walk lk root q"
  shows "tree_inj lk' root L" "reach lk' root L \<subseteq> reach lk root L"
proof -
  have old: "walk lk root q = Some f" if "length q \<le> L" "walk lk' root q = Some f" for q f
    using assms(2) [OF that(1)] that(2) by auto
  show "tree_inj lk' root L"
    unfolding tree_inj_def using old tree_injD [OF assms(1)] by blast
  show "reach lk' root L \<subseteq> reach lk root L"
    unfolding reach_def using old by blast
qed

text \<open>Linking a fresh subtree at an empty entry.\<close>

lemma walk_graft:
  assumes inj: "tree_inj lk root L" and t: "walk lk root p = Some t" "length p < L"
    and same: "\<And>q g j. length q < L \<Longrightarrow> walk lk root q = Some g \<Longrightarrow> (g, j) \<noteq> (t, i) \<Longrightarrow> lk' g j = lk g j"
    and new: "lk' t i = Some h" and q: "length q \<le> L"
  shows "walk lk' root q = (if prefix (p @ [i]) q then walk lk' h (drop (Suc (length p)) q) else walk lk root q)"
proof (cases "prefix (p @ [i]) q")
  case True
  then obtain r where r: "q = p @ i # r" by (auto simp: prefix_def)
  have "walk lk' root p = Some t"
    by (rule walk_other [OF inj t same, THEN trans]) (use t in \<open>auto dest: prefix_length_le\<close>)
  then show ?thesis using r True new by (simp add: walk_append)
next
  case False
  then show ?thesis using walk_other [OF inj t same q] by simp
qed

lemma graft_inj:
  assumes inj: "tree_inj lk root L" and t: "length p < L"
    and sub: "tree_inj lk' h (L - Suc (length p))"
    and walks: "\<And>q. length q \<le> L \<Longrightarrow> walk lk' root q =
        (if prefix (p @ [i]) q then walk lk' h (drop (Suc (length p)) q) else walk lk root q)"
    and fresh: "reach lk' h (L - Suc (length p)) \<inter> reach lk root L = {}"
  shows "tree_inj lk' root L"
    and "reach lk' root L \<subseteq> reach lk root L \<union> reach lk' h (L - Suc (length p))"
proof -
  have cases_q: "(prefix (p @ [i]) q \<and> walk lk' h (drop (Suc (length p)) q) = Some f
        \<and> f \<in> reach lk' h (L - Suc (length p)))
      \<or> (\<not> prefix (p @ [i]) q \<and> walk lk root q = Some f \<and> f \<in> reach lk root L)"
    if "length q \<le> L" "walk lk' root q = Some f" for q f
    using that walks [of q] by (auto intro!: reachI split: if_splits)
  have split_q: "q = p @ i # drop (Suc (length p)) q" if "prefix (p @ [i]) q" for q
    using that by (auto simp: prefix_def)
  show "tree_inj lk' root L"
    unfolding tree_inj_def
  proof (intro allI impI)
    fix q1 q2 f assume q: "length q1 \<le> L" "length q2 \<le> L" "walk lk' root q1 = Some f" "walk lk' root q2 = Some f"
    have same_side: "prefix (p @ [i]) q1 = prefix (p @ [i]) q2"
      using cases_q [OF q(1,3)] cases_q [OF q(2,4)] fresh by blast
    show "q1 = q2"
    proof (cases "prefix (p @ [i]) q1")
      case True
      then have "drop (Suc (length p)) q1 = drop (Suc (length p)) q2"
        using cases_q [OF q(1,3)] cases_q [OF q(2,4)] same_side q(1,2)
        by (intro tree_injD [OF sub, where f = f]) auto
      then show ?thesis using split_q [of q1] split_q [of q2] True same_side by simp
    next
      case False
      then show ?thesis
        using cases_q [OF q(1,3)] cases_q [OF q(2,4)] same_side tree_injD [OF inj q(1,2)] by blast
    qed
  qed
  show "reach lk' root L \<subseteq> reach lk root L \<union> reach lk' h (L - Suc (length p))"
    using cases_q unfolding reach_def by blast
qed

subsection \<open>The nodes along a path\<close>

primrec trace :: "('f \<Rightarrow> nat \<Rightarrow> 'f option) \<Rightarrow> 'f \<Rightarrow> nat list \<Rightarrow> 'f list option" where
  "trace lk f [] = Some [f]"
| "trace lk f (i # is) = (case lk f i of None \<Rightarrow> None | Some g \<Rightarrow> map_option (Cons f) (trace lk g is))"

lemma trace_nth:
  "trace lk f p = Some fs \<Longrightarrow> length fs = Suc (length p) \<and> (\<forall>k\<le>length p. walk lk f (take k p) = Some (fs ! k))"
proof (induction p arbitrary: f fs)
  case (Cons i p)
  then obtain g gs where g: "lk f i = Some g" "trace lk g p = Some gs" "fs = f # gs"
    by (auto split: option.splits)
  then show ?case
    using Cons.IH [OF g(2)] by (auto simp: take_Cons nth_Cons split: nat.splits)
qed simp

lemma trace_None: "trace lk f p = None \<longleftrightarrow> walk lk f p = None"
  by (induction p arbitrary: f) (auto split: option.splits)

subsection \<open>Chains: each table has one link\<close>

text \<open>\<open>fs\<close> are the tables of the chain, \<open>js\<close> the index of the one link in all but the last.\<close>

fun chain :: "('f \<Rightarrow> nat \<Rightarrow> 'f option) \<Rightarrow> 'f list \<Rightarrow> nat list \<Rightarrow> bool" where
  "chain lk [f] [] = True"
| "chain lk (f # g # fs) (i # is) = ((\<forall>j. lk f j = (if j = i then Some g else None)) \<and> chain lk (g # fs) is)"
| "chain lk _ _ = False"

lemma chain_length: "chain lk fs js \<Longrightarrow> length fs = Suc (length js)"
  by (induction lk fs js rule: chain.induct) auto

lemma walk_chain:
  "chain lk fs js \<Longrightarrow> length r \<le> length js \<Longrightarrow>
   walk lk (hd fs) r = (if prefix r js then Some (fs ! length r) else None)"
proof (induction lk fs js arbitrary: r rule: chain.induct)
  case (2 lk f g fs i "is")
  then show ?case by (cases r) auto
qed auto

lemma chain_inj: "chain lk fs js \<Longrightarrow> distinct fs \<Longrightarrow> tree_inj lk (hd fs) (length js)"
  unfolding tree_inj_def
proof (intro allI impI)
  fix p q f assume c: "chain lk fs js" "distinct fs" "length p \<le> length js" "length q \<le> length js"
    "walk lk (hd fs) p = Some f" "walk lk (hd fs) q = Some f"
  then have p: "prefix p js" "prefix q js" "fs ! length p = fs ! length q"
    by (auto simp: walk_chain split: if_splits)
  then have "length p = length q"
    using c chain_length [OF c(1)] by (metis less_Suc_eq_le nth_eq_iff_index_eq)
  then show "p = q" using p(1,2) by (metis prefix_def append_eq_append_conv)
qed

lemma chain_reach: "chain lk fs js \<Longrightarrow> reach lk (hd fs) (length js) \<subseteq> set fs"
  by (auto simp: reach_def walk_chain chain_length split: if_splits)

end
