(* ===== verification/Paging_Cells.thy ===== *)
theory Paging_Cells
  imports Paging_Entries Radix_Tree
begin

section \<open>Page tables as cells of memory\<close>

text \<open>
  The entry of a table is a cell, named by the table's frame and the index. Cells of
  different frames, or with different indices, do not overlap, so writing one cell leaves
  all others alone; a change confined to a set of frames (\<open>same_except\<close>) leaves the cells
  of all other frames alone. \<open>links\<close> is the radix tree the tables form.
\<close>

definition dm_frame :: "PageTable \<Rightarrow> FrameAddr \<Rightarrow> bool" where
  "dm_frame pt f \<longleftrightarrow> frame_aligned f \<and> unat f + 4096 + unat (dm_offset (pt_direct_map pt)) \<le> 2 ^ 64"

definition ent :: "PageTable \<Rightarrow> mem \<Rightarrow> FrameAddr \<Rightarrow> nat \<Rightarrow> PageTableEntry" where
  "ent pt m f i = entry_at m (f + dm_offset (pt_direct_map pt)) i"

definition set_ent :: "PageTable \<Rightarrow> mem \<Rightarrow> FrameAddr \<Rightarrow> nat \<Rightarrow> PageTableEntry \<Rightarrow> mem" where
  "set_ent pt m f i e = set_entry m (f + dm_offset (pt_direct_map pt)) i e"

definition in_frame :: "PageTable \<Rightarrow> FrameAddr \<Rightarrow> usize \<Rightarrow> bool" where
  "in_frame pt f x \<longleftrightarrow> unat f + unat (dm_offset (pt_direct_map pt)) \<le> unat x
     \<and> unat x < unat f + unat (dm_offset (pt_direct_map pt)) + 4096"

definition same_except :: "PageTable \<Rightarrow> FrameAddr set \<Rightarrow> mem \<Rightarrow> mem \<Rightarrow> bool" where
  "same_except pt S m m' \<longleftrightarrow> (\<forall>x. (\<forall>f\<in>S. \<not> in_frame pt f x) \<longrightarrow> m' x = m x)"

lemma same_except_refl [simp]: "same_except pt S m m"
  by (simp add: same_except_def)

lemma same_except_trans:
  "same_except pt S m m' \<Longrightarrow> same_except pt T m' m'' \<Longrightarrow> S \<union> T \<subseteq> R \<Longrightarrow> same_except pt R m m''"
  by (simp add: same_except_def) (metis subsetD)

lemma same_except_mono: "same_except pt S m m' \<Longrightarrow> S \<subseteq> R \<Longrightarrow> same_except pt R m m'"
  by (auto simp: same_except_def)

lemma dm_frame_unat:
  "dm_frame pt f \<Longrightarrow> unat (f + dm_offset (pt_direct_map pt)) = unat f + unat (dm_offset (pt_direct_map pt))"
  by (rule unat_add_no_overflow) (simp add: dm_frame_def)

lemma dm_frame_table: "dm_frame pt f \<Longrightarrow> table pt f = Some (f + dm_offset (pt_direct_map pt))"
  by (simp add: table_def translate_Some_iff dm_frame_def)

lemma frames_apart:
  assumes "frame_aligned f" "frame_aligned g" "f \<noteq> g"
  shows "unat f + 4096 \<le> unat g \<or> unat g + 4096 \<le> unat f"
proof -
  have "frame_index f \<noteq> frame_index g"
    using assms frame_index_inj by simp
  then have "frame_index f + 1 \<le> frame_index g \<or> frame_index g + 1 \<le> frame_index f"
    by linarith
  then show ?thesis
    using frame_unat_index [OF assms(1)] frame_unat_index [OF assms(2)] by auto
qed

lemma cell_unat:
  assumes "dm_frame pt f" "i < 512"
  shows "unat (f + dm_offset (pt_direct_map pt) + of_nat (8 * i))
       = unat f + unat (dm_offset (pt_direct_map pt)) + 8 * i"
proof -
  have "unat (f + dm_offset (pt_direct_map pt)) + 8 * i < 2 ^ 64"
    using assms by (simp add: dm_frame_unat dm_frame_def)
  then show ?thesis
    using unat_add_small [of "f + dm_offset (pt_direct_map pt)" "8 * i"] assms(1) dm_frame_unat by simp
qed

lemma ent_set_ent:
  assumes "dm_frame pt f" "dm_frame pt g" "i < 512" "j < 512"
  shows "ent pt (set_ent pt m f i e) g j = (if g = f \<and> j = i then e else ent pt m g j)"
proof (cases "g = f \<and> j = i")
  case True
  then show ?thesis by (simp add: ent_def set_ent_def entry_at_def set_entry_def)
next
  case False
  let ?o = "dm_offset (pt_direct_map pt)"
  have "unat f + 8 * i + 8 \<le> unat g + 8 * j \<or> unat g + 8 * j + 8 \<le> unat f + 8 * i"
    using False frames_apart [of f g] assms by (cases "g = f") (auto simp: dm_frame_def)
  then show ?thesis
    using False cell_unat [OF assms(1,3)] cell_unat [OF assms(2,4)] assms
    unfolding ent_def set_ent_def entry_at_def set_entry_def
    by (subst read_u64_write_other) (auto simp: dm_frame_def)
qed

lemma set_ent_same_except:
  assumes "dm_frame pt f" "i < 512"
  shows "same_except pt {f} m (set_ent pt m f i e)"
  unfolding same_except_def
proof (intro allI impI)
  fix x assume "\<forall>f\<in>{f}. \<not> in_frame pt f x"
  moreover have "unat (f + dm_offset (pt_direct_map pt) + of_nat (8 * i)) + 8 \<le> 2 ^ 64"
    using assms by (simp add: cell_unat [simplified] dm_frame_def)
  ultimately show "set_ent pt m f i e x = m x"
    using assms cell_unat [OF assms]
    by (auto simp: set_ent_def set_entry_def write_u64_def write_bytes_def in_range_iff in_frame_def)
qed

lemma same_except_ent:
  assumes "same_except pt S m m'" "dm_frame pt g" "g \<notin> S" "\<And>f. f \<in> S \<Longrightarrow> dm_frame pt f" "j < 512"
  shows "ent pt m' g j = ent pt m g j"
proof -
  let ?o = "dm_offset (pt_direct_map pt)" and ?a = "g + dm_offset (pt_direct_map pt) + of_nat (8 * j)"
  have "m' (?a + of_nat k) = m (?a + of_nat k)" if "k < 8" for k
  proof -
    have "unat (?a + of_nat k) = unat g + unat ?o + 8 * j + k"
      using cell_unat [OF assms(2,5)] that assms(2,5) unat_add_small [of ?a k] by (simp add: dm_frame_def)
    then have "\<not> in_frame pt f (?a + of_nat k)" if "f \<in> S" for f
      using frames_apart [of f g] assms(2,5) assms(4) [OF that] \<open>k < 8\<close> assms(3) that
      by (cases "f = g") (auto simp: in_frame_def dm_frame_def)
    then show ?thesis using assms(1) by (simp add: same_except_def)
  qed
  then show ?thesis
    unfolding ent_def entry_at_def read_u64_def by (metis read_bytes_cong)
qed

lemma ent_fill_zero:
  assumes "dm_frame pt f" "j < 512"
  shows "ent pt (fill_bytes m (f + dm_offset (pt_direct_map pt)) 0 4096) f j = 0"
proof -
  let ?v = "f + dm_offset (pt_direct_map pt)"
  have "read_bytes (fill_bytes m ?v 0 4096) (?v + of_nat (8 * j)) 8 = replicate 8 0"
    using cell_unat [OF assms] dm_frame_unat [OF assms(1)] assms
    by (intro read_bytes_fill_inside) (auto simp: dm_frame_def)
  then show ?thesis
    by (simp only: ent_def entry_at_def read_u64_def from_le_bytes_zeros)
qed

lemma fill_same_except:
  assumes "dm_frame pt f"
  shows "same_except pt {f} m (fill_bytes m (f + dm_offset (pt_direct_map pt)) v 4096)"
proof -
  have "unat (f + dm_offset (pt_direct_map pt)) + 4096 \<le> 2 ^ 64"
    using assms dm_frame_unat [OF assms] by (simp add: dm_frame_def)
  then show ?thesis
    using dm_frame_unat [OF assms] by (simp add: same_except_def fill_bytes_def in_range_iff in_frame_def)
qed

subsection \<open>The tree of tables\<close>

definition links :: "PageTable \<Rightarrow> mem \<Rightarrow> FrameAddr \<Rightarrow> nat \<Rightarrow> FrameAddr option" where
  "links pt m f i = (if i < 512 then table_frame (ent pt m f i) (pt_config pt) else None)"

abbreviation pt_depth :: "PageTable \<Rightarrow> nat" where
  "pt_depth pt \<equiv> length (pt_levels pt)"

abbreviation pt_walk :: "PageTable \<Rightarrow> mem \<Rightarrow> nat list \<Rightarrow> FrameAddr option" where
  "pt_walk pt m \<equiv> walk (links pt m) (pt_frame pt)"

abbreviation pt_tables :: "PageTable \<Rightarrow> mem \<Rightarrow> FrameAddr set" where
  "pt_tables pt m \<equiv> reach (links pt m) (pt_frame pt) (pt_depth pt)"

text \<open>The allocator and the page table agree on the direct map.\<close>

definition pt_ok :: "PageTable \<Rightarrow> FrameAllocator \<Rightarrow> bool" where
  "pt_ok pt fa \<longleftrightarrow> fa_inv fa \<and> config_ok (pt_config pt) \<and> pt_direct_map pt = fa_direct_map fa"

lemma fa_state_dm_frame:
  assumes "pt_ok pt fa" "fa_state fa f = Some st"
  shows "dm_frame pt f"
  using assms fa_state_in_direct_map [of fa f st]
  by (auto simp: pt_ok_def dm_frame_def fa_state_def split: if_splits)

text \<open>
  The invariant of a page table: every table is an allocated frame and is reached by one
  path; the entries above the last level are never large pages, and present ones are
  writable and executable; and a page is only user-accessible when every link on the way to it is.
\<close>

definition pt_inv :: "PageTable \<Rightarrow> FrameAllocator \<Rightarrow> mem \<Rightarrow> bool" where
  "pt_inv pt fa m \<longleftrightarrow> pt_ok pt fa
   \<and> tree_inj (links pt m) (pt_frame pt) (pt_depth pt)
   \<and> (\<forall>f\<in>pt_tables pt m. fa_state fa f = Some Allocated)
   \<and> (\<forall>p f i. length p < pt_depth pt \<longrightarrow> pt_walk pt m p = Some f \<longrightarrow> i < 512 \<longrightarrow>
        \<not> bit (ent pt m f i) 7 \<and> (bit (ent pt m f i) 0 \<longrightarrow> bit (ent pt m f i) 1 \<and> \<not> bit (ent pt m f i) 63))
   \<and> (\<forall>p t i. length p = pt_depth pt \<longrightarrow> pt_walk pt m p = Some t \<longrightarrow> i < 512 \<longrightarrow>
        bit (ent pt m t i) 0 \<longrightarrow> bit (ent pt m t i) 2 \<longrightarrow>
        (\<forall>k<pt_depth pt. \<forall>g. pt_walk pt m (take k p) = Some g \<longrightarrow> bit (ent pt m g (p ! k)) 2))"

lemma pt_invD:
  assumes "pt_inv pt fa m"
  shows "pt_ok pt fa" "config_ok (pt_config pt)" "tree_inj (links pt m) (pt_frame pt) (pt_depth pt)"
    and "\<And>f. f \<in> pt_tables pt m \<Longrightarrow> fa_state fa f = Some Allocated"
    and "\<And>f. f \<in> pt_tables pt m \<Longrightarrow> dm_frame pt f"
    and "\<And>p f i. length p < pt_depth pt \<Longrightarrow> pt_walk pt m p = Some f \<Longrightarrow> i < 512 \<Longrightarrow>
        \<not> bit (ent pt m f i) 7 \<and> (bit (ent pt m f i) 0 \<longrightarrow> bit (ent pt m f i) 1 \<and> \<not> bit (ent pt m f i) 63)"
    and "\<And>p t i k g. length p = pt_depth pt \<Longrightarrow> pt_walk pt m p = Some t \<Longrightarrow> i < 512 \<Longrightarrow>
        bit (ent pt m t i) 0 \<Longrightarrow> bit (ent pt m t i) 2 \<Longrightarrow> k < pt_depth pt \<Longrightarrow>
        pt_walk pt m (take k p) = Some g \<Longrightarrow> bit (ent pt m g (p ! k)) 2"
  using assms fa_state_dm_frame unfolding pt_inv_def pt_ok_def by blast+

lemma links_eq:
  "config_ok (pt_config pt) \<Longrightarrow> links pt m f i =
     (if i < 512 \<and> bit (ent pt m f i) 0 \<and> \<not> bit (ent pt m f i) 7
      then Some (entry_physical_address (ent pt m f i) (pt_config pt)) else None)"
  by (simp add: links_def table_frame_eq)

text \<open>Under the invariant the descent functions of the code read the cells of the walk.\<close>

lemma pt_walk_prefix_table:
  "pt_inv pt fa m \<Longrightarrow> pt_walk pt m p = Some f \<Longrightarrow> length p \<le> pt_depth pt \<Longrightarrow>
   dm_frame pt f \<and> table pt f = Some (f + dm_offset (pt_direct_map pt))"
  using pt_invD(5) reachI dm_frame_table by metis

end
