(* ===== verification/Paging_Lookup.thy ===== *)
theory Paging_Lookup
  imports Paging_Cells
begin

section \<open>Address translation reads the leaf entry\<close>

text \<open>
  Under the page-table invariant, \<open>page_table_to_physical\<close> and \<open>page_table_mapping\<close> are
  functions of one entry, the leaf of the page (\<open>page_entry\<close>), and the leaf is found at the
  end of the path of table indices. Canonical addresses with the same indices lie in the
  same page.
\<close>

definition page_entry :: "PageTable \<Rightarrow> mem \<Rightarrow> usize \<Rightarrow> PageTableEntry option" where
  "page_entry pt m a =
     (case pt_walk pt m (page_path pt a) of
        None \<Rightarrow> None
      | Some t \<Rightarrow> (let e = ent pt m t (p1_index a) in if bit e 0 then Some e else None))"

lemma entry_address_bound:
  assumes "config_ok cfg"
  shows "unat (entry_physical_address e cfg) < 2 ^ 52"
proof -
  have "take_bit 52 (entry_physical_address e cfg) = entry_physical_address e cfg"
    using assms by (intro bit_word_eqI)
      (auto simp: bit_take_bit_iff entry_physical_address_def bit_and_iff bit_address_mask config_ok_def)
  then have "unat (entry_physical_address e cfg) = take_bit 52 (unat (entry_physical_address e cfg))"
    by (metis unsigned_take_bit_eq)
  then show ?thesis by (metis take_bit_nat_less_exp)
qed

lemma entry_address_aligned:
  "config_ok cfg \<Longrightarrow> frame_aligned (entry_physical_address e cfg)"
  by (simp add: frame_aligned_bits entry_physical_address_def bit_and_iff bit_address_mask)

lemma page_offset_add:
  assumes "config_ok cfg"
  shows "checked_add (entry_physical_address e cfg) (page_offset a)
       = Some (entry_physical_address e cfg + page_offset a)"
  using entry_address_bound [OF assms, of e] page_offset_unat [of a] mod_less_divisor [of 4096 "unat a"]
  by (simp add: checked_add_def)

subsection \<open>The descents\<close>

lemma to_physical_walk_spec:
  assumes inv: "pt_inv pt fa m" and "pt_levels pt = pre @ ls"
    and "pt_walk pt m (map (\<lambda>l. level_index l a) pre) = Some t"
  shows "to_physical_walk pt m a ls t =
    (case walk (links pt m) t (map (\<lambda>l. level_index l a) ls) of
       None \<Rightarrow> None
     | Some u \<Rightarrow> let e = ent pt m u (p1_index a) in
         if bit e 0 then Some (entry_physical_address e (pt_config pt) + page_offset a) else None)"
  using assms(2,3)
proof (induction ls arbitrary: pre t)
  case Nil
  note tb = pt_walk_prefix_table [OF inv Nil.prems(2)]
  show ?case
    using tb Nil.prems(1) pt_invD(2) [OF inv]
    by (simp add: leaf_frame_eq page_offset_add ent_def Let_def)
next
  case (Cons l ls)
  let ?e = "ent pt m t (level_index l a)"
  note tb = pt_walk_prefix_table [OF inv Cons.prems(2)]
  have nohuge: "bit ?e 0 \<Longrightarrow> \<not> bit ?e 7"
    using pt_invD(6) [OF inv _ Cons.prems(2)] Cons.prems(1) by auto
  have lk: "links pt m t (level_index l a) = (if bit ?e 0 then Some (entry_physical_address ?e (pt_config pt)) else None)"
    using nohuge pt_invD(2) [OF inv] by (simp add: links_eq)
  show ?case
  proof (cases "bit ?e 0")
    case False
    then show ?thesis using tb Cons.prems(1) lk by (simp add: ent_def)
  next
    case True
    let ?n = "entry_physical_address ?e (pt_config pt)"
    have "pt_walk pt m (map (\<lambda>l. level_index l a) (pre @ [l])) = Some ?n"
      using Cons.prems(2) lk True by (simp add: walk_snoc)
    then have IH: "to_physical_walk pt m a ls ?n =
      (case walk (links pt m) ?n (map (\<lambda>l. level_index l a) ls) of
         None \<Rightarrow> None
       | Some u \<Rightarrow> let e = ent pt m u (p1_index a) in
           if bit e 0 then Some (entry_physical_address e (pt_config pt) + page_offset a) else None)"
      using Cons.IH [of "pre @ [l]"] Cons.prems(1) by simp
    have "to_physical_walk pt m a (l # ls) t = to_physical_walk pt m a ls ?n"
      using True nohuge tb Cons.prems(1) pt_invD(2) [OF inv] by (simp add: ent_def table_frame_eq)
    then show ?thesis using IH lk True by simp
  qed
qed

lemma mapping_walk_spec:
  assumes inv: "pt_inv pt fa m" and "pt_levels pt = pre @ ls"
    and "pt_walk pt m (map (\<lambda>l. level_index l a) pre) = Some t"
  shows "mapping_walk pt m a ls t p =
    (case walk (links pt m) t (map (\<lambda>l. level_index l a) ls) of
       None \<Rightarrow> None
     | Some u \<Rightarrow> let e = ent pt m u (p1_index a) in
         if bit e 0 then Some \<lparr>writable = writable p \<and> bit e 1, executable = executable p \<and> \<not> bit e 63,
             user_accessible = user_accessible p \<and> bit e 2 \<and>
               (\<forall>k<length ls. \<forall>g. walk (links pt m) t (take k (map (\<lambda>l. level_index l a) ls)) = Some g \<longrightarrow>
                  bit (ent pt m g (level_index (ls ! k) a)) 2)\<rparr>
         else None)"
  using assms(2,3)
proof (induction ls arbitrary: pre t p)
  case Nil
  note tb = pt_walk_prefix_table [OF inv Nil.prems(2)]
  show ?case
    using tb Nil.prems(1) by (auto simp: and_permissions_def ent_def Let_def)
next
  case (Cons l ls)
  let ?e = "ent pt m t (level_index l a)"
  note tb = pt_walk_prefix_table [OF inv Cons.prems(2)]
  have ok: "bit ?e 0 \<Longrightarrow> \<not> bit ?e 7 \<and> bit ?e 1 \<and> \<not> bit ?e 63"
    using pt_invD(6) [OF inv _ Cons.prems(2)] Cons.prems(1) by auto
  have lk: "links pt m t (level_index l a) = (if bit ?e 0 then Some (entry_physical_address ?e (pt_config pt)) else None)"
    using ok pt_invD(2) [OF inv] by (simp add: links_eq)
  show ?case
  proof (cases "bit ?e 0")
    case False
    then show ?thesis using tb Cons.prems(1) lk by (simp add: ent_def)
  next
    case True
    let ?n = "entry_physical_address ?e (pt_config pt)" and ?p = "and_permissions p ?e"
    have "pt_walk pt m (map (\<lambda>l. level_index l a) (pre @ [l])) = Some ?n"
      using Cons.prems(2) lk True by (simp add: walk_snoc)
    note IH = Cons.IH [of "pre @ [l]" ?n ?p, OF _ this]
    have step: "mapping_walk pt m a (l # ls) t p = mapping_walk pt m a ls ?n ?p"
      using True ok tb Cons.prems(1) pt_invD(2) [OF inv] by (simp add: ent_def table_frame_eq Let_def)
    have all: "(\<forall>k<length (l # ls). \<forall>g. walk (links pt m) t (take k (map (\<lambda>l. level_index l a) (l # ls))) = Some g \<longrightarrow>
          bit (ent pt m g (level_index ((l # ls) ! k) a)) 2) \<longleftrightarrow>
        bit ?e 2 \<and> (\<forall>k<length ls. \<forall>g. walk (links pt m) ?n (take k (map (\<lambda>l. level_index l a) ls)) = Some g \<longrightarrow>
          bit (ent pt m g (level_index (ls ! k) a)) 2)"
      using lk True by (auto simp: less_Suc_eq_0_disj)
    show ?thesis
      unfolding step all using IH Cons.prems(1) ok True lk
      by (auto simp: and_permissions_def Let_def split: option.splits)
  qed
qed

lemma page_table_to_physical_eq:
  assumes "pt_inv pt fa m" "is_canonical pt a"
  shows "page_table_to_physical pt m a =
     map_option (\<lambda>e. entry_physical_address e (pt_config pt) + page_offset a) (page_entry pt m a)"
  using to_physical_walk_spec [OF assms(1), of "[]" "pt_levels pt"] assms(2)
  by (simp add: page_table_to_physical_def page_entry_def page_path_def Let_def split: option.splits)

lemma page_table_mapping_eq:
  assumes inv: "pt_inv pt fa m" and "is_canonical pt a"
  shows "page_table_mapping pt m a = map_option entry_permissions (page_entry pt m a)"
proof (cases "page_entry pt m a")
  case None
  then show ?thesis
    using mapping_walk_spec [OF inv, of "[]" "pt_levels pt"] assms(2)
    by (auto simp: page_table_mapping_def page_entry_def page_path_def Let_def split: option.splits if_splits)
next
  case (Some e)
  then obtain t where t: "pt_walk pt m (page_path pt a) = Some t" "e = ent pt m t (p1_index a)" "bit e 0"
    by (auto simp: page_entry_def Let_def split: option.splits if_splits)
  have "bit e 2 \<Longrightarrow> k < pt_depth pt \<Longrightarrow> pt_walk pt m (take k (page_path pt a)) = Some g \<Longrightarrow>
      bit (ent pt m g (level_index (pt_levels pt ! k) a)) 2" for k g
    using pt_invD(7) [OF inv _ t(1), of "p1_index a" k g] t by (simp add: page_path_def)
  then show ?thesis
    using mapping_walk_spec [OF inv, of "[]" "pt_levels pt"] assms(2) Some t
    by (auto simp: page_table_mapping_def page_path_def Let_def entry_permissions_def page_permissions_def)
qed

subsection \<open>Pages and paths\<close>

definition same_page :: "usize \<Rightarrow> usize \<Rightarrow> bool" where
  "same_page a b \<longleftrightarrow> unat a div 4096 = unat b div 4096"

lemma bit_and_511: "bit (x AND 0x1FF :: 64 word) n \<longleftrightarrow> bit x n \<and> n < 9"
  unfolding mask_9_eq [symmetric] by (auto simp: bit_and_iff bit_mask_iff)

lemma index_bits:
  fixes a b :: usize
  assumes "unat (drop_bit s a AND 0x1FF) = unat (drop_bit s b AND 0x1FF)" "s \<le> n" "n < s + 9"
  shows "bit a n = bit b n"
proof -
  have "bit (drop_bit s a AND 0x1FF) (n - s) = bit (drop_bit s b AND 0x1FF) (n - s)"
    by (simp only: word_unat_eq_iff [THEN iffD2, OF assms(1)])
  then show ?thesis
    using assms(2,3) unfolding bit_and_511 by (auto simp: bit_drop_bit_eq)
qed

lemma canonical_bits:
  assumes "is_canonical pt a" "virtual_address_bits (pc_mode (pt_config pt)) \<le> n" "n < 64"
  shows "bit a n = bit a (virtual_address_bits (pc_mode (pt_config pt)) - 1)"
proof -
  let ?v = "virtual_address_bits (pc_mode (pt_config pt))"
  let ?s = "64 - ?v"
  have v: "0 < ?v" "?v < 64" by (cases "pc_mode (pt_config pt)"; simp)+
  have "bit a n = bit (signed_drop_bit ?s (push_bit ?s a)) n"
    using assms(1) by (simp add: is_canonical_def Let_def)
  also have "\<dots> = bit (push_bit ?s a) 63"
    using assms(2,3) v by (auto simp: bit_signed_drop_bit_iff)
  also have "\<dots> = bit a (?v - 1)"
    using v by (auto simp: bit_push_bit_iff)
  finally show ?thesis .
qed

lemma index_equal_bits:
  assumes "page_path pt a = page_path pt b" "p1_index a = p1_index b"
    and "12 \<le> n" "n < virtual_address_bits (pc_mode (pt_config pt))"
  shows "bit a n = bit b n"
proof -
  have lv: "bit a n = bit b n" if "l \<in> set (pt_levels pt)" "level_shift l \<le> n" "n < level_shift l + 9" for l
    using assms(1) that by (intro index_bits [of "level_shift l"]) (auto simp: page_path_def level_index_def)
  have p1: "bit a n = bit b n" if "n < 21"
    using assms(2,3) that by (intro index_bits [of 12]) (auto simp: p1_index_def)
  consider "n < 21" | "21 \<le> n" "n < 30" | "30 \<le> n" "n < 39" | "39 \<le> n" "n < 48" | "48 \<le> n" by linarith
  then show ?thesis
    using p1 lv [of PageDirectory] lv [of Pdpt] lv [of Pml4] lv [of Pml5] assms(4)
    by cases (cases "pc_mode (pt_config pt)";
        auto simp: pt_levels_def FOUR_LEVEL_INTERMEDIATES_def FIVE_LEVEL_INTERMEDIATES_def)+
qed

lemma same_page_bits: "same_page a b \<longleftrightarrow> (\<forall>n. 12 \<le> n \<longrightarrow> bit a n = bit b n)"
proof -
  have bits: "x = y \<longleftrightarrow> (\<forall>n. bit x n = bit y n)" for x y :: "64 word"
    by (auto intro: bit_word_eqI)
  have "same_page a b \<longleftrightarrow> drop_bit 12 a = drop_bit 12 b"
    by (simp add: same_page_def word_unat_eq_iff drop_bit_eq_div unat_div_distrib)
  also have "\<dots> \<longleftrightarrow> (\<forall>n. bit a (12 + n) = bit b (12 + n))"
    unfolding bits by (simp add: bit_drop_bit_eq)
  also have "\<dots> \<longleftrightarrow> (\<forall>n. 12 \<le> n \<longrightarrow> bit a n = bit b n)"
    by (metis le_add1 le_add_diff_inverse)
  finally show ?thesis .
qed

lemma same_page_iff:
  assumes "is_canonical pt a" "is_canonical pt b"
  shows "same_page a b \<longleftrightarrow> page_path pt a = page_path pt b \<and> p1_index a = p1_index b"
proof
  assume "same_page a b"
  then have "unat a div 4096 = unat b div 4096" by (simp add: same_page_def)
  then have "unat a div 2 ^ (12 + k) = unat b div 2 ^ (12 + k)" for k
    by (simp add: power_add div_mult2_eq)
  from this [of 9] this [of 18] this [of 27] this [of 36] \<open>unat a div 4096 = _\<close>
  have "level_index l a = level_index l b" "p1_index a = p1_index b" for l
    by (cases l; simp add: level_index_unat p1_index_unat)+
  then show "page_path pt a = page_path pt b \<and> p1_index a = p1_index b"
    by (simp add: page_path_def)
next
  let ?v = "virtual_address_bits (pc_mode (pt_config pt))"
  assume idx: "page_path pt a = page_path pt b \<and> p1_index a = p1_index b"
  have v: "12 \<le> ?v - 1" "?v - 1 < ?v" by (cases "pc_mode (pt_config pt)"; simp)+
  show "same_page a b"
    unfolding same_page_bits
  proof (intro allI impI)
    fix n :: nat assume n: "12 \<le> n"
    show "bit a n = bit b n"
    proof (cases "n < ?v")
      case True
      then show ?thesis using index_equal_bits [of pt a b n] idx n by simp
    next
      case False
      then show ?thesis
        using canonical_bits [OF assms(1), of n] canonical_bits [OF assms(2), of n]
          index_equal_bits [of pt a b "?v - 1"] idx v
        by (cases "n < 64") (auto dest: bit_imp_le_length)
    qed
  qed
qed

end
