(* ===== verification/Paging_Steps.thy ===== *)
theory Paging_Steps
  imports Paging_Lookup
begin

section \<open>Elementary changes of a page table\<close>

text \<open>
  \<open>map\<close> and \<open>unmap\<close> change memory in a few ways: they write frames that are not tables, set
  the user bit of links, write a leaf entry, link a chain of fresh tables, and clear the
  link of an empty table. Each keeps the invariant, and its effect on the leaf of every
  page is stated exactly.
\<close>

lemma walk_index_bound:
  assumes "pt_walk pt m p = Some f" "k < length p"
  shows "p ! k < 512"
proof -
  obtain g where g: "pt_walk pt m (take k p) = Some g"
    using walk_take [OF assms(1), of k] assms(2) by auto
  obtain h where "pt_walk pt m (take (Suc k) p) = Some h"
    using walk_take [OF assms(1), of "Suc k"] assms(2) by auto
  then show ?thesis
    using walk_step [OF g assms(2)] by (auto simp: links_def split: if_splits)
qed

lemma table_frame_upgrade:
  "config_ok cfg \<Longrightarrow> table_frame (e OR USER_ACCESSIBLE) cfg = table_frame e cfg"
  by (simp add: table_frame_eq user_upgrade_fields)

lemma leaf_table_unique:
  assumes "pt_inv pt fa m" "pt_walk pt m p = Some f" "pt_walk pt m q = Some f"
    "length p \<le> pt_depth pt" "length q \<le> pt_depth pt"
  shows "p = q"
  using tree_injD [OF pt_invD(3) [OF assms(1)] assms(4,5,2,3)] .

subsection \<open>Changes that keep every link\<close>

text \<open>Links may gain the user bit; leaves may change as long as user pages stay reachable for users.\<close>

lemma pt_inv_same_links:
  assumes inv: "pt_inv pt fa m" and ok: "pt_ok pt fa'"
    and alloc: "\<And>f. f \<in> pt_tables pt m \<Longrightarrow> fa_state fa' f = Some Allocated"
    and upd: "\<And>p g j. length p < pt_depth pt \<Longrightarrow> pt_walk pt m p = Some g \<Longrightarrow> j < 512 \<Longrightarrow>
       ent pt m' g j = ent pt m g j \<or> ent pt m' g j = ent pt m g j OR USER_ACCESSIBLE"
    and leaf: "\<And>p u i k g. length p = pt_depth pt \<Longrightarrow> pt_walk pt m p = Some u \<Longrightarrow> i < 512 \<Longrightarrow>
       bit (ent pt m' u i) 0 \<Longrightarrow> bit (ent pt m' u i) 2 \<Longrightarrow> k < pt_depth pt \<Longrightarrow>
       pt_walk pt m (take k p) = Some g \<Longrightarrow> bit (ent pt m' g (p ! k)) 2"
  shows "pt_inv pt fa' m'" "pt_tables pt m' = pt_tables pt m"
    "length q \<le> pt_depth pt \<Longrightarrow> pt_walk pt m' q = pt_walk pt m q"
proof -
  note cfg = pt_invD(2) [OF inv]
  show w: "pt_walk pt m' q = pt_walk pt m q" if "length q \<le> pt_depth pt" for q
  proof (rule walk_cong)
    fix k g assume "k < length q" "pt_walk pt m (take k q) = Some g"
    then have "q ! k < 512 \<Longrightarrow> ent pt m' g (q ! k) = ent pt m g (q ! k)
        \<or> ent pt m' g (q ! k) = ent pt m g (q ! k) OR USER_ACCESSIBLE"
      using upd [of "take k q"] that by simp
    then show "links pt m' g (q ! k) = links pt m g (q ! k)"
      using table_frame_upgrade [OF cfg] by (auto simp: links_def)
  qed
  show t: "pt_tables pt m' = pt_tables pt m" using w by (auto simp: reach_def)
  have inj: "tree_inj (links pt m') (pt_frame pt) (pt_depth pt)"
    using pt_invD(3) [OF inv] w by (simp add: tree_inj_def)
  have lvl: "\<not> bit (ent pt m' f i) 7 \<and> (bit (ent pt m' f i) 0 \<longrightarrow> bit (ent pt m' f i) 1 \<and> \<not> bit (ent pt m' f i) 63)"
    if "length p < pt_depth pt" "pt_walk pt m' p = Some f" "i < 512" for p f i
    using pt_invD(6) [OF inv that(1), of f i] that(2,3) w [of p] upd [OF that(1), of f i] that(1)
    by (auto simp: user_upgrade_fields(2))
  have usr: "bit (ent pt m' g (p ! k)) 2"
    if "length p = pt_depth pt" "pt_walk pt m' p = Some u" "i < 512" "bit (ent pt m' u i) 0" "bit (ent pt m' u i) 2"
      "k < pt_depth pt" "pt_walk pt m' (take k p) = Some g" for p u i k g
    using leaf [OF that(1) _ that(3-6)] that(1,2,6,7) w [of p] w [of "take k p"] by simp
  show "pt_inv pt fa' m'"
    unfolding pt_inv_def t using ok inj alloc lvl usr by blast
qed

lemma pt_inv_upgrade:
  assumes inv: "pt_inv pt fa m" and ok: "pt_ok pt fa'"
    and alloc: "\<And>f. f \<in> pt_tables pt m \<Longrightarrow> fa_state fa' f = Some Allocated"
    and upd: "\<And>g j. g \<in> pt_tables pt m \<Longrightarrow> j < 512 \<Longrightarrow>
       ent pt m' g j = (if (g, j) \<in> U then ent pt m g j OR USER_ACCESSIBLE else ent pt m g j)"
    and U: "\<And>g j. (g, j) \<in> U \<Longrightarrow> \<exists>p. length p < pt_depth pt \<and> pt_walk pt m p = Some g"
  shows "pt_inv pt fa' m'" "pt_tables pt m' = pt_tables pt m"
    "length q \<le> pt_depth pt \<Longrightarrow> pt_walk pt m' q = pt_walk pt m q"
    "page_entry pt m' b = page_entry pt m b"
proof -
  have in_t: "g \<in> pt_tables pt m" if "pt_walk pt m p = Some g" "length p \<le> pt_depth pt" for p g
    using reachI that by metis
  have same_leaf: "ent pt m' u i = ent pt m u i"
    if p: "length p = pt_depth pt" "pt_walk pt m p = Some u" "i < 512" for p u i
  proof -
    have "(u, i) \<notin> U"
    proof
      assume "(u, i) \<in> U"
      then obtain p' where "length p' < pt_depth pt" "pt_walk pt m p' = Some u" using U by blast
      then show False using leaf_table_unique [OF inv p(2), of p'] p(1) by auto
    qed
    then show ?thesis using upd in_t p by simp
  qed
  have upd': "ent pt m' g j = ent pt m g j \<or> ent pt m' g j = ent pt m g j OR USER_ACCESSIBLE"
    if "length p < pt_depth pt" "pt_walk pt m p = Some g" "j < 512" for p g j
    using upd [of g j] in_t that by auto
  have leaf: "bit (ent pt m' g (p ! k)) 2"
    if p: "length p = pt_depth pt" "pt_walk pt m p = Some u" "i < 512" "bit (ent pt m' u i) 0" "bit (ent pt m' u i) 2"
      "k < pt_depth pt" "pt_walk pt m (take k p) = Some g" for p u i k g
  proof -
    have "bit (ent pt m g (p ! k)) 2"
      using pt_invD(7) [OF inv p(1,2,3) _ _ p(6,7)] same_leaf [OF p(1,2,3)] p(4,5) by simp
    then show ?thesis
      using upd [of g "p ! k"] in_t [OF p(7)] walk_index_bound [OF p(2), of k] p(1,6)
      by (simp add: user_upgrade_fields(2))
  qed
  show "pt_inv pt fa' m'" "pt_tables pt m' = pt_tables pt m"
    by (rule pt_inv_same_links [OF inv ok]; (erule alloc | erule (2) upd' | erule (6) leaf))+
  show w: "pt_walk pt m' q = pt_walk pt m q" if "length q \<le> pt_depth pt" for q
    by (rule pt_inv_same_links(3) [OF inv ok]; (rule that | erule alloc | erule (2) upd' | erule (6) leaf))
  show "page_entry pt m' b = page_entry pt m b"
    using same_leaf [of "page_path pt b"] w [of "page_path pt b"] by (simp add: page_entry_def split: option.split)
qed

text \<open>Writes to frames that are not tables, and changes of the allocator that keep the tables.\<close>

lemmas pt_inv_frame = pt_inv_upgrade [where U = "{}", simplified]

subsection \<open>Writing a leaf\<close>

lemma pt_inv_set_leaf:
  assumes inv: "pt_inv pt fa m" and P: "length P = pt_depth pt" "pt_walk pt m P = Some t" and i: "i < 512"
    and user: "\<And>k g. bit e 0 \<Longrightarrow> bit e 2 \<Longrightarrow> k < pt_depth pt \<Longrightarrow> pt_walk pt m (take k P) = Some g \<Longrightarrow>
        bit (ent pt m g (P ! k)) 2"
  shows "pt_inv pt fa (set_ent pt m t i e)" "pt_tables pt (set_ent pt m t i e) = pt_tables pt m"
    "length q \<le> pt_depth pt \<Longrightarrow> pt_walk pt (set_ent pt m t i e) q = pt_walk pt m q"
    "page_entry pt (set_ent pt m t i e) b =
      (if page_path pt b = P \<and> p1_index b = i then if bit e 0 then Some e else None else page_entry pt m b)"
proof -
  let ?m = "set_ent pt m t i e"
  have dm: "dm_frame pt g" if "pt_walk pt m p = Some g" "length p \<le> pt_depth pt" for p g
    using pt_walk_prefix_table [OF inv that] by simp
  have t: "dm_frame pt t" using dm P by simp
  have upper: "ent pt ?m g j = ent pt m g j" if "length p < pt_depth pt" "pt_walk pt m p = Some g" "j < 512" for p g j
  proof -
    have "g \<noteq> t" using leaf_table_unique [OF inv that(2), of P] P that(1) by auto
    then show ?thesis using ent_set_ent [OF t dm [OF that(2)] i that(3)] that(1) by simp
  qed
  have lower: "ent pt ?m u j = (if p = P \<and> j = i then e else ent pt m u j)"
    if "length p = pt_depth pt" "pt_walk pt m p = Some u" "j < 512" for p u j
    using ent_set_ent [OF t dm [OF that(2)] i that(3)] leaf_table_unique [OF inv that(2), of P] P that by auto
  have leaf: "bit (ent pt ?m g (p ! k)) 2"
    if p: "length p = pt_depth pt" "pt_walk pt m p = Some u" "j < 512" "bit (ent pt ?m u j) 0" "bit (ent pt ?m u j) 2"
      "k < pt_depth pt" "pt_walk pt m (take k p) = Some g" for p u j k g
  proof -
    have "bit (ent pt m g (p ! k)) 2"
    proof (cases "p = P \<and> j = i")
      case True
      then show ?thesis using user [of k g] lower [OF p(1-3)] p(4-7) by simp
    next
      case False
      then show ?thesis
        using pt_invD(7) [OF inv p(1-3) _ _ p(6,7)] lower [OF p(1-3)] p(4,5) by (auto split: if_splits)
    qed
    then show ?thesis
      using upper [of "take k p" g "p ! k"] p walk_index_bound [OF p(2), of k] by simp
  qed
  show "pt_inv pt fa ?m" "pt_tables pt ?m = pt_tables pt m"
    by (rule pt_inv_same_links [OF inv pt_invD(1) [OF inv]];
        (erule pt_invD(4) [OF inv] | rule disjI1, erule (2) upper | erule (6) leaf))+
  show w: "pt_walk pt ?m q = pt_walk pt m q" if "length q \<le> pt_depth pt" for q
    by (rule pt_inv_same_links(3) [OF inv pt_invD(1) [OF inv]];
        (rule that | erule pt_invD(4) [OF inv] | rule disjI1, erule (2) upper | erule (6) leaf))
  show "page_entry pt ?m b =
      (if page_path pt b = P \<and> p1_index b = i then if bit e 0 then Some e else None else page_entry pt m b)"
    using lower [of "page_path pt b" _ "p1_index b"] w [of "page_path pt b"] P
    by (auto simp: page_entry_def Let_def split: option.splits)
qed

subsection \<open>Linking a chain of fresh tables\<close>

text \<open>
  \<open>fs\<close> are the fresh tables, \<open>js\<close> the index of the only entry in each but the last: what
  \<open>link_private_tables\<close> builds.
\<close>

definition chain_entries :: "PageTable \<Rightarrow> mem \<Rightarrow> bool \<Rightarrow> FrameAddr list \<Rightarrow> nat list \<Rightarrow> bool" where
  "chain_entries pt m user fs js \<longleftrightarrow> length fs = Suc (length js) \<and>
     (\<forall>k<length js. js ! k < 512 \<and> (\<exists>e. entry_new_table (fs ! Suc k) user (pt_config pt) = Inr e
        \<and> (\<forall>j<512. ent pt m (fs ! k) j = (if j = js ! k then e else 0))))"

lemma chain_entries_cong:
  assumes "chain_entries pt m user fs js" "\<And>f j. f \<in> set fs \<Longrightarrow> j < 512 \<Longrightarrow> ent pt m' f j = ent pt m f j"
  shows "chain_entries pt m' user fs js"
  using assms by (auto simp: chain_entries_def)

lemma chain_entries_Cons:
  "chain_entries pt m user (f # g # fs) (i # is) \<longleftrightarrow>
     (i < 512 \<and> (\<exists>e. entry_new_table g user (pt_config pt) = Inr e
        \<and> (\<forall>j<512. ent pt m f j = (if j = i then e else 0)))) \<and> chain_entries pt m user (g # fs) is"
  by (auto simp: chain_entries_def less_Suc_eq_0_disj)

lemma links_new_table:
  assumes "config_ok (pt_config pt)" "entry_new_table g user (pt_config pt) = Inr e" "frame_aligned g"
    and "i < 512" "\<And>j. j < 512 \<Longrightarrow> ent pt m f j = (if j = i then e else 0)"
  shows "links pt m f j = (if j = i then Some g else None)"
  using entry_new_table_decode [OF assms(2,3,1)] assms(4) assms(5) [of j]
  by (auto simp: links_eq [OF assms(1)] split: if_splits)

lemma chain_links:
  "chain_entries pt m user fs js \<Longrightarrow> config_ok (pt_config pt) \<Longrightarrow> (\<And>f. f \<in> set fs \<Longrightarrow> frame_aligned f) \<Longrightarrow>
   chain (links pt m) fs js"
proof (induction js arbitrary: fs)
  case Nil
  then show ?case by (cases fs) (auto simp: chain_entries_def)
next
  case (Cons i "is")
  then obtain f g gs where fs: "fs = f # g # gs"
    by (cases fs; cases "tl fs") (auto simp: chain_entries_def)
  then obtain e where e: "i < 512" "entry_new_table g user (pt_config pt) = Inr e"
      "\<forall>j<512. ent pt m f j = (if j = i then e else 0)" "chain_entries pt m user (g # gs) is"
    using Cons.prems(1) by (auto simp: chain_entries_Cons)
  then show ?case
    using Cons.IH [of "g # gs"] Cons.prems(2,3) fs links_new_table [OF Cons.prems(2) e(2) _ e(1), of m f] by simp
qed

lemma pt_inv_graft:
  assumes inv: "pt_inv pt fa m" and p: "length p < pt_depth pt" "pt_walk pt m p = Some t" "i < 512"
    and absent: "\<not> bit (ent pt m t i) 0"
    and fs: "distinct fs" "set fs \<inter> pt_tables pt m = {}" "\<And>f. f \<in> set fs \<Longrightarrow> fa_state fa f = Some Allocated"
    and js: "length js = pt_depth pt - Suc (length p)" "chain_entries pt m user fs js"
    and last: "\<And>j. j < 512 \<Longrightarrow> ent pt m (last fs) j = (if j = i1 then leaf else 0)" "i1 < 512"
    and e: "entry_new_table (hd fs) user (pt_config pt) = Inr e"
    and leaf: "bit leaf 0" "bit leaf 2 = user"
    and user: "\<And>k g. user \<Longrightarrow> k < length p \<Longrightarrow> pt_walk pt m (take k p) = Some g \<Longrightarrow> bit (ent pt m g (p ! k)) 2"
  shows "pt_inv pt fa (set_ent pt m t i e)"
    "page_entry pt (set_ent pt m t i e) b =
      (if page_path pt b = p @ i # js \<and> p1_index b = i1 then Some leaf else page_entry pt m b)"
    "pt_tables pt (set_ent pt m t i e) = pt_tables pt m \<union> set fs"
proof -
  let ?m = "set_ent pt m t i e" and ?L = "pt_depth pt" and ?h = "hd fs"
  note cfg = pt_invD(2) [OF inv] and inj = pt_invD(3) [OF inv]
  have len: "length fs = Suc (length js)" using js(2) by (simp add: chain_entries_def)
  then have ne: "fs \<noteq> []" by auto
  have dm_fs: "dm_frame pt f" if "f \<in> set fs" for f
    using fa_state_dm_frame [OF pt_invD(1) [OF inv] fs(3) [OF that]] .
  have dm_t: "dm_frame pt g" if "pt_walk pt m q = Some g" "length q \<le> ?L" for q g
    using pt_walk_prefix_table [OF inv that] by simp
  have t: "dm_frame pt t" "t \<in> pt_tables pt m" using dm_t [OF p(2)] reachI [OF p(2)] p(1) by auto
  have e_fs: "ent pt ?m f j = ent pt m f j" if "f \<in> set fs" "j < 512" for f j
    using ent_set_ent [OF t(1) dm_fs [OF that(1)] p(3) that(2)] fs(2) t(2) that(1) by auto
  have e_t: "ent pt ?m g j = (if q = p \<and> j = i then e else ent pt m g j)"
    if "pt_walk pt m q = Some g" "length q \<le> ?L" "j < 512" for q g j
    using ent_set_ent [OF t(1) dm_t [OF that(1,2)] p(3) that(3)] leaf_table_unique [OF inv that(1) _ that(2), of p] p that
    by auto
  have al: "frame_aligned f" if "f \<in> set fs" for f using dm_fs [OF that] by (simp add: dm_frame_def)
  have dec: "bit e 0" "bit e 1" "bit e 2 = user" "\<not> bit e 7" "\<not> bit e 63"
      "entry_physical_address e (pt_config pt) = ?h"
    using entry_new_table_decode [OF e al cfg] ne by auto
  have ch: "chain_entries pt ?m user fs js"
    by (rule chain_entries_cong [OF js(2) e_fs])
  then have chain: "chain (links pt ?m) fs js" using chain_links cfg al by blast
  have same: "links pt ?m g j = links pt m g j"
    if "length q < ?L" "pt_walk pt m q = Some g" "(g, j) \<noteq> (t, i)" for q g j
    using e_t [OF that(2), of j] that p(2) by (auto simp: links_def)
  have new: "links pt ?m t i = Some ?h"
    using e_t [OF p(2), of i] p dec by (simp add: links_eq [OF cfg])
  have w: "pt_walk pt ?m q = (if prefix (p @ [i]) q then walk (links pt ?m) ?h (drop (Suc (length p)) q) else pt_walk pt m q)"
    if "length q \<le> ?L" for q
    by (rule walk_graft [OF inj p(2,1) same new that]) auto
  have sub: "tree_inj (links pt ?m) ?h (?L - Suc (length p))" "reach (links pt ?m) ?h (?L - Suc (length p)) \<subseteq> set fs"
    using chain_inj [OF chain fs(1)] chain_reach [OF chain] js(1) by auto
  have graft: "tree_inj (links pt ?m) (pt_frame pt) ?L"
      "pt_tables pt ?m \<subseteq> pt_tables pt m \<union> reach (links pt ?m) ?h (?L - Suc (length p))"
    using graft_inj [OF inj p(1) sub(1) w] sub(2) fs(2) by auto
  have tables: "pt_tables pt ?m \<subseteq> pt_tables pt m \<union> set fs" using graft(2) sub(2) by auto
  have absent_walk: "pt_walk pt m (p @ i # r) = None" for r
    using p(2) absent by (simp add: walk_append links_eq [OF cfg])
  have "g \<in> pt_tables pt ?m" if g: "g \<in> pt_tables pt m" for g
  proof -
    obtain q where q: "length q \<le> ?L" "pt_walk pt m q = Some g" using g by (auto simp: reach_def)
    then have "\<not> prefix (p @ [i]) q" using absent_walk by (auto simp: prefix_def)
    then show ?thesis using w [OF q(1)] q reachI by metis
  qed
  moreover have "g \<in> pt_tables pt ?m" if g: "g \<in> set fs" for g
  proof -
    obtain k where k: "k \<le> length js" "g = fs ! k" using g len by (metis in_set_conv_nth less_Suc_eq_le)
    let ?q = "p @ i # take k js"
    have "walk (links pt ?m) ?h (take k js) = Some g"
      using walk_chain [OF chain, of "take k js"] k by (simp add: take_is_prefix)
    then have "pt_walk pt ?m ?q = Some g" using w [of ?q] k js(1) p(1) by (simp add: prefix_def)
    then show ?thesis using k js(1) p(1) by (intro reachI [of _ _ ?q]) auto
  qed
  ultimately show "pt_tables pt ?m = pt_tables pt m \<union> set fs" using tables by auto
  have cases_q: "(\<exists>r. q = p @ i # r \<and> prefix r js \<and> g = fs ! length r \<and> length r \<le> length js)
      \<or> (\<not> prefix (p @ [i]) q \<and> pt_walk pt m q = Some g)"
    if q: "length q \<le> ?L" "pt_walk pt ?m q = Some g" for q g
  proof (cases "prefix (p @ [i]) q")
    case True
    then obtain r where r: "q = p @ i # r" by (auto simp: prefix_def)
    then have "length r \<le> length js" using q(1) js(1) by simp
    moreover from this have "prefix r js" "g = fs ! length r"
      using w [OF q(1)] q(2) True r walk_chain [OF chain, of r] by (auto split: if_splits)
    ultimately show ?thesis using r by blast
  qed (use q w [OF q(1)] in auto)
  have lvl: "\<not> bit (ent pt ?m g j) 7 \<and> (bit (ent pt ?m g j) 0 \<longrightarrow> bit (ent pt ?m g j) 1 \<and> \<not> bit (ent pt ?m g j) 63)"
    if q: "length q < ?L" "pt_walk pt ?m q = Some g" "j < 512" for q g j
    using cases_q [OF less_imp_le [OF q(1)] q(2)]
  proof (elim disjE exE conjE)
    fix r assume r: "q = p @ i # r" "prefix r js" "g = fs ! length r"
    then have k: "length r < length js" using q(1) js(1) by simp
    then obtain e' where e': "entry_new_table (fs ! Suc (length r)) user (pt_config pt) = Inr e'"
        "ent pt ?m g j = (if j = js ! length r then e' else 0)"
      using ch q(3) r(3) unfolding chain_entries_def by blast
    have "fs ! Suc (length r) \<in> set fs" using len k by simp
    then show ?thesis
      using e'(2) entry_new_table_decode [OF e'(1) al cfg] by (auto split: if_splits)
  next
    assume "\<not> prefix (p @ [i]) q" "pt_walk pt m q = Some g"
    then show ?thesis
      using pt_invD(6) [OF inv q(1), of g j] e_t [of q g j] q dec by (auto split: if_splits)
  qed
  have last_eq: "last fs = fs ! length js" using len ne by (simp add: last_conv_nth)
  have old_prefix: "pt_walk pt m (take k q) = Some g" "ent pt ?m g (q ! k) = ent pt m g (q ! k)"
    if "\<not> prefix (p @ [i]) q" "pt_walk pt ?m (take k q) = Some g" "k < length q" "length q \<le> ?L" "q ! k < 512" for q k g
  proof -
    have "\<not> prefix (p @ [i]) (take k q)"
      using that(1) by (metis prefix_order.trans take_is_prefix)
    then show walk: "pt_walk pt m (take k q) = Some g" using cases_q [of "take k q" g] that by (auto simp: prefix_def)
    have "\<not> (take k q = p \<and> q ! k = i)"
      using that(1,3) by (metis take_Suc_conv_app_nth take_is_prefix)
    then show "ent pt ?m g (q ! k) = ent pt m g (q ! k)" using e_t [OF walk _ that(5)] that(3,4) by auto
  qed
  have usr: "bit (ent pt ?m g (P ! k)) 2"
    if P: "length P = ?L" "pt_walk pt ?m P = Some u" "j < 512" "bit (ent pt ?m u j) 0" "bit (ent pt ?m u j) 2"
      "k < ?L" "pt_walk pt ?m (take k P) = Some g" for P u j k g
    using cases_q [OF eq_imp_le [OF P(1)] P(2)]
  proof (elim disjE exE conjE)
    fix r assume r: "P = p @ i # r" "prefix r js" "u = fs ! length r"
    have "length r = length js" using r(1) P(1) js(1) by simp
    then have "r = js" using r(2) by (auto simp: prefix_def)
    then have u: "u = last fs" using r(3) last_eq by simp
    then have usr: user using P(3-5) e_fs [of u j] last(1) [of j] leaf ne by (auto split: if_splits)
    have "k < length p \<or> k = length p \<or> (\<exists>k'. k = Suc (length p) + k' \<and> k' < length js)"
      using P(6) js(1) by (cases "Suc (length p) \<le> k") (auto intro!: exI [of _ "k - Suc (length p)"])
    then consider (1) "k < length p" | (2) "k = length p" | (3) k' where "k = Suc (length p) + k'" "k' < length js"
      by blast
    then show ?thesis
    proof cases
      case 1
      have i1: "p ! k < 512" using walk_index_bound [OF p(2) 1] .
      have "\<not> prefix (p @ [i]) p" by (auto dest: prefix_length_le)
      then have "pt_walk pt m (take k p) = Some g" "ent pt ?m g (p ! k) = ent pt m g (p ! k)"
        using old_prefix [of p k g] P(7) r(1) 1 p(1) i1 by auto
      then show ?thesis using user [OF usr 1] r(1) 1 by (simp add: nth_append)
    next
      case 2
      have "\<not> prefix (p @ [i]) p" by (auto dest: prefix_length_le)
      then have "g = t" using w [of p] p P(7) r(1) 2 by simp
      then show ?thesis using e_t [OF p(2), of i] p dec(3) usr r(1) 2 by (simp add: nth_append)
    next
      case 3
      then have tk: "take k P = p @ i # take k' js" "P ! k = js ! k'" using r(1) \<open>r = js\<close> by (auto simp: nth_append)
      have "prefix (p @ [i]) (take k P)" using tk(1) by (simp add: prefix_def)
      then have g: "g = fs ! k'"
        using w [of "take k P"] P(1,7) tk(1) walk_chain [OF chain, of "take k' js"] 3 by (auto simp: take_is_prefix)
      obtain e' where e': "entry_new_table (fs ! Suc k') user (pt_config pt) = Inr e'" "ent pt ?m g (js ! k') = e'"
        using ch 3(2) g unfolding chain_entries_def by auto
      have "fs ! Suc k' \<in> set fs" using len 3(2) by simp
      then show ?thesis using e'(2) tk(2) entry_new_table_decode(3) [OF e'(1) al cfg] usr by simp
    qed
  next
    assume o: "\<not> prefix (p @ [i]) P" "pt_walk pt m P = Some u"
    have pk: "P ! k < 512" using walk_index_bound [OF o(2)] P(1,6) by simp
    note old = old_prefix [OF o(1) P(7) _ _ pk]
    have "ent pt ?m u j = ent pt m u j" using e_t [OF o(2) _ P(3)] P(1) p(1) by auto
    then show ?thesis
      using pt_invD(7) [OF inv P(1) o(2) P(3) _ _ P(6) old(1)] old(2) P by simp
  qed
  show "pt_inv pt fa ?m"
    unfolding pt_inv_def using pt_invD(1,4) [OF inv] graft(1) tables fs(3) lvl usr by blast
  let ?q = "page_path pt b"
  show "page_entry pt ?m b =
      (if ?q = p @ i # js \<and> p1_index b = i1 then Some leaf else page_entry pt m b)"
  proof (cases "prefix (p @ [i]) ?q")
    case True
    then obtain r where r: "?q = p @ i # r" by (auto simp: prefix_def)
    have lr: "length r = length js" using length_page_path [of pt b] js(1) unfolding r by simp
    have wq: "pt_walk pt ?m ?q = walk (links pt ?m) ?h r"
      using w [OF eq_imp_le [OF length_page_path [of pt b]]] True by (simp add: r)
    have pre: "prefix r js \<longleftrightarrow> r = js" using lr by (auto simp: prefix_def)
    have "page_entry pt m b = None" using r absent_walk by (simp add: page_entry_def)
    moreover have "pt_walk pt ?m ?q = (if r = js then Some (last fs) else None)"
      unfolding wq walk_chain [OF chain eq_imp_le [OF lr]] using pre lr last_eq by simp
    moreover have "ent pt ?m (last fs) (p1_index b) = (if p1_index b = i1 then leaf else 0)"
      using e_fs [of "last fs" "p1_index b"] last(1) ne by simp
    ultimately show ?thesis
      using r leaf(1) by (cases "p1_index b = i1"; cases "r = js") (simp_all add: page_entry_def Let_def)
  next
    case False
    then have "pt_walk pt ?m ?q = pt_walk pt m ?q" using w [of ?q] by simp
    moreover have "ent pt ?m u (p1_index b) = ent pt m u (p1_index b)" if "pt_walk pt m ?q = Some u" for u
      using e_t [OF that, of "p1_index b"] p(1) by auto
    moreover have "?q \<noteq> p @ i # js" using False by (auto simp: prefix_def)
    ultimately show ?thesis by (auto simp: page_entry_def split: option.split)
  qed
qed

subsection \<open>Clearing the link of an empty table\<close>

lemma empty_table_walk:
  assumes "pt_inv pt fa m" "\<And>j. j < 512 \<Longrightarrow> \<not> bit (ent pt m c j) 0"
  shows "walk (links pt m) c r = (if r = [] then Some c else None)"
  using assms pt_invD(2) [OF assms(1)] by (cases r) (auto simp: links_eq)

lemma pt_inv_prune:
  assumes inv: "pt_inv pt fa m" and p: "length p < pt_depth pt" "pt_walk pt m p = Some t" "i < 512"
    and c: "links pt m t i = Some c" "\<And>j. j < 512 \<Longrightarrow> \<not> bit (ent pt m c j) 0"
  shows "pt_inv pt fa (set_ent pt m t i 0)"
    "page_entry pt (set_ent pt m t i 0) b = page_entry pt m b"
    "pt_tables pt (set_ent pt m t i 0) = pt_tables pt m - {c}"
    "length q \<le> pt_depth pt \<Longrightarrow>
     pt_walk pt (set_ent pt m t i 0) q = (if prefix (p @ [i]) q then None else pt_walk pt m q)"
proof -
  let ?m = "set_ent pt m t i 0" and ?L = "pt_depth pt"
  note cfg = pt_invD(2) [OF inv] and inj = pt_invD(3) [OF inv]
  have dm: "dm_frame pt g" if "pt_walk pt m q = Some g" "length q \<le> ?L" for q g
    using pt_walk_prefix_table [OF inv that] by simp
  have t: "dm_frame pt t" using dm [OF p(2)] p(1) by simp
  have e_t: "ent pt ?m g j = (if q = p \<and> j = i then 0 else ent pt m g j)"
    if "pt_walk pt m q = Some g" "length q \<le> ?L" "j < 512" for q g j
    using ent_set_ent [OF t dm [OF that(1,2)] p(3) that(3)] leaf_table_unique [OF inv that(1) _ that(2), of p] p that
    by auto
  have same: "links pt ?m g j = links pt m g j"
    if "length q < ?L" "pt_walk pt m q = Some g" "(g, j) \<noteq> (t, i)" for q g j
    using e_t [OF that(2), of j] that p(2) by (auto simp: links_def)
  have gone: "links pt ?m t i = None"
    using e_t [OF p(2), of i] p by (simp add: links_eq [OF cfg])
  show w: "pt_walk pt ?m q = (if prefix (p @ [i]) q then None else pt_walk pt m q)" if "length q \<le> ?L" for q
    by (rule walk_prune [OF inj p(2,1) same gone that]) auto
  have inj': "tree_inj (links pt ?m) (pt_frame pt) ?L" and sub: "pt_tables pt ?m \<subseteq> pt_tables pt m"
    using prune_inj [OF inj] w by auto
  have through: "pt_walk pt m (p @ i # r) = (if r = [] then Some c else None)" for r
    using p(2) c(1) empty_table_walk [OF inv c(2), of r] by (simp add: walk_append)
  have old: "\<not> prefix (p @ [i]) q" "pt_walk pt m q = Some g" if "length q \<le> ?L" "pt_walk pt ?m q = Some g" for q g
    using w [OF that(1)] that(2) by (auto split: if_splits)
  show "pt_tables pt ?m = pt_tables pt m - {c}"
  proof (intro equalityI subsetI)
    fix g assume "g \<in> pt_tables pt ?m"
    then obtain q where q: "length q \<le> ?L" "pt_walk pt ?m q = Some g" by (auto simp: reach_def)
    have "g \<noteq> c"
    proof
      assume "g = c"
      then have "q = p @ [i]"
        using leaf_table_unique [OF inv old(2) [OF q], of "p @ [i]"] through [of "[]"] q(1) p(1) by simp
      then show False using old(1) [OF q] by simp
    qed
    then show "g \<in> pt_tables pt m - {c}" using sub \<open>g \<in> _\<close> by blast
  next
    fix g assume "g \<in> pt_tables pt m - {c}"
    then obtain q where q: "length q \<le> ?L" "pt_walk pt m q = Some g" "g \<noteq> c" by (auto simp: reach_def)
    then have "\<not> prefix (p @ [i]) q" using through by (auto simp: prefix_def split: if_splits)
    then show "g \<in> pt_tables pt ?m" using w [OF q(1)] q reachI by metis
  qed
  have lvl: "\<not> bit (ent pt ?m g j) 7 \<and> (bit (ent pt ?m g j) 0 \<longrightarrow> bit (ent pt ?m g j) 1 \<and> \<not> bit (ent pt ?m g j) 63)"
    if q: "length q < ?L" "pt_walk pt ?m q = Some g" "j < 512" for q g j
    using pt_invD(6) [OF inv q(1), of g j] e_t [of q g j] old [of q g] q by (auto split: if_splits)
  have usr: "bit (ent pt ?m g (P ! k)) 2"
    if P: "length P = ?L" "pt_walk pt ?m P = Some u" "j < 512" "bit (ent pt ?m u j) 0" "bit (ent pt ?m u j) 2"
      "k < ?L" "pt_walk pt ?m (take k P) = Some g" for P u j k g
  proof -
    note o = old [OF eq_imp_le [OF P(1)] P(2)]
    have ok: "pt_walk pt m (take k P) = Some g" using old [of "take k P" g] P by simp
    have pk: "P ! k < 512" using walk_index_bound [OF o(2)] P(1,6) by simp
    have "ent pt ?m u j = ent pt m u j" using e_t [OF o(2) _ P(3)] P(1) p(1) by auto
    moreover have "\<not> (take k P = p \<and> P ! k = i)"
      using o(1) P(1,6) by (metis take_Suc_conv_app_nth take_is_prefix)
    then have "ent pt ?m g (P ! k) = ent pt m g (P ! k)" using e_t [OF ok _ pk] P(1,6) by auto
    ultimately show ?thesis
      using pt_invD(7) [OF inv P(1) o(2) P(3) _ _ P(6) ok] P(4,5) by simp
  qed
  show "pt_inv pt fa ?m"
    unfolding pt_inv_def using pt_invD(1,4) [OF inv] inj' sub lvl usr by blast
  have e_leaf: "ent pt ?m u (p1_index b) = ent pt m u (p1_index b)" if "pt_walk pt m (page_path pt b) = Some u" for u
    using e_t [OF that, of "p1_index b"] p(1) by auto
  have "page_entry pt m b = None" if "page_path pt b = p @ i # r" for r
    using through [of r] that c(2) [of "p1_index b"] by (simp add: page_entry_def Let_def)
  then show "page_entry pt ?m b = page_entry pt m b"
    using w [of "page_path pt b"] e_leaf by (auto simp: page_entry_def prefix_def split: option.split if_splits)
qed

end
