(* ===== verification/Paging_Map.thy ===== *)
theory Paging_Map
  imports Paging_Steps
begin

section \<open>Mapping a page\<close>

text \<open>
  \<open>page_table_map\<close> writes exactly one leaf, creating the missing tables on the way; on
  every error it gives back the tables it allocated and changes no mapping.
\<close>

subsection \<open>The descent\<close>

text \<open>The entry of level \<open>k\<close> on the path, when it has to become user-accessible.\<close>

definition upgrade_at :: "PageTable \<Rightarrow> mem \<Rightarrow> nat list \<Rightarrow> bool \<Rightarrow> nat \<Rightarrow> EntryLocation set" where
  "upgrade_at pt m P user k = {\<lparr>loc_table = g, loc_index = P ! k\<rparr> | g.
     pt_walk pt m (take k P) = Some g \<and> user \<and> \<not> bit (ent pt m g (P ! k)) 2}"

lemma map_scan_spec:
  assumes inv: "pt_inv pt fa m" and "pt_levels pt = pre @ ls"
    and "pt_walk pt m (map (\<lambda>l. level_index l a) pre) = Some t"
  shows "\<exists>d u ups r. map_scan pt m a user ls (length pre) t upgrades = Inr (u, ups, r)
    \<and> length pre \<le> d \<and> d \<le> pt_depth pt \<and> pt_walk pt m (take d (page_path pt a)) = Some u
    \<and> set ups = set upgrades \<union> (\<Union>k\<in>{length pre..<d}. upgrade_at pt m (page_path pt a) user k)
    \<and> (if d = pt_depth pt then r = None
       else r = Some (d, \<lparr>loc_table = u, loc_index = page_path pt a ! d\<rparr>) \<and> \<not> bit (ent pt m u (page_path pt a ! d)) 0)"
  using assms(2,3)
proof (induction ls arbitrary: pre t upgrades)
  case Nil
  then have "take (length pre) (page_path pt a) = map (\<lambda>l. level_index l a) pre" by (simp add: page_path_def)
  then show ?case using Nil by (intro exI [of _ "length pre"]) auto
next
  case (Cons l ls)
  let ?e = "ent pt m t (level_index l a)" and ?P = "page_path pt a"
  let ?loc = "\<lparr>loc_table = t, loc_index = level_index l a\<rparr>"
  let ?ups = "if user \<and> \<not> bit ?e 2 then upgrades @ [?loc] else upgrades"
  have n: "length pre < pt_depth pt" using Cons.prems(1) by simp
  have tk: "take (length pre) ?P = map (\<lambda>l. level_index l a) pre" and ix: "?P ! length pre = level_index l a"
    using Cons.prems(1) by (auto simp: page_path_def nth_append)
  have tb: "table pt t = Some (t + dm_offset (pt_direct_map pt))"
    using pt_walk_prefix_table [OF inv Cons.prems(2)] n by simp
  have nohuge: "\<not> bit ?e 7" using pt_invD(6) [OF inv _ Cons.prems(2)] n by simp
  show ?case
  proof (cases "bit ?e 0")
    case False
    then have "map_scan pt m a user (l # ls) (length pre) t upgrades = Inr (t, upgrades, Some (length pre, ?loc))"
      using tb by (simp add: ent_def Let_def)
    then show ?thesis
      using False Cons.prems(2) tk ix n by (intro exI [of _ "length pre"]) auto
  next
    case True
    let ?n = "entry_physical_address ?e (pt_config pt)"
    have lk: "links pt m t (level_index l a) = Some ?n"
      using True nohuge pt_invD(2) [OF inv] by (simp add: links_eq)
    have step: "map_scan pt m a user (l # ls) (length pre) t upgrades = map_scan pt m a user ls (length (pre @ [l])) ?n ?ups"
      using tb True nohuge pt_invD(2) [OF inv] by (simp add: ent_def Let_def table_frame_eq)
    have "pt_walk pt m (map (\<lambda>l. level_index l a) (pre @ [l])) = Some ?n"
      using Cons.prems(2) lk by (simp add: walk_snoc)
    then obtain d u ups r where IH: "map_scan pt m a user ls (length (pre @ [l])) ?n ?ups = Inr (u, ups, r)"
        "length (pre @ [l]) \<le> d" "d \<le> pt_depth pt" "pt_walk pt m (take d ?P) = Some u"
        "set ups = set ?ups \<union> (\<Union>k\<in>{length (pre @ [l])..<d}. upgrade_at pt m ?P user k)"
        "if d = pt_depth pt then r = None
         else r = Some (d, \<lparr>loc_table = u, loc_index = ?P ! d\<rparr>) \<and> \<not> bit (ent pt m u (?P ! d)) 0"
      using Cons.IH [of "pre @ [l]" ?n ?ups] Cons.prems(1) by auto
    have "upgrade_at pt m ?P user (length pre) = (if user \<and> \<not> bit ?e 2 then {?loc} else {})"
      using tk ix Cons.prems(2) by (auto simp: upgrade_at_def)
    moreover have "{length pre..<d} = insert (length pre) {length (pre @ [l])..<d}" using IH(2) by auto
    ultimately have "set ups = set upgrades \<union> (\<Union>k\<in>{length pre..<d}. upgrade_at pt m ?P user k)"
      using IH(5) by auto
    then show ?thesis using step IH by (intro exI [of _ d] exI [of _ u] exI [of _ ups] exI [of _ r]) auto
  qed
qed

lemma apply_user_upgrades_spec:
  assumes "\<And>loc. loc \<in> set locs \<Longrightarrow> dm_frame pt (loc_table loc) \<and> loc_index loc < 512"
  shows "\<exists>m'. apply_user_upgrades pt locs m = Ret m' \<and> same_except pt (loc_table ` set locs) m m'
     \<and> (\<forall>g j. dm_frame pt g \<longrightarrow> j < 512 \<longrightarrow> ent pt m' g j =
          (if (g, j) \<in> (\<lambda>l. (loc_table l, loc_index l)) ` set locs then ent pt m g j OR USER_ACCESSIBLE else ent pt m g j))"
  using assms
proof (induction locs arbitrary: m)
  case (Cons l locs)
  let ?f = "loc_table l" and ?i = "loc_index l"
  let ?m = "set_ent pt m ?f ?i (ent pt m ?f ?i OR USER_ACCESSIBLE)"
  have l: "dm_frame pt ?f" "?i < 512" using Cons.prems [of l] by auto
  obtain m' where m': "apply_user_upgrades pt locs ?m = Ret m'" "same_except pt (loc_table ` set locs) ?m m'"
      "\<forall>g j. dm_frame pt g \<longrightarrow> j < 512 \<longrightarrow> ent pt m' g j =
          (if (g, j) \<in> (\<lambda>l. (loc_table l, loc_index l)) ` set locs then ent pt ?m g j OR USER_ACCESSIBLE else ent pt ?m g j)"
    using Cons.IH [of ?m] Cons.prems by auto
  have "same_except pt (loc_table ` set (l # locs)) m m'"
    by (rule same_except_trans [OF set_ent_same_except [OF l] m'(2)]) auto
  moreover have "apply_user_upgrades pt (l # locs) m = Ret m'"
    using m'(1) dm_frame_table [OF l(1)] by (simp add: ent_def set_ent_def)
  moreover have "ent pt m' g j = (if (g, j) \<in> (\<lambda>l. (loc_table l, loc_index l)) ` set (l # locs)
      then ent pt m g j OR USER_ACCESSIBLE else ent pt m g j)" if g: "dm_frame pt g" "j < 512" for g j
    using m'(3)[rule_format, OF g] ent_set_ent [OF l(1) g(1) l(2) g(2)] by (auto simp: or.assoc)
  ultimately show ?case by blast
qed simp

subsection \<open>Private tables\<close>

lemma alloc_private_tables_spec:
  assumes "pt_ok pt fa"
  shows "\<exists>res fs fa' m'. alloc_private_tables pt user n (fa, m) = Ret (res, fs, fa', m') \<and> pt_ok pt fa'
     \<and> distinct fs \<and> (\<forall>f\<in>set fs. fa_state fa f = Some Free)
     \<and> fa_state fa' = (\<lambda>f. if f \<in> set fs then Some Allocated else fa_state fa f)
     \<and> same_except pt (set fs) m m'
     \<and> (case res of
          Inl e \<Rightarrow> (e = PtOutOfFrames \<and> length fs < n \<and> (\<forall>f. fa_state fa' f \<noteq> Some Free))
             \<or> (e = PtPhysicalAddressTooLarge \<and> (\<exists>f\<in>set fs. physical_address_limit (pt_config pt) \<le> f))
        | Inr _ \<Rightarrow> length fs = n \<and> (\<forall>f\<in>set fs. f < physical_address_limit (pt_config pt)
             \<and> (\<forall>j<512. ent pt m' f j = 0)))"
  using assms
proof (induction n arbitrary: fa m)
  case (Suc n)
  have inv: "fa_inv fa" and dmap: "pt_direct_map pt = fa_direct_map fa" using Suc.prems by (auto simp: pt_ok_def)
  obtain r fa1 m1 where r: "alloc fa m = Ret (r, fa1, m1)" "fa_inv fa1" "fa_direct_map fa1 = fa_direct_map fa"
      "case r of None \<Rightarrow> fa1 = fa \<and> m1 = m \<and> (\<forall>f. fa_state fa f \<noteq> Some Free)
       | Some f \<Rightarrow> fa_state fa f = Some Free \<and> fa_state fa1 = (fa_state fa)(f \<mapsto> Allocated)
             \<and> m1 = fill_bytes m (f + dm_offset (fa_direct_map fa)) 0 4096"
    using alloc_spec [OF inv, of m] by blast
  have ok1: "pt_ok pt fa1" using Suc.prems r(2,3) by (simp add: pt_ok_def)
  show ?case
  proof (cases r)
    case None
    then show ?thesis using r ok1 by simp
  next
    case (Some f)
    then have f: "fa_state fa f = Some Free" "fa_state fa1 = (fa_state fa)(f \<mapsto> Allocated)"
        "m1 = fill_bytes m (f + dm_offset (pt_direct_map pt)) 0 4096" using r(4) dmap by auto
    have dm: "dm_frame pt f" using fa_state_dm_frame [OF Suc.prems f(1)] .
    have se: "same_except pt {f} m m1" unfolding f(3) by (rule fill_same_except [OF dm])
    show ?thesis
    proof (cases "entry_new_table f user (pt_config pt)")
      case (Inl e)
      then have "physical_address_limit (pt_config pt) \<le> f"
        by (auto simp: entry_new_table_def Let_def split: if_splits)
      then show ?thesis using r(1) Some Inl ok1 f(1,2) se by auto
    next
      case (Inr e)
      then have lim: "f < physical_address_limit (pt_config pt)"
        using entry_new_table_ok_iff by blast
      obtain res fs fa2 m2 where IH: "alloc_private_tables pt user n (fa1, m1) = Ret (res, fs, fa2, m2)" "pt_ok pt fa2"
          "distinct fs" "\<forall>g\<in>set fs. fa_state fa1 g = Some Free"
          "fa_state fa2 = (\<lambda>g. if g \<in> set fs then Some Allocated else fa_state fa1 g)"
          "same_except pt (set fs) m1 m2"
          "case res of
              Inl e \<Rightarrow> (e = PtOutOfFrames \<and> length fs < n \<and> (\<forall>f. fa_state fa2 f \<noteq> Some Free))
                \<or> (e = PtPhysicalAddressTooLarge \<and> (\<exists>f\<in>set fs. physical_address_limit (pt_config pt) \<le> f))
            | Inr _ \<Rightarrow> length fs = n \<and> (\<forall>f\<in>set fs. f < physical_address_limit (pt_config pt)
                \<and> (\<forall>j<512. ent pt m2 f j = 0))"
        using Suc.IH [OF ok1, of m1] by blast
      have fnew: "f \<notin> set fs" using IH(4) f(2) by auto
      have dms: "dm_frame pt g" if "g \<in> set fs" for g using fa_state_dm_frame [OF ok1] IH(4) that by blast
      have zero: "ent pt m2 f j = 0" if "j < 512" for j
        using same_except_ent [OF IH(6) dm fnew dms that] ent_fill_zero [OF dm that, of m] f(3) by simp
      have "same_except pt (set (f # fs)) m m2"
        by (rule same_except_trans [OF se IH(6)]) auto
      moreover have "alloc_private_tables pt user (Suc n) (fa, m) = Ret (res, f # fs, fa2, m2)"
        using r(1) Some Inr IH(1) by simp
      moreover have "fa_state fa2 = (\<lambda>g. if g \<in> set (f # fs) then Some Allocated else fa_state fa g)"
        using IH(5) f(2) by (auto simp: fun_eq_iff)
      moreover have "\<forall>g\<in>set (f # fs). fa_state fa g = Some Free"
        using IH(4) f by (auto split: if_splits)
      moreover have "case res of
              Inl e \<Rightarrow> (e = PtOutOfFrames \<and> length (f # fs) < Suc n \<and> (\<forall>f. fa_state fa2 f \<noteq> Some Free))
                \<or> (e = PtPhysicalAddressTooLarge \<and> (\<exists>f\<in>set (f # fs). physical_address_limit (pt_config pt) \<le> f))
            | Inr _ \<Rightarrow> length (f # fs) = Suc n \<and> (\<forall>f\<in>set (f # fs). f < physical_address_limit (pt_config pt)
                \<and> (\<forall>j<512. ent pt m2 f j = 0))"
        using IH(7) zero lim by (cases res) auto
      moreover have "distinct (f # fs)" using IH(3) fnew by simp
      ultimately show ?thesis using IH(2) by blast
    qed
  qed
qed simp

lemma link_private_tables_spec:
  assumes "fs \<noteq> []" "Suc (length ls) = length fs" "distinct fs" "\<And>f. f \<in> set fs \<Longrightarrow> dm_frame pt f"
    and "\<And>f. f \<in> set fs \<Longrightarrow> f < physical_address_limit (pt_config pt)"
    and "\<And>f j. f \<in> set fs \<Longrightarrow> j < 512 \<Longrightarrow> ent pt m f j = 0"
  shows "\<exists>m'. link_private_tables pt a user leaf ls fs m = (Inr (), m') \<and> same_except pt (set fs) m m'
     \<and> chain_entries pt m' user fs (map (\<lambda>l. level_index l a) ls)
     \<and> (\<forall>j<512. ent pt m' (last fs) j = (if j = p1_index a then leaf else 0))"
  using assms
proof (induction ls arbitrary: fs m)
  case Nil
  then obtain f where fs: "fs = [f]" by (cases fs) auto
  let ?m = "set_ent pt m f (p1_index a) leaf"
  have f: "dm_frame pt f" using Nil.prems(4) fs by simp
  have "link_private_tables pt a user leaf [] fs m = (Inr (), ?m)"
    using fs dm_frame_table [OF f] by (simp add: set_ent_def)
  moreover have "ent pt ?m f j = (if j = p1_index a then leaf else 0)" if "j < 512" for j
    using ent_set_ent [OF f f _ that] Nil.prems(6) [of f j] fs that by simp
  ultimately show ?case
    using fs set_ent_same_except [OF f, of "p1_index a" m leaf] by (simp add: chain_entries_def)
next
  case (Cons l ls)
  then obtain f g gs where fs: "fs = f # g # gs" by (cases fs; cases "tl fs") auto
  have f: "dm_frame pt f" using Cons.prems(4) fs by simp
  obtain e where e: "entry_new_table g user (pt_config pt) = Inr e"
    using entry_new_table_ok_iff [of g user "pt_config pt"] Cons.prems(5) fs by auto
  let ?m = "set_ent pt m f (level_index l a) e"
  have ent_m: "ent pt ?m h j = (if h = f \<and> j = level_index l a then e else 0)" if "h \<in> set fs" "j < 512" for h j
    using ent_set_ent [OF f Cons.prems(4) [OF that(1)] index_bounds(1) that(2)] Cons.prems(6) [OF that] by simp
  have zero: "ent pt ?m h j = 0" if "h \<in> set (g # gs)" "j < 512" for h j
    using ent_m [of h j] that fs Cons.prems(3) by auto
  obtain m' where IH: "link_private_tables pt a user leaf ls (g # gs) ?m = (Inr (), m')" "same_except pt (set (g # gs)) ?m m'"
      "chain_entries pt m' user (g # gs) (map (\<lambda>l. level_index l a) ls)"
      "\<forall>j<512. ent pt m' (last (g # gs)) j = (if j = p1_index a then leaf else 0)"
    using Cons.IH [of "g # gs" ?m] Cons.prems(2-5) zero fs by auto
  have fnew: "f \<notin> set (g # gs)" using Cons.prems(3) fs by simp
  have "ent pt m' f j = (if j = level_index l a then e else 0)" if "j < 512" for j
    using same_except_ent [OF IH(2) f fnew _ that] Cons.prems(4) ent_m [of f j] fs that by simp
  moreover have "same_except pt (set fs) m m'"
    by (rule same_except_trans [OF set_ent_same_except [OF f index_bounds(1), of m l a e] IH(2)]) (auto simp: fs)
  moreover have "link_private_tables pt a user leaf (l # ls) fs m = (Inr (), m')"
    using fs e dm_frame_table [OF f] IH(1) by (simp add: set_ent_def)
  ultimately show ?case
    using IH(3,4) e fs by (intro exI [of _ m']) (auto simp: chain_entries_Cons)
qed

subsection \<open>Making the path user-accessible\<close>

lemma upgrade_step:
  assumes inv: "pt_inv pt fa m" and d: "d \<le> pt_depth pt" "length P = pt_depth pt"
    and P: "pt_walk pt m (take d P) = Some u" and ups: "set ups = (\<Union>k\<in>{0..<d}. upgrade_at pt m P user k)"
  obtains m' where "apply_user_upgrades pt ups m = Ret m'" "pt_inv pt fa m'" "pt_tables pt m' = pt_tables pt m"
    "\<And>q. length q \<le> pt_depth pt \<Longrightarrow> pt_walk pt m' q = pt_walk pt m q"
    "\<And>b. page_entry pt m' b = page_entry pt m b" "same_except pt (pt_tables pt m) m m'"
    "\<And>f j. dm_frame pt f \<Longrightarrow> j < 512 \<Longrightarrow> bit (ent pt m' f j) 0 = bit (ent pt m f j) 0"
    "\<And>f j. dm_frame pt f \<Longrightarrow> f \<notin> pt_tables pt m \<Longrightarrow> j < 512 \<Longrightarrow> ent pt m' f j = ent pt m f j"
    "\<And>k g. user \<Longrightarrow> k < d \<Longrightarrow> pt_walk pt m (take k P) = Some g \<Longrightarrow> bit (ent pt m' g (P ! k)) 2"
proof -
  let ?U = "(\<lambda>l. (loc_table l, loc_index l)) ` set ups"
  have loc: "\<exists>k<d. pt_walk pt m (take k P) = Some (loc_table l) \<and> loc_index l = P ! k" if "l \<in> set ups" for l
    using that unfolding ups by (auto simp: upgrade_at_def)
  have ix: "P ! k < 512" if "k < d" for k
    using walk_index_bound [OF P, of k] that d by simp
  have in_t: "loc_table l \<in> pt_tables pt m" if "l \<in> set ups" for l
    using loc [OF that] d by (auto intro: reachI)
  have ok: "dm_frame pt (loc_table l) \<and> loc_index l < 512" if "l \<in> set ups" for l
    using loc [OF that] ix pt_invD(5) [OF inv in_t [OF that]] by auto
  obtain m' where m': "apply_user_upgrades pt ups m = Ret m'" "same_except pt (loc_table ` set ups) m m'"
      "\<And>g j. dm_frame pt g \<Longrightarrow> j < 512 \<Longrightarrow> ent pt m' g j =
          (if (g, j) \<in> ?U then ent pt m g j OR USER_ACCESSIBLE else ent pt m g j)"
    using apply_user_upgrades_spec [of ups pt m] ok by blast
  have upd: "ent pt m' g j = (if (g, j) \<in> ?U then ent pt m g j OR USER_ACCESSIBLE else ent pt m g j)"
    if "g \<in> pt_tables pt m" "j < 512" for g j using m'(3) pt_invD(5) [OF inv] that by blast
  have U: "\<exists>p. length p < pt_depth pt \<and> pt_walk pt m p = Some g" if gj: "(g, j) \<in> ?U" for g j
  proof -
    obtain l where "l \<in> set ups" "g = loc_table l" using gj by auto
    then obtain k where "k < d" "pt_walk pt m (take k P) = Some g" using loc by blast
    then show ?thesis using d by (intro exI [of _ "take k P"]) auto
  qed
  note up = pt_inv_upgrade [OF inv pt_invD(1) [OF inv], where m' = m' and U = ?U]
  show thesis
  proof (rule that [OF m'(1)])
    show "pt_inv pt fa m'" "pt_tables pt m' = pt_tables pt m" by (rule up; (erule pt_invD(4) [OF inv] | erule (1) upd | erule U))+
    show "pt_walk pt m' q = pt_walk pt m q" if "length q \<le> pt_depth pt" for q 
      by (rule up(3); (rule that | erule pt_invD(4) [OF inv] | erule (1) upd | erule U))
    show "page_entry pt m' b = page_entry pt m b" for b 
      by (rule up(4); (erule pt_invD(4) [OF inv] | erule (1) upd | erule U))
    show "same_except pt (pt_tables pt m) m m'" using m'(2) in_t by (auto intro: same_except_mono)
    show "bit (ent pt m' f j) 0 = bit (ent pt m f j) 0" if "dm_frame pt f" "j < 512" for f j
      using m'(3) [OF that] by (simp add: user_upgrade_fields(2))
    show "ent pt m' f j = ent pt m f j" if "dm_frame pt f" "f \<notin> pt_tables pt m" "j < 512" for f j
      using m'(3) [OF that(1,3)] in_t that(2) by auto
    show "bit (ent pt m' g (P ! k)) 2" if "user" "k < d" "pt_walk pt m (take k P) = Some g" for k g
    proof (cases "bit (ent pt m g (P ! k)) 2")
      case True
      then show ?thesis
        using upd [of g "P ! k"] reachI [OF that(3)] ix that d by (simp add: user_upgrade_fields(2))
    next
      case False
      then have "\<lparr>loc_table = g, loc_index = P ! k\<rparr> \<in> set ups"
        unfolding ups using that by (auto simp: upgrade_at_def)
      then have "(g, P ! k) \<in> ?U" by force
      then show ?thesis
        using upd [of g "P ! k"] reachI [OF that(3)] ix that d by (simp add: user_upgrade_fields(2))
    qed
  qed
qed

subsection \<open>The two ways a page is mapped\<close>

text \<open>
  What a successful \<open>map\<close> does: the leaf of the page, and of no other, becomes \<open>leaf\<close>; the
  frames allocated are exactly the new tables; memory changes in tables only.
\<close>

definition mapped :: "PageTable \<Rightarrow> usize \<Rightarrow> PageTableEntry \<Rightarrow> alloc_mem \<Rightarrow> alloc_mem \<Rightarrow> bool" where
  "mapped pt a leaf s s' \<longleftrightarrow> (case (s, s') of ((fa, m), (fa', m')) \<Rightarrow>
     pt_inv pt fa' m' \<and> page_entry pt m a = None
   \<and> (\<forall>b. page_entry pt m' b =
        (if page_path pt b = page_path pt a \<and> p1_index b = p1_index a then Some leaf else page_entry pt m b))
   \<and> pt_tables pt m \<subseteq> pt_tables pt m'
   \<and> (\<forall>f\<in>pt_tables pt m' - pt_tables pt m. fa_state fa f = Some Free)
   \<and> fa_state fa' = (\<lambda>f. if f \<in> pt_tables pt m' - pt_tables pt m then Some Allocated else fa_state fa f)
   \<and> same_except pt (pt_tables pt m') m m')"

definition unmapped_error :: "PageTable \<Rightarrow> alloc_mem \<Rightarrow> alloc_mem \<Rightarrow> bool" where
  "unmapped_error pt s s' \<longleftrightarrow> (case (s, s') of ((fa, m), (fa', m')) \<Rightarrow>
     pt_inv pt fa' m' \<and> (\<forall>b. page_entry pt m' b = page_entry pt m b) \<and> pt_tables pt m' = pt_tables pt m
   \<and> fa_state fa' = fa_state fa \<and> same_except pt {f. fa_state fa f = Some Free} m m')"

lemma unmapped_error_refl: "pt_inv pt fa m \<Longrightarrow> unmapped_error pt (fa, m) (fa, m)"
  by (simp add: unmapped_error_def)

lemma map_into_table_spec:
  assumes inv: "pt_inv pt fa m" and P: "pt_walk pt m (page_path pt a) = Some t"
    and ups: "set ups = (\<Union>k\<in>{0..<pt_depth pt}. upgrade_at pt m (page_path pt a) user k)"
    and leaf: "bit leaf 0" "bit leaf 2 = user"
  shows "\<exists>r s'. map_into_table pt a leaf t ups (fa, m) = Ret (r, s') \<and>
    (case r of Inr _ \<Rightarrow> mapped pt a leaf (fa, m) s'
     | Inl e \<Rightarrow> s' = (fa, m) \<and> e = PtPageAlreadyMapped \<and> page_entry pt m a \<noteq> None)"
proof -
  let ?P = "page_path pt a" and ?i = "p1_index a"
  have tb: "dm_frame pt t" "table pt t = Some (t + dm_offset (pt_direct_map pt))"
    using pt_walk_prefix_table [OF inv P] by auto
  have pe: "page_entry pt m a = (if bit (ent pt m t ?i) 0 then Some (ent pt m t ?i) else None)"
    using P by (simp add: page_entry_def Let_def)
  show ?thesis
  proof (cases "bit (ent pt m t ?i) 0")
    case True
    then have "map_into_table pt a leaf t ups (fa, m) = Ret (Inl PtPageAlreadyMapped, fa, m)"
      using tb by (simp add: map_into_table_def ent_def)
    then show ?thesis using True pe by simp
  next
    case False
    have P': "pt_walk pt m (take (pt_depth pt) ?P) = Some t" using P by simp
    obtain m1 where m1: "apply_user_upgrades pt ups m = Ret m1" "pt_inv pt fa m1" "pt_tables pt m1 = pt_tables pt m"
        "\<And>q. length q \<le> pt_depth pt \<Longrightarrow> pt_walk pt m1 q = pt_walk pt m q"
        "\<And>b. page_entry pt m1 b = page_entry pt m b" "same_except pt (pt_tables pt m) m m1"
        "\<And>f j. dm_frame pt f \<Longrightarrow> j < 512 \<Longrightarrow> bit (ent pt m1 f j) 0 = bit (ent pt m f j) 0"
        "\<And>f j. dm_frame pt f \<Longrightarrow> f \<notin> pt_tables pt m \<Longrightarrow> j < 512 \<Longrightarrow> ent pt m1 f j = ent pt m f j"
        "\<And>k g. user \<Longrightarrow> k < pt_depth pt \<Longrightarrow> pt_walk pt m (take k ?P) = Some g \<Longrightarrow> bit (ent pt m1 g (?P ! k)) 2"
      by (rule upgrade_step [OF inv order_refl length_page_path P' ups]) (rule that)
    let ?m = "set_ent pt m1 t ?i leaf"
    have t1: "pt_walk pt m1 ?P = Some t" using m1(4) P by simp
    have usr: "bit (ent pt m1 g (?P ! k)) 2"
      if "bit leaf 0" "bit leaf 2" "k < pt_depth pt" "pt_walk pt m1 (take k ?P) = Some g" for k g
      using m1(9) [of k g] leaf(2) m1(4) [of "take k ?P"] that by simp
    note lf = pt_inv_set_leaf [OF m1(2) length_page_path t1 index_bounds(2), where e = leaf]
    have lf1: "pt_inv pt fa ?m" "pt_tables pt ?m = pt_tables pt m1" by (rule lf; erule (3) usr)+
    have lf2: "page_entry pt ?m b = (if page_path pt b = ?P \<and> p1_index b = ?i then if bit leaf 0 then Some leaf else None
        else page_entry pt m1 b)" for b by (rule lf; erule (3) usr)
    have "t \<in> pt_tables pt m" using reachI [OF P] by simp
    then have "same_except pt (pt_tables pt m) m ?m"
      by (intro same_except_trans [OF m1(6) set_ent_same_except [OF tb(1) index_bounds(2)]]) auto
    then have "mapped pt a leaf (fa, m) (fa, ?m)"
      using lf1 lf2 m1(3,5) False pe leaf(1) by (simp add: mapped_def)
    moreover have "map_into_table pt a leaf t ups (fa, m) = Ret (Inr (), fa, ?m)"
      using False tb m1(1) by (simp add: map_into_table_def ent_def set_ent_def)
    ultimately show ?thesis by simp
  qed
qed

lemma upgrade_at_cong:
  assumes "pt_walk pt m' (take k P) = pt_walk pt m (take k P)" "\<And>g. pt_walk pt m (take k P) = Some g \<Longrightarrow>
    ent pt m' g (P ! k) = ent pt m g (P ! k)"
  shows "upgrade_at pt m' P user k = upgrade_at pt m P user k"
  using assms by (auto simp: upgrade_at_def)

text \<open>The errors that stem from the supply of frames.\<close>

definition frame_shortage :: "PageTable \<Rightarrow> FrameAllocator \<Rightarrow> PageTableMapError \<Rightarrow> bool" where
  "frame_shortage pt fa e \<longleftrightarrow>
     (e = PtOutOfFrames \<and> card {f. fa_state fa f = Some Free} < pt_depth pt)
   \<or> (e = PtPhysicalAddressTooLarge \<and> (\<exists>f. fa_state fa f = Some Free \<and> physical_address_limit (pt_config pt) \<le> f))"

text \<open>The private tables, once prepared, form a chain that no table links to.\<close>

lemma prepare_private_tables_spec:
  assumes inv: "pt_inv pt fa m" and d: "d < pt_depth pt"
  shows "\<exists>res fs fa' m'. prepare_private_tables pt a user leaf d (fa, m) = Ret (res, fs, fa', m') \<and> pt_ok pt fa'
     \<and> distinct fs \<and> (\<forall>f\<in>set fs. fa_state fa f = Some Free)
     \<and> fa_state fa' = (\<lambda>f. if f \<in> set fs then Some Allocated else fa_state fa f)
     \<and> same_except pt (set fs) m m'
     \<and> (case res of
          Inl e \<Rightarrow> frame_shortage pt fa e
        | Inr e \<Rightarrow> entry_new_table (hd fs) user (pt_config pt) = Inr e
            \<and> chain_entries pt m' user fs (drop (Suc d) (page_path pt a))
            \<and> (\<forall>j<512. ent pt m' (last fs) j = (if j = p1_index a then leaf else 0)))"
proof -
  obtain res fs fa1 m1 where al: "alloc_private_tables pt user (pt_depth pt - d) (fa, m) = Ret (res, fs, fa1, m1)"
      "pt_ok pt fa1" "distinct fs" "\<forall>f\<in>set fs. fa_state fa f = Some Free"
      "fa_state fa1 = (\<lambda>f. if f \<in> set fs then Some Allocated else fa_state fa f)" "same_except pt (set fs) m m1"
      "case res of
          Inl e \<Rightarrow> (e = PtOutOfFrames \<and> length fs < pt_depth pt - d \<and> (\<forall>f. fa_state fa1 f \<noteq> Some Free))
             \<or> (e = PtPhysicalAddressTooLarge \<and> (\<exists>f\<in>set fs. physical_address_limit (pt_config pt) \<le> f))
        | Inr _ \<Rightarrow> length fs = pt_depth pt - d \<and> (\<forall>f\<in>set fs. f < physical_address_limit (pt_config pt)
             \<and> (\<forall>j<512. ent pt m1 f j = 0))"
    using alloc_private_tables_spec [OF pt_invD(1) [OF inv], of user "pt_depth pt - d" m] by blast
  show ?thesis
  proof (cases res)
    case (Inl e)
    have "card {f. fa_state fa f = Some Free} < pt_depth pt" if "\<forall>f. fa_state fa1 f \<noteq> Some Free" "length fs < pt_depth pt - d"
    proof -
      have "{f. fa_state fa f = Some Free} \<subseteq> set fs" using that(1) al(5) by (auto split: if_splits)
      then have "card {f. fa_state fa f = Some Free} \<le> length fs"
        by (meson card_length card_mono List.finite_set order_trans)
      then show ?thesis using that(2) by simp
    qed
    then have "frame_shortage pt fa e" using al(4,7) Inl by (auto simp: frame_shortage_def)
    then show ?thesis using al(1-6) Inl by (intro exI [of _ "Inl e"]) (auto simp: prepare_private_tables_def)
  next
    case (Inr x)
    then have len: "length fs = pt_depth pt - d"
      and fs: "\<And>f. f \<in> set fs \<Longrightarrow> f < physical_address_limit (pt_config pt)"
        "\<And>f j. f \<in> set fs \<Longrightarrow> j < 512 \<Longrightarrow> ent pt m1 f j = 0" using al(7) by auto
    then obtain f gs where fgs: "fs = f # gs" using d by (cases fs) auto
    have dms: "\<And>f. f \<in> set fs \<Longrightarrow> dm_frame pt f"
      using fa_state_dm_frame [OF al(2)] al(5) by simp
    have js: "map (\<lambda>l. level_index l a) (drop (d + 1) (pt_levels pt)) = drop (Suc d) (page_path pt a)"
      by (simp add: page_path_def drop_map)
    have lens: "Suc (length (drop (d + 1) (pt_levels pt))) = length fs" using len d by simp
    obtain m2 where lk: "link_private_tables pt a user leaf (drop (d + 1) (pt_levels pt)) fs m1 = (Inr (), m2)"
        "same_except pt (set fs) m1 m2" "chain_entries pt m2 user fs (drop (Suc d) (page_path pt a))"
        "\<forall>j<512. ent pt m2 (last fs) j = (if j = p1_index a then leaf else 0)"
      using link_private_tables_spec [of fs "drop (d + 1) (pt_levels pt)" pt m1 a user leaf, OF _ lens al(3) dms fs] fgs
      unfolding js by blast
    obtain e where e: "entry_new_table f user (pt_config pt) = Inr e"
      using entry_new_table_ok_iff fs(1) fgs by (metis list.set_intros(1))
    have "prepare_private_tables pt a user leaf d (fa, m) = Ret (Inr e, fs, fa1, m2)"
      using al(1) Inr lk(1) e fgs by (simp add: prepare_private_tables_def)
    then show ?thesis
      using al(2-5) lk e fgs same_except_trans [OF al(6) lk(2), of "set fs"]
      by (intro exI [of _ "Inr e"] exI [of _ fs] exI [of _ fa1] exI [of _ m2]) auto
  qed
qed

lemma map_with_new_tables_spec:
  assumes inv: "pt_inv pt fa m" and d: "d < pt_depth pt" and P: "pt_walk pt m (take d (page_path pt a)) = Some t"
    and absent: "\<not> bit (ent pt m t (page_path pt a ! d)) 0"
    and ups: "set ups = (\<Union>k\<in>{0..<d}. upgrade_at pt m (page_path pt a) user k)"
    and leaf: "bit leaf 0" "bit leaf 2 = user"
  shows "\<exists>r s'. map_with_new_tables pt a user leaf d \<lparr>loc_table = t, loc_index = page_path pt a ! d\<rparr> ups (fa, m) = Ret (r, s') \<and>
    (case r of Inr _ \<Rightarrow> mapped pt a leaf (fa, m) s'
     | Inl e \<Rightarrow> unmapped_error pt (fa, m) s' \<and> frame_shortage pt fa e
         \<and> page_entry pt m a = None)"
proof -
  let ?P = "page_path pt a"
  obtain res fs fa1 m1 where pp: "prepare_private_tables pt a user leaf d (fa, m) = Ret (res, fs, fa1, m1)" "pt_ok pt fa1"
      "distinct fs" "\<forall>f\<in>set fs. fa_state fa f = Some Free"
      "fa_state fa1 = (\<lambda>f. if f \<in> set fs then Some Allocated else fa_state fa f)" "same_except pt (set fs) m m1"
      "case res of
          Inl e \<Rightarrow> frame_shortage pt fa e
        | Inr e \<Rightarrow> entry_new_table (hd fs) user (pt_config pt) = Inr e
            \<and> chain_entries pt m1 user fs (drop (Suc d) ?P)
            \<and> (\<forall>j<512. ent pt m1 (last fs) j = (if j = p1_index a then leaf else 0))"
    using prepare_private_tables_spec [OF inv d] by blast
  have split: "?P = take d ?P @ ?P ! d # drop (Suc d) ?P" using d by (intro id_take_nth_drop) simp
  have ix: "?P ! d < 512" using page_path_bounds [of "?P ! d" pt a] d by simp
  have new: "set fs \<inter> pt_tables pt m = {}" using pp(4) pt_invD(4) [OF inv] by force
  have dms: "dm_frame pt f" if "f \<in> set fs" for f using fa_state_dm_frame [OF pp(2)] pp(5) that by simp
  have ent1: "ent pt m1 f j = ent pt m f j" if "f \<in> pt_tables pt m" "j < 512" for f j
    using same_except_ent [OF pp(6) pt_invD(5) [OF inv that(1)] _ dms that(2)] new that(1) by auto
  have st1: "fa_state fa1 f = Some Allocated" if "f \<in> pt_tables pt m" for f
    using pp(5) pt_invD(4) [OF inv that] by simp
  note fr = pt_inv_frame [OF inv pp(2) st1 ent1]
  have inv1: "pt_inv pt fa1 m1" and tab1: "pt_tables pt m1 = pt_tables pt m"
    and pe1: "\<And>b. page_entry pt m1 b = page_entry pt m b"
    and w1: "\<And>q. length q \<le> pt_depth pt \<Longrightarrow> pt_walk pt m1 q = pt_walk pt m q"
    by (rule fr; assumption)+
  have t: "t \<in> pt_tables pt m" using reachI [OF P] d by simp
  have "pt_walk pt m ?P = None"
    using P absent by (subst split) (simp add: walk_append links_eq [OF pt_invD(2) [OF inv]])
  then have none: "page_entry pt m a = None" by (simp add: page_entry_def)
  show ?thesis
  proof (cases res)
    case (Inl e)
    have "\<forall>f\<in>set (rev fs). fa_state fa1 f = Some Allocated" using pp(5) by simp
    then obtain fa2 where fa2: "dealloc_list dealloc (rev fs) fa1 = Ret fa2" "fa_inv fa2"
        "fa_state fa2 = (\<lambda>f. if f \<in> set (rev fs) then Some Free else fa_state fa1 f)"
      using frames.dealloc_list_spec [of fa1 "rev fs"] pp(2,3) by (auto simp: pt_ok_def)
    have st: "fa_state fa2 = fa_state fa" using fa2(3) pp(4,5) by (auto simp: fun_eq_iff)
    have ok2: "pt_ok pt fa2" using pp(2) fa2(2) dealloc_list_direct_map [OF fa2(1)] by (simp add: pt_ok_def)
    have "pt_inv pt fa2 m1"
      by (rule pt_inv_frame [OF inv ok2]) (use st pt_invD(4) [OF inv] ent1 in auto)
    then have "unmapped_error pt (fa, m) (fa2, m1)"
      using tab1 pe1 st same_except_mono [OF pp(6), of "{f. fa_state fa f = Some Free}"] pp(4)
      by (auto simp: unmapped_error_def)
    then show ?thesis
      using Inl pp(1,7) fa2(1) none by (intro exI [of _ "Inl e"] exI [of _ "(fa2, m1)"]) (simp add: map_with_new_tables_def)
  next
    case (Inr e)
    then have e: "entry_new_table (hd fs) user (pt_config pt) = Inr e" "chain_entries pt m1 user fs (drop (Suc d) ?P)"
        "\<And>j. j < 512 \<Longrightarrow> ent pt m1 (last fs) j = (if j = p1_index a then leaf else 0)" using pp(7) by auto
    have "upgrade_at pt m1 ?P user k = upgrade_at pt m ?P user k" if "k < d" for k
      using that d w1 [of "take k ?P"] page_path_bounds [of "?P ! k" pt a]
      by (intro upgrade_at_cong ent1) (auto intro: reachI)
    then have ups1: "set ups = (\<Union>k\<in>{0..<d}. upgrade_at pt m1 ?P user k)" using ups by auto
    have P1: "pt_walk pt m1 (take d ?P) = Some t" using w1 P d by simp
    obtain m2 where m2: "apply_user_upgrades pt ups m1 = Ret m2" "pt_inv pt fa1 m2" "pt_tables pt m2 = pt_tables pt m1"
        "\<And>q. length q \<le> pt_depth pt \<Longrightarrow> pt_walk pt m2 q = pt_walk pt m1 q"
        "\<And>b. page_entry pt m2 b = page_entry pt m1 b" "same_except pt (pt_tables pt m1) m1 m2"
        "\<And>f j. dm_frame pt f \<Longrightarrow> j < 512 \<Longrightarrow> bit (ent pt m2 f j) 0 = bit (ent pt m1 f j) 0"
        "\<And>f j. dm_frame pt f \<Longrightarrow> f \<notin> pt_tables pt m1 \<Longrightarrow> j < 512 \<Longrightarrow> ent pt m2 f j = ent pt m1 f j"
        "\<And>k g. user \<Longrightarrow> k < d \<Longrightarrow> pt_walk pt m1 (take k ?P) = Some g \<Longrightarrow> bit (ent pt m2 g (?P ! k)) 2"
      by (rule upgrade_step [OF inv1 less_imp_le [OF d] length_page_path P1 ups1]) (rule that)
    have fs2: "ent pt m2 f j = ent pt m1 f j" if "f \<in> set fs" "j < 512" for f j
      using m2(8) [OF dms [OF that(1)] _ that(2)] new tab1 that(1) by auto
    have ne: "fs \<noteq> []" using e(2) by (auto simp: chain_entries_def)
    let ?m = "set_ent pt m2 t (?P ! d) e"
    have t2: "pt_walk pt m2 (take d ?P) = Some t" using m2(4) P1 d by simp
    have absent2: "\<not> bit (ent pt m2 t (?P ! d)) 0"
      using m2(7) [OF pt_invD(5) [OF inv t] ix] ent1 [OF t ix] absent by simp
    have dlen: "length (take d ?P) < pt_depth pt" using d by simp
    have usr: "bit (ent pt m2 g (take d ?P ! k)) 2"
      if "user" "k < length (take d ?P)" "pt_walk pt m2 (take k (take d ?P)) = Some g" for k g
      using m2(9) [of k g] m2(4) [of "take k ?P"] that d by (simp add: min_def split: if_splits)
    have gr: "pt_inv pt fa1 ?m"
        "\<And>b. page_entry pt ?m b = (if page_path pt b = take d ?P @ ?P ! d # drop (Suc d) ?P \<and> p1_index b = p1_index a
            then Some leaf else page_entry pt m2 b)"
        "pt_tables pt ?m = pt_tables pt m2 \<union> set fs"
      by (rule pt_inv_graft [OF m2(2) dlen t2 ix absent2 pp(3), where user = user and leaf = leaf and ?i1.0 = "p1_index a"];
          use new m2(3) tab1 pp(5) d chain_entries_cong [OF e(2) fs2] fs2 e(1,3) ne leaf usr in simp)+
    have se: "same_except pt (pt_tables pt ?m) m ?m"
      by (rule same_except_trans [OF same_except_trans [OF pp(6) m2(6) order_refl]
            set_ent_same_except [OF pt_invD(5) [OF inv t] ix]])
        (use gr(3) m2(3) tab1 t in auto)
    have diff: "pt_tables pt ?m - pt_tables pt m = set fs" using gr(3) m2(3) tab1 new by auto
    have "\<forall>b. page_entry pt ?m b = (if page_path pt b = ?P \<and> p1_index b = p1_index a then Some leaf else page_entry pt m b)"
      using gr(2) m2(5) pe1 split by simp
    moreover have "pt_tables pt m \<subseteq> pt_tables pt ?m" using gr(3) m2(3) tab1 by simp
    moreover have "\<forall>f\<in>pt_tables pt ?m - pt_tables pt m. fa_state fa f = Some Free"
        "fa_state fa1 = (\<lambda>f. if f \<in> pt_tables pt ?m - pt_tables pt m then Some Allocated else fa_state fa f)"
      using pp(4,5) unfolding diff by simp_all
    ultimately have "mapped pt a leaf (fa, m) (fa1, ?m)"
      unfolding mapped_def prod.case using gr(1) none se by blast
    moreover have "map_with_new_tables pt a user leaf d \<lparr>loc_table = t, loc_index = ?P ! d\<rparr> ups (fa, m) = Ret (Inr (), fa1, ?m)"
      using pp(1) Inr m2(1) dm_frame_table [OF pt_invD(5) [OF inv t]] by (simp add: map_with_new_tables_def set_ent_def)
    ultimately show ?thesis by simp
  qed
qed

subsection \<open>The whole operation\<close>

text \<open>Why \<open>map\<close> refused the page.\<close>

definition map_error_reason ::
  "PageTable \<Rightarrow> usize \<Rightarrow> FrameAddr \<Rightarrow> PagePermissions \<Rightarrow> alloc_mem \<Rightarrow> PageTableMapError \<Rightarrow> bool" where
  "map_error_reason pt a frame perms s e \<longleftrightarrow>
     (e = PtInvalidVirtualAddress \<and> \<not> is_canonical pt a)
   \<or> (e = PtVirtualAddressUnaligned \<and> a mod PAGE_SIZE \<noteq> 0)
   \<or> (e = PtPhysicalAddressTooLarge \<and> physical_address_limit (pt_config pt) \<le> frame)
   \<or> (e = PtNoExecuteUnsupported \<and> \<not> executable perms \<and> \<not> pc_nx_enabled (pt_config pt))
   \<or> (e = PtPageAlreadyMapped \<and> page_entry pt (snd s) a \<noteq> None)
   \<or> (frame_shortage pt (fst s) e \<and> page_entry pt (snd s) a = None)"

lemma entry_new_error:
  assumes "entry_new frame perms cache cfg glob = Inl e"
  shows "(e = EntryPhysicalAddressTooLarge \<and> physical_address_limit cfg \<le> frame)
    \<or> (e = EntryNoExecuteUnsupported \<and> \<not> executable perms \<and> \<not> pc_nx_enabled cfg)"
  using assms by (auto simp: entry_new_def Let_def split: if_split_asm)

lemma page_table_map_spec:
  assumes inv: "pt_inv pt fa m" and frame: "frame_aligned frame"
  shows "\<exists>r s'. page_table_map pt a frame perms cache glob (fa, m) = Ret (r, s') \<and>
    (case r of
       Inr _ \<Rightarrow> is_canonical pt a \<and> a mod PAGE_SIZE = 0 \<and>
         (\<exists>leaf. entry_new frame perms cache (pt_config pt) glob = Inr leaf \<and> mapped pt a leaf (fa, m) s')
     | Inl e \<Rightarrow> unmapped_error pt (fa, m) s' \<and> map_error_reason pt a frame perms (fa, m) e)"
proof (cases "is_canonical pt a \<and> a mod PAGE_SIZE = 0")
  case False
  then show ?thesis
    using unmapped_error_refl [OF inv] by (auto simp: page_table_map_def map_error_reason_def)
next
  case canon: True
  show ?thesis
  proof (cases "entry_new frame perms cache (pt_config pt) glob")
    case (Inl e)
    then show ?thesis
      using entry_new_error [OF Inl] canon unmapped_error_refl [OF inv] by (auto simp: page_table_map_def map_error_reason_def)
  next
    case (Inr leaf)
    note dec = entry_new_decode [OF Inr frame pt_invD(2) [OF inv]]
    have leaf: "bit leaf 0" "bit leaf 2 = user_accessible perms"
      using dec(1,3) by (auto simp: entry_permissions_def page_permissions_def)
    obtain d u ups r where scan: "map_scan pt m a (user_accessible perms) (pt_levels pt) 0 (pt_frame pt) [] = Inr (u, ups, r)"
        "d \<le> pt_depth pt" "pt_walk pt m (take d (page_path pt a)) = Some u"
        "set ups = (\<Union>k\<in>{0..<d}. upgrade_at pt m (page_path pt a) (user_accessible perms) k)"
        "if d = pt_depth pt then r = None
         else r = Some (d, \<lparr>loc_table = u, loc_index = page_path pt a ! d\<rparr>) \<and> \<not> bit (ent pt m u (page_path pt a ! d)) 0"
      using map_scan_spec [OF inv, of "[]" "pt_levels pt" a "pt_frame pt" "user_accessible perms" "[]"] by auto
    show ?thesis
    proof (cases "d = pt_depth pt")
      case True
      then have "page_table_map pt a frame perms cache glob (fa, m) = map_into_table pt a leaf u ups (fa, m)"
        using canon Inr scan(1,5) by (simp add: page_table_map_def)
      moreover obtain r s' where "map_into_table pt a leaf u ups (fa, m) = Ret (r, s')"
          "case r of Inr _ \<Rightarrow> mapped pt a leaf (fa, m) s'
           | Inl e \<Rightarrow> s' = (fa, m) \<and> e = PtPageAlreadyMapped \<and> page_entry pt m a \<noteq> None"
        using map_into_table_spec [OF inv _ _ leaf, of a u ups] scan(3,4) True by auto
      ultimately show ?thesis
        using canon Inr unmapped_error_refl [OF inv] by (cases r) (auto simp: map_error_reason_def)
    next
      case False
      then have "page_table_map pt a frame perms cache glob (fa, m) =
          map_with_new_tables pt a (user_accessible perms) leaf d \<lparr>loc_table = u, loc_index = page_path pt a ! d\<rparr> ups (fa, m)"
        using canon Inr scan(1,5) by (simp add: page_table_map_def)
      moreover obtain r s' where
          "map_with_new_tables pt a (user_accessible perms) leaf d \<lparr>loc_table = u, loc_index = page_path pt a ! d\<rparr> ups (fa, m)
             = Ret (r, s')"
          "case r of Inr _ \<Rightarrow> mapped pt a leaf (fa, m) s'
           | Inl e \<Rightarrow> unmapped_error pt (fa, m) s' \<and> frame_shortage pt fa e \<and> page_entry pt m a = None"
        using map_with_new_tables_spec [OF inv _ scan(3) _ scan(4) leaf] scan(2,5) False by auto
      ultimately show ?thesis
        using canon Inr by (cases r) (auto simp: map_error_reason_def)
    qed
  qed
qed

end
