(* ===== verification/Paging_Unmap.thy ===== *)
theory Paging_Unmap
  imports Paging_Steps
begin

section \<open>Unmapping a page\<close>

text \<open>
  \<open>page_table_unmap\<close> clears exactly one leaf, frees exactly the tables that became empty,
  and keeps the invariant.
\<close>

lemma get_next_level_eq:
  assumes inv: "pt_inv pt fa m" and p: "pt_walk pt m p = Some t" "length p < pt_depth pt"
  shows "get_next_level pt m t (level_index l a) l =
    (case links pt m t (level_index l a) of None \<Rightarrow> Inl PuPageNotMapped | Some f \<Rightarrow> Inr f)"
proof -
  have "\<not> bit (ent pt m t (level_index l a)) 7"
    using pt_invD(6) [OF inv p(2,1)] by auto
  then show ?thesis
    using pt_walk_prefix_table [OF inv p(1)] p(2) pt_invD(2) [OF inv]
    by (simp add: get_next_level_def links_eq ent_def table_frame_eq Let_def)
qed

lemma unmap_walk_eq:
  assumes inv: "pt_inv pt fa m" and "pt_levels pt = pre @ ls"
    and "pt_walk pt m (map (\<lambda>l. level_index l a) pre) = Some t"
  shows "unmap_walk pt m a ls t =
    (case trace (links pt m) t (map (\<lambda>l. level_index l a) ls) of
       None \<Rightarrow> Inl PuPageNotMapped | Some fs \<Rightarrow> Inr fs)"
  using assms(2,3)
proof (induction ls arbitrary: pre t)
  case (Cons l ls)
  note next_eq = get_next_level_eq [OF inv Cons.prems(2), of l a]
  show ?case
  proof (cases "links pt m t (level_index l a)")
    case None
    then show ?thesis using next_eq Cons.prems(1) by simp
  next
    case (Some f)
    then have "pt_walk pt m (map (\<lambda>l. level_index l a) (pre @ [l])) = Some f"
      using Cons.prems(2) by (simp add: walk_snoc)
    then show ?thesis
      using Cons.IH [of "pre @ [l]" f] Cons.prems(1) next_eq Some by (simp split: option.splits)
  qed
qed simp

lemma table_is_empty_iff:
  "table_is_empty m (f + dm_offset (pt_direct_map pt)) \<longleftrightarrow> (\<forall>j<512. \<not> bit (ent pt m f j) 0)"
  by (auto simp: table_is_empty_def ent_def list_all_iff)

text \<open>The steps of the pruning loop that concern the first \<open>n\<close> levels, deepest first.\<close>

definition prune_steps :: "PageTable \<Rightarrow> FrameAddr list \<Rightarrow> nat \<Rightarrow> (PageTableLevel \<times> FrameAddr \<times> FrameAddr) list" where
  "prune_steps pt fs n = rev (map (\<lambda>k. (pt_levels pt ! k, fs ! k, fs ! Suc k)) [0..<n])"

lemma prune_steps_Suc: "prune_steps pt fs (Suc n) = (pt_levels pt ! n, fs ! n, fs ! Suc n) # prune_steps pt fs n"
  by (simp add: prune_steps_def)

lemma prune_steps_Nil: "prune_steps pt fs n = [] \<longleftrightarrow> n = 0"
  by (simp add: prune_steps_def)

lemma prune_steps_eq:
  "length fs = Suc (pt_depth pt) \<Longrightarrow>
   rev (zip (pt_levels pt) (zip fs (tl fs))) = prune_steps pt fs (pt_depth pt)"
  unfolding prune_steps_def by (intro arg_cong [where f = rev] nth_equalityI) (auto simp: nth_tl)

lemma unmap_prune_spec:
  assumes "pt_inv pt fa m" "n \<le> pt_depth pt" "length fs = Suc (pt_depth pt)"
    and "\<And>k. k \<le> n \<Longrightarrow> pt_walk pt m (take k (page_path pt a)) = Some (fs ! k)"
    and "0 < n \<Longrightarrow> ce \<Longrightarrow> \<forall>j<512. \<not> bit (ent pt m (fs ! n) j) 0"
  shows "\<exists>freed m'. unmap_prune pt a (prune_steps pt fs n) ce m = Ret (freed, m') \<and> pt_inv pt fa m'
     \<and> (\<forall>b. page_entry pt m' b = page_entry pt m b) \<and> pt_tables pt m' = pt_tables pt m - set freed
     \<and> set freed \<subseteq> pt_tables pt m \<and> distinct freed \<and> same_except pt (pt_tables pt m) m m'"
  using assms
proof (induction n arbitrary: m ce)
  case 0
  then show ?case by (auto simp: prune_steps_def)
next
  case (Suc n)
  let ?p = "take n (page_path pt a)" and ?t = "fs ! n" and ?c = "fs ! Suc n"
  let ?i = "level_index (pt_levels pt ! n) a" and ?m = "set_ent pt m (fs ! n) (level_index (pt_levels pt ! n) a) 0"
  show ?case
  proof (cases ce)
    case False
    then show ?thesis using Suc.prems(1) by (auto simp: prune_steps_Suc)
  next
    case True
    have n: "n < pt_depth pt" using Suc.prems(2) by simp
    have i: "?i = page_path pt a ! n" using n by (simp add: page_path_def)
    have t: "pt_walk pt m ?p = Some ?t" using Suc.prems(4) [of n] by simp
    have c: "links pt m ?t ?i = Some ?c"
      using Suc.prems(4) [of "Suc n"] walk_step [OF t] n i by simp
    have empty: "\<And>j. j < 512 \<Longrightarrow> \<not> bit (ent pt m ?c j) 0" using Suc.prems(5) True by simp
    note pr = pt_inv_prune [OF Suc.prems(1) _ t _ c empty]
    have tb: "dm_frame pt ?t" "table pt ?t = Some (?t + dm_offset (pt_direct_map pt))"
      using pt_walk_prefix_table [OF Suc.prems(1) t] n by auto
    have inT: "?t \<in> pt_tables pt m" "?c \<in> pt_tables pt m"
      using reachI [OF t] reachI [OF Suc.prems(4) [of "Suc n"]] n by auto
    have inv': "pt_inv pt fa ?m" using pr(1) n by simp
    have "\<not> prefix (?p @ [?i]) (take k (page_path pt a))" if "k \<le> n" for k
      using that n prefix_length_le [of "?p @ [?i]" "take k (page_path pt a)"] by auto
    then have walks: "pt_walk pt ?m (take k (page_path pt a)) = Some (fs ! k)" if "k \<le> n" for k
      using pr(4) [of "take k (page_path pt a)"] Suc.prems(4) [of k] that n by auto
    let ?ce = "if prune_steps pt fs n \<noteq> [] then table_is_empty ?m (?t + dm_offset (pt_direct_map pt)) else ce"
    have ce: "0 < n \<Longrightarrow> ?ce \<Longrightarrow> \<forall>j<512. \<not> bit (ent pt ?m ?t j) 0"
      by (simp add: prune_steps_Nil table_is_empty_iff)
    obtain freed m' where IH: "unmap_prune pt a (prune_steps pt fs n) ?ce ?m = Ret (freed, m')" "pt_inv pt fa m'"
        "\<forall>b. page_entry pt m' b = page_entry pt ?m b" "pt_tables pt m' = pt_tables pt ?m - set freed"
        "set freed \<subseteq> pt_tables pt ?m" "distinct freed" "same_except pt (pt_tables pt ?m) ?m m'"
      using Suc.IH [where ce = ?ce, OF inv' less_imp_le [OF n] Suc.prems(3) walks ce] by blast
    have "unmap_prune pt a (prune_steps pt fs (Suc n)) ce m = Ret (?c # freed, m')"
      using True tb IH(1) unfolding prune_steps_Suc set_ent_def
      by (cases "prune_steps pt fs n = []") (simp_all add: Let_def)
    moreover have tabs: "pt_tables pt ?m = pt_tables pt m - {?c}" using pr(3) n by simp
    moreover have "\<forall>b. page_entry pt m' b = page_entry pt m b" using IH(3) pr(2) n by simp
    moreover have "same_except pt (pt_tables pt m) m m'"
      by (rule same_except_trans [OF set_ent_same_except [OF tb(1), of ?i m 0] IH(7)]) (use inT tabs in auto)
    moreover have "pt_tables pt m' = pt_tables pt m - set (?c # freed)" "set (?c # freed) \<subseteq> pt_tables pt m"
        "distinct (?c # freed)"
      using IH(4-6) inT(2) unfolding tabs by auto
    ultimately show ?thesis using IH(2) by blast
  qed
qed

lemma page_table_unmap_spec:
  assumes inv: "pt_inv pt fa m" and a: "is_canonical pt a" "a mod PAGE_SIZE = 0"
  shows "case page_entry pt m a of
      None \<Rightarrow> page_table_unmap pt a (fa, m) = Ret (Inl PuPageNotMapped, fa, m)
    | Some e \<Rightarrow> \<exists>fa' m'. page_table_unmap pt a (fa, m) =
          Ret (Inr (entry_physical_address e (pt_config pt)), fa', m')
        \<and> pt_inv pt fa' m' \<and> fa_direct_map fa' = fa_direct_map fa
        \<and> (\<forall>b. page_entry pt m' b =
              (if page_path pt b = page_path pt a \<and> p1_index b = p1_index a then None else page_entry pt m b))
        \<and> pt_tables pt m' \<subseteq> pt_tables pt m
        \<and> fa_state fa' = (\<lambda>f. if f \<in> pt_tables pt m - pt_tables pt m' then Some Free else fa_state fa f)
        \<and> same_except pt (pt_tables pt m) m m'"
proof (cases "trace (links pt m) (pt_frame pt) (page_path pt a)")
  case None
  moreover have "page_entry pt m a = None"
    using None by (simp add: page_entry_def trace_None)
  ultimately show ?thesis
    using unmap_walk_eq [OF inv, of "[]" "pt_levels pt" a] a by (simp add: page_table_unmap_def page_path_def)
next
  case (Some fs)
  have fs: "length fs = Suc (pt_depth pt)" "\<And>k. k \<le> pt_depth pt \<Longrightarrow> pt_walk pt m (take k (page_path pt a)) = Some (fs ! k)"
    using trace_nth [OF Some] by auto
  have lst: "last fs = fs ! pt_depth pt" using fs(1) last_conv_nth [of fs] by (cases "fs = []") simp_all
  let ?t = "fs ! pt_depth pt" and ?P = "page_path pt a" and ?m = "set_ent pt m (fs ! pt_depth pt) (p1_index a) 0"
  let ?e = "ent pt m ?t (p1_index a)" and ?b = "?t + dm_offset (pt_direct_map pt)"
  have t: "pt_walk pt m ?P = Some ?t" using fs(2) [of "pt_depth pt"] by simp
  have tb: "dm_frame pt ?t" "table pt ?t = Some ?b" using pt_walk_prefix_table [OF inv t] by auto
  have uw: "unmap_walk pt m a (pt_levels pt) (pt_frame pt) = Inr fs"
    using unmap_walk_eq [OF inv, of "[]" "pt_levels pt" a] Some by (simp add: page_path_def)
  have lf: "leaf_frame ?e (pt_config pt) = (if bit ?e 0 then Some (entry_physical_address ?e (pt_config pt)) else None)"
    using leaf_frame_eq [OF pt_invD(2) [OF inv]] .
  have pe: "page_entry pt m a = (if bit ?e 0 then Some ?e else None)"
    using t by (simp add: page_entry_def Let_def)
  show ?thesis
  proof (cases "bit ?e 0")
    case False
    then have "page_table_unmap pt a (fa, m) = Ret (Inl PuPageNotMapped, fa, m)"
      using a uw lst tb lf unfolding page_table_unmap_def by (simp add: ent_def)
    then show ?thesis using pe False by simp
  next
    case True
    have leaf: "pt_inv pt fa ?m" "pt_tables pt ?m = pt_tables pt m"
        "\<And>q. length q \<le> pt_depth pt \<Longrightarrow> pt_walk pt ?m q = pt_walk pt m q"
        "\<And>b. page_entry pt ?m b = (if page_path pt b = ?P \<and> p1_index b = p1_index a then None else page_entry pt m b)"
      using pt_inv_set_leaf [OF inv length_page_path t index_bounds(2), of 0] by auto
    let ?ce = "table_is_empty ?m ?b"
    have ce: "0 < pt_depth pt \<Longrightarrow> ?ce \<Longrightarrow> \<forall>j<512. \<not> bit (ent pt ?m ?t j) 0"
      by (simp add: table_is_empty_iff)
    have walks: "\<And>k. k \<le> pt_depth pt \<Longrightarrow> pt_walk pt ?m (take k ?P) = Some (fs ! k)"
      using fs(2) leaf(3) by simp
    obtain freed m' where pr: "unmap_prune pt a (prune_steps pt fs (pt_depth pt)) ?ce ?m = Ret (freed, m')"
        "pt_inv pt fa m'" "\<forall>b. page_entry pt m' b = page_entry pt ?m b" "pt_tables pt m' = pt_tables pt ?m - set freed"
        "set freed \<subseteq> pt_tables pt ?m" "distinct freed" "same_except pt (pt_tables pt ?m) ?m m'"
      using unmap_prune_spec [OF leaf(1) order_refl fs(1) walks ce] by blast
    have "\<forall>f\<in>set freed. fa_state fa f = Some Allocated" using pr(5) leaf(2) pt_invD(4) [OF inv] by auto
    then obtain fa' where fa': "dealloc_list dealloc freed fa = Ret fa'" "fa_inv fa'"
        "fa_state fa' = (\<lambda>f. if f \<in> set freed then Some Free else fa_state fa f)"
      using frames.dealloc_list_spec [of fa freed] pr(6) pt_invD(1) [OF inv] by (auto simp: pt_ok_def)
    have dmap: "fa_direct_map fa' = fa_direct_map fa" using dealloc_list_direct_map [OF fa'(1)] .
    have "pt_inv pt fa' m'"
      by (rule pt_inv_frame [OF pr(2)]) (use fa' pr(4) leaf(2) pt_invD(1,4) [OF inv] dmap in \<open>auto simp: pt_ok_def\<close>)
    moreover have "page_table_unmap pt a (fa, m) = Ret (Inr (entry_physical_address ?e (pt_config pt)), fa', m')"
      using a uw lst tb lf True pr(1) fa'(1) prune_steps_eq [OF fs(1)]
      unfolding page_table_unmap_def by (simp add: ent_def set_ent_def)
    moreover have "same_except pt (pt_tables pt m) m m'"
      by (rule same_except_trans [OF set_ent_same_except [OF tb(1), of "p1_index a" m 0] pr(7)])
        (use reachI [OF t] leaf(2) in auto)
    moreover have "pt_tables pt m - pt_tables pt m' = set freed" using pr(4,5) leaf(2) by auto
    then have "fa_state fa' = (\<lambda>f. if f \<in> pt_tables pt m - pt_tables pt m' then Some Free else fa_state fa f)"
      using fa'(3) by simp
    moreover have "pt_tables pt m' \<subseteq> pt_tables pt m" using pr(4) leaf(2) by auto
    ultimately show ?thesis
      using pe True pr(3) leaf(4) dmap by simp
  qed
qed

end
