(* ===== verification/Frame_Correctness.thy ===== *)
theory Frame_Correctness
  imports Frame
begin

section \<open>Correctness of the frame allocator\<close>

text \<open>
  The theorems a client of \<open>memory/frame.rs\<close> relies on, stated over the functions of the
  file, each with a small concrete allocator on which it is exercised.
\<close>

text \<open>Four frames: reserved, free, allocated, free.\<close>

definition sample_fa :: FrameAllocator where
  "sample_fa = \<lparr>fa_bitmap = \<lparr>bm_start = 0xFFFF800000000000, bm_frame_count = 4, bm_bytes = [100]\<rparr>,
     fa_next_search = 0, fa_allocatable_frames = 3, fa_free_frames = 2,
     fa_direct_map = \<lparr>dm_offset = 0xFFFF800000000000\<rparr>\<rparr>"

lemma all_less_4: "(\<forall>i<(4::nat). P i) \<longleftrightarrow> P 0 \<and> P 1 \<and> P 2 \<and> P 3"
  by (auto simp: less_Suc_eq numeral_eq_Suc)

lemma sample_fa_inv: "fa_inv sample_fa"
  by (simp add: fa_inv_def sample_fa_def bitmap_wf_def count_state_def bitmap_state_def decode_frame_state_def
      Let_def upt_rec all_less_4)

lemma sample_fa_states:
  "fa_state sample_fa 0x1000 = Some Free" "fa_state sample_fa 0x2000 = Some Allocated"
  by code_simp+

text \<open>
  (C20) From any state in which the allocator's counters and bitmap agree, \<open>alloc\<close> does not
  panic. It answers \<open>None\<close> only when no tracked frame is free, and then changes nothing.
  Otherwise it returns a frame that was free, changes the state of that frame alone, to
  allocated, keeps the invariant, and the frame's 4096 bytes read as zero through the direct
  map while every byte outside them is untouched.
\<close>

theorem alloc_correct:
  assumes "fa_inv fa"
  shows "\<exists>r fa' m'. alloc fa m = Ret (r, fa', m') \<and> fa_inv fa' \<and>
     (case r of
        None \<Rightarrow> fa' = fa \<and> m' = m \<and> (\<forall>f. fa_state fa f \<noteq> Some Free)
      | Some f \<Rightarrow> fa_state fa f = Some Free \<and> fa_state fa' = (fa_state fa)(f \<mapsto> Allocated)
          \<and> (\<exists>v. translate (fa_direct_map fa) f = Some v
               \<and> read_bytes m' v 4096 = replicate 4096 0
               \<and> (\<forall>a. \<not> (unat v \<le> unat a \<and> unat a < unat v + 4096) \<longrightarrow> m' a = m a)))"
proof -
  obtain r fa' m' where r: "alloc fa m = Ret (r, fa', m')" "fa_inv fa'"
      "case r of None \<Rightarrow> fa' = fa \<and> m' = m \<and> (\<forall>f. fa_state fa f \<noteq> Some Free)
       | Some f \<Rightarrow> fa_state fa f = Some Free \<and> fa_state fa' = (fa_state fa)(f \<mapsto> Allocated)
             \<and> m' = fill_bytes m (f + dm_offset (fa_direct_map fa)) 0 4096"
    using alloc_spec [OF assms] by blast
  show ?thesis
  proof (cases r)
    case None
    then show ?thesis using r by auto
  next
    case (Some f)
    let ?v = "f + dm_offset (fa_direct_map fa)"
    have f: "fa_state fa f = Some Free" using r(3) Some by simp
    note v = fa_state_in_direct_map [OF assms f]
    have "read_bytes m' ?v 4096 = replicate 4096 0"
      using read_bytes_fill_inside [of ?v 4096 ?v 4096 m 0] r(3) Some v(2) by simp
    moreover have "\<forall>a. \<not> (unat ?v \<le> unat a \<and> unat a < unat ?v + 4096) \<longrightarrow> m' a = m a"
      using r(3) Some v(2) by (auto simp: fill_bytes_def in_range_iff)
    ultimately show ?thesis using r Some v(1) by auto
  qed
qed

theorem alloc_correct_witness:
  "\<exists>r fa' m'. alloc sample_fa (\<lambda>_. 7) = Ret (r, fa', m') \<and> fa_inv fa'"
  using alloc_correct [OF sample_fa_inv, of "\<lambda>_. 7"] by blast

text \<open>
  \<open>dealloc\<close> of a frame-aligned address succeeds exactly on allocated frames: there it
  makes that frame alone free again and keeps the invariant. On a free, a reserved or an
  untracked frame it panics, so a double free is never silently accepted.
\<close>

theorem dealloc_correct:
  assumes "fa_inv fa" "frame_aligned f"
  shows "if fa_state fa f = Some Allocated
     then \<exists>fa'. dealloc fa f = Ret fa' \<and> fa_inv fa' \<and> fa_state fa' = (fa_state fa)(f \<mapsto> Free)
     else dealloc fa f = Panic"
  using dealloc_spec [OF assms(1)] dealloc_not_allocated [OF assms(2)] by auto

theorem dealloc_correct_witness:
  "dealloc sample_fa 0x2000 \<noteq> Panic \<and> dealloc sample_fa 0x1000 = Panic"
proof -
  have "frame_aligned 0x2000" "frame_aligned 0x1000" by code_simp+
  then show ?thesis
    using dealloc_correct [OF sample_fa_inv, of "0x2000"] dealloc_correct [OF sample_fa_inv, of "0x1000"]
      sample_fa_states by auto
qed

text \<open>
  Taking any number of frames one after the other and giving them back in reverse
  order, the roll-back every client uses on failure, restores the state of every frame and
  cannot panic; the frames taken are pairwise different, and fewer than requested come back
  only when memory is exhausted.
\<close>

theorem alloc_rollback:
  assumes "fa_inv fa"
  shows "\<exists>fs fa' fa''. alloc_list alloc_nozero n fa = Ret (fs, fa') \<and> distinct fs
     \<and> (length fs < n \<longrightarrow> (\<forall>f. fa_state fa' f \<noteq> Some Free))
     \<and> dealloc_list dealloc (rev fs) fa' = Ret fa'' \<and> fa_inv fa'' \<and> fa_state fa'' = fa_state fa"
proof -
  obtain fs fa' where "alloc_list alloc_nozero n fa = Ret (fs, fa')" "distinct fs"
      "length fs < n \<longrightarrow> (\<forall>f. fa_state fa' f \<noteq> Some Free)"
    using frames.alloc_list_spec [OF assms, of n] by blast
  then show ?thesis
    using frames.alloc_list_rollback [OF assms] by blast
qed

theorem alloc_rollback_witness:
  "\<exists>fs fa' fa''. alloc_list alloc_nozero 3 sample_fa = Ret (fs, fa') \<and> distinct fs
     \<and> dealloc_list dealloc (rev fs) fa' = Ret fa'' \<and> fa_state fa'' = fa_state sample_fa"
  using alloc_rollback [OF sample_fa_inv, of 3] by blast



lemma sample_range:
  "usable_frame_range \<lparr>region_start = 0x1000, region_length = 0x3000, region_kind = Usable\<rparr> = Inr (1, 4)"
  "usable_frame_range \<lparr>region_start = 0, region_length = 0x1000, region_kind = AcpiReclaimable\<rparr> = Inr (0, 1)"
  by (simp_all add: usable_frame_range_def align_up_to_frame_def align_down_to_frame_def FRAME_SIZE_def
      checked_add_def)



text \<open>
  Reclaiming bootloader or ACPI memory after boot turns exactly the reserved frames of
  the regions of that kind into free frames, leaves the state of every other frame alone
  (a frame already handed out stays allocated), keeps the invariant and does not panic; any
  other kind of region is refused without a change.
\<close>

theorem reclaim_regions_correct:
  assumes "fa_inv fa" "\<forall>i\<in>set (frames_of_kind kind regions). i < bm_frame_count (fa_bitmap fa)"
    and "\<forall>r\<in>set regions. region_kind r = kind \<longrightarrow> (\<exists>s e. usable_frame_range r = Inr (s, e))"
  shows "\<exists>fa'. reclaim_regions fa regions kind = Ret fa' \<and> fa_inv fa' \<and>
     (if kind = BootloaderReclaimable \<or> kind = AcpiReclaimable
      then \<forall>i. bitmap_state (fa_bitmap fa') i =
             (if i \<in> set (frames_of_kind kind regions) \<and> bitmap_state (fa_bitmap fa) i = Ret Reserved
              then Ret Free else bitmap_state (fa_bitmap fa) i)
      else fa' = fa)"
proof (cases "kind = BootloaderReclaimable \<or> kind = AcpiReclaimable")
  case True
  then show ?thesis using reclaim_region_list_spec [OF assms] by (auto simp: reclaim_regions_def)
next
  case False
  then show ?thesis using assms(1) by (simp add: reclaim_regions_def)
qed

definition sample_reclaimable :: "MemoryRegion list" where
  "sample_reclaimable = [\<lparr>region_start = 0, region_length = 0x1000, region_kind = AcpiReclaimable\<rparr>]"

theorem reclaim_regions_correct_witness:
  "\<exists>fa'. reclaim_regions sample_fa sample_reclaimable AcpiReclaimable = Ret fa'
     \<and> bitmap_state (fa_bitmap fa') 0 = Ret Free"
proof -
  have frames: "frames_of_kind AcpiReclaimable sample_reclaimable = [0]"
    by (simp add: frames_of_kind_def region_frames_def sample_reclaimable_def sample_range)
  then have "\<forall>i\<in>set (frames_of_kind AcpiReclaimable sample_reclaimable). i < bm_frame_count (fa_bitmap sample_fa)"
    by (simp add: sample_fa_def)
  moreover have "\<forall>r\<in>set sample_reclaimable. region_kind r = AcpiReclaimable \<longrightarrow>
      (\<exists>s e. usable_frame_range r = Inr (s, e))"
    by (simp add: sample_reclaimable_def sample_range)
  moreover have "bitmap_state (fa_bitmap sample_fa) 0 = Ret Reserved"
    by (simp add: sample_fa_def bitmap_state_def decode_frame_state_def)
  ultimately show ?thesis
    using reclaim_regions_correct [OF sample_fa_inv, of AcpiReclaimable sample_reclaimable] frames by auto
qed

end
