(* ===== verification/Paging_Correctness.thy ===== *)
theory Paging_Correctness
  imports Paging_Map Paging_Unmap Frame_Correctness
begin

section \<open>Correctness of page tables\<close>

text \<open>
  What \<open>arch/x86_64/paging.rs\<close> promises to the address spaces built on it: creation,
  sharing of the kernel half, mapping and unmapping, over the translation functions
  \<open>page_table_to_physical\<close> and \<open>page_table_mapping\<close> that the rest of the kernel uses.
\<close>

subsection \<open>A new table\<close>

lemma pt_levels_nonempty [simp]: "0 < pt_depth pt" "pt_levels pt \<noteq> []"
  by (cases "pc_mode (pt_config pt)"; simp add: pt_levels_def FOUR_LEVEL_INTERMEDIATES_def FIVE_LEVEL_INTERMEDIATES_def)+

lemma pt_inv_empty:
  assumes ok: "pt_ok pt fa" and root: "fa_state fa (pt_frame pt) = Some Allocated"
    and zero: "\<And>j. j < 512 \<Longrightarrow> ent pt m (pt_frame pt) j = 0"
  shows "pt_inv pt fa m" "pt_tables pt m = {pt_frame pt}" "page_entry pt m b = None"
proof -
  have cfg: "config_ok (pt_config pt)" using ok by (simp add: pt_ok_def)
  have lk: "links pt m (pt_frame pt) j = None" for j
    using zero [of j] by (auto simp: links_eq [OF cfg])
  have w: "pt_walk pt m q = Some f \<longleftrightarrow> q = [] \<and> f = pt_frame pt" for q f
    using lk by (cases q) auto
  show t: "pt_tables pt m = {pt_frame pt}" by (auto simp: reach_def w)
  show "pt_inv pt fa m"
    unfolding pt_inv_def t using ok root zero by (auto simp: w tree_inj_def)
  have "page_path pt b \<noteq> []" by (simp add: page_path_def)
  then have "pt_walk pt m (page_path pt b) = None" using w by (metis option.exhaust)
  then show "page_entry pt m b = None" by (simp add: page_entry_def)
qed

lemma page_table_new_spec:
  assumes "fa_inv fa" "config_ok cfg" "dm = fa_direct_map fa"
  shows "\<exists>r fa' m'. page_table_new dm cfg (fa, m) = Ret (r, fa', m') \<and> fa_inv fa' \<and> fa_direct_map fa' = dm \<and>
    (case r of
       Inr pt \<Rightarrow> pt_inv pt fa' m' \<and> pt_config pt = cfg \<and> pt_direct_map pt = dm
         \<and> fa_state fa (pt_frame pt) = Some Free \<and> fa_state fa' = (fa_state fa)(pt_frame pt \<mapsto> Allocated)
         \<and> pt_tables pt m' = {pt_frame pt} \<and> (\<forall>b. page_entry pt m' b = None)
         \<and> (\<forall>j<512. ent pt m' (pt_frame pt) j = 0) \<and> same_except pt {pt_frame pt} m m'
     | Inl e \<Rightarrow> fa_state fa' = fa_state fa \<and> (\<forall>pt. pt_direct_map pt = dm \<longrightarrow>
           same_except pt {f. fa_state fa f = Some Free} m m') \<and>
         (if e = CrOutOfFrames then m' = m \<and> (\<forall>f. fa_state fa f \<noteq> Some Free)
          else \<exists>f. fa_state fa f = Some Free \<and> physical_address_limit cfg \<le> f))"
proof -
  obtain r fa1 m1 where r: "alloc fa m = Ret (r, fa1, m1)" "fa_inv fa1" "fa_direct_map fa1 = fa_direct_map fa"
      "case r of None \<Rightarrow> fa1 = fa \<and> m1 = m \<and> (\<forall>f. fa_state fa f \<noteq> Some Free)
       | Some f \<Rightarrow> fa_state fa f = Some Free \<and> fa_state fa1 = (fa_state fa)(f \<mapsto> Allocated)
             \<and> m1 = fill_bytes m (f + dm_offset (fa_direct_map fa)) 0 4096"
    using alloc_spec [OF assms(1), of m] by blast
  show ?thesis
  proof (cases r)
    case None
    then show ?thesis using r assms(3) by (simp add: page_table_new_def)
  next
    case (Some f)
    then have f: "fa_state fa f = Some Free" "fa_state fa1 = (fa_state fa)(f \<mapsto> Allocated)"
        "m1 = fill_bytes m (f + dm_offset dm) 0 4096" using r(4) assms(3) by auto
    show ?thesis
    proof (cases "physical_address_limit cfg \<le> f")
      case True
      obtain fa2 where fa2: "dealloc fa1 f = Ret fa2" "fa_inv fa2" "fa_direct_map fa2 = fa_direct_map fa1"
          "fa_state fa2 = (fa_state fa1)(f \<mapsto> Free)"
        using dealloc_spec [OF r(2), of f] f(2) by auto
      have "fa_state fa2 = fa_state fa" using fa2(4) f(1,2) by (auto simp: fun_eq_iff)
      moreover have "same_except pt {f. fa_state fa f = Some Free} m m1" if "pt_direct_map pt = dm" for pt
      proof -
        have "dm_frame pt f"
          using f(1) fa_state_in_direct_map [OF assms(1) f(1)] assms(3) that
          by (auto simp: dm_frame_def fa_state_def split: if_splits)
        then show ?thesis
          using same_except_mono [OF fill_same_except, of pt f "{f. fa_state fa f = Some Free}" m 0] f(1,3) that by simp
      qed
      ultimately show ?thesis
        using True r(1,3) Some fa2 f(1) assms(3) by (auto simp: page_table_new_def)
    next
      case False
      let ?pt = "\<lparr>pt_direct_map = dm, pt_config = cfg, pt_frame = f\<rparr>"
      have ok: "pt_ok ?pt fa1" using assms r(2,3) by (simp add: pt_ok_def)
      have dm: "dm_frame ?pt f" using fa_state_dm_frame [OF ok, of f] f(2) by simp
      have zero: "ent ?pt m1 (pt_frame ?pt) j = 0" if "j < 512" for j
        using ent_fill_zero [OF dm that, of m] f(3) by simp
      have alloc: "fa_state fa1 (pt_frame ?pt) = Some Allocated" using f(2) by simp
      note em = pt_inv_empty [OF ok alloc zero]
      have "same_except ?pt {f} m m1" using fill_same_except [OF dm, of m 0] f(3) by simp
      moreover have "page_table_new dm cfg (fa, m) = Ret (Inr ?pt, fa1, m1)"
        using r(1) Some False by (simp add: page_table_new_def)
      ultimately show ?thesis
        using em r(2,3) assms(3) f(1,2) zero by (intro exI [of _ "Inr ?pt"] exI [of _ fa1] exI [of _ m1]) simp
    qed
  qed
qed

subsection \<open>Sharing the kernel half\<close>

lemma copy_entries_spec:
  assumes "dm_frame pt f" "dm_frame pt g" "f \<noteq> g" "\<forall>i\<in>set is. i < 512"
  shows "same_except pt {g} m (copy_entries is (f + dm_offset (pt_direct_map pt)) (g + dm_offset (pt_direct_map pt)) m)
    \<and> (\<forall>j<512. ent pt (copy_entries is (f + dm_offset (pt_direct_map pt)) (g + dm_offset (pt_direct_map pt)) m) g j =
         (if j \<in> set is then ent pt m f j else ent pt m g j))"
  using assms(4)
proof (induction "is" arbitrary: m)
  case (Cons i "is")
  let ?m = "set_ent pt m g i (ent pt m f i)"
  let ?c = "copy_entries is (f + dm_offset (pt_direct_map pt)) (g + dm_offset (pt_direct_map pt)) ?m"
  have i: "i < 512" using Cons.prems by simp
  have step: "copy_entries (i # is) (f + dm_offset (pt_direct_map pt)) (g + dm_offset (pt_direct_map pt)) m = ?c"
    by (simp add: set_ent_def ent_def)
  have IH: "same_except pt {g} ?m ?c" "\<forall>j<512. ent pt ?c g j = (if j \<in> set is then ent pt ?m f j else ent pt ?m g j)"
    using Cons.IH [of ?m] Cons.prems by auto
  have "same_except pt {g} m ?c"
    by (rule same_except_trans [OF set_ent_same_except [OF assms(2) i] IH(1)]) simp
  then show ?case
    unfolding step using IH(2) ent_set_ent [OF assms(2,1) i] ent_set_ent [OF assms(2,2) i] assms(3) by auto
qed simp

lemma copy_kernel_mappings_spec:
  assumes inv: "pt_inv pt fa m" and dest: "pt_ok dest fa" "fa_state fa (pt_frame dest) = Some Allocated"
    and same: "pt_config dest = pt_config pt" "pt_frame dest \<notin> pt_tables pt m"
    and zero: "\<And>j. j < 512 \<Longrightarrow> ent dest m (pt_frame dest) j = 0"
  shows "\<exists>m'. copy_kernel_mappings_to pt dest m = Ret m' \<and> pt_inv pt fa m' \<and> pt_inv dest fa m'
     \<and> (\<forall>b. page_entry pt m' b = page_entry pt m b)
     \<and> (\<forall>b. page_entry dest m' b = (if 256 \<le> hd (page_path pt b) then page_entry pt m b else None))
     \<and> pt_tables pt m' = pt_tables pt m \<and> pt_tables dest m' \<subseteq> insert (pt_frame dest) (pt_tables pt m)
     \<and> same_except pt {pt_frame dest} m m'"
proof -
  let ?f = "pt_frame pt" and ?g = "pt_frame dest" and ?L = "pt_depth pt"
  have dm_eq: "pt_direct_map dest = pt_direct_map pt" using pt_invD(1) [OF inv] dest(1) by (simp add: pt_ok_def)
  have lev: "pt_levels dest = pt_levels pt" using same(1) by (simp add: pt_levels_def)
  have ent_eq: "ent dest = ent pt" and lk_eq: "links dest = links pt" and dmf: "dm_frame dest = dm_frame pt"
    using dm_eq same(1) by (auto simp: fun_eq_iff ent_def links_def dm_frame_def)
  have path_eq: "page_path dest = page_path pt" using lev by (auto simp: fun_eq_iff page_path_def)
  have ff: "dm_frame pt ?f" using pt_invD(5) [OF inv root_in_reach] .
  have gg: "dm_frame pt ?g" using fa_state_dm_frame [OF dest] dmf by simp
  have ne: "?f \<noteq> ?g" using same(2) by auto
  define ks :: "nat list" where "ks = [256..<512]"
  have ks: "set ks = {256..<512}" unfolding ks_def by (rule set_upt)
  define m' where "m' = copy_entries ks (?f + dm_offset (pt_direct_map pt)) (?g + dm_offset (pt_direct_map pt)) m"
  have cp: "same_except pt {?g} m m'" "\<And>j. j < 512 \<Longrightarrow> ent pt m' ?g j = (if 256 \<le> j then ent pt m ?f j else 0)"
    using copy_entries_spec [OF ff gg ne, of ks m] zero ks unfolding m'_def ent_eq by auto
  have ret: "copy_kernel_mappings_to pt dest m = Ret m'"
    using dm_frame_table [OF ff] dm_frame_table [of dest ?g] gg dmf dm_eq
    unfolding copy_kernel_mappings_to_def ks_def [symmetric] by (simp add: m'_def)
  have ker: "ent pt m' t j = ent pt m t j" if "t \<in> pt_tables pt m" "j < 512" for t j
    using same_except_ent [OF cp(1) pt_invD(5) [OF inv that(1)] _ _ that(2)] same(2) gg that(1) by auto
  have k: "pt_inv pt fa m'" "pt_tables pt m' = pt_tables pt m" "\<And>b. page_entry pt m' b = page_entry pt m b"
      "\<And>q. length q \<le> ?L \<Longrightarrow> pt_walk pt m' q = pt_walk pt m q"
    by (rule pt_inv_frame [OF inv pt_invD(1) [OF inv]]; (erule pt_invD(4) [OF inv] | erule (1) ker | assumption))+
  have lk0: "links pt m' ?g i = (if 256 \<le> i then links pt m' ?f i else None)" for i
    using cp(2) ker [OF root_in_reach] by (auto simp: links_eq [OF pt_invD(2) [OF inv]])
  have w: "pt_walk dest m' q = (if q = [] then Some ?g else if 256 \<le> hd q then pt_walk pt m' q else None)" for q
    unfolding lk_eq using lk0 by (cases q) auto
  have inK: "t \<in> pt_tables pt m" if "pt_walk dest m' q = Some t" "length q \<le> ?L" "q \<noteq> []" for q t
    using that w [of q] reachI [of "links pt m'" ?f q t ?L] k(2) by (auto split: if_splits)
  have tabs: "pt_tables dest m' \<subseteq> insert ?g (pt_tables pt m)"
  proof
    fix t assume "t \<in> pt_tables dest m'"
    then obtain q where "length q \<le> ?L" "pt_walk dest m' q = Some t" unfolding reach_def lev by blast
    then show "t \<in> insert ?g (pt_tables pt m)" using inK [of q t] w [of q] by (cases "q = []") auto
  qed
  have "pt_inv dest fa m'"
    unfolding pt_inv_def
  proof (intro conjI)
    show "tree_inj (links dest m') (pt_frame dest) (pt_depth dest)"
      unfolding tree_inj_def lev
    proof (intro allI impI)
      fix p q t assume pq: "length p \<le> ?L" "length q \<le> ?L" "pt_walk dest m' p = Some t" "pt_walk dest m' q = Some t"
      consider "p = []" "q = []" | "p = []" "q \<noteq> []" | "p \<noteq> []" "q = []" | "p \<noteq> []" "q \<noteq> []" by blast
      then show "p = q"
      proof cases
        case 4
        then have "pt_walk pt m' p = Some t" "pt_walk pt m' q = Some t" using pq w by (auto split: if_splits)
        then show ?thesis using tree_injD [OF pt_invD(3) [OF k(1)] pq(1,2)] by blast
      next
        case 2
        then show ?thesis using pq(3) w [of p] inK [OF pq(4,2)] same(2) by simp
      next
        case 3
        then show ?thesis using pq(4) w [of q] inK [OF pq(3,1)] same(2) by simp
      qed simp
    qed
    show "\<forall>t\<in>pt_tables dest m'. fa_state fa t = Some Allocated"
      using tabs dest(2) pt_invD(4) [OF inv] by auto
    show "\<forall>p t i. length p < pt_depth dest \<longrightarrow> pt_walk dest m' p = Some t \<longrightarrow> i < 512 \<longrightarrow>
        \<not> bit (ent dest m' t i) 7 \<and> (bit (ent dest m' t i) 0 \<longrightarrow> bit (ent dest m' t i) 1 \<and> \<not> bit (ent dest m' t i) 63)"
    proof (intro allI impI)
      fix p t and i :: nat assume p: "length p < pt_depth dest" "pt_walk dest m' p = Some t" "i < 512"
      show "\<not> bit (ent dest m' t i) 7 \<and> (bit (ent dest m' t i) 0 \<longrightarrow> bit (ent dest m' t i) 1 \<and> \<not> bit (ent dest m' t i) 63)"
      proof (cases "p = []")
        case True
        then show ?thesis
          using p w cp(2) pt_invD(6) [OF inv, of "[]" ?f i] lev unfolding ent_eq by auto
      next
        case False
        then have "pt_walk pt m' p = Some t" using w p(2) by (auto split: if_splits)
        then show ?thesis using pt_invD(6) [OF k(1), of p t i] p lev unfolding ent_eq by simp
      qed
    qed
    show "\<forall>p t i. length p = pt_depth dest \<longrightarrow> pt_walk dest m' p = Some t \<longrightarrow> i < 512 \<longrightarrow> bit (ent dest m' t i) 0 \<longrightarrow>
        bit (ent dest m' t i) 2 \<longrightarrow> (\<forall>k<pt_depth dest. \<forall>g. pt_walk dest m' (take k p) = Some g \<longrightarrow> bit (ent dest m' g (p ! k)) 2)"
    proof (intro allI impI)
      fix p t i n g assume p: "length p = pt_depth dest" "pt_walk dest m' p = Some t" "i < 512" "bit (ent dest m' t i) 0"
          "bit (ent dest m' t i) 2" "n < pt_depth dest" "pt_walk dest m' (take n p) = Some g"
      have pne: "p \<noteq> []" using p(1) lev by auto
      then have wp: "pt_walk pt m' p = Some t" "256 \<le> hd p" using w p(2) by (auto split: if_splits)
      note usr = pt_invD(7) [OF k(1) _ wp(1) p(3), of n]
      show "bit (ent dest m' g (p ! n)) 2"
      proof (cases n)
        case 0
        have "hd p < 512" using walk_index_bound [OF wp(1), of 0] pne by (simp add: hd_conv_nth)
        then have "ent pt m' ?g (hd p) = ent pt m' ?f (hd p)" using cp(2) wp(2) ker [OF root_in_reach] by simp
        then show ?thesis
          using usr [of ?f] p 0 lev w pne unfolding ent_eq by (simp add: hd_conv_nth)
      next
        case (Suc n')
        then have "pt_walk pt m' (take n p) = Some g"
          using w [of "take n p"] p(7) pne wp(2) by (cases p) auto
        then show ?thesis using usr [of g] p lev unfolding ent_eq by simp
      qed
    qed
  qed (rule dest(1))
  moreover have "page_entry dest m' b = (if 256 \<le> hd (page_path pt b) then page_entry pt m b else None)" for b
  proof -
    have "page_path pt b \<noteq> []" by (simp add: page_path_def)
    then have "page_entry dest m' b = (if 256 \<le> hd (page_path pt b) then page_entry pt m' b else None)"
      using w [of "page_path pt b"] unfolding page_entry_def path_eq ent_eq by simp
    then show ?thesis using k(3) by simp
  qed
  ultimately show ?thesis using ret k tabs cp(1) by blast
qed

subsection \<open>A concrete table\<close>

text \<open>Eight frames (one reserved, one allocated, six free) and an empty root table in frame 1.\<close>

definition sample_fa8 :: FrameAllocator where
  "sample_fa8 = \<lparr>fa_bitmap = \<lparr>bm_start = 0xFFFF800000000000, bm_frame_count = 8, bm_bytes = [88, 85]\<rparr>,
     fa_next_search = 0, fa_allocatable_frames = 7, fa_free_frames = 6,
     fa_direct_map = \<lparr>dm_offset = 0xFFFF800000000000\<rparr>\<rparr>"

definition sample_config :: PagingConfig where
  "sample_config = \<lparr>pc_physical_address_bits = 40, pc_global_pages = True, pc_nx_enabled = True, pc_mode = FourLevel\<rparr>"

definition sample_pt :: PageTable where
  "sample_pt = \<lparr>pt_direct_map = \<lparr>dm_offset = 0xFFFF800000000000\<rparr>, pt_config = sample_config, pt_frame = 0x1000\<rparr>"

abbreviation zero_mem :: mem where
  "zero_mem \<equiv> \<lambda>_. 0"

lemma sample_fa8_bitmap:
  "map (bitmap_state (fa_bitmap sample_fa8)) [0, 1, 2, 3, 4, 5, 6, 7] =
     [Some Reserved, Some Allocated, Some Free, Some Free, Some Free, Some Free, Some Free, Some Free]"
  by code_simp

lemma less_8: "i < (8::nat) \<longleftrightarrow> i \<in> {0, 1, 2, 3, 4, 5, 6, 7}"
  by auto

lemma upt_8: "[0..<8] = [0, 1, 2, 3, 4, 5, 6, 7 :: nat]"
  by (simp add: upt_rec)

lemma sample_fa8_fields:
  "bm_frame_count (fa_bitmap sample_fa8) = 8" "fa_direct_map sample_fa8 = \<lparr>dm_offset = 0xFFFF800000000000\<rparr>"
  "fa_next_search sample_fa8 = 0" "fa_allocatable_frames sample_fa8 = 7" "fa_free_frames sample_fa8 = 6"
  "length (bm_bytes (fa_bitmap sample_fa8)) = 2"
  by (simp_all add: sample_fa8_def)

lemma sample_fa8_inv: "fa_inv sample_fa8"
  using sample_fa8_bitmap
  by (simp add: fa_inv_def bitmap_wf_def count_state_def sample_fa8_fields less_8 upt_8)

lemma sample_fa8_state:
  "fa_state sample_fa8 f = Some Free \<longleftrightarrow> f \<in> {0x2000, 0x3000, 0x4000, 0x5000, 0x6000, 0x7000}"
proof -
  have idx: "frame_aligned f \<and> frame_index f = i \<longleftrightarrow> f = of_nat (i * 4096)" if "i < 2 ^ 52" for i
    using frame_index_of_nat [OF that] frame_index_inj [of f "of_nat (i * 4096)"] by auto
  have "fa_state sample_fa8 f = Some Free \<longleftrightarrow> frame_aligned f \<and> frame_index f \<in> {2, 3, 4, 5, 6, 7}"
    using sample_fa8_bitmap by (auto simp: fa_state_def sample_fa8_fields less_8)
  then show ?thesis
    using idx [of 2] idx [of 3] idx [of 4] idx [of 5] idx [of 6] idx [of 7] by auto
qed

lemma read_zero_mem: "entry_at zero_mem b j = 0"
  by (simp add: entry_at_def read_u64_def read_bytes_def map_replicate_const)

lemma sample_pt_inv: "pt_inv sample_pt sample_fa8 zero_mem" "page_entry sample_pt zero_mem b = None"
proof -
  have "pt_ok sample_pt sample_fa8"
    using sample_fa8_inv by (simp add: pt_ok_def config_ok_def sample_pt_def sample_config_def sample_fa8_def)
  moreover have "fa_state sample_fa8 (pt_frame sample_pt) = Some Allocated"
    by code_simp
  ultimately show "pt_inv sample_pt sample_fa8 zero_mem" "page_entry sample_pt zero_mem b = None"
    by (auto intro!: pt_inv_empty simp: ent_def read_zero_mem)
qed

lemma sample_free_enough: "pt_depth sample_pt \<le> card {f. fa_state sample_fa8 f = Some Free}"
proof -
  have "{f. fa_state sample_fa8 f = Some Free} = {0x2000, 0x3000, 0x4000, 0x5000, 0x6000, 0x7000}"
    by (auto simp: sample_fa8_state)
  then show ?thesis
    by (simp add: sample_pt_def sample_config_def pt_levels_def FOUR_LEVEL_INTERMEDIATES_def)
qed

lemma sample_limit: "physical_address_limit sample_config = 0x10000000000"
  by (simp add: physical_address_limit_def sample_config_def)

subsection \<open>Properties\<close>

lemma page_entry_same_path:
  "page_path pt b = page_path pt a \<Longrightarrow> p1_index b = p1_index a \<Longrightarrow> page_entry pt m b = page_entry pt m a"
  by (simp add: page_entry_def split: option.split)

lemma translation_cong:
  assumes "pt_inv pt fa m" "pt_inv pt fa' m'" "page_entry pt m' b = page_entry pt m b"
  shows "page_table_to_physical pt m' b = page_table_to_physical pt m b"
    "page_table_mapping pt m' b = page_table_mapping pt m b"
  using page_table_to_physical_eq [OF assms(1), of b] page_table_to_physical_eq [OF assms(2), of b]
    page_table_mapping_eq [OF assms(1), of b] page_table_mapping_eq [OF assms(2), of b] assms(3)
  by (cases "is_canonical pt b"; simp add: page_table_to_physical_def page_table_mapping_def)+

lemma page_table_map_ok:
  assumes inv: "pt_inv pt fa m" and frame: "frame_aligned frame" "frame < physical_address_limit (pt_config pt)"
    and a: "is_canonical pt a" "a mod PAGE_SIZE = 0" "page_entry pt m a = None"
    and nx: "executable perms \<or> pc_nx_enabled (pt_config pt)"
    and enough: "pt_depth pt \<le> card {f. fa_state fa f = Some Free}"
      "\<forall>f. fa_state fa f = Some Free \<longrightarrow> f < physical_address_limit (pt_config pt)"
  shows "\<exists>s'. page_table_map pt a frame perms cache glob (fa, m) = Ret (Inr (), s')"
proof -
  obtain r s' where r: "page_table_map pt a frame perms cache glob (fa, m) = Ret (r, s')"
      "case r of
         Inr _ \<Rightarrow> is_canonical pt a \<and> a mod PAGE_SIZE = 0 \<and>
           (\<exists>leaf. entry_new frame perms cache (pt_config pt) glob = Inr leaf \<and> mapped pt a leaf (fa, m) s')
       | Inl e \<Rightarrow> unmapped_error pt (fa, m) s' \<and> map_error_reason pt a frame perms (fa, m) e"
    using page_table_map_spec [OF inv frame(1), of a perms cache glob] by blast
  have "\<not> map_error_reason pt a frame perms (fa, m) e" for e
    using frame(2) a nx enough by (auto simp: map_error_reason_def frame_shortage_def not_le [symmetric])
  then have "r = Inr ()" using r(2) by (cases r) auto
  then show ?thesis using r(1) by auto
qed

lemma sample_map_ok:
  "\<exists>s'. page_table_map sample_pt 0x400000 0x3000 (page_permissions True True True) WriteBack False
       (sample_fa8, zero_mem) = Ret (Inr (), s')"
proof -
  have "pt_config sample_pt = sample_config" "is_canonical sample_pt 0x400000"
    by (simp add: sample_pt_def) code_simp
  then show ?thesis
    using sample_free_enough sample_limit sample_pt_inv(2)
    by (intro page_table_map_ok [OF sample_pt_inv(1)])
      (auto simp: frame_aligned_def FRAME_SIZE_def PAGE_SIZE_def page_permissions_def sample_fa8_state)
qed

text \<open>
  Encoding and decoding of leaf entries agree: the word that \<open>PageTableEntry::new\<close>
  builds is present, is not a large page, decodes to the frame address and the permissions
  it was built from, and is global exactly when asked for on a processor with global pages.
\<close>

theorem entry_new_roundtrip:
  assumes "entry_new frame perms cache cfg glob = Inr e" "frame_aligned frame" "config_ok cfg"
  shows "is_present e \<and> \<not> is_huge e \<and> leaf_frame e cfg = Some frame \<and> entry_permissions e = perms
    \<and> (is_global_entry e \<longleftrightarrow> glob \<and> pc_global_pages cfg)"
  using entry_new_decode [OF assms] leaf_frame_eq [OF assms(3), of e] by simp

theorem entry_new_roundtrip_witness:
  "\<exists>e. entry_new 0x2000 (page_permissions True False True) Uncacheable sample_config True = Inr e
     \<and> leaf_frame e sample_config = Some 0x2000"
proof -
  obtain e where e: "entry_new 0x2000 (page_permissions True False True) Uncacheable sample_config True = Inr e"
    by (simp add: entry_new_def Let_def sample_limit page_permissions_def)
      (simp add: sample_config_def)
  have "frame_aligned 0x2000" "config_ok sample_config"
    by (simp_all add: frame_aligned_def FRAME_SIZE_def config_ok_def sample_config_def)
  then show ?thesis using entry_new_roundtrip [OF e] e by blast
qed

text \<open>
  (C1) \<open>PageTable::map\<close> never panics on a well-formed table and keeps it well-formed. When
  it succeeds, every address of the page translates to the same offset of the given frame
  with exactly the given permissions, the page was not mapped before, and the translation
  and permissions of every other page are unchanged. When it fails, the translation and
  permissions of every page are unchanged and every frame has the state it had before, so
  the tables allocated on the way are not leaked.
\<close>

theorem page_table_map_correct:
  assumes inv: "pt_inv pt fa m" and frame: "frame_aligned frame"
  shows "\<exists>r fa' m'. page_table_map pt a frame perms cache glob (fa, m) = Ret (r, fa', m') \<and> pt_inv pt fa' m' \<and>
    (case r of
       Inr _ \<Rightarrow> page_table_mapping pt m a = None \<and>
         (\<forall>b. is_canonical pt b \<longrightarrow>
            (if same_page a b
             then page_table_to_physical pt m' b = Some (frame + page_offset b)
               \<and> page_table_mapping pt m' b = Some perms
             else page_table_to_physical pt m' b = page_table_to_physical pt m b
               \<and> page_table_mapping pt m' b = page_table_mapping pt m b))
     | Inl _ \<Rightarrow> fa_state fa' = fa_state fa \<and>
         (\<forall>b. page_table_to_physical pt m' b = page_table_to_physical pt m b
            \<and> page_table_mapping pt m' b = page_table_mapping pt m b))"
proof -
  obtain r fa' m' where r: "page_table_map pt a frame perms cache glob (fa, m) = Ret (r, fa', m')"
      "case r of
         Inr _ \<Rightarrow> is_canonical pt a \<and> a mod PAGE_SIZE = 0 \<and>
           (\<exists>leaf. entry_new frame perms cache (pt_config pt) glob = Inr leaf \<and> mapped pt a leaf (fa, m) (fa', m'))
       | Inl e \<Rightarrow> unmapped_error pt (fa, m) (fa', m') \<and> map_error_reason pt a frame perms (fa, m) e"
    using page_table_map_spec [OF inv frame, of a perms cache glob] by auto
  show ?thesis
  proof (cases r)
    case (Inl e)
    then have u: "pt_inv pt fa' m'" "\<And>b. page_entry pt m' b = page_entry pt m b" "fa_state fa' = fa_state fa"
      using r(2) by (auto simp: unmapped_error_def)
    then show ?thesis using r(1) Inl translation_cong [OF inv u(1) u(2)] by auto
  next
    case (Inr x)
    then obtain leaf where leaf: "is_canonical pt a" "entry_new frame perms cache (pt_config pt) glob = Inr leaf"
        "mapped pt a leaf (fa, m) (fa', m')" using r(2) by auto
    then have mp: "pt_inv pt fa' m'" "page_entry pt m a = None"
        "\<And>b. page_entry pt m' b = (if page_path pt b = page_path pt a \<and> p1_index b = p1_index a then Some leaf else page_entry pt m b)"
      by (auto simp: mapped_def)
    note dec = entry_new_decode [OF leaf(2) frame pt_invD(2) [OF inv]]
    have "page_table_to_physical pt m' b = Some (frame + page_offset b) \<and> page_table_mapping pt m' b = Some perms"
      if "is_canonical pt b" "same_page a b" for b
      using that same_page_iff [OF leaf(1) that(1)] mp(3) [of b] dec
        page_table_to_physical_eq [OF mp(1) that(1)] page_table_mapping_eq [OF mp(1) that(1)] by simp
    moreover have "page_entry pt m' b = page_entry pt m b" if "is_canonical pt b" "\<not> same_page a b" for b
      using that same_page_iff [OF leaf(1) that(1)] mp(3) [of b] by auto
    ultimately show ?thesis
      using r(1) Inr mp(1,2) page_table_mapping_eq [OF inv leaf(1)] translation_cong [OF inv mp(1)] by auto
  qed
qed

theorem page_table_map_correct_witness:
  "\<exists>r fa' m'. page_table_map sample_pt 0x400000 0x3000 (page_permissions True True True) WriteBack False
       (sample_fa8, zero_mem) = Ret (r, fa', m') \<and> pt_inv sample_pt fa' m'"
proof -
  have "frame_aligned 0x3000" by (simp add: frame_aligned_def FRAME_SIZE_def)
  then show ?thesis
    using page_table_map_correct [OF sample_pt_inv(1), of "0x3000" "0x400000" "page_permissions True True True" WriteBack False]
    by blast
qed

text \<open>
  \<open>PageTable::map\<close> succeeds whenever it can: for an aligned canonical address that is
  not mapped, a frame below the physical address limit and permissions the processor
  supports, it returns \<open>Ok\<close> as soon as there is a free frame for every level and the free
  frames lie below the limit.
\<close>

theorem page_table_map_succeeds:
  assumes inv: "pt_inv pt fa m" and frame: "frame_aligned frame" "frame < physical_address_limit (pt_config pt)"
    and a: "is_canonical pt a" "a mod PAGE_SIZE = 0" "page_table_mapping pt m a = None"
    and nx: "executable perms \<or> pc_nx_enabled (pt_config pt)"
    and enough: "pt_depth pt \<le> card {f. fa_state fa f = Some Free}"
      "\<forall>f. fa_state fa f = Some Free \<longrightarrow> f < physical_address_limit (pt_config pt)"
  shows "\<exists>s'. page_table_map pt a frame perms cache glob (fa, m) = Ret (Inr (), s')"
  using page_table_map_ok [OF inv frame a(1,2) _ nx enough] a(3) page_table_mapping_eq [OF inv a(1)] by simp

theorem page_table_map_succeeds_witness:
  "\<exists>s'. page_table_map sample_pt 0x400000 0x3000 (page_permissions True True True) WriteBack False
       (sample_fa8, zero_mem) = Ret (Inr (), s')"
proof -
  have c: "is_canonical sample_pt 0x400000" by code_simp
  have "page_table_mapping sample_pt zero_mem 0x400000 = None"
    using page_table_mapping_eq [OF sample_pt_inv(1) c] sample_pt_inv(2) by simp
  moreover have "pt_config sample_pt = sample_config" by (simp add: sample_pt_def)
  ultimately show ?thesis
    using c sample_free_enough sample_limit
    by (intro page_table_map_succeeds [OF sample_pt_inv(1)])
      (auto simp: frame_aligned_def FRAME_SIZE_def PAGE_SIZE_def page_permissions_def sample_fa8_state)
qed



text \<open>
  Mapping a page and unmapping it again is a round trip: the unmap returns the very
  frame that was mapped and afterwards every address translates as it did before the map.
\<close>

theorem map_unmap_roundtrip:
  assumes inv: "pt_inv pt fa m" and frame: "frame_aligned frame"
    and map: "page_table_map pt a frame perms cache glob (fa, m) = Ret (Inr (), fa1, m1)"
  shows "\<exists>fa2 m2. page_table_unmap pt a (fa1, m1) = Ret (Inr frame, fa2, m2) \<and> pt_inv pt fa2 m2
     \<and> (\<forall>b. page_table_to_physical pt m2 b = page_table_to_physical pt m b
          \<and> page_table_mapping pt m2 b = page_table_mapping pt m b)"
proof -
  obtain leaf where leaf: "is_canonical pt a" "a mod PAGE_SIZE = 0" "entry_new frame perms cache (pt_config pt) glob = Inr leaf"
      "mapped pt a leaf (fa, m) (fa1, m1)"
    using page_table_map_spec [OF inv frame, of a perms cache glob] map by auto
  then have mp: "pt_inv pt fa1 m1" "page_entry pt m a = None"
      "\<And>b. page_entry pt m1 b = (if page_path pt b = page_path pt a \<and> p1_index b = p1_index a then Some leaf else page_entry pt m b)"
    by (auto simp: mapped_def)
  have "page_entry pt m1 a = Some leaf" using mp(3) [of a] by simp
  then obtain fa2 m2 where u: "page_table_unmap pt a (fa1, m1) = Ret (Inr (entry_physical_address leaf (pt_config pt)), fa2, m2)"
      "pt_inv pt fa2 m2"
      "\<And>b. page_entry pt m2 b = (if page_path pt b = page_path pt a \<and> p1_index b = p1_index a then None else page_entry pt m1 b)"
    using page_table_unmap_spec [OF mp(1) leaf(1,2)] by auto
  have "page_entry pt m2 b = page_entry pt m b" for b
    using u(3) [of b] mp(2) mp(3) [of b] page_entry_same_path [of pt b a m] by auto
  then show ?thesis
    using u(1,2) entry_new_decode(2) [OF leaf(3) frame pt_invD(2) [OF inv]] translation_cong [OF inv u(2)] by auto
qed

theorem map_unmap_roundtrip_witness:
  "\<exists>s1 fa2 m2. page_table_map sample_pt 0x400000 0x3000 (page_permissions True True True) WriteBack False
       (sample_fa8, zero_mem) = Ret (Inr (), s1) \<and> page_table_unmap sample_pt 0x400000 s1 = Ret (Inr 0x3000, fa2, m2)"
proof -
  obtain fa1 m1 where m: "page_table_map sample_pt 0x400000 0x3000 (page_permissions True True True) WriteBack False
       (sample_fa8, zero_mem) = Ret (Inr (), fa1, m1)" using sample_map_ok by auto
  have "frame_aligned 0x3000" by (simp add: frame_aligned_def FRAME_SIZE_def)
  then show ?thesis using map_unmap_roundtrip [OF sample_pt_inv(1) _ m] m by blast
qed

end
