(* ===== verification/Page_Map.thy ===== *)
theory Page_Map
  imports Prelude
begin

section \<open>The interface of an address map\<close>

text \<open>
  Several operations of the kernel map a run of pages one by one and undo everything when
  one of them fails: \<open>AddressSpace::map_range\<close>, \<open>StackMapping::allocate\<close>. \<open>page_map\<close> states
  what they rely on: mapping a page either adds exactly that page or changes nothing that
  can be observed, and unmapping a mapped page succeeds and removes exactly it. What is
  observed is the map \<open>look\<close> from pages to their mapping and an account \<open>owned\<close> of frames, to
  which a mapping adds (\<open>add\<close>) what its unmapping takes away (\<open>del\<close>). A mapping may be undone
  while it is \<open>mine\<close>, as it is right after it was made. All-or-nothing is proved once, for
  any run.
\<close>

primrec unmap_each :: "('v \<Rightarrow> 's \<Rightarrow> (('err + 'f) \<times> 's) panics) \<Rightarrow> 'v list \<Rightarrow> 's \<Rightarrow> 's panics" where
  "unmap_each um [] s = Ret s"
| "unmap_each um (v # vs) s = do {
     (r, s) \<leftarrow> um v s;
     (case r of Inl _ \<Rightarrow> Panic | Inr _ \<Rightarrow> unmap_each um vs s) }"

fun map_each ::
  "('v \<Rightarrow> 'p \<Rightarrow> 's \<Rightarrow> (('err + unit) \<times> 's) panics) \<Rightarrow> ('v \<Rightarrow> 's \<Rightarrow> (('err2 + 'f) \<times> 's) panics) \<Rightarrow>
   'v list \<Rightarrow> ('v \<times> 'p) list \<Rightarrow> 's \<Rightarrow> (('err + unit) \<times> 's) panics" where
  "map_each mp um undo [] s = Ret (Inr (), s)"
| "map_each mp um undo ((v, p) # rest) s = do {
     (r, s) \<leftarrow> mp v p s;
     (case r of
        Inl e \<Rightarrow> do { s \<leftarrow> unmap_each um undo s; Ret (Inl e, s) }
      | Inr _ \<Rightarrow> map_each mp um (v # undo) rest s) }"

locale page_map =
  fixes inv :: "'s \<Rightarrow> bool"
    and look :: "'s \<Rightarrow> 'v \<Rightarrow> 'e option"
    and owned :: "'s \<Rightarrow> 'o"
    and add :: "'e \<Rightarrow> 'o \<Rightarrow> 'o"
    and del :: "'e \<Rightarrow> 'o \<Rightarrow> 'o"
    and acc :: "'p \<Rightarrow> 'e \<Rightarrow> bool"
    and mp :: "'v \<Rightarrow> 'p \<Rightarrow> 's \<Rightarrow> (('err + unit) \<times> 's) panics"
    and um :: "'v \<Rightarrow> 's \<Rightarrow> (('err2 + 'f) \<times> 's) panics"
    and okp :: "'p \<Rightarrow> bool"
    and mine :: "('v \<Rightarrow> 'e option) \<Rightarrow> 'o \<Rightarrow> 'v \<Rightarrow> 'e \<Rightarrow> bool"
  assumes mp_spec: "inv s \<Longrightarrow> okp p \<Longrightarrow> \<exists>r s'. mp v p s = Ret (r, s') \<and> inv s' \<and>
      (case r of
         Inl _ \<Rightarrow> look s' = look s \<and> owned s' = owned s
       | Inr _ \<Rightarrow> \<exists>e. acc p e \<and> look s v = None \<and> look s' = (look s)(v \<mapsto> e)
           \<and> owned s' = add e (owned s) \<and> del e (owned s') = owned s \<and> mine (look s') (owned s') v e)"
    and um_spec: "inv s \<Longrightarrow> look s v = Some e \<Longrightarrow> mine (look s) (owned s) v e \<Longrightarrow> \<exists>f s'. um v s = Ret (Inr f, s') \<and> inv s'
      \<and> look s' = (look s)(v := None) \<and> owned s' = del e (owned s)"
begin

text \<open>Unmapping the pages of \<open>undo\<close> leads from any state that looks like \<open>(lk, ow)\<close> back to \<open>(lk0, ow0)\<close>.\<close>

definition undoes :: "'v list \<Rightarrow> ('v \<Rightarrow> 'e option) \<times> 'o \<Rightarrow> ('v \<Rightarrow> 'e option) \<times> 'o \<Rightarrow> bool" where
  "undoes undo now before \<longleftrightarrow> (\<forall>s. inv s \<longrightarrow> (look s, owned s) = now \<longrightarrow>
     (\<exists>s'. unmap_each um undo s = Ret s' \<and> inv s' \<and> (look s', owned s') = before))"

lemma undoes_Nil: "undoes [] now now"
  by (simp add: undoes_def)

lemma undoes_Cons:
  assumes "undoes undo (lk, ow) before" "lk v = None" "del e ow' = ow" "mine (lk(v \<mapsto> e)) ow' v e"
  shows "undoes (v # undo) (lk(v \<mapsto> e), ow') before"
  unfolding undoes_def
proof (intro allI impI)
  fix s assume s: "inv s" "(look s, owned s) = (lk(v \<mapsto> e), ow')"
  then obtain f s1 where "um v s = Ret (Inr f, s1)" "inv s1" "look s1 = (look s)(v := None)" "owned s1 = del e (owned s)"
    using um_spec [of s v e] assms(4) by auto
  moreover from this have "(look s1, owned s1) = (lk, ow)" using s assms(2,3) by (auto simp: fun_eq_iff)
  ultimately show "\<exists>s'. unmap_each um (v # undo) s = Ret s' \<and> inv s' \<and> (look s', owned s') = before"
    using assms(1) by (auto simp: undoes_def)
qed

text \<open>Each entry is new to the account when it is added: taking it away again restores the account.\<close>

primrec fresh_run :: "'e list \<Rightarrow> 'o \<Rightarrow> bool" where
  "fresh_run [] ow = True"
| "fresh_run (e # es) ow = (del e (add e ow) = ow \<and> fresh_run es (add e ow))"

text \<open>What a completed run did.\<close>

definition ran :: "('v \<times> 'p) list \<Rightarrow> 's \<Rightarrow> 's \<Rightarrow> bool" where
  "ran xs s s' \<longleftrightarrow> (\<exists>es. list_all2 acc (map snd xs) es \<and> distinct (map fst xs) \<and> (\<forall>v\<in>fst ` set xs. look s v = None)
     \<and> look s' = look s ++ map_of (zip (map fst xs) es) \<and> owned s' = fold add es (owned s) \<and> fresh_run es (owned s))"

lemma ran_Cons:
  assumes "acc p e" "look s v = None" "look s1 = (look s)(v \<mapsto> e)" "owned s1 = add e (owned s)"
    "del e (owned s1) = owned s" "ran xs s1 s2"
  shows "ran ((v, p) # xs) s s2"
proof -
  obtain es where es: "list_all2 acc (map snd xs) es" "distinct (map fst xs)" "\<forall>u\<in>fst ` set xs. look s1 u = None"
      "look s2 = look s1 ++ map_of (zip (map fst xs) es)" "owned s2 = fold add es (owned s1)" "fresh_run es (owned s1)"
    using assms(6) by (auto simp: ran_def)
  have v: "v \<notin> fst ` set xs" using es(3) assms(3) by force
  have len: "length (map fst xs) = length es" using es(1) by (auto dest: list_all2_lengthD)
  have "v \<notin> dom (map_of (zip (map fst xs) es))" using v len by (simp add: dom_map_of_zip)
  then have "look s2 = look s ++ map_of (zip (v # map fst xs) (e # es))"
    unfolding es(4) assms(3) by (auto simp: fun_eq_iff map_add_def split: option.splits)
  moreover have "\<forall>u\<in>fst ` set xs. look s u = None" using es(3) assms(3) v by (auto split: if_splits)
  ultimately show ?thesis
    unfolding ran_def using assms(1,2,4,5) es(1,2,5,6) v by (intro exI [of _ "e # es"]) auto
qed

lemma ran_look:
  assumes "ran xs s s'"
  shows "v \<notin> fst ` set xs \<Longrightarrow> look s' v = look s v"
    and "k < length xs \<Longrightarrow> \<exists>e. acc (snd (xs ! k)) e \<and> look s' (fst (xs ! k)) = Some e \<and> look s (fst (xs ! k)) = None"
proof -
  obtain es where es: "list_all2 acc (map snd xs) es" "distinct (map fst xs)" "\<forall>v\<in>fst ` set xs. look s v = None"
      "look s' = look s ++ map_of (zip (map fst xs) es)"
    using assms by (auto simp: ran_def)
  have len: "length (map fst xs) = length es" using es(1) by (auto dest: list_all2_lengthD)
  show "look s' v = look s v" if "v \<notin> fst ` set xs"
  proof -
    have "v \<notin> dom (map_of (zip (map fst xs) es))" using that len by (simp add: dom_map_of_zip)
    then show ?thesis using es(4) by (simp add: map_add_dom_app_simps(3))
  qed
  show "\<exists>e. acc (snd (xs ! k)) e \<and> look s' (fst (xs ! k)) = Some e \<and> look s (fst (xs ! k)) = None" if k: "k < length xs"
  proof -
    have "map_of (zip (map fst xs) es) (fst (xs ! k)) = Some (es ! k)"
      using map_of_zip_nth [OF len es(2), of k] k len by simp
    moreover have "acc (snd (xs ! k)) (es ! k)" using es(1) k by (auto simp: list_all2_conv_all_nth)
    moreover have "look s (fst (xs ! k)) = None" using es(3) k by simp
    ultimately show ?thesis using es(4) by (auto simp: map_add_def)
  qed
qed

lemma ran_owned: "ran xs s s' \<Longrightarrow> (\<And>e ow. add e ow = ow) \<Longrightarrow> owned s' = owned s"
proof -
  assume "ran xs s s'" "\<And>e ow. add e ow = ow"
  moreover have "fold add es ow = ow" for es ow using \<open>\<And>e ow. add e ow = ow\<close> by (induction es) simp_all
  ultimately show ?thesis by (auto simp: ran_def)
qed

lemma map_each_spec:
  assumes "inv s" "\<forall>p\<in>snd ` set xs. okp p" "undoes undo (look s, owned s) before"
  shows "\<exists>r s'. map_each mp um undo xs s = Ret (r, s') \<and> inv s' \<and>
    (case r of
       Inl _ \<Rightarrow> (look s', owned s') = before
     | Inr _ \<Rightarrow> ran xs s s' \<and> undoes (rev (map fst xs) @ undo) (look s', owned s') before)"
  using assms
proof (induction xs arbitrary: undo s)
  case Nil
  then show ?case by (auto simp: ran_def)
next
  case (Cons x xs)
  obtain v p where x: "x = (v, p)" by (cases x)
  obtain r s1 where r: "mp v p s = Ret (r, s1)" "inv s1"
      "case r of
         Inl _ \<Rightarrow> look s1 = look s \<and> owned s1 = owned s
       | Inr _ \<Rightarrow> \<exists>e. acc p e \<and> look s v = None \<and> look s1 = (look s)(v \<mapsto> e)
           \<and> owned s1 = add e (owned s) \<and> del e (owned s1) = owned s \<and> mine (look s1) (owned s1) v e"
    using mp_spec [OF Cons.prems(1), of p v] Cons.prems(2) x by auto
  show ?case
  proof (cases r)
    case (Inl e)
    then show ?thesis using r Cons.prems(3) x by (auto simp: undoes_def)
  next
    case (Inr u)
    then obtain e where e: "acc p e" "look s v = None" "look s1 = (look s)(v \<mapsto> e)" "owned s1 = add e (owned s)"
        "del e (owned s1) = owned s" "mine ((look s)(v \<mapsto> e)) (owned s1) v e" using r(3) by auto
    have und: "undoes (v # undo) (look s1, owned s1) before"
      unfolding e(3) by (rule undoes_Cons [OF Cons.prems(3) e(2,5,6)])
    have "\<forall>p\<in>snd ` set xs. okp p" using Cons.prems(2) by simp
    then obtain r' s2 where IH: "map_each mp um (v # undo) xs s1 = Ret (r', s2)" "inv s2"
        "case r' of
           Inl _ \<Rightarrow> (look s2, owned s2) = before
         | Inr _ \<Rightarrow> ran xs s1 s2 \<and> undoes (rev (map fst xs) @ v # undo) (look s2, owned s2) before"
      using Cons.IH [OF r(2) _ und] by blast
    then show ?thesis
      using r(1) Inr x ran_Cons [OF e(1-5)] by (cases r') auto
  qed
qed

lemma all_or_nothing:
  assumes "inv s" "\<forall>p\<in>snd ` set xs. okp p"
  shows "\<exists>r s'. map_each mp um [] xs s = Ret (r, s') \<and> inv s' \<and>
    (case r of
       Inl _ \<Rightarrow> look s' = look s \<and> owned s' = owned s
     | Inr _ \<Rightarrow> ran xs s s' \<and> undoes (rev (map fst xs)) (look s', owned s') (look s, owned s))"
  using map_each_spec [OF assms undoes_Nil] by (simp only: prod.inject append_Nil2)

end

end
