(* ===== verification/Containers.thy ===== *)
theory Containers
  imports Prelude
begin

section \<open>Fixed-size containers: interfaces and shared facts\<close>

text \<open>
  The kernel keeps all its tables in fixed-size arrays: two ring buffers (the scheduler's
  \<open>ReadyQueue\<close>, a task's \<open>Mailbox\<close>) and three slot tables (\<open>HandleTable\<close>,
  \<open>AddressSpaceTable\<close>, the scheduler's \<open>tasks\<close>). This theory states what a client of
  either kind may rely on, as the locales \<open>bounded_fifo\<close> and \<open>slot_table\<close>, with the
  consequences proved once. The components interpret them on their own operations.
\<close>

subsection \<open>Ring buffer contents\<close>

definition ring_contents :: "'a list \<Rightarrow> nat \<Rightarrow> nat \<Rightarrow> 'a list" where
  "ring_contents es h n = map (\<lambda>i. es ! ((h + i) mod length es)) [0..<n]"

lemma length_ring_contents [simp]: "length (ring_contents es h n) = n"
  by (simp add: ring_contents_def)

lemma ring_contents_0 [simp]: "ring_contents es h 0 = []"
  by (simp add: ring_contents_def)

lemma ring_contents_nth [simp]:
  "i < n \<Longrightarrow> ring_contents es h n ! i = es ! ((h + i) mod length es)"
  by (simp add: ring_contents_def)

lemma ring_index_inj:
  assumes "i < N" "j < N" "((h::nat) + i) mod N = (h + j) mod N"
  shows "i = j"
proof (cases "i \<le> j")
  case True
  then have "N dvd j - i"
    using assms(3) mod_eq_dvd_iff_nat [of "h + i" "h + j" N] by simp
  then show ?thesis using True assms(2) by (auto dest: dvd_imp_le)
next
  case False
  then have "N dvd i - j"
    using assms(3) mod_eq_dvd_iff_nat [of "h + j" "h + i" N] by simp
  then show ?thesis using False assms(1) by (auto dest: dvd_imp_le)
qed

lemma ring_contents_push:
  assumes "n < length es"
  shows "ring_contents (es[(h + n) mod length es := x]) h (Suc n) = ring_contents es h n @ [x]"
proof (rule nth_equalityI)
  fix i assume "i < length (ring_contents (es[(h + n) mod length es := x]) h (Suc n))"
  then have i: "i \<le> n" by simp
  have pos: "0 < length es" using assms by linarith
  show "ring_contents (es[(h + n) mod length es := x]) h (Suc n) ! i
      = (ring_contents es h n @ [x]) ! i"
  proof (cases "i = n")
    case True
    then show ?thesis using pos by (simp add: nth_append)
  next
    case False
    with i have "i < n" by simp
    moreover have "(h + i) mod length es \<noteq> (h + n) mod length es"
      using ring_index_inj [of i "length es" n h] \<open>i < n\<close> assms by auto
    ultimately show ?thesis by (simp add: nth_append)
  qed
qed simp

lemma ring_contents_pop:
  "ring_contents es h (Suc n) = es ! (h mod length es) # ring_contents es ((h + 1) mod length es) n"
proof (rule nth_equalityI)
  fix i assume "i < length (ring_contents es h (Suc n))"
  then show "ring_contents es h (Suc n) ! i
      = (es ! (h mod length es) # ring_contents es ((h + 1) mod length es) n) ! i"
    by (cases i) (simp_all add: mod_simps)
qed simp

subsection \<open>The interface of a bounded FIFO queue\<close>

primrec push_list :: "('q \<Rightarrow> 'a \<Rightarrow> (bool \<times> 'q) panics) \<Rightarrow> 'q \<Rightarrow> 'a list \<Rightarrow> (bool \<times> 'q) panics" where
  "push_list psh q [] = Ret (True, q)"
| "push_list psh q (x # xs) = do {
     (ok, q') \<leftarrow> psh q x;
     if ok then push_list psh q' xs else Ret (False, q') }"

primrec pop_list :: "('q \<Rightarrow> ('a option \<times> 'q) panics) \<Rightarrow> 'q \<Rightarrow> nat \<Rightarrow> ('a list \<times> 'q) panics" where
  "pop_list pp q 0 = Ret ([], q)"
| "pop_list pp q (Suc n) = do {
     (r, q') \<leftarrow> pp q;
     (case r of
        None \<Rightarrow> Ret ([], q')
      | Some x \<Rightarrow> do { (xs, q'') \<leftarrow> pop_list pp q' n; Ret (x # xs, q'') }) }"

locale bounded_fifo =
  fixes contents :: "'q \<Rightarrow> 'a list"
    and invar :: "'q \<Rightarrow> bool"
    and capacity :: nat
    and psh :: "'q \<Rightarrow> 'a \<Rightarrow> (bool \<times> 'q) panics"
    and pp :: "'q \<Rightarrow> ('a option \<times> 'q) panics"
  assumes bounded: "invar q \<Longrightarrow> length (contents q) \<le> capacity"
    and push_full: "invar q \<Longrightarrow> length (contents q) = capacity \<Longrightarrow> psh q x = Ret (False, q)"
    and push_room: "invar q \<Longrightarrow> length (contents q) < capacity \<Longrightarrow>
      \<exists>q'. psh q x = Ret (True, q') \<and> invar q' \<and> contents q' = contents q @ [x]"
    and pop_empty: "invar q \<Longrightarrow> contents q = [] \<Longrightarrow> pp q = Ret (None, q)"
    and pop_front: "invar q \<Longrightarrow> contents q = x # xs \<Longrightarrow>
      \<exists>q'. pp q = Ret (Some x, q') \<and> invar q' \<and> contents q' = xs"
begin

lemma push_spec:
  assumes "invar q"
  shows "\<exists>q'. psh q x = Ret (length (contents q) < capacity, q') \<and> invar q'
    \<and> contents q' = (if length (contents q) < capacity then contents q @ [x] else contents q)"
  using bounded [OF assms] push_full [OF assms, of x] push_room [OF assms, of x] assms
  by (cases "length (contents q) < capacity") auto

lemma pop_spec:
  assumes "invar q"
  shows "\<exists>q'. pp q = Ret (case contents q of [] \<Rightarrow> None | x # _ \<Rightarrow> Some x, q') \<and> invar q' \<and> contents q' = tl (contents q)"
  using pop_empty [OF assms] pop_front [OF assms] assms by (cases "contents q") auto

lemma push_list_room:
  "invar q \<Longrightarrow> length (contents q) + length xs \<le> capacity \<Longrightarrow>
   \<exists>q'. push_list psh q xs = Ret (True, q') \<and> invar q' \<and> contents q' = contents q @ xs"
proof (induction xs arbitrary: q)
  case (Cons x xs)
  then obtain q1 where q1: "psh q x = Ret (True, q1)" "invar q1" "contents q1 = contents q @ [x]"
    using push_room [of q x] by auto
  with Cons.prems obtain q2 where "push_list psh q1 xs = Ret (True, q2)" "invar q2"
      "contents q2 = contents q1 @ xs"
    using Cons.IH [of q1] by auto
  with q1 show ?case by simp
qed simp

lemma pop_list_all:
  "invar q \<Longrightarrow> \<exists>q'. pop_list pp q (length (contents q)) = Ret (contents q, q')
     \<and> invar q' \<and> contents q' = []"
proof (induction "contents q" arbitrary: q)
  case Nil
  then show ?case by (metis list.size(3) pop_list.simps(1))
next
  case (Cons x xs)
  then obtain q1 where q1: "pp q = Ret (Some x, q1)" "invar q1" "contents q1 = xs"
    using pop_front [of q x xs] by auto
  with Cons.hyps(1) [of q1] obtain q2 where
      "pop_list pp q1 (length xs) = Ret (xs, q2)" "invar q2" "contents q2 = []"
    by auto
  with q1 Cons.hyps(2) [symmetric] show ?case by simp
qed

lemma fifo_order:
  assumes "invar q" "length (contents q) + length xs \<le> capacity"
  shows "\<exists>q1 q2. push_list psh q xs = Ret (True, q1) \<and>
           pop_list pp q1 (length (contents q) + length xs) = Ret (contents q @ xs, q2) \<and> invar q2 \<and> contents q2 = []"
proof -
  obtain q1 where q1: "push_list psh q xs = Ret (True, q1)" "invar q1" "contents q1 = contents q @ xs"
    using push_list_room [OF assms] by blast
  then show ?thesis
    using pop_list_all [of q1] by auto
qed

end

subsection \<open>Slot tables\<close>

text \<open>\<open>iter().position(Option::is_none)\<close>: the first empty slot.\<close>

primrec position_none :: "'a option list \<Rightarrow> nat option" where
  "position_none [] = None"
| "position_none (x # xs) =
     (case x of None \<Rightarrow> Some 0 | Some _ \<Rightarrow> map_option Suc (position_none xs))"

lemma position_none_None: "position_none xs = None \<longleftrightarrow> None \<notin> set xs"
  by (induction xs) (auto split: option.splits)

lemma position_none_Some:
  "position_none xs = Some i \<Longrightarrow> i < length xs \<and> xs ! i = None \<and> (\<forall>j<i. xs ! j \<noteq> None)"
proof (induction xs arbitrary: i)
  case Nil
  then show ?case by simp
next
  case (Cons x xs)
  show ?case
  proof (cases x)
    case None
    with Cons.prems show ?thesis by simp
  next
    case (Some a)
    with Cons.prems obtain k where k: "position_none xs = Some k" "i = Suc k" by auto
    show ?thesis
      using Cons.IH [OF k(1)] k(2) Some by (auto simp: less_Suc_eq_0_disj)
  qed
qed

definition slot_get :: "'a option list \<Rightarrow> nat \<Rightarrow> 'a option" where
  "slot_get xs i = (if i < length xs then xs ! i else None)"

lemma slot_get_update:
  "slot_get (xs[i := v]) j = (if i = j \<and> i < length xs then v else slot_get xs j)"
  by (auto simp: slot_get_def)

locale slot_table =
  fixes slots :: "'t \<Rightarrow> 'v option list"
    and insert :: "'t \<Rightarrow> 'v \<Rightarrow> ('v + nat) \<times> 't"
    and get :: "'t \<Rightarrow> nat \<Rightarrow> 'v option"
    and remove :: "'t \<Rightarrow> nat \<Rightarrow> 'v option \<times> 't"
  assumes get_slot: "get t i = slot_get (slots t) i"
    and insert_full: "position_none (slots t) = None \<Longrightarrow> insert t v = (Inl v, t)"
    and insert_free: "position_none (slots t) = Some i \<Longrightarrow>
      \<exists>t'. insert t v = (Inr i, t') \<and> slots t' = (slots t)[i := Some v]"
    and remove_slot: "\<exists>t'. remove t i = (slot_get (slots t) i, t') \<and> slots t' = (slots t)[i := None]"
begin

lemma insert_fails_iff:
  "fst (insert t v) = Inl v \<longleftrightarrow> None \<notin> set (slots t)"
  using insert_full [of t v] insert_free [of t _ v]
  by (cases "position_none (slots t)") (auto simp: position_none_None [symmetric])

lemma insert_SomeD:
  assumes "insert t v = (Inr i, t')"
  shows "position_none (slots t) = Some i \<and> slots t' = (slots t)[i := Some v]"
proof (cases "position_none (slots t)")
  case None
  then show ?thesis using insert_full [of t v] assms by simp
next
  case (Some k)
  then show ?thesis using insert_free [of t k v] assms by auto
qed

lemma insert_fresh:
  "insert t v = (Inr i, t') \<Longrightarrow> get t i = None \<and> i < length (slots t)"
  by (auto simp: get_slot slot_get_def dest!: insert_SomeD position_none_Some)

lemma get_after_insert:
  assumes "insert t v = (Inr i, t')"
  shows "get t' j = (if j = i then Some v else get t j)"
  using insert_SomeD [OF assms] position_none_Some [of "slots t" i]
  by (auto simp: get_slot slot_get_update)

lemma get_after_remove:
  "remove t i = (r, t') \<Longrightarrow> r = get t i \<and> get t' j = (if j = i then None else get t j)"
  using remove_slot [of t i] by (auto simp: get_slot slot_get_update) (auto simp: slot_get_def)

lemma remove_after_insert:
  assumes "insert t v = (Inr i, t1)" "remove t1 i = (r, t2)"
  shows "r = Some v \<and> slots t2 = slots t"
proof -
  have t1: "position_none (slots t) = Some i" "slots t1 = (slots t)[i := Some v]"
    using insert_SomeD [OF assms(1)] by auto
  then have i: "i < length (slots t)" "slots t ! i = None"
    using position_none_Some by blast+
  have "slots t2 = (slots t)[i := None]"
    using remove_slot [of t1 i] assms(2) t1(2) by simp
  moreover have "(slots t)[i := None] = slots t"
    using i list_update_id [of "slots t" i] by simp
  moreover have "r = Some v"
    using get_after_insert [OF assms(1), of i] get_after_remove [OF assms(2)] by simp
  ultimately show ?thesis by simp
qed

end

end
