(* ===== verification/Address_Space.thy ===== *)
theory Address_Space
  imports Paging_Correctness Page_Map Containers
begin

section \<open>Address spaces\<close>

text \<open>
  \<open>src/src/memory/address_space.rs\<close>: an address space is a page table with a kind. The kind
  restricts what may be mapped (user spaces: the lower half, user-accessible pages) and
  decides how the tables are destroyed. \<open>map_range\<close> maps a run of pages and rolls back on
  failure. The table of address spaces is a fixed array of slots. Disabling and restoring
  interrupts around an access changes no data and is left out.
\<close>

datatype MapError =
  MapInvalidVirtualAddress | MapVirtualAddressUnaligned | MapPhysicalAddressTooLarge
| MapPhysicalAddressUnaligned | MapRangeLengthUnaligned | MapAddressOverflow | MapAlreadyMapped
| MapMappingConflict | MapUnsupportedPermissions | MapOutOfMemory | MapPageTableUnavailable
| MapCorruptedPageTable | MapInvalidUserAddress | MapInvalidUserMap

primrec map_error_from :: "PageTableMapError \<Rightarrow> MapError" where
  "map_error_from PtInvalidVirtualAddress = MapInvalidVirtualAddress"
| "map_error_from PtVirtualAddressUnaligned = MapVirtualAddressUnaligned"
| "map_error_from PtPhysicalAddressTooLarge = MapPhysicalAddressTooLarge"
| "map_error_from PtPageAlreadyMapped = MapAlreadyMapped"
| "map_error_from PtHugePageConflict = MapMappingConflict"
| "map_error_from PtNoExecuteUnsupported = MapUnsupportedPermissions"
| "map_error_from PtOutOfFrames = MapOutOfMemory"
| "map_error_from PtPageTableOutsideDirectMap = MapPageTableUnavailable"
| "map_error_from PtInvalidPageTableEntry = MapCorruptedPageTable"

datatype UnmapError =
  UnmapInvalidVirtualAddress | UnmapVirtualAddressUnaligned | UnmapNotMapped | UnmapMappingConflict
| UnmapPageTableUnavailable | UnmapCorruptedPageTable | UnmapInvalidUserAddress

primrec unmap_error_from :: "PageTableUnmapError \<Rightarrow> UnmapError" where
  "unmap_error_from PuInvalidVirtualAddress = UnmapInvalidVirtualAddress"
| "unmap_error_from PuVirtualAddressUnaligned = UnmapVirtualAddressUnaligned"
| "unmap_error_from PuPageNotMapped = UnmapNotMapped"
| "unmap_error_from PuHugePageConflict = UnmapMappingConflict"
| "unmap_error_from PuPageTableOutsideDirectMap = UnmapPageTableUnavailable"
| "unmap_error_from PuInvalidPageTableEntry = UnmapCorruptedPageTable"

datatype AddressSpaceCreateError =
  CreateAddressOutsideDirectMap | CreatePhysicalAddressTooLarge | CreateOutOfMemory | CreateMap MapError

primrec create_error_from :: "PageTableCreateError \<Rightarrow> AddressSpaceCreateError" where
  "create_error_from CrPhysicalAddressTooLarge = CreatePhysicalAddressTooLarge"
| "create_error_from CrOutOfFrames = CreateOutOfMemory"

datatype AddressSpaceKind = KernelSpace | UserSpace

record AddressSpace =
  as_root :: PageTable
  as_kind :: AddressSpaceKind

subsection \<open>The table of address spaces\<close>

type_synonym AddressSpaceId = nat

definition MAX_ADDRESS_SPACES :: nat where
  "MAX_ADDRESS_SPACES = 32"

record AddressSpaceTable =
  ast_entries :: "AddressSpace option list"

definition address_space_table_new :: AddressSpaceTable where
  "address_space_table_new = \<lparr>ast_entries = replicate MAX_ADDRESS_SPACES None\<rparr>"

definition address_space_insert ::
  "AddressSpaceTable \<Rightarrow> AddressSpace \<Rightarrow> (AddressSpace + AddressSpaceId) \<times> AddressSpaceTable" where
  "address_space_insert t space =
     (case position_none (ast_entries t) of
        Some i \<Rightarrow> (Inr i, t\<lparr>ast_entries := (ast_entries t)[i := Some space]\<rparr>)
      | None \<Rightarrow> (Inl space, t))"

definition address_space_get :: "AddressSpaceTable \<Rightarrow> AddressSpaceId \<Rightarrow> AddressSpace option" where
  "address_space_get t i = (if i < length (ast_entries t) then ast_entries t ! i else None)"

definition address_space_remove ::
  "AddressSpaceTable \<Rightarrow> AddressSpaceId \<Rightarrow> AddressSpace option \<times> AddressSpaceTable" where
  "address_space_remove t i =
     (if i < length (ast_entries t) then (ast_entries t ! i, t\<lparr>ast_entries := (ast_entries t)[i := None]\<rparr>)
      else (None, t))"

interpretation spaces: slot_table ast_entries address_space_insert address_space_get address_space_remove
  by unfold_locales
    (auto simp: address_space_get_def address_space_insert_def address_space_remove_def slot_get_def list_update_beyond)

subsection \<open>Operations\<close>

definition address_space_new_user ::
  "AddressSpace \<Rightarrow> alloc_mem \<Rightarrow> ((PageTableCreateError + AddressSpace) \<times> alloc_mem) panics" where
  "address_space_new_user space s = do {
     (r, fa, m) \<leftarrow> page_table_new (pt_direct_map (as_root space)) (pt_config (as_root space)) s;
     (case r of
        Inl e \<Rightarrow> Ret (Inl e, fa, m)
      | Inr user_root \<Rightarrow> do {
          m \<leftarrow> copy_kernel_mappings_to (as_root space) user_root m;
          Ret (Inr \<lparr>as_root = user_root, as_kind = UserSpace\<rparr>, fa, m) }) }"

definition address_space_map ::
  "AddressSpace \<Rightarrow> PhysicalAddr \<Rightarrow> VirtualAddr \<Rightarrow> PagePermissions \<Rightarrow> CachePolicy \<Rightarrow> alloc_mem \<Rightarrow>
   ((MapError + unit) \<times> alloc_mem) panics" where
  "address_space_map space physical_addr virtual_addr permissions cache_policy s =
     (let is_global = (as_kind space = KernelSpace)
      in if as_kind space = UserSpace \<and> USER_SPACE_END \<le> virtual_addr
         then Ret (Inl MapInvalidUserAddress, s)
         else if as_kind space = UserSpace \<and> \<not> user_accessible permissions
         then Ret (Inl MapInvalidUserMap, s)
         else (case from_start_address physical_addr of
                 None \<Rightarrow> Ret (Inl MapPhysicalAddressUnaligned, s)
               | Some frame \<Rightarrow> do {
                   (r, s) \<leftarrow> page_table_map (as_root space) virtual_addr frame permissions cache_policy is_global s;
                   Ret (map_sum map_error_from id r, s) }))"

text \<open>The roll-back loop of \<open>map_range\<close> over \<open>(0..mapped_pages).rev()\<close>.\<close>

primrec rollback_pages :: "AddressSpace \<Rightarrow> VirtualAddr \<Rightarrow> nat \<Rightarrow> alloc_mem \<Rightarrow> alloc_mem panics" where
  "rollback_pages space virtual_start 0 s = Ret s"
| "rollback_pages space virtual_start (Suc rollback_idx) s = do {
     virtual_addr \<leftarrow> checked_add virtual_start (of_nat (rollback_idx * 4096));
     (r, s) \<leftarrow> page_table_unmap (as_root space) virtual_addr s;
     (case r of Inl _ \<Rightarrow> Panic | Inr _ \<Rightarrow> rollback_pages space virtual_start rollback_idx s) }"

text \<open>The mapping loop: \<open>remaining\<close> is \<open>page_count - mapped_pages\<close>.\<close>

primrec map_pages ::
  "AddressSpace \<Rightarrow> PhysicalAddr \<Rightarrow> VirtualAddr \<Rightarrow> PagePermissions \<Rightarrow> CachePolicy \<Rightarrow> nat \<Rightarrow> nat \<Rightarrow> alloc_mem \<Rightarrow>
   ((MapError + unit) \<times> alloc_mem) panics" where
  "map_pages space ps vs permissions cache_policy 0 mapped_pages s = Ret (Inr (), s)"
| "map_pages space ps vs permissions cache_policy (Suc remaining) mapped_pages s = do {
     physical_addr \<leftarrow> checked_add ps (of_nat (mapped_pages * 4096));
     virtual_addr \<leftarrow> checked_add vs (of_nat (mapped_pages * 4096));
     (r, s) \<leftarrow> address_space_map space physical_addr virtual_addr permissions cache_policy s;
     (case r of
        Inl err \<Rightarrow> do { s \<leftarrow> rollback_pages space vs mapped_pages s; Ret (Inl err, s) }
      | Inr _ \<Rightarrow> map_pages space ps vs permissions cache_policy remaining (Suc mapped_pages) s) }"

definition address_space_map_range ::
  "AddressSpace \<Rightarrow> PhysicalAddr \<Rightarrow> VirtualAddr \<Rightarrow> usize \<Rightarrow> PagePermissions \<Rightarrow> CachePolicy \<Rightarrow> alloc_mem \<Rightarrow>
   ((MapError + unit) \<times> alloc_mem) panics" where
  "address_space_map_range space physical_start virtual_start len permissions cache_policy s =
     (if len = 0 then Ret (Inr (), s)
      else if physical_start mod FRAME_SIZE \<noteq> 0 then Ret (Inl MapPhysicalAddressUnaligned, s)
      else if virtual_start mod FRAME_SIZE \<noteq> 0 then Ret (Inl MapVirtualAddressUnaligned, s)
      else if len mod FRAME_SIZE \<noteq> 0 then Ret (Inl MapRangeLengthUnaligned, s)
      else do {
        last_offset \<leftarrow> checked_sub len FRAME_SIZE;
        (case checked_add physical_start last_offset of
           None \<Rightarrow> Ret (Inl MapAddressOverflow, s)
         | Some _ \<Rightarrow>
             (case checked_add virtual_start last_offset of
                None \<Rightarrow> Ret (Inl MapAddressOverflow, s)
              | Some _ \<Rightarrow>
                  map_pages space physical_start virtual_start permissions cache_policy
                    (unat (len div FRAME_SIZE)) 0 s)) })"

definition address_space_unmap ::
  "AddressSpace \<Rightarrow> VirtualAddr \<Rightarrow> alloc_mem \<Rightarrow> ((UnmapError + FrameAddr) \<times> alloc_mem) panics" where
  "address_space_unmap space virtual_addr s =
     (if as_kind space = UserSpace \<and> 0x0000800000000000 \<le> virtual_addr
      then Ret (Inl UnmapInvalidUserAddress, s)
      else do {
        (r, s) \<leftarrow> page_table_unmap (as_root space) virtual_addr s;
        Ret (map_sum unmap_error_from id r, s) })"

definition address_space_to_physical :: "AddressSpace \<Rightarrow> mem \<Rightarrow> VirtualAddr \<Rightarrow> PhysicalAddr option" where
  "address_space_to_physical space m virtual_addr = page_table_to_physical (as_root space) m virtual_addr"

definition address_space_to_virtual :: "AddressSpace \<Rightarrow> PhysicalAddr \<Rightarrow> VirtualAddr option" where
  "address_space_to_virtual space physical_addr = page_table_to_virtual (as_root space) physical_addr"

definition address_space_mapping :: "AddressSpace \<Rightarrow> mem \<Rightarrow> VirtualAddr \<Rightarrow> PagePermissions option" where
  "address_space_mapping space m virtual_addr = page_table_mapping (as_root space) m virtual_addr"

definition address_space_destroy :: "AddressSpace \<Rightarrow> usize \<Rightarrow> alloc_mem \<Rightarrow> alloc_mem panics" where
  "address_space_destroy space cr3 s =
     (case as_kind space of
        KernelSpace \<Rightarrow> page_table_destroy (as_root space) cr3 s
      | UserSpace \<Rightarrow> page_table_destroy_user (as_root space) cr3 s)"

subsection \<open>The kernel's address space\<close>

text \<open>The regions the direct map covers, and the cache policy of each.\<close>

definition region_excluded :: "KernelSegment list \<Rightarrow> MemoryRegion \<Rightarrow> bool" where
  "region_excluded segments region \<longleftrightarrow>
     region_kind region = RegionReserved \<or> region_kind region = BadMemory
   \<or> (region_kind region = KernelAndModules \<and> region_start region = seg_physical_base (segments ! 0))"

definition region_cache_policy :: "MemoryRegion \<Rightarrow> CachePolicy" where
  "region_cache_policy region =
     (if region_kind region = MappedReserved \<or> region_kind region = Framebuffer then Uncacheable else WriteBack)"

fun map_direct_regions ::
  "AddressSpace \<Rightarrow> DirectMap \<Rightarrow> KernelSegment list \<Rightarrow> usize \<Rightarrow> MemoryRegion list \<Rightarrow> alloc_mem \<Rightarrow>
   ((AddressSpaceCreateError + unit) \<times> alloc_mem) panics" where
  "map_direct_regions space dm segments cr3 [] s = Ret (Inr (), s)"
| "map_direct_regions space dm segments cr3 (region # regions) s =
     (if region_excluded segments region then map_direct_regions space dm segments cr3 regions s
      else (case translate dm (region_start region) of
              None \<Rightarrow> Ret (Inl CreateAddressOutsideDirectMap, s)
            | Some virtual_start \<Rightarrow> do {
                (r, s) \<leftarrow> address_space_map_range space (region_start region) virtual_start (region_length region)
                            (page_permissions True False False) (region_cache_policy region) s;
                (case r of
                   Inl err \<Rightarrow> do { s \<leftarrow> address_space_destroy space cr3 s; Ret (Inl (CreateMap err), s) }
                 | Inr _ \<Rightarrow> map_direct_regions space dm segments cr3 regions s) }))"

fun map_segments ::
  "AddressSpace \<Rightarrow> usize \<Rightarrow> KernelSegment list \<Rightarrow> usize option \<Rightarrow> alloc_mem \<Rightarrow>
   ((AddressSpaceCreateError + unit) \<times> alloc_mem) panics" where
  "map_segments space cr3 [] old_segment_stop s = Ret (Inr (), s)"
| "map_segments space cr3 (segment # segments) old_segment_stop s =
     (if old_segment_stop \<noteq> None \<and> old_segment_stop \<noteq> Some (seg_physical_base segment) then Panic
      else do {
        stop \<leftarrow> checked_add (seg_physical_base segment) (seg_length segment);
        (r, s) \<leftarrow> address_space_map_range space (seg_physical_base segment) (seg_virtual_base segment)
                    (seg_length segment) (seg_permissions segment) WriteBack s;
        (case r of
           Inl err \<Rightarrow> do { s \<leftarrow> address_space_destroy space cr3 s; Ret (Inl (CreateMap err), s) }
         | Inr _ \<Rightarrow> map_segments space cr3 segments (Some stop) s) })"

definition address_space_new_kernel ::
  "DirectMap \<Rightarrow> MemoryRegion list \<Rightarrow> KernelSegment list \<Rightarrow> PagingConfig \<Rightarrow> usize \<Rightarrow> alloc_mem \<Rightarrow>
   ((AddressSpaceCreateError + AddressSpace) \<times> alloc_mem) panics" where
  "address_space_new_kernel dm regions segments config cr3 s = do {
     (r, fa, m) \<leftarrow> page_table_new dm config s;
     (case r of
        Inl e \<Rightarrow> Ret (Inl (create_error_from e), fa, m)
      | Inr root \<Rightarrow> do {
          let space = \<lparr>as_root = root, as_kind = KernelSpace\<rparr>;
          (r, s) \<leftarrow> map_direct_regions space dm segments cr3 regions (fa, m);
          (case r of
             Inl e \<Rightarrow> Ret (Inl e, s)
           | Inr _ \<Rightarrow> do {
               (r, s) \<leftarrow> map_segments space cr3 segments None s;
               (case r of Inl e \<Rightarrow> Ret (Inl e, s) | Inr _ \<Rightarrow> Ret (Inr space, s)) }) }) }"

end
