(* ===== verification/Address_Space_Correctness.thy ===== *)
theory Address_Space_Correctness
  imports Address_Space
begin

section \<open>Correctness of address spaces\<close>

text \<open>
  An address space as a map from pages to a frame and permissions (\<open>as_look\<close>), and the
  frames that are allocated and are not its tables (\<open>data_frames\<close>), which no operation on
  the map changes. The address space implements the interface \<open>page_map\<close>, so \<open>map_range\<close> is
  all-or-nothing.
\<close>

definition page_view :: "PageTable \<Rightarrow> mem \<Rightarrow> usize \<Rightarrow> (FrameAddr \<times> PagePermissions) option" where
  "page_view pt m v =
     (if is_canonical pt v \<and> v mod PAGE_SIZE = 0
      then map_option (\<lambda>e. (entry_physical_address e (pt_config pt), entry_permissions e)) (page_entry pt m v)
      else None)"

definition data_frames :: "PageTable \<Rightarrow> alloc_mem \<Rightarrow> FrameAddr set" where
  "data_frames pt s = {f. fa_state (fst s) f = Some Allocated} - pt_tables pt (snd s)"

definition as_covers :: "AddressSpace \<Rightarrow> usize \<Rightarrow> bool" where
  "as_covers space v \<longleftrightarrow> as_kind space = KernelSpace \<or> v < USER_SPACE_END"

definition as_look :: "AddressSpace \<Rightarrow> alloc_mem \<Rightarrow> usize \<Rightarrow> (FrameAddr \<times> PagePermissions) option" where
  "as_look space s v = (if as_covers space v then page_view (as_root space) (snd s) v else None)"

definition as_inv :: "AddressSpace \<Rightarrow> alloc_mem \<Rightarrow> bool" where
  "as_inv space s \<longleftrightarrow> pt_inv (as_root space) (fst s) (snd s)"

definition as_owned :: "AddressSpace \<Rightarrow> alloc_mem \<Rightarrow> FrameAddr set" where
  "as_owned space s = data_frames (as_root space) s"

lemma aligned_pages_eq:
  assumes "is_canonical pt a" "is_canonical pt b" "a mod PAGE_SIZE = 0" "b mod PAGE_SIZE = 0"
  shows "page_path pt b = page_path pt a \<and> p1_index b = p1_index a \<longleftrightarrow> b = a"
proof -
  have "frame_aligned a" "frame_aligned b" using assms(3,4) by (simp_all add: frame_aligned_def FRAME_SIZE_def PAGE_SIZE_def)
  then have "same_page a b \<longleftrightarrow> b = a"
    using frame_index_inj [of a b] by (auto simp: same_page_def frame_index_unat)
  then show ?thesis using same_page_iff [OF assms(1,2)] by auto
qed

lemma page_view_mapped:
  assumes "mapped pt a leaf (fa, m) (fa', m')" "is_canonical pt a" "a mod PAGE_SIZE = 0"
  shows "page_view pt m' = (page_view pt m)(a \<mapsto> (entry_physical_address leaf (pt_config pt), entry_permissions leaf))"
    and "page_view pt m a = None"
  using assms aligned_pages_eq [OF assms(2) _ assms(3)]
  by (auto simp: mapped_def page_view_def fun_eq_iff)

lemma data_frames_mapped:
  assumes "mapped pt a leaf (fa, m) (fa', m')"
  shows "data_frames pt (fa', m') = data_frames pt (fa, m)"
proof -
  have m: "pt_tables pt m \<subseteq> pt_tables pt m'" "\<And>f. f \<in> pt_tables pt m' - pt_tables pt m \<Longrightarrow> fa_state fa f = Some Free"
      "fa_state fa' = (\<lambda>f. if f \<in> pt_tables pt m' - pt_tables pt m then Some Allocated else fa_state fa f)"
    using assms by (auto simp: mapped_def)
  show ?thesis
    unfolding data_frames_def fst_conv snd_conv m(3) using m(1,2) by (auto split: if_splits)
qed

lemma unmap_view:
  assumes inv: "pt_inv pt fa m" and "page_view pt m a = Some e"
  shows "\<exists>fa' m'. page_table_unmap pt a (fa, m) = Ret (Inr (fst e), fa', m') \<and> pt_inv pt fa' m'
    \<and> page_view pt m' = (page_view pt m)(a := None) \<and> data_frames pt (fa', m') = data_frames pt (fa, m)"
proof -
  obtain le where a: "is_canonical pt a" "a mod PAGE_SIZE = 0" "page_entry pt m a = Some le"
      "fst e = entry_physical_address le (pt_config pt)"
    using assms(2) by (auto simp: page_view_def split: if_splits)
  obtain fa' m' where u: "page_table_unmap pt a (fa, m) = Ret (Inr (fst e), fa', m')" "pt_inv pt fa' m'"
      "\<And>b. page_entry pt m' b = (if page_path pt b = page_path pt a \<and> p1_index b = p1_index a then None else page_entry pt m b)"
      "pt_tables pt m' \<subseteq> pt_tables pt m"
      "fa_state fa' = (\<lambda>f. if f \<in> pt_tables pt m - pt_tables pt m' then Some Free else fa_state fa f)"
    using page_table_unmap_spec [OF inv a(1,2)] a(3,4) by auto
  have "page_view pt m' = (page_view pt m)(a := None)"
    using u(3) aligned_pages_eq [OF a(1) _ a(2)] by (auto simp: page_view_def fun_eq_iff)
  moreover have "data_frames pt (fa', m') = data_frames pt (fa, m)"
    unfolding data_frames_def fst_conv snd_conv u(5) using u(4) by auto
  ultimately show ?thesis using u(1,2) by blast
qed

lemma page_view_error:
  assumes "unmapped_error pt (fa, m) (fa', m')"
  shows "page_view pt m' = page_view pt m" "data_frames pt (fa', m') = data_frames pt (fa, m)"
  using assms by (auto simp: unmapped_error_def page_view_def data_frames_def fun_eq_iff)

lemma from_start_address_eq: "from_start_address p = (if frame_aligned p then Some p else None)"
  by (simp add: from_start_address_def frame_aligned_def)

lemma address_space_map_spec:
  assumes inv: "as_inv space s"
  shows "\<exists>r s'. address_space_map space p v perms cache s = Ret (r, s') \<and> as_inv space s' \<and>
    (case r of
       Inl _ \<Rightarrow> as_look space s' = as_look space s \<and> as_owned space s' = as_owned space s \<and> fa_state (fst s') = fa_state (fst s)
     | Inr _ \<Rightarrow> as_covers space v \<and> is_canonical (as_root space) v \<and> v mod PAGE_SIZE = 0 \<and> as_look space s v = None
         \<and> as_look space s' = (as_look space s)(v \<mapsto> (p, perms)) \<and> as_owned space s' = as_owned space s)"
proof -
  obtain fa m where s: "s = (fa, m)" by (cases s)
  let ?pt = "as_root space"
  have pinv: "pt_inv ?pt fa m" using inv s by (simp add: as_inv_def)
  show ?thesis
  proof (cases "as_covers space v \<and> (as_kind space = UserSpace \<longrightarrow> user_accessible perms) \<and> frame_aligned p")
    case False
    then have err: "\<exists>e. address_space_map space p v perms cache s = Ret (Inl e, s)"
      by (cases "as_kind space")
        (auto simp: address_space_map_def Let_def as_covers_def from_start_address_eq not_less)
    then obtain e where "address_space_map space p v perms cache s = Ret (Inl e, s)" ..
    then show ?thesis using inv by (intro exI [of _ "Inl e"] exI [of _ s]) simp
  next
    case True
    obtain r fa' m' where r: "page_table_map ?pt v p perms cache (as_kind space = KernelSpace) (fa, m) = Ret (r, fa', m')"
        "case r of
           Inr _ \<Rightarrow> is_canonical ?pt v \<and> v mod PAGE_SIZE = 0 \<and>
             (\<exists>leaf. entry_new p perms cache (pt_config ?pt) (as_kind space = KernelSpace) = Inr leaf
                \<and> mapped ?pt v leaf (fa, m) (fa', m'))
         | Inl e \<Rightarrow> unmapped_error ?pt (fa, m) (fa', m') \<and> map_error_reason ?pt v p perms (fa, m) e"
      using page_table_map_spec [OF pinv, of p v perms cache "as_kind space = KernelSpace"] True by auto
    have eq: "address_space_map space p v perms cache s = Ret (map_sum map_error_from id r, fa', m')"
      using True r(1) s by (auto simp: address_space_map_def Let_def as_covers_def from_start_address_eq)
    show ?thesis
    proof (cases r)
      case (Inl e)
      then have u: "unmapped_error ?pt (fa, m) (fa', m')" using r(2) by simp
      then have "pt_inv ?pt fa' m'" "fa_state fa' = fa_state fa" by (auto simp: unmapped_error_def)
      then show ?thesis
        using eq Inl page_view_error [OF u] s by (simp add: as_inv_def as_look_def as_owned_def fun_eq_iff)
    next
      case (Inr x)
      then obtain leaf where leaf: "is_canonical ?pt v" "v mod PAGE_SIZE = 0"
          "entry_new p perms cache (pt_config ?pt) (as_kind space = KernelSpace) = Inr leaf"
          "mapped ?pt v leaf (fa, m) (fa', m')" using r(2) by auto
      have "pt_inv ?pt fa' m'" using leaf(4) by (simp add: mapped_def)
      moreover have "page_view ?pt m' = (page_view ?pt m)(v \<mapsto> (p, perms))" "page_view ?pt m v = None"
        using page_view_mapped [OF leaf(4,1,2)] entry_new_decode [OF leaf(3) _ pt_invD(2) [OF pinv]] True by auto
      ultimately show ?thesis
        using eq Inr data_frames_mapped [OF leaf(4)] True leaf(1,2) s
        by (simp add: as_inv_def as_look_def as_owned_def fun_eq_iff)
    qed
  qed
qed

lemma address_space_map_cases:
  assumes "address_space_map space p v perms cache s = Ret (r, s')"
  obtains e where "r = Inl e" "s' = s" "\<not> (v < USER_SPACE_END \<and> user_accessible perms \<and> frame_aligned p)"
  | x where "frame_aligned p" "page_table_map (as_root space) v p perms cache (as_kind space = KernelSpace) s = Ret (x, s')"
      "r = map_sum map_error_from id x"
proof (cases "as_kind space = UserSpace \<and> (USER_SPACE_END \<le> v \<or> \<not> user_accessible perms) \<or> \<not> frame_aligned p")
  case True
  then show thesis using assms that(1) by (auto simp: address_space_map_def Let_def from_start_address_eq simp flip: not_less split: if_splits)
next
  case False
  then show thesis using assms that(2) by (auto simp: address_space_map_def Let_def from_start_address_eq split: bind_splits)
qed

lemma as_unmap_root_spec:
  assumes "as_inv space s" "as_look space s v = Some e"
  shows "\<exists>s'. page_table_unmap (as_root space) v s = Ret (Inr (fst e), s') \<and> as_inv space s'
    \<and> as_look space s' = (as_look space s)(v := None) \<and> as_owned space s' = as_owned space s"
proof -
  obtain fa m where s: "s = (fa, m)" by (cases s)
  have pinv: "pt_inv (as_root space) fa m" using assms(1) s by (simp add: as_inv_def)
  have v: "as_covers space v" "page_view (as_root space) m v = Some e"
    using assms(2) s by (auto simp: as_look_def split: if_splits)
  obtain fa' m' where "page_table_unmap (as_root space) v (fa, m) = Ret (Inr (fst e), fa', m')" "pt_inv (as_root space) fa' m'"
      "page_view (as_root space) m' = (page_view (as_root space) m)(v := None)"
      "data_frames (as_root space) (fa', m') = data_frames (as_root space) (fa, m)"
    using unmap_view [OF pinv v(2)] by blast
  then show ?thesis
    using s by (intro exI [of _ "(fa', m')"]) (auto simp: as_inv_def as_look_def as_owned_def fun_eq_iff)
qed

lemma address_space_unmap_spec:
  assumes "as_inv space s" "as_look space s v = Some e"
  shows "\<exists>s'. address_space_unmap space v s = Ret (Inr (fst e), s') \<and> as_inv space s'
    \<and> as_look space s' = (as_look space s)(v := None) \<and> as_owned space s' = as_owned space s"
proof -
  have "\<not> (as_kind space = UserSpace \<and> 0x0000800000000000 \<le> v)"
    using assms(2) by (auto simp: as_look_def as_covers_def USER_SPACE_END_def not_le split: if_splits)
  then show ?thesis
    using as_unmap_root_spec [OF assms] by (auto simp: address_space_unmap_def)
qed

interpretation range_map: page_map "as_inv space" "as_look space" "as_owned space" "\<lambda>_ ow. ow" "\<lambda>_ ow. ow"
    "\<lambda>p e. e = (p, perms)" "\<lambda>v p. address_space_map space p v perms cache" "page_table_unmap (as_root space)" "\<lambda>_. True"
    "\<lambda>_ _ _ _. True"
  for space perms cache
proof
  fix s p v assume "as_inv space s"
  then show "\<exists>r s'. address_space_map space p v perms cache s = Ret (r, s') \<and> as_inv space s' \<and>
      (case r of
         Inl _ \<Rightarrow> as_look space s' = as_look space s \<and> as_owned space s' = as_owned space s
       | Inr _ \<Rightarrow> \<exists>e. e = (p, perms) \<and> as_look space s v = None \<and> as_look space s' = (as_look space s)(v \<mapsto> e)
           \<and> as_owned space s' = as_owned space s \<and> as_owned space s' = as_owned space s \<and> True)"
    by (rule address_space_map_spec [THEN exE]) (elim exE conjE, intro exI conjI, assumption+, auto split: sum.splits)
next
  fix s v e assume "as_inv space s" "as_look space s v = Some e"
  then show "\<exists>f s'. page_table_unmap (as_root space) v s = Ret (Inr f, s') \<and> as_inv space s'
      \<and> as_look space s' = (as_look space s)(v := None) \<and> as_owned space s' = as_owned space s"
    using as_unmap_root_spec by blast
qed

subsection \<open>Mapping a range\<close>

lemma rollback_pages_eq:
  "(\<And>k. k < n \<Longrightarrow> unat vs + k * 4096 < 2 ^ 64) \<Longrightarrow>
   rollback_pages space vs n s = unmap_each (page_table_unmap (as_root space)) (rev (map (\<lambda>k. vs + of_nat (k * 4096)) [0..<n])) s"
proof (induction n arbitrary: s)
  case (Suc n)
  have "unat (of_nat (n * 4096) :: usize) = n * 4096"
    using Suc.prems [of n] by (intro unat_of_nat_u64) simp
  then have "checked_add vs (of_nat (n * 4096)) = Some (vs + of_nat (n * 4096))"
    using Suc.prems [of n] by (simp add: checked_add_def)
  then show ?case
    using Suc.IH Suc.prems by (simp del: of_nat_mult cong: sum.case_cong)
qed simp

lemma map_pages_eq:
  "(\<And>k. k < i + n \<Longrightarrow> unat vs + k * 4096 < 2 ^ 64 \<and> unat ps + k * 4096 < 2 ^ 64) \<Longrightarrow>
   map_pages space ps vs perms cache n i s =
     map_each (\<lambda>v p. address_space_map space p v perms cache) (page_table_unmap (as_root space))
       (rev (map (\<lambda>k. vs + of_nat (k * 4096)) [0..<i]))
       (map (\<lambda>k. (vs + of_nat (k * 4096), ps + of_nat (k * 4096))) [i..<i + n]) s"
proof (induction n arbitrary: i s)
  case (Suc n)
  have "unat (of_nat (i * 4096) :: usize) = i * 4096"
    using Suc.prems [of i] by (intro unat_of_nat_u64) simp
  then have add: "checked_add vs (of_nat (i * 4096)) = Some (vs + of_nat (i * 4096))"
      "checked_add ps (of_nat (i * 4096)) = Some (ps + of_nat (i * 4096))"
    using Suc.prems [of i] by (simp_all add: checked_add_def)
  have upt: "[i..<i + Suc n] = i # [Suc i..<Suc i + n]" by (simp add: upt_rec)
  have rb: "rollback_pages space vs i s =
      unmap_each (page_table_unmap (as_root space)) (rev (map (\<lambda>k. vs + of_nat (k * 4096)) [0..<i])) s" for s
    using Suc.prems by (intro rollback_pages_eq) auto
  have IH: "map_pages space ps vs perms cache n (Suc i) s =
     map_each (\<lambda>v p. address_space_map space p v perms cache) (page_table_unmap (as_root space))
       (rev (map (\<lambda>k. vs + of_nat (k * 4096)) [0..<Suc i]))
       (map (\<lambda>k. (vs + of_nat (k * 4096), ps + of_nat (k * 4096))) [Suc i..<Suc i + n]) s" for s
    using Suc.prems by (intro Suc.IH) auto
  show ?case
    unfolding upt using add rb IH by (simp del: of_nat_mult cong: sum.case_cong)
qed simp

lemma page_count:
  assumes "len mod FRAME_SIZE = 0" "len \<noteq> (0 :: usize)"
  shows "unat len = unat (len div FRAME_SIZE) * 4096" "0 < unat (len div FRAME_SIZE)"
    "unat (len - FRAME_SIZE) = (unat (len div FRAME_SIZE) - 1) * 4096" "FRAME_SIZE \<le> len"
proof -
  have al: "frame_aligned len" using assms(1) by (simp add: frame_aligned_def)
  show eq: "unat len = unat (len div FRAME_SIZE) * 4096"
    using frame_unat_index [OF al] by (simp add: frame_index_def)
  have "unat len \<noteq> 0" using assms(2) by (simp add: unat_eq_zero)
  then show pos: "0 < unat (len div FRAME_SIZE)" using eq by (cases "unat (len div FRAME_SIZE)") auto
  then show le: "FRAME_SIZE \<le> len" using eq by (simp add: word_le_nat_alt FRAME_SIZE_def)
  show "unat (len - FRAME_SIZE) = (unat (len div FRAME_SIZE) - 1) * 4096"
    using eq unat_sub [OF le] by (simp add: FRAME_SIZE_def diff_mult_distrib)
qed

lemma address_space_map_range_spec:
  assumes inv: "as_inv space s"
  shows "\<exists>r s'. address_space_map_range space ps vs len perms cache s = Ret (r, s') \<and> as_inv space s'
    \<and> as_owned space s' = as_owned space s \<and>
    (case r of
       Inl _ \<Rightarrow> as_look space s' = as_look space s
     | Inr _ \<Rightarrow>
         (\<forall>k<unat (len div FRAME_SIZE). as_look space s (vs + of_nat (k * 4096)) = None
            \<and> as_look space s' (vs + of_nat (k * 4096)) = Some (ps + of_nat (k * 4096), perms))
       \<and> (\<forall>v. (\<forall>k<unat (len div FRAME_SIZE). v \<noteq> vs + of_nat (k * 4096)) \<longrightarrow> as_look space s' v = as_look space s v))"
proof -
  let ?n = "unat (len div FRAME_SIZE)"
  let ?xs = "map (\<lambda>k. (vs + of_nat (k * 4096), ps + of_nat (k * 4096))) [0..<?n]"
  show ?thesis
  proof (cases "len = 0")
    case True
    then show ?thesis using inv by (simp add: address_space_map_range_def)
  next
    case nz: False
    show ?thesis
    proof (cases "ps mod FRAME_SIZE = 0 \<and> vs mod FRAME_SIZE = 0 \<and> len mod FRAME_SIZE = 0
        \<and> unat ps + unat (len - FRAME_SIZE) < 2 ^ 64 \<and> unat vs + unat (len - FRAME_SIZE) < 2 ^ 64")
      case False
      have "len mod FRAME_SIZE = 0 \<Longrightarrow> FRAME_SIZE \<le> len" using page_count(4) [OF _ nz] by simp
      then have "\<exists>e. address_space_map_range space ps vs len perms cache s = Ret (Inl e, s)"
        using False nz by (auto simp: address_space_map_range_def checked_sub_def checked_add_def)
      then obtain e where "address_space_map_range space ps vs len perms cache s = Ret (Inl e, s)" ..
      then show ?thesis using inv by (intro exI [of _ "Inl e"] exI [of _ s]) simp
    next
      case True
      note pc = page_count [OF _ nz]
      have bounds: "unat vs + k * 4096 < 2 ^ 64 \<and> unat ps + k * 4096 < 2 ^ 64" if "k < 0 + ?n" for k
      proof -
        have "k * 4096 \<le> (?n - 1) * 4096" using that by (intro mult_right_mono) auto
        then show ?thesis using True pc(3) by auto
      qed
      have eq: "address_space_map_range space ps vs len perms cache s =
          map_each (\<lambda>v p. address_space_map space p v perms cache) (page_table_unmap (as_root space)) [] ?xs s"
        using True nz pc(4) map_pages_eq [OF bounds, where space = space and perms = perms and cache = cache and s = s]
        by (simp add: address_space_map_range_def checked_sub_def checked_add_def)
      obtain r s' where r: "map_each (\<lambda>v p. address_space_map space p v perms cache) (page_table_unmap (as_root space)) [] ?xs s = Ret (r, s')"
          "as_inv space s'"
          "case r of Inl _ \<Rightarrow> as_look space s' = as_look space s \<and> as_owned space s' = as_owned space s
           | Inr _ \<Rightarrow> range_map.ran space perms ?xs s s'"
        using range_map.all_or_nothing [OF inv, where xs = ?xs and perms = perms and cache = cache]
        by (fastforce split: sum.splits)
      show ?thesis
      proof (cases r)
        case (Inl e)
        then show ?thesis using eq r by auto
      next
        case (Inr u)
        then have ran: "range_map.ran space perms ?xs s s'" using r(3) by simp
        have "as_owned space s' = as_owned space s" by (rule range_map.ran_owned [OF ran]) simp
        moreover have "as_look space s (vs + of_nat (k * 4096)) = None
            \<and> as_look space s' (vs + of_nat (k * 4096)) = Some (ps + of_nat (k * 4096), perms)" if "k < ?n" for k
          using range_map.ran_look(2) [OF ran, of k] that by (simp del: of_nat_mult)
        moreover have "as_look space s' v = as_look space s v" if "\<forall>k<?n. v \<noteq> vs + of_nat (k * 4096)" for v
        proof (rule range_map.ran_look(1) [OF ran])
          show "v \<notin> fst ` set ?xs" using that by (auto simp: image_iff simp del: of_nat_mult)
        qed
        ultimately show ?thesis using eq r(1,2) Inr by auto
      qed
    qed
  qed
qed

subsection \<open>The translation functions read the map\<close>

lemma as_look_translation:
  assumes "as_inv space s" "as_covers space v" "is_canonical (as_root space) v" "v mod PAGE_SIZE = 0"
  shows "address_space_to_physical space (snd s) v = map_option fst (as_look space s v)"
    "address_space_mapping space (snd s) v = map_option snd (as_look space s v)"
proof -
  have inv: "pt_inv (as_root space) (fst s) (snd s)" using assms(1) by (simp add: as_inv_def)
  have "page_offset v = 0"
  proof -
    have "unat v mod 4096 = 0" using assms(4) frame_aligned_unat [of v] by (simp add: frame_aligned_def FRAME_SIZE_def PAGE_SIZE_def)
    then show ?thesis using page_offset_unat [of v] by (simp add: unat_eq_zero)
  qed
  then show "address_space_to_physical space (snd s) v = map_option fst (as_look space s v)"
    using page_table_to_physical_eq [OF inv assms(3)] assms(2-4)
    by (simp add: address_space_to_physical_def as_look_def page_view_def option.map_comp o_def)
  show "address_space_mapping space (snd s) v = map_option snd (as_look space s v)"
    using page_table_mapping_eq [OF inv assms(3)] assms(2-4)
    by (simp add: address_space_mapping_def as_look_def page_view_def option.map_comp o_def)
qed

subsection \<open>A new user space\<close>




subsection \<open>Properties\<close>

definition sample_space :: AddressSpace where
  "sample_space = \<lparr>as_root = sample_pt, as_kind = KernelSpace\<rparr>"

lemma sample_space_inv: "as_inv sample_space (sample_fa8, zero_mem)"
  using sample_pt_inv(1) by (simp add: as_inv_def sample_space_def)

text \<open>
  (C10) \<open>AddressSpace::map_range\<close> is all-or-nothing and never panics: when it reports an error,
  the address map is the one before the call, whatever page it failed on; when it succeeds,
  the k-th page of the range, which was not mapped before, is mapped to the k-th frame with
  the requested permissions, and no other page changes. In both cases the invariant of the
  tables holds again and the allocated frames other than the tables are the same.
\<close>

theorem map_range_all_or_nothing:
  assumes "as_inv space s"
  shows "\<exists>r s'. address_space_map_range space ps vs len perms cache s = Ret (r, s') \<and> as_inv space s'
    \<and> as_owned space s' = as_owned space s \<and>
    (case r of
       Inl _ \<Rightarrow> as_look space s' = as_look space s
     | Inr _ \<Rightarrow>
         (\<forall>k<unat (len div FRAME_SIZE). as_look space s (vs + of_nat (k * 4096)) = None
            \<and> as_look space s' (vs + of_nat (k * 4096)) = Some (ps + of_nat (k * 4096), perms))
       \<and> (\<forall>v. (\<forall>k<unat (len div FRAME_SIZE). v \<noteq> vs + of_nat (k * 4096)) \<longrightarrow> as_look space s' v = as_look space s v))"
  by (rule address_space_map_range_spec [OF assms])

theorem map_range_all_or_nothing_witness:
  "\<exists>r s'. address_space_map_range sample_space 0x3000 0x400000 0x2000 (page_permissions True True True) WriteBack (sample_fa8, zero_mem)
     = Ret (r, s') \<and> as_inv sample_space s'"
  using map_range_all_or_nothing [OF sample_space_inv, of "0x3000" "0x400000" "0x2000" "page_permissions True True True" WriteBack]
  by blast



end
