(* ===== verification/Stack.thy ===== *)
theory Stack
  imports Address_Space_Correctness
begin

section \<open>Kernel and user stacks\<close>

text \<open>
  \<open>src/src/memory/stack.rs\<close>: a stack is a run of freshly allocated pages below its top, with
  an unmapped guard page under it. \<open>stack_allocate\<close> maps the pages one by one and gives
  everything back when it fails. \<open>KernelStackPool\<close> hands out slots of a fixed range of the
  kernel's address space, one bit per slot.
\<close>

definition KERNEL_STACK_PAGES :: nat where "KERNEL_STACK_PAGES = 8"
definition USER_STACK_PAGES :: nat where "USER_STACK_PAGES = 16"
definition KERNEL_STACK_SIZE :: usize where "KERNEL_STACK_SIZE = 8 * 4096"
definition USER_STACK_SIZE :: usize where "USER_STACK_SIZE = 16 * 4096"
definition KERNEL_SLOT_SIZE :: usize where "KERNEL_SLOT_SIZE = (8 + 1) * 4096"
definition MAX_KERNEL_STACKS :: nat where "MAX_KERNEL_STACKS = 64"
definition KERNEL_STACK_BASE :: usize where "KERNEL_STACK_BASE = 0xFFFFFFFE00000000"
definition USER_STACK_TOP :: VirtualAddr where "USER_STACK_TOP = 0x00007FFFFFFFF000"

datatype StackCreateError =
  StackAddressOverflow | StackUnalignedStackTop | StackOutOfFrames | StackOutOfStacks
| StackGuardPageMapped | StackMapError MapError

record StackMapping =
  sm_guard_page :: VirtualAddr
  sm_mapped_start :: VirtualAddr
  sm_stack_size :: usize
  sm_top :: VirtualAddr

text \<open>\<open>StackMapping::rollback\<close>; \<open>destroy\<close> runs the same loop over all the pages.\<close>

primrec stack_rollback :: "AddressSpace \<Rightarrow> VirtualAddr \<Rightarrow> nat \<Rightarrow> alloc_mem \<Rightarrow> alloc_mem panics" where
  "stack_rollback space mapped_start 0 s = Ret s"
| "stack_rollback space mapped_start (Suc page) s = do {
     virtual_address \<leftarrow> checked_add mapped_start (of_nat (page * 4096));
     (r, fa, m) \<leftarrow> address_space_unmap space virtual_address s;
     (case r of
        Inl _ \<Rightarrow> Panic
      | Inr frame \<Rightarrow> do {
          fa \<leftarrow> dealloc fa frame;
          stack_rollback space mapped_start page (fa, m) }) }"

text \<open>The loop of \<open>StackMapping::allocate\<close>; \<open>remaining\<close> is the number of pages still to map.\<close>

primrec stack_map_pages ::
  "AddressSpace \<Rightarrow> PagePermissions \<Rightarrow> VirtualAddr \<Rightarrow> nat \<Rightarrow> nat \<Rightarrow> alloc_mem \<Rightarrow>
   ((StackCreateError + unit) \<times> alloc_mem) panics" where
  "stack_map_pages space permissions mapped_start 0 mapped_pages s = Ret (Inr (), s)"
| "stack_map_pages space permissions mapped_start (Suc remaining) mapped_pages s =
     (case checked_add mapped_start (of_nat (mapped_pages * 4096)) of
        None \<Rightarrow> Ret (Inl StackAddressOverflow, s)
      | Some virtual_address \<Rightarrow> do {
          (r, s) \<leftarrow> alloc (fst s) (snd s);
          (case r of
             None \<Rightarrow> do {
               s \<leftarrow> stack_rollback space mapped_start mapped_pages s;
               Ret (Inl StackOutOfFrames, s) }
           | Some frame \<Rightarrow> do {
               (r, fa, m) \<leftarrow> address_space_map space frame virtual_address permissions WriteBack s;
               (case r of
                  Inl error \<Rightarrow> do {
                    fa \<leftarrow> dealloc fa frame;
                    s \<leftarrow> stack_rollback space mapped_start mapped_pages (fa, m);
                    Ret (Inl (StackMapError error), s) }
                | Inr _ \<Rightarrow>
                    stack_map_pages space permissions mapped_start remaining (Suc mapped_pages) (fa, m)) }) })"

definition stack_allocate ::
  "AddressSpace \<Rightarrow> usize \<Rightarrow> VirtualAddr \<Rightarrow> PagePermissions \<Rightarrow> alloc_mem \<Rightarrow>
   ((StackCreateError + StackMapping) \<times> alloc_mem) panics" where
  "stack_allocate space stack_size stack_top permissions s =
     (if stack_top mod FRAME_SIZE \<noteq> 0 then Ret (Inl StackUnalignedStackTop, s)
      else (case checked_sub stack_top stack_size of
              None \<Rightarrow> Ret (Inl StackAddressOverflow, s)
            | Some mapped_start \<Rightarrow>
                (case checked_sub mapped_start FRAME_SIZE of
                   None \<Rightarrow> Ret (Inl StackAddressOverflow, s)
                 | Some guard_page \<Rightarrow>
                     if address_space_to_physical space (snd s) guard_page \<noteq> None
                     then Ret (Inl StackGuardPageMapped, s)
                     else do {
                       (r, s) \<leftarrow> stack_map_pages space permissions mapped_start (unat (stack_size div FRAME_SIZE)) 0 s;
                       (case r of
                          Inl e \<Rightarrow> Ret (Inl e, s)
                        | Inr _ \<Rightarrow>
                            if address_space_to_physical space (snd s) guard_page \<noteq> None then Panic
                            else Ret (Inr \<lparr>sm_guard_page = guard_page, sm_mapped_start = mapped_start,
                                           sm_stack_size = stack_size, sm_top = stack_top\<rparr>, s)) })))"

definition stack_destroy :: "StackMapping \<Rightarrow> AddressSpace \<Rightarrow> alloc_mem \<Rightarrow> alloc_mem panics" where
  "stack_destroy stack space s = do {
     s \<leftarrow> stack_rollback space (sm_mapped_start stack) (unat (sm_stack_size stack div FRAME_SIZE)) s;
     if address_space_to_physical space (snd s) (sm_guard_page stack) \<noteq> None then Panic else Ret s }"

definition kernel_stack_allocate ::
  "AddressSpace \<Rightarrow> usize \<Rightarrow> alloc_mem \<Rightarrow> ((StackCreateError + StackMapping) \<times> alloc_mem) panics" where
  "kernel_stack_allocate space stack_top s =
     stack_allocate space KERNEL_STACK_SIZE stack_top (page_permissions True False False) s"

definition user_stack_allocate ::
  "AddressSpace \<Rightarrow> alloc_mem \<Rightarrow> ((StackCreateError + StackMapping) \<times> alloc_mem) panics" where
  "user_stack_allocate space s =
     stack_allocate space USER_STACK_SIZE USER_STACK_TOP (page_permissions True False True) s"

subsection \<open>The pool of kernel stacks\<close>

record KernelStackPool =
  pool_free_slots :: u64

definition kernel_stack_pool_new :: KernelStackPool where
  "kernel_stack_pool_new = \<lparr>pool_free_slots = 0\<rparr>"

text \<open>The \<open>while\<close> loop: the first slot whose bit is clear.\<close>

fun find_slot :: "u64 \<Rightarrow> nat list \<Rightarrow> nat option" where
  "find_slot slots [] = None"
| "find_slot slots (slot # rest) =
     (if slots AND push_bit slot 1 = 0 then Some slot else find_slot slots rest)"

definition kernel_stack_pool_allocate ::
  "KernelStackPool \<Rightarrow> AddressSpace \<Rightarrow> alloc_mem \<Rightarrow>
   ((StackCreateError + StackMapping) \<times> KernelStackPool \<times> alloc_mem) panics" where
  "kernel_stack_pool_allocate pool space s =
     (case find_slot (pool_free_slots pool) [0..<MAX_KERNEL_STACKS] of
        None \<Rightarrow> Ret (Inl StackOutOfStacks, pool, s)
      | Some slot \<Rightarrow> do {
          stack_top \<leftarrow> checked_add KERNEL_STACK_BASE (of_nat (slot + 1) * KERNEL_SLOT_SIZE);
          (r, s) \<leftarrow> kernel_stack_allocate space stack_top s;
          Ret (r, pool\<lparr>pool_free_slots := pool_free_slots pool OR push_bit slot 1\<rparr>, s) })"

definition stack_slot :: "StackMapping \<Rightarrow> nat panics" where
  "stack_slot stack = do {
     d \<leftarrow> checked_sub (sm_top stack) KERNEL_STACK_BASE;
     i \<leftarrow> checked_sub (d div KERNEL_SLOT_SIZE) 1;
     Ret (unat i) }"

definition kernel_stack_pool_free ::
  "KernelStackPool \<Rightarrow> StackMapping \<Rightarrow> AddressSpace \<Rightarrow> alloc_mem \<Rightarrow> (KernelStackPool \<times> alloc_mem) panics" where
  "kernel_stack_pool_free pool stack kernel_as s = do {
     slot \<leftarrow> stack_slot stack;
     s \<leftarrow> stack_destroy stack kernel_as s;
     if slot < 64
     then Ret (pool\<lparr>pool_free_slots := pool_free_slots pool AND NOT (push_bit slot 1)\<rparr>, s)
     else Panic }"

end
