(* ===== verification/Stack_Correctness.thy ===== *)
theory Stack_Correctness
  imports Stack
begin

section \<open>Correctness of stacks\<close>

text \<open>
  Allocating a stack page takes a frame and maps it; releasing it unmaps the page and frees
  the frame. These two steps implement the interface \<open>page_map\<close> with the allocated frames as
  the account, so allocating a stack is all-or-nothing in pages and in frames.
\<close>

subsection \<open>Allocating and freeing data frames\<close>

lemma as_inv_alloc:
  assumes inv: "as_inv space (fa, m)"
  shows "\<exists>r fa' m'. alloc fa m = Ret (r, fa', m') \<and> as_inv space (fa', m') \<and> as_look space (fa', m') = as_look space (fa, m)
    \<and> (case r of
         None \<Rightarrow> fa' = fa \<and> m' = m \<and> (\<forall>f. fa_state fa f \<noteq> Some Free)
       | Some f \<Rightarrow> fa_state fa f = Some Free \<and> fa_state fa' = (fa_state fa)(f \<mapsto> Allocated)
           \<and> as_owned space (fa', m') = insert f (as_owned space (fa, m)) \<and> f \<notin> as_owned space (fa, m))"
proof -
  let ?pt = "as_root space"
  have pinv: "pt_inv ?pt fa m" using inv by (simp add: as_inv_def)
  then have ok: "pt_ok ?pt fa" "fa_inv fa" "pt_direct_map ?pt = fa_direct_map fa"
    using pt_invD(1) by (auto simp: pt_ok_def)
  obtain r fa' m' where r: "alloc fa m = Ret (r, fa', m')" "fa_inv fa'" "fa_direct_map fa' = fa_direct_map fa"
      "case r of None \<Rightarrow> fa' = fa \<and> m' = m \<and> (\<forall>f. fa_state fa f \<noteq> Some Free)
       | Some f \<Rightarrow> fa_state fa f = Some Free \<and> fa_state fa' = (fa_state fa)(f \<mapsto> Allocated)
             \<and> m' = fill_bytes m (f + dm_offset (fa_direct_map fa)) 0 4096"
    using alloc_spec [OF ok(2), of m] by blast
  show ?thesis
  proof (cases r)
    case None
    then show ?thesis using r inv by simp
  next
    case (Some f)
    then have f: "fa_state fa f = Some Free" "fa_state fa' = (fa_state fa)(f \<mapsto> Allocated)"
        "m' = fill_bytes m (f + dm_offset (pt_direct_map ?pt)) 0 4096" using r(4) ok(3) by auto
    have new: "f \<notin> pt_tables ?pt m" using pt_invD(4) [OF pinv] f(1) by force
    have dm: "dm_frame ?pt f" using fa_state_dm_frame [OF ok(1) f(1)] .
    have se: "same_except ?pt {f} m m'" unfolding f(3) by (rule fill_same_except [OF dm])
    have same: "ent ?pt m' g j = ent ?pt m g j" if "g \<in> pt_tables ?pt m" "j < 512" for g j
      using same_except_ent [OF se pt_invD(5) [OF pinv that(1)] _ _ that(2)] new dm that(1) by auto
    have st: "fa_state fa' g = Some Allocated" if "g \<in> pt_tables ?pt m" for g
      using f(2) pt_invD(4) [OF pinv that] by simp
    have ok': "pt_ok ?pt fa'" using ok r(2,3) by (simp add: pt_ok_def pt_invD(2) [OF pinv])
    have k: "pt_inv ?pt fa' m'" "pt_tables ?pt m' = pt_tables ?pt m" "\<And>b. page_entry ?pt m' b = page_entry ?pt m b"
      by (rule pt_inv_frame [OF pinv ok']; (erule st | erule (1) same))+
    have "as_look space (fa', m') = as_look space (fa, m)"
      using k(3) by (simp add: as_look_def page_view_def fun_eq_iff)
    moreover have "as_owned space (fa', m') = insert f (as_owned space (fa, m))" "f \<notin> as_owned space (fa, m)"
      using k(2) f(1,2) new by (auto simp: as_owned_def data_frames_def)
    ultimately show ?thesis using r(1) Some k(1) f(1,2) by (auto simp: as_inv_def)
  qed
qed

lemma as_inv_dealloc:
  assumes inv: "as_inv space (fa, m)" and f: "f \<in> as_owned space (fa, m)"
  shows "\<exists>fa'. dealloc fa f = Ret fa' \<and> as_inv space (fa', m) \<and> as_look space (fa', m) = as_look space (fa, m)
    \<and> as_owned space (fa', m) = as_owned space (fa, m) - {f} \<and> fa_state fa' = (fa_state fa)(f \<mapsto> Free)"
proof -
  let ?pt = "as_root space"
  have pinv: "pt_inv ?pt fa m" using inv by (simp add: as_inv_def)
  have a: "fa_state fa f = Some Allocated" "f \<notin> pt_tables ?pt m" using f by (auto simp: as_owned_def data_frames_def)
  obtain fa' where fa': "dealloc fa f = Ret fa'" "fa_inv fa'" "fa_direct_map fa' = fa_direct_map fa"
      "fa_state fa' = (fa_state fa)(f \<mapsto> Free)"
    using dealloc_spec [OF _ a(1)] pt_invD(1) [OF pinv] by (auto simp: pt_ok_def)
  have ok': "pt_ok ?pt fa'" using pt_invD(1) [OF pinv] fa'(2,3) by (simp add: pt_ok_def)
  have "pt_inv ?pt fa' m"
    by (rule pt_inv_frame [OF pinv ok']) (use fa'(4) a(2) pt_invD(4) [OF pinv] in auto)
  then show ?thesis
    using fa'(1,4) a by (intro exI [of _ fa']) (auto simp: as_inv_def as_look_def as_owned_def data_frames_def)
qed

subsection \<open>One stack page\<close>

definition stack_page_map ::
  "AddressSpace \<Rightarrow> PagePermissions \<Rightarrow> VirtualAddr \<Rightarrow> unit \<Rightarrow> alloc_mem \<Rightarrow> ((StackCreateError + unit) \<times> alloc_mem) panics" where
  "stack_page_map space permissions v _ s = do {
     (r, s) \<leftarrow> alloc (fst s) (snd s);
     (case r of
        None \<Rightarrow> Ret (Inl StackOutOfFrames, s)
      | Some frame \<Rightarrow> do {
          (r, fa, m) \<leftarrow> address_space_map space frame v permissions WriteBack s;
          (case r of
             Inl error \<Rightarrow> do { fa \<leftarrow> dealloc fa frame; Ret (Inl (StackMapError error), fa, m) }
           | Inr _ \<Rightarrow> Ret (Inr (), fa, m)) }) }"

definition stack_page_unmap ::
  "AddressSpace \<Rightarrow> VirtualAddr \<Rightarrow> alloc_mem \<Rightarrow> ((UnmapError + FrameAddr) \<times> alloc_mem) panics" where
  "stack_page_unmap space v s = do {
     (r, fa, m) \<leftarrow> address_space_unmap space v s;
     (case r of
        Inl e \<Rightarrow> Ret (Inl e, fa, m)
      | Inr frame \<Rightarrow> do { fa \<leftarrow> dealloc fa frame; Ret (Inr frame, fa, m) }) }"

lemma stack_page_map_spec:
  assumes inv: "as_inv space s"
  shows "\<exists>r s'. stack_page_map space perms v () s = Ret (r, s') \<and> as_inv space s' \<and>
    (case r of
       Inl _ \<Rightarrow> as_look space s' = as_look space s \<and> as_owned space s' = as_owned space s
     | Inr _ \<Rightarrow> \<exists>e. snd e = perms \<and> as_look space s v = None \<and> as_look space s' = (as_look space s)(v \<mapsto> e)
         \<and> as_owned space s' = insert (fst e) (as_owned space s) \<and> as_owned space s' - {fst e} = as_owned space s
         \<and> fst e \<in> as_owned space s')"
proof -
  obtain fa m where s: "s = (fa, m)" by (cases s)
  obtain r fa1 m1 where r: "alloc fa m = Ret (r, fa1, m1)" "as_inv space (fa1, m1)"
      "as_look space (fa1, m1) = as_look space (fa, m)"
      "case r of None \<Rightarrow> fa1 = fa \<and> m1 = m \<and> (\<forall>f. fa_state fa f \<noteq> Some Free)
       | Some f \<Rightarrow> fa_state fa f = Some Free \<and> fa_state fa1 = (fa_state fa)(f \<mapsto> Allocated)
           \<and> as_owned space (fa1, m1) = insert f (as_owned space (fa, m)) \<and> f \<notin> as_owned space (fa, m)"
    using as_inv_alloc [of space fa m] inv s by blast
  show ?thesis
  proof (cases r)
    case None
    then show ?thesis using r s inv by (simp add: stack_page_map_def)
  next
    case (Some f)
    then have f: "as_owned space (fa1, m1) = insert f (as_owned space (fa, m))" "f \<notin> as_owned space (fa, m)"
      using r(4) by auto
    obtain r2 fa2 m2 where r2: "address_space_map space f v perms WriteBack (fa1, m1) = Ret (r2, fa2, m2)" "as_inv space (fa2, m2)"
        "case r2 of
           Inl _ \<Rightarrow> as_look space (fa2, m2) = as_look space (fa1, m1) \<and> as_owned space (fa2, m2) = as_owned space (fa1, m1)
         | Inr _ \<Rightarrow> as_look space (fa1, m1) v = None \<and> as_look space (fa2, m2) = (as_look space (fa1, m1))(v \<mapsto> (f, perms))
             \<and> as_owned space (fa2, m2) = as_owned space (fa1, m1)"
      using address_space_map_spec [OF r(2), of f v perms WriteBack] by (fastforce split: sum.splits)
    show ?thesis
    proof (cases r2)
      case (Inl e)
      then have "f \<in> as_owned space (fa2, m2)" using r2(3) f(1) by simp
      then obtain fa3 where "dealloc fa2 f = Ret fa3" "as_inv space (fa3, m2)" "as_look space (fa3, m2) = as_look space (fa2, m2)"
          "as_owned space (fa3, m2) = as_owned space (fa2, m2) - {f}"
        using as_inv_dealloc [OF r2(2)] by blast
      then show ?thesis
        using r(1,3) r2 Some Inl f s by (simp add: stack_page_map_def)
    next
      case (Inr u)
      then show ?thesis
        using r(1,3) r2 Some f s
        by (intro exI [of _ "Inr ()"] exI [of _ "(fa2, m2)"]) (auto simp: stack_page_map_def intro!: exI [of _ "(f, perms)"])
    qed
  qed
qed

lemma stack_page_unmap_spec:
  assumes inv: "as_inv space s" and v: "as_look space s v = Some e" "fst e \<in> as_owned space s"
  shows "\<exists>f s'. stack_page_unmap space v s = Ret (Inr f, s') \<and> as_inv space s'
      \<and> as_look space s' = (as_look space s)(v := None) \<and> as_owned space s' = as_owned space s - {fst e}"
proof -
  obtain fa m where s1: "address_space_unmap space v s = Ret (Inr (fst e), fa, m)" "as_inv space (fa, m)"
      "as_look space (fa, m) = (as_look space s)(v := None)" "as_owned space (fa, m) = as_owned space s"
    using address_space_unmap_spec [OF inv v(1)] by auto
  then obtain fa' where "dealloc fa (fst e) = Ret fa'" "as_inv space (fa', m)" "as_look space (fa', m) = as_look space (fa, m)"
      "as_owned space (fa', m) = as_owned space (fa, m) - {fst e}"
    using as_inv_dealloc [OF s1(2)] v(2) by metis
  then show ?thesis using s1 by (auto simp: stack_page_unmap_def)
qed

interpretation stack_map: page_map "as_inv space" "as_look space" "as_owned space" "\<lambda>e. insert (fst e)" "\<lambda>e ow. ow - {fst e}"
    "\<lambda>_ e. snd e = perms" "stack_page_map space perms" "stack_page_unmap space" "\<lambda>_. True" "\<lambda>_ ow _ e. fst e \<in> ow"
  for space perms
  by unfold_locales (use stack_page_map_spec stack_page_unmap_spec in auto)

subsection \<open>Runs of stack pages\<close>

abbreviation stack_page :: "VirtualAddr \<Rightarrow> nat \<Rightarrow> VirtualAddr" where
  "stack_page start k \<equiv> start + of_nat (k * 4096)"

lemma checked_page:
  assumes "unat start + k * 4096 < 2 ^ 64"
  shows "checked_add start (of_nat (k * 4096)) = Some (stack_page start k)" "unat (stack_page start k) = unat start + k * 4096"
proof -
  have "unat (of_nat (k * 4096) :: usize) = k * 4096" using assms by (intro unat_of_nat_u64) simp
  then show "checked_add start (of_nat (k * 4096)) = Some (stack_page start k)" "unat (stack_page start k) = unat start + k * 4096"
    using assms unat_add_small [of start "k * 4096"] by (simp_all add: checked_add_def)
qed

lemma stack_rollback_eq:
  "(\<And>k. k < n \<Longrightarrow> unat start + k * 4096 < 2 ^ 64) \<Longrightarrow>
   stack_rollback space start n s = unmap_each (stack_page_unmap space) (rev (map (stack_page start) [0..<n])) s"
proof (induction n arbitrary: s)
  case (Suc n)
  have IH: "stack_rollback space start n s = unmap_each (stack_page_unmap space) (rev (map (stack_page start) [0..<n])) s" for s
    using Suc by simp
  show ?case
    using checked_page [OF Suc.prems, of n] IH
    by (auto simp: stack_page_unmap_def [of space "stack_page start n" s] simp del: of_nat_mult split: bind_splits sum.splits)
qed simp

lemma stack_map_pages_eq:
  "(\<And>k. k < i + n \<Longrightarrow> unat start + k * 4096 < 2 ^ 64) \<Longrightarrow>
   stack_map_pages space perms start n i s =
     map_each (stack_page_map space perms) (stack_page_unmap space)
       (rev (map (stack_page start) [0..<i])) (map (\<lambda>k. (stack_page start k, ())) [i..<i + n]) s"
proof (induction n arbitrary: i s)
  case (Suc n)
  have upt: "[i..<i + Suc n] = i # [Suc i..<Suc i + n]" by (simp add: upt_rec)
  have rb: "stack_rollback space start i s = unmap_each (stack_page_unmap space) (rev (map (stack_page start) [0..<i])) s" for s
    using Suc.prems by (intro stack_rollback_eq) auto
  have IH: "stack_map_pages space perms start n (Suc i) s =
     map_each (stack_page_map space perms) (stack_page_unmap space)
       (stack_page start i # rev (map (stack_page start) [0..<i])) (map (\<lambda>k. (stack_page start k, ())) [Suc i..<Suc i + n]) s" for s
    using Suc.IH [of "Suc i" s] Suc.prems by simp
  show ?case
    unfolding upt using checked_page(1) [OF Suc.prems, of i] rb IH
    by (auto simp: stack_page_map_def [of space perms "stack_page start i" "()" s] simp del: of_nat_mult upt_Suc split: bind_splits sum.splits option.splits)
qed simp

text \<open>The pages of a stack: each is mapped with the stack's permissions to a frame of its own.\<close>

definition stack_mapped ::
  "AddressSpace \<Rightarrow> PagePermissions \<Rightarrow> VirtualAddr \<Rightarrow> nat \<Rightarrow> alloc_mem \<Rightarrow> alloc_mem \<Rightarrow> bool" where
  "stack_mapped space perms start n s s' \<longleftrightarrow> (\<exists>fs. length fs = n \<and> distinct fs \<and> set fs \<inter> as_owned space s = {}
     \<and> as_owned space s' = as_owned space s \<union> set fs
     \<and> (\<forall>k<n. as_look space s (stack_page start k) = None \<and> as_look space s' (stack_page start k) = Some (fs ! k, perms))
     \<and> (\<forall>v. (\<forall>k<n. v \<noteq> stack_page start k) \<longrightarrow> as_look space s' v = as_look space s v))"

lemma fresh_run_frames:
  "stack_map.fresh_run es ow \<Longrightarrow> distinct (map fst es) \<and> fst ` set es \<inter> ow = {} \<and> fold (\<lambda>e. insert (fst e)) es ow = ow \<union> fst ` set es"
proof (induction es arbitrary: ow)
  case (Cons e es)
  then have "fst e \<notin> ow" by auto
  then show ?case using Cons.IH [of "insert (fst e) ow"] Cons.prems by auto
qed simp

lemma stack_ran_mapped:
  assumes "stack_map.ran space perms (map (\<lambda>k. (stack_page start k, ())) [0..<n]) s s'"
  shows "stack_mapped space perms start n s s'"
proof -
  let ?vs = "map (stack_page start) [0..<n]"
  have vs: "map fst (map (\<lambda>k. (stack_page start k, ())) [0..<n]) = ?vs" by (simp add: o_def)
  obtain es where es: "length es = n" "\<forall>e\<in>set es. snd e = perms" "distinct ?vs" "\<forall>v\<in>set ?vs. as_look space s v = None"
      "as_look space s' = as_look space s ++ map_of (zip ?vs es)"
      "as_owned space s' = fold (\<lambda>e. insert (fst e)) es (as_owned space s)" "stack_map.fresh_run es (as_owned space s)"
    using assms unfolding stack_map.ran_def vs
    by (fastforce simp: list_all2_conv_all_nth in_set_conv_nth simp del: of_nat_mult)
  note fr = fresh_run_frames [OF es(7)]
  have "as_look space s' (stack_page start k) = Some (map fst es ! k, perms)" if "k < n" for k
  proof -
    have "map_of (zip ?vs es) (?vs ! k) = Some (es ! k)"
      using map_of_zip_nth [of ?vs es k] es(1,3) that by simp
    moreover have "es ! k = (map fst es ! k, perms)" using es(1,2) that by (auto simp: prod_eq_iff)
    ultimately show ?thesis using es(5) that by (simp add: map_add_def del: of_nat_mult)
  qed
  moreover have "as_look space s' v = as_look space s v" if v: "\<forall>k<n. v \<noteq> stack_page start k" for v
  proof -
    have "v \<notin> dom (map_of (zip ?vs es))" using v es(1) by (subst dom_map_of_zip) auto
    then show ?thesis using es(5) by (simp add: map_add_dom_app_simps(3))
  qed
  ultimately show ?thesis
    unfolding stack_mapped_def using es fr by (intro exI [of _ "map fst es"]) auto
qed

lemma stack_map_pages_spec:
  assumes inv: "as_inv space s" and bounds: "\<And>k. k < n \<Longrightarrow> unat start + k * 4096 < 2 ^ 64"
  shows "\<exists>r s'. stack_map_pages space perms start n 0 s = Ret (r, s') \<and> as_inv space s' \<and>
    (case r of
       Inl _ \<Rightarrow> as_look space s' = as_look space s \<and> as_owned space s' = as_owned space s
     | Inr _ \<Rightarrow> stack_mapped space perms start n s s' \<and> stack_map.undoes space (rev (map (stack_page start) [0..<n]))
         (as_look space s', as_owned space s') (as_look space s, as_owned space s))"
proof -
  let ?xs = "map (\<lambda>k. (stack_page start k, ())) [0..<n]"
  obtain r s' where "map_each (stack_page_map space perms) (stack_page_unmap space) [] ?xs s = Ret (r, s')" "as_inv space s'"
      "case r of Inl _ \<Rightarrow> as_look space s' = as_look space s \<and> as_owned space s' = as_owned space s
       | Inr _ \<Rightarrow> stack_map.ran space perms ?xs s s' \<and> stack_map.undoes space (rev (map fst ?xs))
           (as_look space s', as_owned space s') (as_look space s, as_owned space s)"
    using stack_map.all_or_nothing [OF inv, where xs = ?xs and perms = perms] by blast
  then show ?thesis
    using stack_map_pages_eq [of 0 n start space perms s] bounds stack_ran_mapped [of space perms start n s s']
    by (auto simp: o_def simp del: of_nat_mult split: sum.splits)
qed

subsection \<open>Allocating a stack\<close>

lemma as_look_SomeD:
  assumes "as_look space s v = Some e"
  shows "as_covers space v" "is_canonical (as_root space) v" "v mod PAGE_SIZE = 0"
  using assms by (auto simp: as_look_def page_view_def split: if_splits)

lemma not_canonical_unmapped:
  "\<not> is_canonical (as_root space) v \<Longrightarrow> address_space_to_physical space m v = None"
  by (simp add: address_space_to_physical_def page_table_to_physical_def)

text \<open>The guard page of a stack with at least one page is a page of the same space.\<close>

lemma guard_page_look:
  assumes "as_inv space s" "as_look space s' start \<noteq> None" "FRAME_SIZE \<le> start" "is_canonical (as_root space) (start - FRAME_SIZE)"
  shows "address_space_to_physical space (snd s) (start - FRAME_SIZE) = map_option fst (as_look space s (start - FRAME_SIZE))"
proof -
  let ?g = "start - FRAME_SIZE"
  have g: "unat ?g = unat start - 4096" "4096 \<le> unat start"
    using assms(3) unat_sub [OF assms(3)] by (simp_all add: FRAME_SIZE_def word_le_nat_alt)
  have st: "as_covers space start" "start mod PAGE_SIZE = 0"
    using as_look_SomeD(1,3) [of space s' start] assms(2) by auto
  have "unat ?g < unat start" using g by simp
  then have cov: "as_covers space ?g" using st(1) by (auto simp: as_covers_def word_less_nat_alt)
  have "unat start mod 4096 = 0" using st(2) frame_aligned_unat [of start] by (simp add: frame_aligned_def FRAME_SIZE_def PAGE_SIZE_def)
  then have "unat ?g mod 4096 = 0" using g by (simp add: mod_eq_0_iff_dvd)
  then have "?g mod PAGE_SIZE = 0" using frame_aligned_unat [of ?g] by (simp add: frame_aligned_def FRAME_SIZE_def PAGE_SIZE_def)
  then show ?thesis by (rule as_look_translation(1) [OF assms(1) cov assms(4)])
qed

lemma guard_not_stack_page:
  assumes "FRAME_SIZE \<le> start" "unat start + k * 4096 < 2 ^ 64"
  shows "start - FRAME_SIZE \<noteq> stack_page start k"
proof
  assume "start - FRAME_SIZE = stack_page start k"
  then have "unat (start - FRAME_SIZE) = unat start + k * 4096" using checked_page(2) [OF assms(2)] by (simp only:)
  then show False using unat_sub [OF assms(1)] assms(1) by (simp add: FRAME_SIZE_def word_le_nat_alt)
qed

text \<open>It stays unmapped as long as the map looks the same there.\<close>

lemma guard_page_unmapped:
  assumes "as_inv space s" "as_inv space s'" "as_look space t start \<noteq> None" "FRAME_SIZE \<le> start"
    and "address_space_to_physical space (snd s) (start - FRAME_SIZE) = None"
    and "as_look space s' (start - FRAME_SIZE) = as_look space s (start - FRAME_SIZE)"
  shows "address_space_to_physical space (snd s') (start - FRAME_SIZE) = None"
proof (cases "is_canonical (as_root space) (start - FRAME_SIZE)")
  case True
  then show ?thesis
    using guard_page_look [OF assms(1,3,4) True] guard_page_look [OF assms(2,3,4) True] assms(5,6) by simp
qed (rule not_canonical_unmapped)

lemma stack_mapped_start:
  assumes "stack_mapped space perms start n s s'" "0 < n"
  shows "as_look space s' start \<noteq> None"
proof -
  have "as_look space s' (stack_page start 0) \<noteq> None" using assms unfolding stack_mapped_def by blast
  then show ?thesis by simp
qed

lemma stack_page_bounds:
  assumes "sz \<le> (stack_top :: usize)" "k < unat (sz div FRAME_SIZE)"
  shows "unat (stack_top - sz) + k * 4096 < 2 ^ 64"
proof -
  have "k * 4096 < unat (sz div FRAME_SIZE) * 4096" using assms(2) by simp
  also have "\<dots> \<le> unat sz" by (simp add: FRAME_SIZE_def unat_div_distrib)
  finally show ?thesis
    using unat_sub [OF assms(1)] assms(1) unat_u64_bound [of stack_top] by (simp add: word_le_nat_alt)
qed

lemma stack_allocate_spec:
  assumes inv: "as_inv space s"
  shows "\<exists>r s'. stack_allocate space sz stack_top perms s = Ret (r, s') \<and> as_inv space s' \<and>
    (case r of
       Inl _ \<Rightarrow> as_look space s' = as_look space s \<and> as_owned space s' = as_owned space s
     | Inr stack \<Rightarrow> sm_top stack = stack_top \<and> sm_mapped_start stack = stack_top - sz \<and> sm_stack_size stack = sz
         \<and> sm_guard_page stack = stack_top - sz - FRAME_SIZE
         \<and> stack_mapped space perms (stack_top - sz) (unat (sz div FRAME_SIZE)) s s'
         \<and> address_space_to_physical space (snd s') (sm_guard_page stack) = None)"
proof (cases "stack_top mod FRAME_SIZE = 0 \<and> sz \<le> stack_top \<and> FRAME_SIZE \<le> stack_top - sz
      \<and> address_space_to_physical space (snd s) (stack_top - sz - FRAME_SIZE) = None")
  case False
  then have "\<exists>e. stack_allocate space sz stack_top perms s = Ret (Inl e, s)"
    by (auto simp: stack_allocate_def checked_sub_def)
  then show ?thesis using inv by (cases s) auto
next
  case True
  let ?start = "stack_top - sz" and ?n = "unat (sz div FRAME_SIZE)"
  note bounds = stack_page_bounds [of sz stack_top]
  obtain r s' where r: "stack_map_pages space perms ?start ?n 0 s = Ret (r, s')" "as_inv space s'"
      "case r of Inl _ \<Rightarrow> as_look space s' = as_look space s \<and> as_owned space s' = as_owned space s
       | Inr _ \<Rightarrow> stack_mapped space perms ?start ?n s s'"
    using stack_map_pages_spec [OF inv, of ?n ?start perms] bounds True by (fastforce split: sum.splits)
  show ?thesis
  proof (cases r)
    case (Inl e)
    then show ?thesis using True r by (auto simp: stack_allocate_def checked_sub_def)
  next
    case (Inr u)
    then have mp: "stack_mapped space perms ?start ?n s s'" using r(3) by simp
    have "address_space_to_physical space (snd s') (?start - FRAME_SIZE) = None"
    proof (cases "?n = 0")
      case False
      have "as_look space s' (?start - FRAME_SIZE) = as_look space s (?start - FRAME_SIZE)"
        using mp guard_not_stack_page [of ?start] bounds True unfolding stack_mapped_def by blast
      then show ?thesis
        using guard_page_unmapped [OF inv r(2) stack_mapped_start [OF mp]] False True by auto
    next
      case n0: True
      then have "s' = s" using r(1) by simp
      then show ?thesis using True by simp
    qed
    then show ?thesis using True r Inr mp by (auto simp: stack_allocate_def checked_sub_def)
  qed
qed

text \<open>
  (C23) Allocating a stack never panics, whatever the size and the top. When it fails, no page
  is mapped and no frame is taken: what was mapped is undone. When it succeeds, every page of
  the stack is backed by a frame of its own that nobody owned before, with the requested
  permissions, every other page is as it was, and the guard page below is unmapped.
\<close>

theorem stack_allocate_correct:
  assumes inv: "as_inv space s"
  shows "\<exists>r s'. stack_allocate space sz stack_top perms s = Ret (r, s') \<and> as_inv space s' \<and>
    (case r of
       Inl _ \<Rightarrow> as_look space s' = as_look space s \<and> as_owned space s' = as_owned space s
     | Inr stack \<Rightarrow> sm_top stack = stack_top \<and> sm_mapped_start stack = stack_top - sz \<and> sm_stack_size stack = sz
         \<and> sm_guard_page stack = stack_top - sz - FRAME_SIZE
         \<and> stack_mapped space perms (stack_top - sz) (unat (sz div FRAME_SIZE)) s s'
         \<and> address_space_to_physical space (snd s') (sm_guard_page stack) = None)"
  by (rule stack_allocate_spec [OF assms])

theorem stack_allocate_correct_witness:
  "\<exists>r s'. stack_allocate sample_space 0x1000 0x7FFFFFFFF000 (page_permissions True False True) (sample_fa8, zero_mem) = Ret (r, s')
     \<and> as_inv sample_space s'"
  using stack_allocate_correct [OF sample_space_inv, of "0x1000" "0x7FFFFFFFF000" "page_permissions True False True"] by blast

text \<open>
  Destroying a stack undoes its allocation: whatever happened to the rest of the memory,
  as long as the address map and the owned frames are those right after the allocation,
  \<open>destroy\<close> does not panic and leaves the map and the frames as they were before it.
\<close>

theorem stack_destroy_undoes_allocate:
  assumes inv: "as_inv space s" and al: "stack_allocate space sz stack_top perms s = Ret (Inr stack, s')" and sz: "FRAME_SIZE \<le> sz"
    and s2: "as_inv space s2" "as_look space s2 = as_look space s'" "as_owned space s2 = as_owned space s'"
  shows "\<exists>s3. stack_destroy stack space s2 = Ret s3 \<and> as_inv space s3
    \<and> as_look space s3 = as_look space s \<and> as_owned space s3 = as_owned space s"
proof -
  let ?start = "stack_top - sz" and ?n = "unat (sz div FRAME_SIZE)"
  have c: "sz \<le> stack_top" "FRAME_SIZE \<le> ?start" "address_space_to_physical space (snd s) (?start - FRAME_SIZE) = None"
      and mp: "stack_map_pages space perms ?start ?n 0 s = Ret (Inr (), s')"
      and st: "sm_mapped_start stack = ?start" "sm_stack_size stack = sz" "sm_guard_page stack = ?start - FRAME_SIZE"
    using al by (auto simp: stack_allocate_def checked_sub_def split: if_splits bind_splits sum.splits option.splits)
  have n: "0 < ?n" using sz by (simp add: FRAME_SIZE_def word_le_nat_alt unat_div_distrib div_greater_zero_iff)
  note bounds = stack_page_bounds [OF c(1)]
  have m: "stack_mapped space perms ?start ?n s s'" "stack_map.undoes space (rev (map (stack_page ?start) [0..<?n]))
      (as_look space s', as_owned space s') (as_look space s, as_owned space s)"
    using stack_map_pages_spec [OF inv, of ?n ?start perms] bounds mp by auto
  have rb: "stack_rollback space ?start ?n s2 = unmap_each (stack_page_unmap space) (rev (map (stack_page ?start) [0..<?n])) s2"
    by (rule stack_rollback_eq) (rule bounds)
  obtain s3 where s3: "stack_rollback space ?start ?n s2 = Ret s3" "as_inv space s3"
      "as_look space s3 = as_look space s" "as_owned space s3 = as_owned space s"
    using m(2) s2 unfolding rb stack_map.undoes_def prod.inject by blast
  have "address_space_to_physical space (snd s3) (?start - FRAME_SIZE) = None"
    by (rule guard_page_unmapped [OF inv s3(2) stack_mapped_start [OF m(1) n] c(2,3)]) (simp add: s3(3))
  then show ?thesis using s3 st by (simp add: stack_destroy_def)
qed

lemma sample_alloc:
  obtains f fa m where "alloc sample_fa8 zero_mem = Ret (Some f, fa, m)" "as_inv sample_space (fa, m)"
    "fa_state fa = (fa_state sample_fa8)(f \<mapsto> Allocated)" "fa_state sample_fa8 f = Some Free"
    "as_look sample_space (fa, m) = as_look sample_space (sample_fa8, zero_mem)"
proof -
  have "fa_state sample_fa8 0x2000 = Some Free" by (simp add: sample_fa8_state)
  then show thesis
    using as_inv_alloc [OF sample_space_inv] that by (fastforce split: option.splits)
qed

lemma sample_stack_page:
  "\<exists>s'. stack_page_map sample_space (page_permissions True False True) 0x7FFFFFFFE000 () (sample_fa8, zero_mem) = Ret (Inr (), s')"
proof -
  let ?v = "0x7FFFFFFFE000 :: usize" and ?F = "{0x2000, 0x3000, 0x4000, 0x5000, 0x6000, 0x7000 :: usize}"
  obtain f fa m where f: "alloc sample_fa8 zero_mem = Ret (Some f, fa, m)" "as_inv sample_space (fa, m)"
      "fa_state fa = (fa_state sample_fa8)(f \<mapsto> Allocated)" "fa_state sample_fa8 f = Some Free"
      "as_look sample_space (fa, m) = as_look sample_space (sample_fa8, zero_mem)"
    by (rule sample_alloc)
  have c: "is_canonical sample_pt ?v" "pt_config sample_pt = sample_config" by code_simp (simp add: sample_pt_def)
  have pe: "page_entry sample_pt m ?v = None"
    using fun_cong [OF f(5), of ?v] sample_pt_inv(2) c(1)
    by (simp add: as_look_def page_view_def as_covers_def sample_space_def PAGE_SIZE_def)
  have fF: "f \<in> ?F" using f(4) by (simp only: sample_fa8_state)
  have free: "{g. fa_state fa g = Some Free} = ?F - {f}" using f(3) by (auto simp: sample_fa8_state)
  have small: "g < 0x10000000000 \<and> frame_aligned g" if "g \<in> ?F" for g using that by (auto simp: frame_aligned_def FRAME_SIZE_def)
  have d: "pt_depth sample_pt = 3" by code_simp
  have "card ?F = 6" by simp
  then have "pt_depth sample_pt \<le> card {g. fa_state fa g = Some Free}"
    unfolding d free using card_Diff_singleton [OF fF] by simp
  moreover have "\<forall>g. fa_state fa g = Some Free \<longrightarrow> g < physical_address_limit (pt_config sample_pt)"
    using free small c(2) sample_limit by auto
  moreover have "pt_inv sample_pt fa m" using f(2) by (simp add: as_inv_def sample_space_def)
  ultimately obtain s' where "page_table_map sample_pt ?v f (page_permissions True False True) WriteBack True (fa, m) = Ret (Inr (), s')"
    using page_table_map_ok [of sample_pt fa m f ?v] pe c small [OF fF] sample_limit
    by (force simp: PAGE_SIZE_def sample_config_def)
  then show ?thesis
    using f(1) small [OF fF]
    by (auto simp: stack_page_map_def address_space_map_def sample_space_def from_start_address_def frame_aligned_def)
qed

lemma sample_stack:
  "\<exists>stack s'. stack_allocate sample_space 0x1000 0x7FFFFFFFF000 (page_permissions True False True) (sample_fa8, zero_mem)
     = Ret (Inr stack, s')"
proof -
  have c: "is_canonical sample_pt 0x7FFFFFFFD000" by code_simp
  have g: "address_space_to_physical sample_space zero_mem 0x7FFFFFFFD000 = None"
    using page_table_to_physical_eq [OF sample_pt_inv(1) c] sample_pt_inv(2)
    by (simp add: address_space_to_physical_def sample_space_def)
  obtain s' where "stack_map_pages sample_space (page_permissions True False True) 0x7FFFFFFFE000 1 0 (sample_fa8, zero_mem) = Ret (Inr (), s')"
    using sample_stack_page stack_map_pages_eq [of 0 1 "0x7FFFFFFFE000" sample_space "page_permissions True False True" "(sample_fa8, zero_mem)"]
    by auto
  then show ?thesis
    using g stack_allocate_spec [OF sample_space_inv, of "0x1000" "0x7FFFFFFFF000" "page_permissions True False True"]
    by (auto simp: stack_allocate_def checked_sub_def FRAME_SIZE_def split: if_splits)
qed

theorem stack_destroy_undoes_allocate_witness:
  "\<exists>stack s' s3. stack_allocate sample_space 0x1000 0x7FFFFFFFF000 (page_permissions True False True) (sample_fa8, zero_mem)
       = Ret (Inr stack, s') \<and> stack_destroy stack sample_space s' = Ret s3
     \<and> as_look sample_space s3 = as_look sample_space (sample_fa8, zero_mem)"
proof -
  obtain stack s' where st: "stack_allocate sample_space 0x1000 0x7FFFFFFFF000 (page_permissions True False True) (sample_fa8, zero_mem)
       = Ret (Inr stack, s')" using sample_stack by blast
  then have "as_inv sample_space s'"
    using stack_allocate_spec [OF sample_space_inv, of "0x1000" "0x7FFFFFFFF000" "page_permissions True False True"] by auto
  moreover have "FRAME_SIZE \<le> 0x1000" by (simp add: FRAME_SIZE_def)
  ultimately show ?thesis
    using stack_destroy_undoes_allocate [OF sample_space_inv st, of s'] st by blast
qed

end
