(* ===== verification/Stack_Pool.thy ===== *)
theory Stack_Pool
  imports Stack_Correctness
begin

section \<open>Correctness of the kernel stack pool\<close>

text \<open>
  \<open>KernelStackPool\<close> keeps one bit per slot; a set bit is a slot in use. A slot is nine pages:
  the guard page and the eight pages of the stack above it. The pool hands out the lowest
  clear slot, and \<open>free\<close> finds the slot again from the top of the stack.
\<close>

lemma slot_bit_clear: "slot < 64 \<Longrightarrow> (slots :: u64) AND push_bit slot 1 = 0 \<longleftrightarrow> \<not> bit slots slot"
proof -
  have "bit (slots AND push_bit slot 1) i \<longleftrightarrow> i = slot \<and> bit slots slot" if "slot < 64" for i
    using that by (auto simp: bit_simps)
  then show "slot < 64 \<Longrightarrow> slots AND push_bit slot 1 = 0 \<longleftrightarrow> \<not> bit slots slot"
    by (auto simp: bit_eq_iff [of _ "0 :: u64"])
qed

lemma find_slot_find: "find_slot slots xs = List.find (\<lambda>i. slots AND push_bit i 1 = 0) xs"
  by (induction xs) auto

lemma find_slot_lowest:
  assumes "n \<le> 64"
  shows "find_slot slots [0..<n] = None \<longleftrightarrow> (\<forall>i<n. bit slots i)"
    "find_slot slots [0..<n] = Some slot \<longleftrightarrow> slot < n \<and> \<not> bit slots slot \<and> (\<forall>j < slot. bit slots j)"
proof -
  have c: "slots AND push_bit i 1 = 0 \<longleftrightarrow> \<not> bit slots i" if "i < n" for i
    using slot_bit_clear [of i slots] assms that by simp
  show "find_slot slots [0..<n] = None \<longleftrightarrow> (\<forall>i<n. bit slots i)"
    unfolding find_slot_find find_None_iff using c by auto
  have "find_slot slots [0..<n] = Some slot \<longleftrightarrow>
      (\<exists>i<n. slots AND push_bit i 1 = 0 \<and> slot = i \<and> (\<forall>j<i. slots AND push_bit j 1 \<noteq> 0))"
    unfolding find_slot_find find_Some_iff by (intro ex_cong1) (auto simp del: push_bit_of_1)
  then show "find_slot slots [0..<n] = Some slot \<longleftrightarrow> slot < n \<and> \<not> bit slots slot \<and> (\<forall>j < slot. bit slots j)"
    using c by (auto simp del: push_bit_of_1)
qed

text \<open>The addresses of a slot, without wrap-around.\<close>

lemma slot_arith:
  assumes "slot < 64"
  shows "checked_add KERNEL_STACK_BASE (of_nat (slot + 1) * KERNEL_SLOT_SIZE) = Some (KERNEL_STACK_BASE + of_nat (slot + 1) * KERNEL_SLOT_SIZE)"
    "unat (KERNEL_STACK_BASE + of_nat (slot + 1) * KERNEL_SLOT_SIZE) = 0xFFFFFFFE00000000 + (slot + 1) * 36864"
proof -
  have "unat (of_nat (slot + 1) * KERNEL_SLOT_SIZE) = (slot + 1) * 36864"
  proof -
    have "unat (of_nat (slot + 1) :: usize) = slot + 1" using assms by (intro unat_of_nat_u64) simp
    then show ?thesis
      using assms unat_mult_lem [of "of_nat (slot + 1)" KERNEL_SLOT_SIZE]
      by (simp add: KERNEL_SLOT_SIZE_def del: of_nat_Suc of_nat_add)
  qed
  then show "checked_add KERNEL_STACK_BASE (of_nat (slot + 1) * KERNEL_SLOT_SIZE) = Some (KERNEL_STACK_BASE + of_nat (slot + 1) * KERNEL_SLOT_SIZE)"
    "unat (KERNEL_STACK_BASE + of_nat (slot + 1) * KERNEL_SLOT_SIZE) = 0xFFFFFFFE00000000 + (slot + 1) * 36864"
    using assms unat_add_no_overflow [of KERNEL_STACK_BASE "of_nat (slot + 1) * KERNEL_SLOT_SIZE"]
    by (simp_all add: checked_add_def KERNEL_STACK_BASE_def)
qed

lemma stack_slot_eq:
  assumes "slot < 64" "sm_top stack = KERNEL_STACK_BASE + of_nat (slot + 1) * KERNEL_SLOT_SIZE"
  shows "stack_slot stack = Ret slot"
proof -
  let ?t = "sm_top stack"
  have t: "unat ?t = 0xFFFFFFFE00000000 + (slot + 1) * 36864" using slot_arith(2) [OF assms(1)] assms(2) by simp
  then have le: "KERNEL_STACK_BASE \<le> ?t" by (simp add: word_le_nat_alt KERNEL_STACK_BASE_def)
  have d: "unat ((?t - KERNEL_STACK_BASE) div KERNEL_SLOT_SIZE) = slot + 1"
    using t unat_sub [OF le] by (simp add: KERNEL_STACK_BASE_def KERNEL_SLOT_SIZE_def unat_div_distrib)
  then have "1 \<le> (?t - KERNEL_STACK_BASE) div KERNEL_SLOT_SIZE" by (simp add: word_le_nat_alt)
  then show ?thesis using le d unat_sub [of 1 "(?t - KERNEL_STACK_BASE) div KERNEL_SLOT_SIZE"] by (simp add: stack_slot_def checked_sub_def)
qed

lemma bit_set_slot: "slot < 64 \<Longrightarrow> bit ((slots :: u64) OR push_bit slot 1) i \<longleftrightarrow> i = slot \<or> bit slots i"
  by (auto simp: bit_simps)

lemma bit_clear_slot: "bit ((slots :: u64) AND NOT (push_bit slot 1)) i \<longleftrightarrow> i \<noteq> slot \<and> bit slots i"
  by (auto simp: bit_simps dest: bit_imp_le_length)

text \<open>
  \<open>KernelStackPool::allocate\<close> never panics. It reports \<open>OutOfStacks\<close> exactly when all 64
  slots are taken, and then changes nothing. Otherwise it takes the lowest free slot and no
  other, and on success the stack and its guard page lie exactly in the nine pages of that
  slot, so stacks of different slots are disjoint, and \<open>free\<close> computes the same slot again.
  A failed allocation leaves the address map and the owned frames as they were (the slot
  itself stays marked).
\<close>

theorem kernel_stack_pool_allocate_correct:
  assumes inv: "as_inv space s"
  shows "\<exists>r pool' s'. kernel_stack_pool_allocate pool space s = Ret (r, pool', s') \<and> as_inv space s' \<and>
    (if \<forall>i<64. bit (pool_free_slots pool) i then r = Inl StackOutOfStacks \<and> pool' = pool \<and> s' = s
     else \<exists>slot<64. \<not> bit (pool_free_slots pool) slot \<and> (\<forall>j < slot. bit (pool_free_slots pool) j)
       \<and> (\<forall>i. bit (pool_free_slots pool') i \<longleftrightarrow> i = slot \<or> bit (pool_free_slots pool) i) \<and>
       (case r of
          Inl _ \<Rightarrow> as_look space s' = as_look space s \<and> as_owned space s' = as_owned space s
        | Inr stack \<Rightarrow> stack_slot stack = Ret slot
            \<and> unat (sm_guard_page stack) = unat KERNEL_STACK_BASE + slot * unat KERNEL_SLOT_SIZE
            \<and> unat (sm_top stack) = unat KERNEL_STACK_BASE + (slot + 1) * unat KERNEL_SLOT_SIZE
            \<and> stack_mapped space (page_permissions True False False) (sm_mapped_start stack) KERNEL_STACK_PAGES s s'))"
proof (cases "find_slot (pool_free_slots pool) [0..<MAX_KERNEL_STACKS]")
  case None
  then show ?thesis
    using inv find_slot_lowest(1) [of 64 "pool_free_slots pool"]
    unfolding kernel_stack_pool_allocate_def None by (cases s) (simp add: None [unfolded MAX_KERNEL_STACKS_def])
next
  case (Some slot)
  then have slot: "slot < 64" "\<not> bit (pool_free_slots pool) slot" "\<forall>j < slot. bit (pool_free_slots pool) j"
    using find_slot_lowest(2) [of 64 "pool_free_slots pool" slot] by (simp_all add: MAX_KERNEL_STACKS_def)
  let ?top = "KERNEL_STACK_BASE + of_nat (slot + 1) * KERNEL_SLOT_SIZE"
  have pages: "unat (KERNEL_STACK_SIZE div FRAME_SIZE) = KERNEL_STACK_PAGES"
    by (simp add: KERNEL_STACK_SIZE_def FRAME_SIZE_def KERNEL_STACK_PAGES_def)
  note t = slot_arith(2) [OF slot(1)]
  have le: "KERNEL_STACK_SIZE \<le> ?top" "FRAME_SIZE \<le> ?top - KERNEL_STACK_SIZE"
    using t unat_sub [of KERNEL_STACK_SIZE ?top] by (simp_all add: word_le_nat_alt KERNEL_STACK_SIZE_def FRAME_SIZE_def)
  have g: "unat (?top - KERNEL_STACK_SIZE - FRAME_SIZE) = unat KERNEL_STACK_BASE + slot * unat KERNEL_SLOT_SIZE"
    using t unat_sub [OF le(1)] unat_sub [OF le(2)]
    by (simp add: KERNEL_STACK_SIZE_def FRAME_SIZE_def KERNEL_STACK_BASE_def KERNEL_SLOT_SIZE_def)
  obtain r s' where r: "kernel_stack_allocate space ?top s = Ret (r, s')" "as_inv space s'"
      "case r of
         Inl _ \<Rightarrow> as_look space s' = as_look space s \<and> as_owned space s' = as_owned space s
       | Inr stack \<Rightarrow> sm_top stack = ?top \<and> sm_mapped_start stack = ?top - KERNEL_STACK_SIZE
           \<and> sm_guard_page stack = ?top - KERNEL_STACK_SIZE - FRAME_SIZE
           \<and> stack_mapped space (page_permissions True False False) (?top - KERNEL_STACK_SIZE) KERNEL_STACK_PAGES s s'"
    using stack_allocate_spec [OF inv, of KERNEL_STACK_SIZE ?top "page_permissions True False False"]
    unfolding kernel_stack_allocate_def pages by (fastforce split: sum.splits)
  have eq: "kernel_stack_pool_allocate pool space s = Ret (r, pool\<lparr>pool_free_slots := pool_free_slots pool OR push_bit slot 1\<rparr>, s')"
    unfolding kernel_stack_pool_allocate_def Some using slot_arith(1) [OF slot(1)] r(1) by (simp del: of_nat_Suc)
  have ts: "unat ?top = unat KERNEL_STACK_BASE + (slot + 1) * unat KERNEL_SLOT_SIZE"
    using t by (simp add: KERNEL_STACK_BASE_def KERNEL_SLOT_SIZE_def)
  have "case r of
          Inl _ \<Rightarrow> as_look space s' = as_look space s \<and> as_owned space s' = as_owned space s
        | Inr stack \<Rightarrow> stack_slot stack = Ret slot
            \<and> unat (sm_guard_page stack) = unat KERNEL_STACK_BASE + slot * unat KERNEL_SLOT_SIZE
            \<and> unat (sm_top stack) = unat KERNEL_STACK_BASE + (slot + 1) * unat KERNEL_SLOT_SIZE
            \<and> stack_mapped space (page_permissions True False False) (sm_mapped_start stack) KERNEL_STACK_PAGES s s'"
    using r(3) g ts stack_slot_eq [OF slot(1)] by (cases r) auto
  then show ?thesis
    using eq r(2) slot bit_set_slot [OF slot(1)]
    by (intro exI [of _ r] exI [of _ "pool\<lparr>pool_free_slots := pool_free_slots pool OR push_bit slot 1\<rparr>"] exI [of _ s']) auto
qed

theorem kernel_stack_pool_allocate_correct_witness:
  "\<exists>r pool' s'. kernel_stack_pool_allocate kernel_stack_pool_new sample_space (sample_fa8, zero_mem) = Ret (r, pool', s')
     \<and> bit (pool_free_slots pool') 0 \<and> \<not> bit (pool_free_slots pool') 1"
proof -
  have n: "\<not> (\<forall>i<64. bit (pool_free_slots kernel_stack_pool_new) i)" "\<And>i. \<not> bit (pool_free_slots kernel_stack_pool_new) i"
    by (auto simp: kernel_stack_pool_new_def intro: exI [of _ 0])
  show ?thesis
    using kernel_stack_pool_allocate_correct [OF sample_space_inv, of kernel_stack_pool_new] unfolding if_not_P [OF n(1)]
    by (elim exE conjE) (intro exI conjI, assumption, metis gr0I n(2), metis gr0I n(2) zero_neq_one)
qed

end
