(* ===== verification/User.thy ===== *)
theory User
  imports Address_Space_Correctness
begin

section \<open>User memory\<close>

text \<open>
  \<open>src/src/memory/user.rs\<close>: checking that a range of addresses belongs to the user half and
  is mapped with the needed permissions, and copying between kernel and user memory. The
  copies are loads and stores at user addresses: the processor translates each byte through
  the page table it is running on (\<open>virt_load\<close>, \<open>virt_store\<close>). A load from an unmapped page
  and a store to a page that is not mapped writable fault; a fault in kernel mode halts the
  machine (\<open>exceptions.rs\<close>) and is \<open>Panic\<close> here. \<open>copy_val_to_user\<close> and \<open>copy_val_from_user\<close>
  are generic in the code and are used with \<open>usize\<close>.
\<close>

text \<open>\<open>Status\<close> of \<open>src/src/syscall/mod.rs\<close>.\<close>

datatype Status =
  InvalidArgument | BadAddress | BadFileDescriptor | NoSuchTask | OutOfMemory | BadHandle

subsection \<open>Loads and stores through the active page table\<close>

definition virt_load :: "PageTable \<Rightarrow> mem \<Rightarrow> VirtualAddr \<Rightarrow> u8 panics" where
  "virt_load pt m v = do {
     p \<leftarrow> page_table_to_physical pt m v;
     Ret (m (p + dm_offset (pt_direct_map pt))) }"

definition virt_store :: "PageTable \<Rightarrow> mem \<Rightarrow> VirtualAddr \<Rightarrow> u8 \<Rightarrow> mem panics" where
  "virt_store pt m v b = do {
     perms \<leftarrow> page_table_mapping pt m v;
     p \<leftarrow> page_table_to_physical pt m v;
     if writable perms then Ret (m(p + dm_offset (pt_direct_map pt) := b)) else Panic }"

primrec virt_read :: "PageTable \<Rightarrow> mem \<Rightarrow> VirtualAddr \<Rightarrow> nat \<Rightarrow> u8 list panics" where
  "virt_read pt m v 0 = Ret []"
| "virt_read pt m v (Suc n) = do {
     b \<leftarrow> virt_load pt m v;
     bs \<leftarrow> virt_read pt m (v + 1) n;
     Ret (b # bs) }"

primrec virt_write :: "PageTable \<Rightarrow> VirtualAddr \<Rightarrow> u8 list \<Rightarrow> mem \<Rightarrow> mem panics" where
  "virt_write pt v [] m = Ret m"
| "virt_write pt v (b # bs) m = do {
     m \<leftarrow> virt_store pt m v b;
     virt_write pt (v + 1) bs m }"

subsection \<open>Validation\<close>

text \<open>The range \<open>(start..end).step_by(FRAME_SIZE)\<close>.\<close>

definition page_range :: "usize \<Rightarrow> usize \<Rightarrow> usize list" where
  "page_range start stop = map (\<lambda>k. start + of_nat (k * 4096)) [0..<(unat stop - unat start + 4095) div 4096]"

definition page_allows :: "bool \<Rightarrow> PagePermissions option \<Rightarrow> bool" where
  "page_allows wr mapping = (case mapping of None \<Rightarrow> False | Some p \<Rightarrow> user_accessible p \<and> (\<not> wr \<or> writable p))"

fun validate_pages :: "AddressSpaceTable \<Rightarrow> mem \<Rightarrow> AddressSpaceId \<Rightarrow> bool \<Rightarrow> usize list \<Rightarrow> Status + unit" where
  "validate_pages t m as_id wr [] = Inr ()"
| "validate_pages t m as_id wr (page # pages) =
     (case address_space_get t as_id of
        None \<Rightarrow> Inl BadAddress
      | Some space \<Rightarrow>
          if page_allows wr (address_space_mapping space m page) then validate_pages t m as_id wr pages
          else Inl BadAddress)"

definition validate_user_range ::
  "AddressSpaceTable \<Rightarrow> mem \<Rightarrow> AddressSpaceId \<Rightarrow> VirtualAddr \<Rightarrow> usize \<Rightarrow> bool \<Rightarrow> Status + unit" where
  "validate_user_range t m as_id start len wr =
     (case checked_add start len of
        None \<Rightarrow> Inl BadAddress
      | Some end_addr \<Rightarrow>
          if USER_SPACE_END \<le> start \<or> USER_SPACE_END < end_addr then Inl BadAddress
          else if len = 0 then Inr ()
          else validate_pages t m as_id wr (page_range (start AND NOT (FRAME_SIZE - 1)) end_addr))"

subsection \<open>Copies\<close>

definition copy_from_user :: "PageTable \<Rightarrow> mem \<Rightarrow> VirtualAddr \<Rightarrow> nat \<Rightarrow> (Status + u8 list) panics" where
  "copy_from_user pt m src n =
     (case checked_add src (of_nat n) of
        None \<Rightarrow> Ret (Inl BadAddress)
      | Some stop \<Rightarrow>
          if USER_SPACE_END < stop then Ret (Inl BadAddress)
          else do { bs \<leftarrow> virt_read pt m src n; Ret (Inr bs) })"

definition copy_to_user :: "PageTable \<Rightarrow> VirtualAddr \<Rightarrow> u8 list \<Rightarrow> mem \<Rightarrow> ((Status + unit) \<times> mem) panics" where
  "copy_to_user pt dst src m =
     (case checked_add dst (of_nat (length src)) of
        None \<Rightarrow> Ret (Inl BadAddress, m)
      | Some stop \<Rightarrow>
          if USER_SPACE_END < stop then Ret (Inl BadAddress, m)
          else do { m \<leftarrow> virt_write pt dst src m; Ret (Inr (), m) })"

definition copy_val_to_user :: "PageTable \<Rightarrow> VirtualAddr \<Rightarrow> usize \<Rightarrow> mem \<Rightarrow> ((Status + unit) \<times> mem) panics" where
  "copy_val_to_user pt dst val m =
     (if dst mod 8 \<noteq> 0 then Ret (Inl InvalidArgument, m)
      else (case checked_add dst 8 of
              None \<Rightarrow> Ret (Inl BadAddress, m)
            | Some stop \<Rightarrow>
                if USER_SPACE_END < stop then Ret (Inl BadAddress, m)
                else do { m \<leftarrow> virt_write pt dst (to_le_bytes 8 val) m; Ret (Inr (), m) }))"

definition copy_val_from_user :: "PageTable \<Rightarrow> mem \<Rightarrow> VirtualAddr \<Rightarrow> (Status + usize) panics" where
  "copy_val_from_user pt m src =
     (if src mod 8 \<noteq> 0 then Ret (Inl InvalidArgument)
      else (case checked_add src 8 of
              None \<Rightarrow> Ret (Inl BadAddress)
            | Some stop \<Rightarrow>
                if USER_SPACE_END < stop then Ret (Inl BadAddress)
                else do { bs \<leftarrow> virt_read pt m src 8; Ret (Inr (from_le_bytes bs)) }))"

end
