(* ===== verification/Tcb.thy ===== *)
theory Tcb
  imports User Stack
begin

section \<open>Thread control blocks\<close>

text \<open>
  \<open>src/src/task/tcb.rs\<close> and \<open>ThreadContext\<close> of \<open>src/src/arch/x86_64/cpu.rs\<close>: the state of a
  thread, its mailbox (a ring buffer of four messages), its handle table (32 slots) and its
  saved context. Task and handle identifiers are array positions and are natural numbers
  here; the system calls convert them from and to \<open>usize\<close>.
\<close>

datatype Fault = SegmentationFault | IllegalInstruction | Abort | BadSystemCall

datatype ExitReason = Exited usize | Killed | FaultExit Fault

datatype BlockReason = RecvBlock

datatype ThreadState = Ready | Running | Blocked BlockReason | Dead ExitReason

type_synonym TaskId = nat

subsection \<open>Mailboxes\<close>

definition MAX_MSG_SIZE :: nat where "MAX_MSG_SIZE = 128"
definition MAILBOX_CAPACITY :: nat where "MAILBOX_CAPACITY = 4"

record Message =
  msg_sender :: TaskId
  msg_length :: nat
  msg_data :: "u8 list"

record Mailbox =
  mb_messages :: "Message option list"
  mb_head :: nat
  mb_len :: nat

definition mailbox_new :: Mailbox where
  "mailbox_new = \<lparr>mb_messages = replicate MAILBOX_CAPACITY None, mb_head = 0, mb_len = 0\<rparr>"

definition mailbox_pop :: "Mailbox \<Rightarrow> (Message option \<times> Mailbox) panics" where
  "mailbox_pop mb =
     (if mb_len mb = 0 then Ret (None, mb)
      else if \<not> mb_head mb < length (mb_messages mb) then Panic
      else let msg = mb_messages mb ! mb_head mb
           in Ret (msg, mb\<lparr>mb_head := (mb_head mb + 1) mod MAILBOX_CAPACITY, mb_len := mb_len mb - 1\<rparr>))"

definition mailbox_push :: "Mailbox \<Rightarrow> Message \<Rightarrow> (bool \<times> Mailbox) panics" where
  "mailbox_push mb msg =
     (if mb_len mb = MAILBOX_CAPACITY then Ret (False, mb)
      else let tail = (mb_head mb + mb_len mb) mod MAILBOX_CAPACITY
           in if \<not> tail < length (mb_messages mb) then Panic
              else Ret (True, mb\<lparr>mb_messages := (mb_messages mb)[tail := Some msg], mb_len := mb_len mb + 1\<rparr>))"

definition mailbox_inv :: "Mailbox \<Rightarrow> bool" where
  "mailbox_inv mb \<longleftrightarrow> length (mb_messages mb) = MAILBOX_CAPACITY \<and> mb_head mb < MAILBOX_CAPACITY
     \<and> mb_len mb \<le> MAILBOX_CAPACITY
     \<and> None \<notin> set (ring_contents (mb_messages mb) (mb_head mb) (mb_len mb))"

definition mailbox_contents :: "Mailbox \<Rightarrow> Message list" where
  "mailbox_contents mb = map the (ring_contents (mb_messages mb) (mb_head mb) (mb_len mb))"

lemma mailbox_new_inv [simp]: "mailbox_inv mailbox_new" "mailbox_contents mailbox_new = []"
  by (simp_all add: mailbox_inv_def mailbox_new_def mailbox_contents_def MAILBOX_CAPACITY_def)

interpretation mailbox: bounded_fifo mailbox_contents mailbox_inv MAILBOX_CAPACITY mailbox_push mailbox_pop
proof
  fix q x xs m
  assume inv: "mailbox_inv q"
  let ?M = "mb_messages q" and ?h = "mb_head q" and ?n = "mb_len q"
  have len: "length ?M = MAILBOX_CAPACITY" "?h < MAILBOX_CAPACITY" "?n \<le> MAILBOX_CAPACITY"
      "None \<notin> set (ring_contents ?M ?h ?n)"
    using inv by (auto simp: mailbox_inv_def)
  have lc: "length (mailbox_contents q) = ?n" by (simp add: mailbox_contents_def)
  show "length (mailbox_contents q) \<le> MAILBOX_CAPACITY" using lc len(3) by simp
  show "length (mailbox_contents q) = MAILBOX_CAPACITY \<Longrightarrow> mailbox_push q m = Ret (False, q)"
    using lc by (simp add: mailbox_push_def)
  show "mailbox_contents q = [] \<Longrightarrow> mailbox_pop q = Ret (None, q)"
    using lc by (simp add: mailbox_pop_def)
  {
    assume "length (mailbox_contents q) < MAILBOX_CAPACITY"
    then have "?n < MAILBOX_CAPACITY" using lc by simp
    moreover from this have "ring_contents (?M[(?h + ?n) mod length ?M := Some m]) ?h (Suc ?n) = ring_contents ?M ?h ?n @ [Some m]"
      using len(1) by (intro ring_contents_push) simp
    ultimately show "\<exists>q'. mailbox_push q m = Ret (True, q') \<and> mailbox_inv q' \<and> mailbox_contents q' = mailbox_contents q @ [m]"
      using len by (simp add: mailbox_push_def mailbox_inv_def mailbox_contents_def)
  next
    assume c: "mailbox_contents q = m # xs"
    then obtain n where n: "?n = Suc n" using lc by (cases ?n) auto
    have r: "ring_contents ?M ?h ?n = ?M ! ?h # ring_contents ?M ((?h + 1) mod MAILBOX_CAPACITY) n"
      using ring_contents_pop [of ?M ?h n] len(1,2) n by simp
    then have "?M ! ?h = Some m" "map the (ring_contents ?M ((?h + 1) mod MAILBOX_CAPACITY) n) = xs"
        "None \<notin> set (ring_contents ?M ((?h + 1) mod MAILBOX_CAPACITY) n)"
      using c len(4) by (auto simp: mailbox_contents_def)
    then show "\<exists>q'. mailbox_pop q = Ret (Some m, q') \<and> mailbox_inv q' \<and> mailbox_contents q' = xs"
      using len n by (simp add: mailbox_pop_def mailbox_inv_def mailbox_contents_def MAILBOX_CAPACITY_def)
  }
qed

text \<open>
  A mailbox is a first-in first-out buffer of four messages: messages are received in the
  order they were sent, a push is refused exactly when four messages are waiting and then
  changes nothing, and neither operation panics.
\<close>

theorem mailbox_fifo:
  assumes "mailbox_inv mb"
  shows "(\<exists>mb'. mailbox_push mb msg = Ret (length (mailbox_contents mb) < MAILBOX_CAPACITY, mb') \<and> mailbox_inv mb'
        \<and> mailbox_contents mb' = (if length (mailbox_contents mb) < MAILBOX_CAPACITY then mailbox_contents mb @ [msg] else mailbox_contents mb))
    \<and> (\<exists>mb'. mailbox_pop mb = Ret (case mailbox_contents mb of [] \<Rightarrow> None | m # _ \<Rightarrow> Some m, mb') \<and> mailbox_inv mb'
        \<and> mailbox_contents mb' = tl (mailbox_contents mb))"
  using mailbox.push_spec [OF assms, of msg] mailbox.pop_spec [OF assms] by blast

theorem mailbox_fifo_witness:
  "\<exists>mb'. mailbox_push mailbox_new \<lparr>msg_sender = 1, msg_length = 0, msg_data = []\<rparr> = Ret (True, mb')
     \<and> mailbox_contents mb' = [\<lparr>msg_sender = 1, msg_length = 0, msg_data = []\<rparr>]"
  using mailbox_fifo [OF mailbox_new_inv(1), of "\<lparr>msg_sender = 1, msg_length = 0, msg_data = []\<rparr>"]
  by (auto simp: MAILBOX_CAPACITY_def)

subsection \<open>Handles\<close>

definition MAX_HANDLES :: nat where "MAX_HANDLES = 32"

datatype KernelObject =
  ObjAddressSpace AddressSpaceId
| ObjFrame FrameAddr
| ObjMapping FrameAddr AddressSpaceId VirtualAddr
| ObjThread TaskId

type_synonym Rights = u32

definition READ :: Rights where "READ = push_bit 0 1"
definition WRITE :: Rights where "WRITE = push_bit 1 1"
definition EXECUTE :: Rights where "EXECUTE = push_bit 2 1"
definition MAP :: Rights where "MAP = push_bit 3 1"

record Handle =
  h_object :: KernelObject
  h_rights :: Rights

record HandleTable =
  ht_handles :: "Handle option list"

definition handle_table_new :: HandleTable where
  "handle_table_new = \<lparr>ht_handles = replicate MAX_HANDLES None\<rparr>"

definition handle_push :: "HandleTable \<Rightarrow> Handle \<Rightarrow> (Handle + nat) \<times> HandleTable" where
  "handle_push ht handle =
     (case position_none (ht_handles ht) of
        Some i \<Rightarrow> (Inr i, ht\<lparr>ht_handles := (ht_handles ht)[i := Some handle]\<rparr>)
      | None \<Rightarrow> (Inl handle, ht))"

text \<open>\<open>remove\<close> and \<open>take\<close> do the same.\<close>

definition handle_take :: "HandleTable \<Rightarrow> nat \<Rightarrow> Handle option \<times> HandleTable" where
  "handle_take ht i =
     (if i < length (ht_handles ht) then (ht_handles ht ! i, ht\<lparr>ht_handles := (ht_handles ht)[i := None]\<rparr>)
      else (None, ht))"

definition handle_put :: "HandleTable \<Rightarrow> nat \<Rightarrow> Handle \<Rightarrow> (Handle + unit) \<times> HandleTable" where
  "handle_put ht i handle =
     (if \<not> i < length (ht_handles ht) then (Inl handle, ht)
      else if ht_handles ht ! i \<noteq> None then (Inl handle, ht)
      else (Inr (), ht\<lparr>ht_handles := (ht_handles ht)[i := Some handle]\<rparr>))"

definition handle_get :: "HandleTable \<Rightarrow> nat \<Rightarrow> Handle option" where
  "handle_get ht i = (if i < length (ht_handles ht) then ht_handles ht ! i else None)"

interpretation handles: slot_table ht_handles handle_push handle_get handle_take
  by unfold_locales
    (auto simp: handle_get_def handle_push_def handle_take_def slot_get_def list_update_beyond)

text \<open>Putting back what was taken restores the table.\<close>

lemma handle_take_put:
  assumes "handle_take ht i = (Some h, ht')"
  shows "handle_put ht' i h = (Inr (), ht)" "handle_get ht i = Some h"
proof -
  have i: "i < length (ht_handles ht)" "ht_handles ht ! i = Some h" "ht' = ht\<lparr>ht_handles := (ht_handles ht)[i := None]\<rparr>"
    using assms by (auto simp: handle_take_def split: if_splits)
  then have "(ht_handles ht)[i := Some h] = ht_handles ht" by (metis list_update_id)
  then show "handle_put ht' i h = (Inr (), ht)" using i by (simp add: handle_put_def)
  show "handle_get ht i = Some h" using i by (simp add: handle_get_def)
qed

subsection \<open>Contexts\<close>

record ThreadContext =
  ctx_rsp :: usize

definition thread_context_empty :: ThreadContext where
  "thread_context_empty = \<lparr>ctx_rsp = 0\<rparr>"

text \<open>Stores of 64-bit words through the active page table.\<close>

definition virt_write_u64 :: "PageTable \<Rightarrow> VirtualAddr \<Rightarrow> u64 \<Rightarrow> mem \<Rightarrow> mem panics" where
  "virt_write_u64 pt v x m = virt_write pt v (to_le_bytes 8 x) m"

primrec virt_write_words :: "PageTable \<Rightarrow> VirtualAddr \<Rightarrow> u64 list \<Rightarrow> mem \<Rightarrow> mem panics" where
  "virt_write_words pt v [] m = Ret m"
| "virt_write_words pt v (x # xs) m = do {
     m \<leftarrow> virt_write_u64 pt v x m;
     virt_write_words pt (v + 8) xs m }"

text \<open>
  \<open>ThreadContext::new\<close>: the initial frame on the kernel stack, which \<open>switch_context\<close> pops when
  the thread first runs. \<open>user_thread_entry\<close> is the address of that function.
\<close>

definition thread_context_new ::
  "PageTable \<Rightarrow> usize \<Rightarrow> VirtualAddr \<Rightarrow> VirtualAddr \<Rightarrow> VirtualAddr \<Rightarrow> mem \<Rightarrow> (ThreadContext \<times> mem) panics" where
  "thread_context_new pt user_thread_entry user_entry user_stack kernel_stack_top m = do {
     stack_ptr \<leftarrow> checked_sub kernel_stack_top 56;
     m \<leftarrow> virt_write_words pt stack_ptr [0, 0, 0, user_entry, user_stack, 0, user_thread_entry] m;
     Ret (\<lparr>ctx_rsp = stack_ptr\<rparr>, m) }"

subsection \<open>The control block\<close>

record Tcb =
  tcb_id :: TaskId
  tcb_as_id :: AddressSpaceId
  tcb_state :: ThreadState
  tcb_kernel_stack :: StackMapping
  tcb_context :: ThreadContext
  tcb_mailbox :: Mailbox
  tcb_handles :: HandleTable

definition tcb_new_user ::
  "PageTable \<Rightarrow> usize \<Rightarrow> AddressSpaceId \<Rightarrow> StackMapping \<Rightarrow> VirtualAddr \<Rightarrow> VirtualAddr \<Rightarrow> mem \<Rightarrow> (Tcb \<times> mem) panics" where
  "tcb_new_user pt user_thread_entry as_id kernel_stack entry user_stack m = do {
     (context, m) \<leftarrow> thread_context_new pt user_thread_entry entry user_stack (sm_top kernel_stack) m;
     let (r, handles) = handle_push handle_table_new \<lparr>h_object = ObjAddressSpace as_id, h_rights = READ OR WRITE OR EXECUTE\<rparr>;
     (case r of
        Inl _ \<Rightarrow> Panic
      | Inr _ \<Rightarrow> Ret (\<lparr>tcb_id = 0, tcb_as_id = as_id, tcb_state = Ready, tcb_kernel_stack = kernel_stack,
                      tcb_context = context, tcb_mailbox = mailbox_new, tcb_handles = handles\<rparr>, m)) }"

end
