(* ===== verification/Ready_Queue.thy ===== *)
theory Ready_Queue
  imports Tcb
begin

section \<open>The ready queue\<close>

text \<open>
  \<open>ReadyQueue\<close> of \<open>src/src/task/scheduler.rs\<close>: a ring buffer of task identifiers with
  \<open>push_back\<close>, \<open>pop_front\<close> and \<open>remove\<close>. Its contents are a list; pushing appends, popping
  takes the head (the interface \<open>bounded_fifo\<close>), and removing deletes the first occurrence.
\<close>

definition MAX_TASKS :: nat where "MAX_TASKS = 32"

record ReadyQueue =
  rq_entries :: "TaskId list"
  rq_head :: nat
  rq_len :: nat

definition ready_queue_new :: ReadyQueue where
  "ready_queue_new = \<lparr>rq_entries = replicate MAX_TASKS 0, rq_head = 0, rq_len = 0\<rparr>"

definition push_back :: "ReadyQueue \<Rightarrow> TaskId \<Rightarrow> (bool \<times> ReadyQueue) panics" where
  "push_back q task =
     (if rq_len q = MAX_TASKS then Ret (False, q)
      else let tail = (rq_head q + rq_len q) mod MAX_TASKS
           in if \<not> tail < length (rq_entries q) then Panic
              else Ret (True, q\<lparr>rq_entries := (rq_entries q)[tail := task], rq_len := rq_len q + 1\<rparr>))"

definition pop_front :: "ReadyQueue \<Rightarrow> (TaskId option \<times> ReadyQueue) panics" where
  "pop_front q =
     (if rq_len q = 0 then Ret (None, q)
      else if \<not> rq_head q < length (rq_entries q) then Panic
      else Ret (Some (rq_entries q ! rq_head q),
                q\<lparr>rq_head := (rq_head q + 1) mod MAX_TASKS, rq_len := rq_len q - 1\<rparr>))"

text \<open>The two loops of \<open>remove\<close>: the first position of the task, and the shift of what follows.\<close>

fun queue_position :: "ReadyQueue \<Rightarrow> TaskId \<Rightarrow> nat list \<Rightarrow> nat option" where
  "queue_position q task [] = None"
| "queue_position q task (i # is) =
     (if rq_entries q ! ((rq_head q + i) mod MAX_TASKS) = task then Some i else queue_position q task is)"

primrec shift_entries :: "nat \<Rightarrow> nat \<Rightarrow> nat \<Rightarrow> TaskId list \<Rightarrow> TaskId list" where
  "shift_entries head j 0 es = es"
| "shift_entries head j (Suc n) es =
     shift_entries head (Suc j) n (es[(head + j) mod MAX_TASKS := es ! ((head + j + 1) mod MAX_TASKS)])"

definition queue_remove :: "ReadyQueue \<Rightarrow> TaskId \<Rightarrow> bool \<times> ReadyQueue" where
  "queue_remove q task =
     (case queue_position q task [0..<rq_len q] of
        None \<Rightarrow> (False, q)
      | Some i \<Rightarrow> (True, q\<lparr>rq_entries := shift_entries (rq_head q) i (rq_len q - 1 - i) (rq_entries q),
                          rq_len := rq_len q - 1\<rparr>))"

subsection \<open>Contents\<close>

definition ready_inv :: "ReadyQueue \<Rightarrow> bool" where
  "ready_inv q \<longleftrightarrow> length (rq_entries q) = MAX_TASKS \<and> rq_head q < MAX_TASKS \<and> rq_len q \<le> MAX_TASKS"

definition ready_contents :: "ReadyQueue \<Rightarrow> TaskId list" where
  "ready_contents q = ring_contents (rq_entries q) (rq_head q) (rq_len q)"

lemma ready_queue_new_inv [simp]: "ready_inv ready_queue_new" "ready_contents ready_queue_new = []"
  by (simp_all add: ready_inv_def ready_queue_new_def ready_contents_def MAX_TASKS_def)

interpretation ready: bounded_fifo ready_contents ready_inv MAX_TASKS push_back pop_front
proof
  fix q x xs
  assume inv: "ready_inv q"
  let ?M = "rq_entries q" and ?h = "rq_head q" and ?n = "rq_len q"
  have len: "length ?M = MAX_TASKS" "?h < MAX_TASKS" "?n \<le> MAX_TASKS"
    using inv by (auto simp: ready_inv_def)
  have lc: "length (ready_contents q) = ?n" by (simp add: ready_contents_def)
  show "length (ready_contents q) \<le> MAX_TASKS" using lc len(3) by simp
  show "length (ready_contents q) = MAX_TASKS \<Longrightarrow> push_back q x = Ret (False, q)"
    using lc by (simp add: push_back_def)
  show "ready_contents q = [] \<Longrightarrow> pop_front q = Ret (None, q)"
    using lc by (simp add: pop_front_def)
  show "\<exists>q'. push_back q x = Ret (True, q') \<and> ready_inv q' \<and> ready_contents q' = ready_contents q @ [x]"
    if "length (ready_contents q) < MAX_TASKS"
    using that lc len ring_contents_push [of ?n ?M ?h x]
    by (simp add: push_back_def ready_inv_def ready_contents_def)
  show "\<exists>q'. pop_front q = Ret (Some x, q') \<and> ready_inv q' \<and> ready_contents q' = xs" if c: "ready_contents q = x # xs"
  proof -
    obtain n where n: "?n = Suc n" using c lc by (cases ?n) auto
    then show ?thesis
      using ring_contents_pop [of ?M ?h n] len c
      by (simp add: pop_front_def ready_inv_def ready_contents_def MAX_TASKS_def)
  qed
qed

subsection \<open>Removal\<close>

lemma shift_entries_length [simp]: "length (shift_entries h j n es) = length es"
  by (induction n arbitrary: j es) simp_all

lemma shift_entries_nth:
  "length es = MAX_TASKS \<Longrightarrow> j + n < MAX_TASKS \<Longrightarrow> k < MAX_TASKS \<Longrightarrow>
   shift_entries h j n es ! ((h + k) mod MAX_TASKS) =
     (if j \<le> k \<and> k < j + n then es ! ((h + k + 1) mod MAX_TASKS) else es ! ((h + k) mod MAX_TASKS))"
proof (induction n arbitrary: j es)
  case (Suc n)
  let ?es = "es[(h + j) mod MAX_TASKS := es ! ((h + j + 1) mod MAX_TASKS)]"
  have pos: "0 < MAX_TASKS" by (simp add: MAX_TASKS_def)
  have upd: "?es ! ((h + i) mod MAX_TASKS) = (if i = j then es ! ((h + j + 1) mod MAX_TASKS) else es ! ((h + i) mod MAX_TASKS))"
    if "i < MAX_TASKS" for i
    using ring_index_inj [of i MAX_TASKS j h] that Suc.prems pos by (auto simp: nth_list_update)
  have "shift_entries h j (Suc n) es ! ((h + k) mod MAX_TASKS) =
      (if Suc j \<le> k \<and> k < Suc j + n then ?es ! ((h + (k + 1)) mod MAX_TASKS) else ?es ! ((h + k) mod MAX_TASKS))"
    using Suc.IH [of ?es "Suc j"] Suc.prems by simp
  then show ?case
    using upd [of k] upd [of "k + 1"] Suc.prems by auto
qed simp

lemma queue_position_find:
  "queue_position q task is = List.find (\<lambda>i. rq_entries q ! ((rq_head q + i) mod MAX_TASKS) = task) is"
  by (induction "is") auto

lemma remove1_nth:
  "i < length xs \<Longrightarrow> xs ! i = x \<Longrightarrow> (\<forall>j<i. xs ! j \<noteq> x) \<Longrightarrow> remove1 x xs = take i xs @ drop (Suc i) xs"
proof (induction xs arbitrary: i)
  case (Cons y ys)
  show ?case
  proof (cases i)
    case (Suc k)
    then have "remove1 x ys = take k ys @ drop (Suc k) ys"
      using Cons.prems by (intro Cons.IH) auto
    then show ?thesis using Cons.prems(3) [rule_format, of 0] Suc by auto
  qed (use Cons.prems in auto)
qed simp

lemma queue_remove_contents:
  assumes inv: "ready_inv q"
  shows "fst (queue_remove q task) \<longleftrightarrow> task \<in> set (ready_contents q)"
    and "ready_inv (snd (queue_remove q task))"
    and "ready_contents (snd (queue_remove q task)) = remove1 task (ready_contents q)"
proof -
  let ?es = "rq_entries q" and ?h = "rq_head q" and ?n = "rq_len q" and ?c = "ready_contents q"
  have len: "length ?es = MAX_TASKS" "?h < MAX_TASKS" "?n \<le> MAX_TASKS" using inv by (auto simp: ready_inv_def)
  have lc: "length ?c = ?n" by (simp add: ready_contents_def)
  have cn: "?c ! i = ?es ! ((?h + i) mod MAX_TASKS)" if "i < ?n" for i
    using that len(1) by (simp add: ready_contents_def)
  have "(fst (queue_remove q task) \<longleftrightarrow> task \<in> set ?c) \<and> ready_inv (snd (queue_remove q task))
      \<and> ready_contents (snd (queue_remove q task)) = remove1 task ?c"
  proof (cases "queue_position q task [0..<?n]")
    case None
    then have "\<forall>i<?n. ?c ! i \<noteq> task" unfolding queue_position_find find_None_iff using cn by auto
    then have "task \<notin> set ?c" using lc by (auto simp: in_set_conv_nth)
    then show ?thesis using None inv by (simp add: queue_remove_def remove1_idem)
  next
    case (Some i)
    then have i: "i < ?n" "?c ! i = task" "\<forall>j<i. ?c ! j \<noteq> task"
      unfolding queue_position_find find_Some_iff using cn by auto
    let ?es' = "shift_entries ?h i (?n - 1 - i) ?es"
    have "ring_contents ?es' ?h (?n - 1) = take i ?c @ drop (Suc i) ?c"
    proof (rule nth_equalityI)
      show "length (ring_contents ?es' ?h (?n - 1)) = length (take i ?c @ drop (Suc i) ?c)" using i lc by simp
      fix k assume "k < length (ring_contents ?es' ?h (?n - 1))"
      then have k: "k < ?n - 1" by simp
      then have "ring_contents ?es' ?h (?n - 1) ! k = ?es' ! ((?h + k) mod MAX_TASKS)" using len(1) by simp
      also have "\<dots> = (if i \<le> k then ?c ! (k + 1) else ?c ! k)"
        using shift_entries_nth [of ?es i "?n - 1 - i" k ?h] len k i cn [of k] cn [of "k + 1"] by simp
      finally show "ring_contents ?es' ?h (?n - 1) ! k = (take i ?c @ drop (Suc i) ?c) ! k"
        using k i lc by (simp add: nth_append min_def)
    qed
    moreover have "task \<in> set ?c" using i lc by (metis nth_mem)
    ultimately show ?thesis
      using Some i lc len remove1_nth [of i ?c task]
      by (simp add: queue_remove_def ready_contents_def [of "_\<lparr>rq_entries := _, rq_len := _\<rparr>"] ready_inv_def)
  qed
  then show "fst (queue_remove q task) \<longleftrightarrow> task \<in> set ?c" "ready_inv (snd (queue_remove q task))"
    "ready_contents (snd (queue_remove q task)) = remove1 task ?c" by auto
qed

text \<open>
  The ready queue is a bounded first-in first-out queue with deletion: tasks come out in the
  order they went in (as long as they fit), nothing panics, and \<open>remove\<close>, which shifts the ring
  in place, does to the contents what deleting the first occurrence does to a list; it answers
  whether the task was there.
\<close>

theorem ready_queue_fifo_remove:
  assumes "ready_inv q" "length (ready_contents q) + length xs \<le> MAX_TASKS"
  shows "(\<exists>q1 q2. push_list push_back q xs = Ret (True, q1) \<and>
      pop_list pop_front q1 (length (ready_contents q) + length xs) = Ret (ready_contents q @ xs, q2))
    \<and> ready_inv (snd (queue_remove q task)) \<and> ready_contents (snd (queue_remove q task)) = remove1 task (ready_contents q)
    \<and> (fst (queue_remove q task) \<longleftrightarrow> task \<in> set (ready_contents q))"
  using ready.fifo_order [OF assms] queue_remove_contents [OF assms(1), of task] by blast

theorem ready_queue_fifo_remove_witness:
  "ready_inv (snd (queue_remove ready_queue_new 3)) \<and> (\<exists>q1 q2. push_list push_back ready_queue_new [3, 1, 2] = Ret (True, q1)
     \<and> pop_list pop_front q1 3 = Ret ([3, 1, 2], q2))"
proof -
  have "length (ready_contents ready_queue_new) + length [3, 1, 2 :: nat] \<le> MAX_TASKS" by (simp add: MAX_TASKS_def)
  moreover have "length (ready_contents ready_queue_new) + length [3, 1, 2 :: nat] = 3" "ready_contents ready_queue_new @ [3, 1, 2] = [3, 1, 2]"
    by simp_all
  ultimately show ?thesis using ready_queue_fifo_remove [OF ready_queue_new_inv(1), of "[3, 1, 2]" 3] by metis
qed

end
