(* ===== verification/Scheduler.thy ===== *)
theory Scheduler
  imports Ready_Queue
begin

section \<open>The scheduler\<close>

text \<open>
  \<open>src/src/task/scheduler.rs\<close>: the task table, the ready queue and the operations on them. An
  operation that gives up the processor computes a \<open>Switch\<close>, which names the task to leave
  and the task to enter (the code holds pointers to their contexts), and then performs it;
  \<open>Transfer\<close> says how it ends for the caller: it continues, the processor is handed over, or
  the machine halts because nothing is ready (\<open>hcf\<close>). Disabling and restoring interrupts
  around an operation changes no data.
\<close>

record Scheduler =
  sch_current :: "TaskId option"
  sch_tasks :: "Tcb option list"
  sch_ready :: ReadyQueue
  sch_stacks :: KernelStackPool

definition scheduler_new :: Scheduler where
  "scheduler_new = \<lparr>sch_current = None, sch_tasks = replicate MAX_TASKS None, sch_ready = ready_queue_new,
     sch_stacks = kernel_stack_pool_new\<rparr>"

record Switch =
  sw_previous :: "TaskId option"
  sw_next :: TaskId
  sw_next_as_id :: AddressSpaceId
  sw_next_kernel_stack :: VirtualAddr
  sw_activate_address_space :: bool

datatype Transfer = Continue | SwitchTo Switch | Halt

text \<open>Indexing \<open>tasks[id]\<close> and \<open>unwrap\<close>: both panic when there is no such task.\<close>

definition task_at :: "Scheduler \<Rightarrow> TaskId \<Rightarrow> Tcb panics" where
  "task_at s i = (if i < length (sch_tasks s) then sch_tasks s ! i else Panic)"

definition set_task :: "Scheduler \<Rightarrow> TaskId \<Rightarrow> Tcb \<Rightarrow> Scheduler" where
  "set_task s i t = s\<lparr>sch_tasks := (sch_tasks s)[i := Some t]\<rparr>"

definition make_switch :: "Scheduler \<Rightarrow> TaskId \<Rightarrow> TaskId \<Rightarrow> Switch panics" where
  "make_switch s current_id next_id =
     (if current_id = next_id then Panic
      else do {
        current \<leftarrow> task_at s current_id;
        next \<leftarrow> task_at s next_id;
        Ret \<lparr>sw_previous = Some current_id, sw_next = next_id, sw_next_as_id = tcb_as_id next,
             sw_next_kernel_stack = sm_top (tcb_kernel_stack next),
             sw_activate_address_space = (tcb_as_id next \<noteq> tcb_as_id current)\<rparr> })"

definition push_ready :: "Scheduler \<Rightarrow> TaskId \<Rightarrow> Scheduler panics" where
  "push_ready s i = do {
     (ok, q) \<leftarrow> push_back (sch_ready s) i;
     if ok then Ret (s\<lparr>sch_ready := q\<rparr>) else Panic }"

definition set_state :: "Scheduler \<Rightarrow> TaskId \<Rightarrow> ThreadState \<Rightarrow> Scheduler panics" where
  "set_state s i st = do { t \<leftarrow> task_at s i; Ret (set_task s i (t\<lparr>tcb_state := st\<rparr>)) }"

definition add_task :: "Tcb \<Rightarrow> Scheduler \<Rightarrow> ((Tcb + TaskId) \<times> Scheduler) panics" where
  "add_task task s =
     (case position_none (sch_tasks s) of
        Some i \<Rightarrow>
          (case handle_push (tcb_handles task) \<lparr>h_object = ObjThread i, h_rights = READ OR WRITE OR EXECUTE\<rparr> of
             (Inl _, _) \<Rightarrow> Panic
           | (Inr _, handles) \<Rightarrow> do {
               let task = task\<lparr>tcb_id := i, tcb_handles := handles, tcb_state := Ready\<rparr>;
               s \<leftarrow> push_ready (set_task s i task) i;
               Ret (Inr i, s) })
      | None \<Rightarrow> Ret (Inl task, s))"

text \<open>\<open>start\<close>: the first switch leaves the bootstrap context, which no task owns.\<close>

definition scheduler_start :: "Scheduler \<Rightarrow> (Switch \<times> Scheduler) panics" where
  "scheduler_start s = do {
     (r, q) \<leftarrow> pop_front (sch_ready s);
     next_id \<leftarrow> r;
     let s = s\<lparr>sch_ready := q\<rparr>;
     next \<leftarrow> task_at s next_id;
     s \<leftarrow> set_state s next_id Running;
     Ret (\<lparr>sw_previous = None, sw_next = next_id, sw_next_as_id = tcb_as_id next,
           sw_next_kernel_stack = sm_top (tcb_kernel_stack next), sw_activate_address_space = True\<rparr>,
          s\<lparr>sch_current := Some next_id\<rparr>) }"

definition allocate_kernel_stack ::
  "AddressSpace \<Rightarrow> Scheduler \<Rightarrow> alloc_mem \<Rightarrow> ((StackCreateError + StackMapping) \<times> Scheduler \<times> alloc_mem) panics" where
  "allocate_kernel_stack kernel_as s am = do {
     (r, pool, am) \<leftarrow> kernel_stack_pool_allocate (sch_stacks s) kernel_as am;
     Ret (r, s\<lparr>sch_stacks := pool\<rparr>, am) }"

definition remove_task :: "AddressSpace \<Rightarrow> TaskId \<Rightarrow> Scheduler \<Rightarrow> alloc_mem \<Rightarrow> (bool \<times> Scheduler \<times> alloc_mem) panics" where
  "remove_task kernel_as i s am =
     (if sch_current s = Some i then Ret (False, s, am)
      else (case slot_get (sch_tasks s) i of
              None \<Rightarrow> Ret (False, s, am)
            | Some task \<Rightarrow> do {
                let s = s\<lparr>sch_tasks := (sch_tasks s)[i := None], sch_ready := snd (queue_remove (sch_ready s) i)\<rparr>;
                (pool, am) \<leftarrow> kernel_stack_pool_free (sch_stacks s) (tcb_kernel_stack task) kernel_as am;
                Ret (True, s\<lparr>sch_stacks := pool\<rparr>, am) }))"

text \<open>\<open>with_task\<close> and \<open>with_task_mut\<close> look the task up; the callers say what they do with it.\<close>

definition with_task :: "Scheduler \<Rightarrow> TaskId \<Rightarrow> Tcb option" where
  "with_task s i = slot_get (sch_tasks s) i"

definition current :: "Scheduler \<Rightarrow> TaskId panics" where
  "current s = sch_current s"

text \<open>The common end of the three operations that give up the processor.\<close>

definition enter_task :: "Scheduler \<Rightarrow> TaskId \<Rightarrow> TaskId \<Rightarrow> (Transfer \<times> Scheduler) panics" where
  "enter_task s current_id next_id = do {
     s \<leftarrow> set_state s next_id Running;
     let s = s\<lparr>sch_current := Some next_id\<rparr>;
     sw \<leftarrow> make_switch s current_id next_id;
     Ret (SwitchTo sw, s) }"

definition block_current :: "BlockReason \<Rightarrow> Scheduler \<Rightarrow> (Transfer \<times> Scheduler) panics" where
  "block_current reason s = do {
     (r, q) \<leftarrow> pop_front (sch_ready s);
     (case r of
        None \<Rightarrow> Ret (Halt, s)
      | Some next_id \<Rightarrow> do {
          let s = s\<lparr>sch_ready := q\<rparr>;
          current_id \<leftarrow> sch_current s;
          s \<leftarrow> set_state s current_id (Blocked reason);
          enter_task s current_id next_id }) }"

definition unblock :: "TaskId \<Rightarrow> Scheduler \<Rightarrow> Scheduler panics" where
  "unblock i s =
     (if \<not> i < length (sch_tasks s) then Panic
      else (case sch_tasks s ! i of
              None \<Rightarrow> Ret s
            | Some task \<Rightarrow>
                (case tcb_state task of
                   Blocked _ \<Rightarrow> push_ready (set_task s i (task\<lparr>tcb_state := Ready\<rparr>)) i
                 | _ \<Rightarrow> Ret s)))"

definition yield_current :: "Scheduler \<Rightarrow> (Transfer \<times> Scheduler) panics" where
  "yield_current s = do {
     (r, q) \<leftarrow> pop_front (sch_ready s);
     (case r of
        None \<Rightarrow> Ret (Continue, s)
      | Some next_id \<Rightarrow> do {
          let s = s\<lparr>sch_ready := q\<rparr>;
          current_id \<leftarrow> sch_current s;
          s \<leftarrow> set_state s current_id Ready;
          s \<leftarrow> push_ready s current_id;
          enter_task s current_id next_id }) }"

definition exit_current :: "ExitReason \<Rightarrow> Scheduler \<Rightarrow> (Transfer \<times> Scheduler) panics" where
  "exit_current reason s = do {
     current_id \<leftarrow> sch_current s;
     (r, q) \<leftarrow> pop_front (sch_ready s);
     (case r of
        None \<Rightarrow> Ret (Halt, s)
      | Some next_id \<Rightarrow> do {
          let s = s\<lparr>sch_ready := q\<rparr>;
          s \<leftarrow> set_state s current_id (Dead reason);
          enter_task s current_id next_id }) }"

end
