(* ===== verification/Kernel.thy ===== *)
theory Kernel
  imports Scheduler
begin

section \<open>The state of the kernel\<close>

text \<open>
  The global variables of the kernel and the processor state the system calls depend on: the
  frame allocator and the kernel's address space (set once, at the end of \<open>kernel_main\<close>), the
  table of address spaces, the scheduler, memory, the page table the processor runs on, the
  stack it enters the kernel with, and the bytes sent to the serial port.

  A system call that gives up the processor does not return to its caller at once: its rest
  runs when the task is selected again. \<open>k_pending\<close> holds, for every task that is suspended
  inside the kernel, the rest of its system call; the code keeps it on the task's kernel stack.
\<close>

datatype Pending = PendingYield | PendingRecv usize usize usize usize

record Kernel =
  k_allocator :: "FrameAllocator option"
  k_mem :: mem
  k_spaces :: AddressSpaceTable
  k_kernel_space :: "AddressSpace option"
  k_sched :: Scheduler
  k_active :: PageTable
  k_stack_top :: VirtualAddr
  k_serial :: "u8 list"
  k_pending :: "TaskId \<rightharpoonup> Pending"
  k_user_thread_entry :: usize

text \<open>The wrappers of \<open>frame.rs\<close> around the global allocator.\<close>

definition init_global :: "FrameAllocator \<Rightarrow> Kernel \<Rightarrow> Kernel" where
  "init_global fa k = k\<lparr>k_allocator := Some fa\<rparr>"

definition alloc_frame :: "Kernel \<Rightarrow> (FrameAddr option \<times> Kernel) panics" where
  "alloc_frame k =
     (case k_allocator k of
        None \<Rightarrow> Ret (None, k)
      | Some fa \<Rightarrow> do {
          (r, fa, m) \<leftarrow> alloc fa (k_mem k);
          Ret (r, k\<lparr>k_allocator := Some fa, k_mem := m\<rparr>) })"

definition dealloc_frame :: "FrameAddr \<Rightarrow> Kernel \<Rightarrow> Kernel panics" where
  "dealloc_frame frame k =
     (case k_allocator k of
        None \<Rightarrow> Ret k
      | Some fa \<Rightarrow> do { fa \<leftarrow> dealloc fa frame; Ret (k\<lparr>k_allocator := Some fa\<rparr>) })"

definition with_allocator :: "(alloc_mem \<Rightarrow> ('a \<times> alloc_mem) panics) \<Rightarrow> Kernel \<Rightarrow> ('a \<times> Kernel) panics" where
  "with_allocator f k = do {
     fa \<leftarrow> k_allocator k;
     (r, fa, m) \<leftarrow> f (fa, k_mem k);
     Ret (r, k\<lparr>k_allocator := Some fa, k_mem := m\<rparr>) }"

text \<open>The wrappers of \<open>address_space.rs\<close> around the table of address spaces and the kernel's space.\<close>

definition insert_address_space :: "AddressSpace \<Rightarrow> Kernel \<Rightarrow> (AddressSpace + AddressSpaceId) \<times> Kernel" where
  "insert_address_space space k =
     (let (r, t) = address_space_insert (k_spaces k) space in (r, k\<lparr>k_spaces := t\<rparr>))"

definition remove_address_space :: "AddressSpaceId \<Rightarrow> Kernel \<Rightarrow> AddressSpace option \<times> Kernel" where
  "remove_address_space i k = (let (r, t) = address_space_remove (k_spaces k) i in (r, k\<lparr>k_spaces := t\<rparr>))"

definition with_address_space :: "AddressSpaceId \<Rightarrow> (AddressSpace \<Rightarrow> 'a) \<Rightarrow> Kernel \<Rightarrow> 'a option" where
  "with_address_space i f k = map_option f (address_space_get (k_spaces k) i)"

definition init_kernel_address_space :: "AddressSpace \<Rightarrow> Kernel \<Rightarrow> Kernel" where
  "init_kernel_address_space space k = k\<lparr>k_kernel_space := Some space\<rparr>"

text \<open>The current task, and updating a task; \<open>with_task\<close> on the current task panics when it is missing.\<close>

definition current_task :: "Kernel \<Rightarrow> (TaskId \<times> Tcb) panics" where
  "current_task k = do {
     c \<leftarrow> current (k_sched k);
     t \<leftarrow> with_task (k_sched k) c;
     Ret (c, t) }"

definition update_task :: "TaskId \<Rightarrow> Tcb \<Rightarrow> Kernel \<Rightarrow> Kernel" where
  "update_task i t k = k\<lparr>k_sched := set_task (k_sched k) i t\<rparr>"

definition update_handles :: "TaskId \<Rightarrow> Tcb \<Rightarrow> HandleTable \<Rightarrow> Kernel \<Rightarrow> Kernel" where
  "update_handles i t ht k = update_task i (t\<lparr>tcb_handles := ht\<rparr>) k"

text \<open>\<open>Switch::perform\<close> and \<open>set_kernel_stack\<close>.\<close>

definition set_kernel_stack :: "VirtualAddr \<Rightarrow> Kernel \<Rightarrow> Kernel" where
  "set_kernel_stack stack_top k = k\<lparr>k_stack_top := stack_top\<rparr>"

definition perform :: "Switch \<Rightarrow> Kernel \<Rightarrow> Kernel" where
  "perform sw k =
     (let k = (if sw_activate_address_space sw
               then (case address_space_get (k_spaces k) (sw_next_as_id sw) of
                       None \<Rightarrow> k
                     | Some space \<Rightarrow> k\<lparr>k_active := as_root space\<rparr>)
               else k)
      in set_kernel_stack (sw_next_kernel_stack sw) k)"

text \<open>
  How a system call ends for the task that made it: with a status, suspended (another task
  runs now), or with the machine halted.
\<close>

datatype Outcome = Done "Status + unit" | Suspended | Halted

definition transfer :: "Pending option \<Rightarrow> Transfer \<Rightarrow> Kernel \<Rightarrow> Outcome \<times> Kernel" where
  "transfer rest tr k =
     (case tr of
        Continue \<Rightarrow> (Done (Inr ()), k)
      | Halt \<Rightarrow> (Halted, k)
      | SwitchTo sw \<Rightarrow>
          (Suspended,
           perform sw (case sw_previous sw of None \<Rightarrow> k | Some c \<Rightarrow> k\<lparr>k_pending := (k_pending k)(c := rest)\<rparr>)))"

text \<open>\<open>write_bytes\<close> of \<open>serial.rs\<close>: a newline is sent as carriage return and newline.\<close>

definition serial_bytes :: "u8 list \<Rightarrow> u8 list" where
  "serial_bytes bytes = concat (map (\<lambda>b. if b = 10 then [13, 10] else [b]) bytes)"

definition serial_write :: "u8 list \<Rightarrow> Kernel \<Rightarrow> Kernel" where
  "serial_write bytes k = k\<lparr>k_serial := k_serial k @ serial_bytes bytes\<rparr>"

text \<open>Validation and copies of the current kernel state.\<close>

definition validate :: "Kernel \<Rightarrow> AddressSpaceId \<Rightarrow> usize \<Rightarrow> usize \<Rightarrow> bool \<Rightarrow> Status + unit" where
  "validate k as_id start len wr = validate_user_range (k_spaces k) (k_mem k) as_id start len wr"

definition k_copy_val :: "usize \<Rightarrow> usize \<Rightarrow> Kernel \<Rightarrow> ((Status + unit) \<times> Kernel) panics" where
  "k_copy_val dst val k = do {
     (r, m) \<leftarrow> copy_val_to_user (k_active k) dst val (k_mem k);
     Ret (r, k\<lparr>k_mem := m\<rparr>) }"

definition k_copy_out :: "usize \<Rightarrow> u8 list \<Rightarrow> Kernel \<Rightarrow> ((Status + unit) \<times> Kernel) panics" where
  "k_copy_out dst bytes k = do {
     (r, m) \<leftarrow> copy_to_user (k_active k) dst bytes (k_mem k);
     Ret (r, k\<lparr>k_mem := m\<rparr>) }"

text \<open>An optional output argument: zero means absent, otherwise it must be aligned and writable.\<close>

definition check_out_ptr :: "Kernel \<Rightarrow> AddressSpaceId \<Rightarrow> usize \<Rightarrow> Status + unit" where
  "check_out_ptr k as_id p =
     (if p = 0 then Inr ()
      else if p mod 8 \<noteq> 0 then Inl InvalidArgument
      else validate k as_id p 8 True)"

end
