(* ===== verification/Syscalls.thy ===== *)
theory Syscalls
  imports Kernel
begin

section \<open>System calls\<close>

text \<open>
  \<open>src/src/syscall/table.rs\<close> and \<open>src/src/syscall/mod.rs\<close>: one definition per system call, with
  every check and early return in the order of the code, and the dispatcher \<open>handle\<close>. The
  arguments are 64-bit words; \<open>align_of::<usize>()\<close> and \<open>size_of::<usize>()\<close> are 8.
\<close>

subsection \<open>Yield, exit and write\<close>

definition sys_yield :: "Kernel \<Rightarrow> (Outcome \<times> Kernel) panics" where
  "sys_yield k = do {
     (tr, s) \<leftarrow> yield_current (k_sched k);
     Ret (transfer (Some PendingYield) tr (k\<lparr>k_sched := s\<rparr>)) }"

definition sys_exit_with :: "ExitReason \<Rightarrow> Kernel \<Rightarrow> (Outcome \<times> Kernel) panics" where
  "sys_exit_with reason k = do {
     (tr, s) \<leftarrow> exit_current reason (k_sched k);
     Ret (transfer None tr (k\<lparr>k_sched := s\<rparr>)) }"

definition sys_exit :: "usize \<Rightarrow> Kernel \<Rightarrow> (Outcome \<times> Kernel) panics" where
  "sys_exit exit_code k = sys_exit_with (Exited exit_code) k"

text \<open>The copy loop of \<open>sys_write\<close>, in chunks of 128 bytes.\<close>

function write_chunks :: "usize \<Rightarrow> nat \<Rightarrow> nat \<Rightarrow> Kernel \<Rightarrow> ((Status + nat) \<times> Kernel) panics" where
  "write_chunks buf_ptr len written k =
     (if \<not> written < len then Ret (Inr written, k)
      else do {
        let n = min (len - written) 128;
        src \<leftarrow> checked_add buf_ptr (of_nat written);
        r \<leftarrow> copy_from_user (k_active k) (k_mem k) src n;
        (case r of
           Inl e \<Rightarrow> Ret (Inl e, k)
         | Inr chunk \<Rightarrow> write_chunks buf_ptr len (written + n) (serial_write chunk k)) })"
  by auto
termination
  by (relation "measure (\<lambda>(_, len, written, _). len - written)") auto

declare write_chunks.simps [simp del]

definition sys_write :: "usize \<Rightarrow> usize \<Rightarrow> usize \<Rightarrow> usize \<Rightarrow> Kernel \<Rightarrow> ((Status + unit) \<times> Kernel) panics" where
  "sys_write fd buf_ptr len out_ptr k =
     (if fd \<noteq> 1 \<and> fd \<noteq> 2 then Ret (Inl BadFileDescriptor, k)
      else do {
        (_, task) \<leftarrow> current_task k;
        (case validate k (tcb_as_id task) buf_ptr len False of
           Inl e \<Rightarrow> Ret (Inl e, k)
         | Inr _ \<Rightarrow>
             (case check_out_ptr k (tcb_as_id task) out_ptr of
                Inl e \<Rightarrow> Ret (Inl e, k)
              | Inr _ \<Rightarrow> do {
                  (r, k) \<leftarrow> write_chunks buf_ptr (unat len) 0 k;
                  (case r of
                     Inl e \<Rightarrow> Ret (Inl e, k)
                   | Inr written \<Rightarrow>
                       if out_ptr \<noteq> 0 then k_copy_val out_ptr (of_nat written) k else Ret (Inr (), k)) })) })"

subsection \<open>Messages\<close>

definition sys_send :: "usize \<Rightarrow> usize \<Rightarrow> usize \<Rightarrow> Kernel \<Rightarrow> ((Status + unit) \<times> Kernel) panics" where
  "sys_send dest_task_id msg_ptr len k =
     (if MAX_MSG_SIZE < unat len then Ret (Inl InvalidArgument, k)
      else do {
        (sender, task) \<leftarrow> current_task k;
        (case validate k (tcb_as_id task) msg_ptr len False of
           Inl e \<Rightarrow> Ret (Inl e, k)
         | Inr _ \<Rightarrow> do {
             r \<leftarrow> copy_from_user (k_active k) (k_mem k) msg_ptr (unat len);
             (case r of
                Inl e \<Rightarrow> Ret (Inl e, k)
              | Inr bytes \<Rightarrow>
                  let msg = \<lparr>msg_sender = sender, msg_length = unat len,
                             msg_data = bytes @ replicate (MAX_MSG_SIZE - unat len) 0\<rparr>;
                      dest = unat dest_task_id
                  in (case with_task (k_sched k) dest of
                        None \<Rightarrow> Ret (Inl NoSuchTask, k)
                      | Some dest_task \<Rightarrow> do {
                          (ok, mb) \<leftarrow> mailbox_push (tcb_mailbox dest_task) msg;
                          if \<not> ok then Ret (Inl OutOfMemory, k)
                          else do {
                            let k = update_task dest (dest_task\<lparr>tcb_mailbox := mb\<rparr>) k;
                            if tcb_state dest_task = Blocked RecvBlock
                            then do { s \<leftarrow> unblock dest (k_sched k); Ret (Inr (), k\<lparr>k_sched := s\<rparr>) }
                            else Ret (Inr (), k) } })) }) })"

text \<open>
  \<open>sys_recv\<close> after the point where the task may have been suspended: it also runs at once when
  a message is waiting.
\<close>

definition recv_finish :: "usize \<Rightarrow> usize \<Rightarrow> usize \<Rightarrow> usize \<Rightarrow> Kernel \<Rightarrow> ((Status + unit) \<times> Kernel) panics" where
  "recv_finish out_ptr max_len out_actual_len out_sender k = do {
     (c, task) \<leftarrow> current_task k;
     (case validate k (tcb_as_id task) out_ptr max_len True of
        Inl e \<Rightarrow> Ret (Inl e, k)
      | Inr _ \<Rightarrow>
          (case check_out_ptr k (tcb_as_id task) out_actual_len of
             Inl e \<Rightarrow> Ret (Inl e, k)
           | Inr _ \<Rightarrow>
               (case check_out_ptr k (tcb_as_id task) out_sender of
                  Inl e \<Rightarrow> Ret (Inl e, k)
                | Inr _ \<Rightarrow> do {
                    (r, mb) \<leftarrow> mailbox_pop (tcb_mailbox task);
                    let k = update_task c (task\<lparr>tcb_mailbox := mb\<rparr>) k;
                    (case r of
                       None \<Rightarrow> Ret (Inl NoSuchTask, k)
                     | Some msg \<Rightarrow>
                         if length (msg_data msg) < min (msg_length msg) (unat max_len) then Panic
                         else do {
                           (r, k) \<leftarrow> k_copy_out out_ptr (take (min (msg_length msg) (unat max_len)) (msg_data msg)) k;
                           (case r of
                              Inl e \<Rightarrow> Ret (Inl e, k)
                            | Inr _ \<Rightarrow> do {
                                (r, k) \<leftarrow> (if out_actual_len \<noteq> 0 then k_copy_val out_actual_len (of_nat (msg_length msg)) k
                                          else Ret (Inr (), k));
                                (case r of
                                   Inl e \<Rightarrow> Ret (Inl e, k)
                                 | Inr _ \<Rightarrow>
                                     if out_sender \<noteq> 0 then k_copy_val out_sender (of_nat (msg_sender msg)) k
                                     else Ret (Inr (), k)) }) }) }))) }"

definition sys_recv :: "usize \<Rightarrow> usize \<Rightarrow> usize \<Rightarrow> usize \<Rightarrow> Kernel \<Rightarrow> (Outcome \<times> Kernel) panics" where
  "sys_recv out_ptr max_len out_actual_len out_sender k =
     (if out_ptr = 0 then Ret (Done (Inl InvalidArgument), k)
      else do {
        (_, task) \<leftarrow> current_task k;
        if mb_len (tcb_mailbox task) = 0
        then do {
          (tr, s) \<leftarrow> block_current RecvBlock (k_sched k);
          Ret (transfer (Some (PendingRecv out_ptr max_len out_actual_len out_sender)) tr (k\<lparr>k_sched := s\<rparr>)) }
        else do {
          (r, k) \<leftarrow> recv_finish out_ptr max_len out_actual_len out_sender k;
          Ret (Done r, k) } })"

subsection \<open>Frames\<close>

definition ALL_RIGHTS :: Rights where "ALL_RIGHTS = READ OR WRITE OR EXECUTE"

text \<open>Pushing a handle into the current task's table.\<close>

definition push_handle :: "Handle \<Rightarrow> Kernel \<Rightarrow> ((Handle + nat) \<times> Kernel) panics" where
  "push_handle handle k = do {
     (c, task) \<leftarrow> current_task k;
     let (r, ht) = handle_push (tcb_handles task) handle;
     Ret (r, update_handles c task ht k) }"

text \<open>The checks every call with a mandatory output argument starts with.\<close>

definition check_out_arg :: "usize \<Rightarrow> bool" where
  "check_out_arg p \<longleftrightarrow> p \<noteq> 0 \<and> p mod 8 = 0"

definition sys_frame_alloc :: "usize \<Rightarrow> Kernel \<Rightarrow> ((Status + unit) \<times> Kernel) panics" where
  "sys_frame_alloc out_handle k =
     (if \<not> check_out_arg out_handle then Ret (Inl InvalidArgument, k)
      else do {
        (_, task) \<leftarrow> current_task k;
        (case validate k (tcb_as_id task) out_handle 8 True of
           Inl e \<Rightarrow> Ret (Inl e, k)
         | Inr _ \<Rightarrow> do {
             (r, k) \<leftarrow> alloc_frame k;
             (case r of
                None \<Rightarrow> Ret (Inl OutOfMemory, k)
              | Some frame \<Rightarrow> do {
                  (r, k) \<leftarrow> push_handle \<lparr>h_object = ObjFrame frame, h_rights = ALL_RIGHTS OR MAP\<rparr> k;
                  (case r of
                     Inl handle \<Rightarrow>
                       (case h_object handle of
                          ObjFrame frame \<Rightarrow> do { k \<leftarrow> dealloc_frame frame k; Ret (Inl OutOfMemory, k) }
                        | _ \<Rightarrow> Panic)
                   | Inr handle_id \<Rightarrow> k_copy_val out_handle (of_nat handle_id) k) }) }) })"

text \<open>Taking a handle out of the current task's table, and putting it back.\<close>

definition take_handle :: "nat \<Rightarrow> Kernel \<Rightarrow> (Handle option \<times> Kernel) panics" where
  "take_handle i k = do {
     (c, task) \<leftarrow> current_task k;
     let (r, ht) = handle_take (tcb_handles task) i;
     Ret (r, update_handles c task ht k) }"

definition put_handle :: "nat \<Rightarrow> Handle \<Rightarrow> Kernel \<Rightarrow> Kernel panics" where
  "put_handle i handle k = do {
     (c, task) \<leftarrow> current_task k;
     (case handle_put (tcb_handles task) i handle of
        (Inl _, _) \<Rightarrow> Panic
      | (Inr _, ht) \<Rightarrow> Ret (update_handles c task ht k)) }"

definition sys_frame_dealloc :: "usize \<Rightarrow> Kernel \<Rightarrow> ((Status + unit) \<times> Kernel) panics" where
  "sys_frame_dealloc frame_handle_id k = do {
     (r, k) \<leftarrow> take_handle (unat frame_handle_id) k;
     (case r of
        None \<Rightarrow> Ret (Inl BadHandle, k)
      | Some handle \<Rightarrow>
          (case h_object handle of
             ObjFrame frame \<Rightarrow> do { k \<leftarrow> dealloc_frame frame k; Ret (Inr (), k) }
           | _ \<Rightarrow> do { k \<leftarrow> put_handle (unat frame_handle_id) handle k; Ret (Inl InvalidArgument, k) })) }"

subsection \<open>Address spaces\<close>

definition destroy_space :: "AddressSpace \<Rightarrow> Kernel \<Rightarrow> Kernel panics" where
  "destroy_space space k = do {
     (_, k) \<leftarrow> with_allocator (\<lambda>s. map_option (Pair ()) (address_space_destroy space (pt_frame (k_active k)) s)) k;
     Ret k }"

definition sys_as_create :: "usize \<Rightarrow> Kernel \<Rightarrow> ((Status + unit) \<times> Kernel) panics" where
  "sys_as_create out_handle k =
     (if \<not> check_out_arg out_handle then Ret (Inl InvalidArgument, k)
      else do {
        (_, task) \<leftarrow> current_task k;
        (case validate k (tcb_as_id task) out_handle 8 True of
           Inl e \<Rightarrow> Ret (Inl e, k)
         | Inr _ \<Rightarrow>
             (case address_space_get (k_spaces k) (tcb_as_id task) of
                None \<Rightarrow> Ret (Inl OutOfMemory, k)
              | Some caller_as \<Rightarrow> do {
                  (r, k) \<leftarrow> with_allocator (address_space_new_user caller_as) k;
                  (case r of
                     Inl _ \<Rightarrow> Ret (Inl OutOfMemory, k)
                   | Inr new_as \<Rightarrow>
                       (case insert_address_space new_as k of
                          (Inl space, k) \<Rightarrow> do { k \<leftarrow> destroy_space space k; Ret (Inl OutOfMemory, k) }
                        | (Inr as_id, k) \<Rightarrow> do {
                            (r, k) \<leftarrow> push_handle \<lparr>h_object = ObjAddressSpace as_id, h_rights = ALL_RIGHTS\<rparr> k;
                            (case r of
                               Inl handle \<Rightarrow>
                                 (case h_object handle of
                                    ObjAddressSpace as_id \<Rightarrow>
                                      (case remove_address_space as_id k of
                                         (None, _) \<Rightarrow> Panic
                                       | (Some space, k) \<Rightarrow> do { k \<leftarrow> destroy_space space k; Ret (Inl OutOfMemory, k) })
                                  | _ \<Rightarrow> Panic)
                             | Inr handle_id \<Rightarrow> k_copy_val out_handle (of_nat handle_id) k) })) })) })"

subsection \<open>Mapping and unmapping\<close>

definition required_rights :: "bool \<Rightarrow> bool \<Rightarrow> Rights" where
  "required_rights wr ex =
     (let r = READ OR MAP; r = (if wr then r OR WRITE else r) in if ex then r OR EXECUTE else r)"

text \<open>The checks of \<open>sys_map\<close> on the two handles; the result is the address space to map into.\<close>

definition map_check_handles :: "Tcb \<Rightarrow> nat \<Rightarrow> nat \<Rightarrow> bool \<Rightarrow> bool \<Rightarrow> Status + AddressSpaceId" where
  "map_check_handles task as_handle frame_handle wr ex =
     (case handle_get (tcb_handles task) as_handle of
        None \<Rightarrow> Inl BadHandle
      | Some ah \<Rightarrow>
          (case h_object ah of
             ObjAddressSpace as_id \<Rightarrow>
               if h_rights ah AND WRITE = 0 then Inl InvalidArgument
               else (case handle_get (tcb_handles task) frame_handle of
                       None \<Rightarrow> Inl BadHandle
                     | Some fh \<Rightarrow>
                         if \<not> (case h_object fh of ObjFrame _ \<Rightarrow> True | _ \<Rightarrow> False) then Inl InvalidArgument
                         else if h_rights fh AND required_rights wr ex \<noteq> required_rights wr ex then Inl InvalidArgument
                         else Inr as_id)
           | _ \<Rightarrow> Inl InvalidArgument))"

primrec map_error_status :: "MapError \<Rightarrow> Status panics" where
  "map_error_status MapAlreadyMapped = Ret InvalidArgument"
| "map_error_status MapUnsupportedPermissions = Ret InvalidArgument"
| "map_error_status MapOutOfMemory = Ret OutOfMemory"
| "map_error_status MapInvalidVirtualAddress = Panic"
| "map_error_status MapVirtualAddressUnaligned = Panic"
| "map_error_status MapPhysicalAddressTooLarge = Panic"
| "map_error_status MapPhysicalAddressUnaligned = Panic"
| "map_error_status MapRangeLengthUnaligned = Panic"
| "map_error_status MapAddressOverflow = Panic"
| "map_error_status MapMappingConflict = Panic"
| "map_error_status MapPageTableUnavailable = Panic"
| "map_error_status MapCorruptedPageTable = Panic"
| "map_error_status MapInvalidUserAddress = Panic"
| "map_error_status MapInvalidUserMap = Panic"

text \<open>The part of \<open>sys_map\<close> after the checks: the frame handle becomes a mapping handle, or stays.\<close>

definition map_taken_frame ::
  "AddressSpaceId \<Rightarrow> nat \<Rightarrow> usize \<Rightarrow> PagePermissions \<Rightarrow> usize \<Rightarrow> Kernel \<Rightarrow> ((Status + unit) \<times> Kernel) panics" where
  "map_taken_frame as_id frame_handle virtual_addr permissions out_handle k = do {
     (r, k) \<leftarrow> take_handle frame_handle k;
     (case r of
        None \<Rightarrow> Ret (Inl BadHandle, k)
      | Some handle \<Rightarrow>
          (case h_object handle of
             ObjFrame frame \<Rightarrow> do {
               target_as \<leftarrow> address_space_get (k_spaces k) as_id;
               (r, k) \<leftarrow> with_allocator (address_space_map target_as frame virtual_addr permissions WriteBack) k;
               (case r of
                  Inr _ \<Rightarrow> do {
                    k \<leftarrow> put_handle frame_handle (handle\<lparr>h_object := ObjMapping frame as_id virtual_addr\<rparr>) k;
                    (r, k) \<leftarrow> k_copy_val out_handle (of_nat frame_handle) k;
                    (case r of Inl _ \<Rightarrow> Panic | Inr _ \<Rightarrow> Ret (Inr (), k)) }
                | Inl err \<Rightarrow> do {
                    k \<leftarrow> put_handle frame_handle (handle\<lparr>h_object := ObjFrame frame\<rparr>) k;
                    e \<leftarrow> map_error_status err;
                    Ret (Inl e, k) }) }
           | _ \<Rightarrow> Panic)) }"

definition sys_map :: "usize \<Rightarrow> usize \<Rightarrow> usize \<Rightarrow> usize \<Rightarrow> usize \<Rightarrow> Kernel \<Rightarrow> ((Status + unit) \<times> Kernel) panics" where
  "sys_map as_handle frame_handle virtual_addr permissions out_handle k =
     (if \<not> check_out_arg out_handle then Ret (Inl InvalidArgument, k)
      else if virtual_addr mod FRAME_SIZE \<noteq> 0 \<or> permissions AND NOT 3 \<noteq> 0 then Ret (Inl InvalidArgument, k)
      else let wr = (permissions AND 1 \<noteq> 0); ex = (permissions AND 2 \<noteq> 0)
      in (case checked_add virtual_addr FRAME_SIZE of
            None \<Rightarrow> Ret (Inl InvalidArgument, k)
          | Some stop \<Rightarrow>
              if USER_SPACE_END < stop then Ret (Inl InvalidArgument, k)
              else do {
                (_, task) \<leftarrow> current_task k;
                (case validate k (tcb_as_id task) out_handle 8 True of
                   Inl e \<Rightarrow> Ret (Inl e, k)
                 | Inr _ \<Rightarrow>
                     (case map_check_handles task (unat as_handle) (unat frame_handle) wr ex of
                        Inl e \<Rightarrow> Ret (Inl e, k)
                      | Inr as_id \<Rightarrow>
                          map_taken_frame as_id (unat frame_handle) virtual_addr (page_permissions wr ex True) out_handle k)) }))"

definition sys_unmap :: "usize \<Rightarrow> Kernel \<Rightarrow> ((Status + unit) \<times> Kernel) panics" where
  "sys_unmap mapping_handle k = do {
     (r, k) \<leftarrow> take_handle (unat mapping_handle) k;
     (case r of
        None \<Rightarrow> Ret (Inl BadHandle, k)
      | Some handle \<Rightarrow>
          (case h_object handle of
             ObjMapping frame as_id virtual_addr \<Rightarrow>
               (case address_space_get (k_spaces k) as_id of
                  Some target_as \<Rightarrow> do {
                    (r, k) \<leftarrow> with_allocator (address_space_unmap target_as virtual_addr) k;
                    (case r of
                       Inr unmapped_frame \<Rightarrow>
                         if unmapped_frame = frame
                         then do { k \<leftarrow> put_handle (unat mapping_handle) (handle\<lparr>h_object := ObjFrame frame\<rparr>) k; Ret (Inr (), k) }
                         else Panic
                     | Inl _ \<Rightarrow> Panic) }
                | None \<Rightarrow> do { k \<leftarrow> put_handle (unat mapping_handle) handle k; Ret (Inl BadHandle, k) })
           | _ \<Rightarrow> do { k \<leftarrow> put_handle (unat mapping_handle) handle k; Ret (Inl InvalidArgument, k) })) }"

subsection \<open>Creating tasks\<close>

definition task_check_handle :: "Tcb \<Rightarrow> nat \<Rightarrow> Status + AddressSpaceId" where
  "task_check_handle task as_handle =
     (case handle_get (tcb_handles task) as_handle of
        None \<Rightarrow> Inl BadHandle
      | Some ah \<Rightarrow>
          (case h_object ah of
             ObjAddressSpace as_id \<Rightarrow> if h_rights ah AND EXECUTE = 0 then Inl InvalidArgument else Inr as_id
           | _ \<Rightarrow> Inl InvalidArgument))"

definition entry_allowed :: "PagePermissions option \<Rightarrow> bool" where
  "entry_allowed mapping = (case mapping of None \<Rightarrow> False | Some p \<Rightarrow> user_accessible p \<and> executable p)"

text \<open>The part of \<open>sys_task_create\<close> after the checks.\<close>

definition task_create_finish ::
  "AddressSpaceId \<Rightarrow> usize \<Rightarrow> usize \<Rightarrow> usize \<Rightarrow> Kernel \<Rightarrow> ((Status + unit) \<times> Kernel) panics" where
  "task_create_finish as_id entry user_stack out_task_handle k = do {
     kernel_as \<leftarrow> k_kernel_space k;
     ((r, sched), k) \<leftarrow> with_allocator (\<lambda>s. do {
         (r, sched, s) \<leftarrow> allocate_kernel_stack kernel_as (k_sched k) s;
         Ret ((r, sched), s) }) k;
     let k = k\<lparr>k_sched := sched\<rparr>;
     (case r of
        Inl _ \<Rightarrow> Ret (Inl OutOfMemory, k)
      | Inr kernel_stack \<Rightarrow> do {
          (tcb, m) \<leftarrow> tcb_new_user (k_active k) (k_user_thread_entry k) as_id kernel_stack entry user_stack (k_mem k);
          let k = k\<lparr>k_mem := m\<rparr>;
          (r, sched) \<leftarrow> add_task tcb (k_sched k);
          let k = k\<lparr>k_sched := sched\<rparr>;
          (case r of
             Inl _ \<Rightarrow> Ret (Inl OutOfMemory, k)
           | Inr new_task_id \<Rightarrow> do {
               (r, k) \<leftarrow> push_handle \<lparr>h_object = ObjThread new_task_id, h_rights = ALL_RIGHTS\<rparr> k;
               (case r of
                  Inl _ \<Rightarrow> do {
                    kernel_as \<leftarrow> k_kernel_space k;
                    ((_, sched), k) \<leftarrow> with_allocator (\<lambda>s. do {
                        (ok, sched, s) \<leftarrow> remove_task kernel_as new_task_id (k_sched k) s;
                        Ret ((ok, sched), s) }) k;
                    Ret (Inl OutOfMemory, k\<lparr>k_sched := sched\<rparr>) }
                | Inr handle_id \<Rightarrow> k_copy_val out_task_handle (of_nat handle_id) k) }) }) }"

definition sys_task_create :: "usize \<Rightarrow> usize \<Rightarrow> usize \<Rightarrow> usize \<Rightarrow> Kernel \<Rightarrow> ((Status + unit) \<times> Kernel) panics" where
  "sys_task_create as_handle entry user_stack out_task_handle k =
     (if entry = 0 \<or> user_stack = 0 \<or> out_task_handle = 0 then Ret (Inl InvalidArgument, k)
      else if USER_SPACE_END \<le> entry \<or> USER_SPACE_END < user_stack then Ret (Inl BadAddress, k)
      else if out_task_handle mod 8 \<noteq> 0 then Ret (Inl InvalidArgument, k)
      else do {
        (_, task) \<leftarrow> current_task k;
        (case validate k (tcb_as_id task) out_task_handle 8 True of
           Inl e \<Rightarrow> Ret (Inl e, k)
         | Inr _ \<Rightarrow>
             (case task_check_handle task (unat as_handle) of
                Inl e \<Rightarrow> Ret (Inl e, k)
              | Inr as_id \<Rightarrow>
                  (case address_space_get (k_spaces k) as_id of
                     None \<Rightarrow> Ret (Inl BadHandle, k)
                   | Some space \<Rightarrow>
                       (case checked_sub user_stack 1 of
                          None \<Rightarrow> Ret (Inl BadAddress, k)
                        | Some stack_probe \<Rightarrow>
                            (case validate k as_id stack_probe 1 True of
                               Inl e \<Rightarrow> Ret (Inl e, k)
                             | Inr _ \<Rightarrow>
                                 if \<not> entry_allowed (address_space_mapping space (k_mem k) entry) then Ret (Inl BadAddress, k)
                                 else task_create_finish as_id entry user_stack out_task_handle k))))) })"

subsection \<open>The dispatcher\<close>

datatype SyscallNumber =
  SysYield | SysExit | SysWrite | SysSend | SysRecv | SysFrameAlloc | SysFrameDealloc | SysAsCreate
| SysMap | SysUnmap | SysTaskCreate

definition syscall_number :: "u64 \<Rightarrow> SyscallNumber option" where
  "syscall_number val =
     (if val = 1 then Some SysYield else if val = 2 then Some SysExit else if val = 3 then Some SysWrite
      else if val = 4 then Some SysSend else if val = 5 then Some SysRecv else if val = 6 then Some SysFrameAlloc
      else if val = 7 then Some SysFrameDealloc else if val = 8 then Some SysAsCreate else if val = 9 then Some SysMap
      else if val = 10 then Some SysUnmap else if val = 11 then Some SysTaskCreate else None)"

text \<open>\<open>Status\<close> is \<open>repr(u64)\<close>; success is zero.\<close>

primrec status_code :: "Status \<Rightarrow> u64" where
  "status_code InvalidArgument = 1"
| "status_code BadAddress = 2"
| "status_code BadFileDescriptor = 3"
| "status_code NoSuchTask = 4"
| "status_code OutOfMemory = 5"
| "status_code BadHandle = 6"

definition result_code :: "Status + unit \<Rightarrow> u64" where
  "result_code r = (case r of Inr _ \<Rightarrow> 0 | Inl e \<Rightarrow> status_code e)"

definition finish_call :: "((Status + unit) \<times> Kernel) panics \<Rightarrow> (Outcome \<times> Kernel) panics" where
  "finish_call r = map_option (map_prod Done id) r"

definition handle :: "u64 \<Rightarrow> u64 \<Rightarrow> u64 \<Rightarrow> u64 \<Rightarrow> u64 \<Rightarrow> u64 \<Rightarrow> u64 \<Rightarrow> Kernel \<Rightarrow> (Outcome \<times> Kernel) panics" where
  "handle num arg0 arg1 arg2 arg3 arg4 arg5 k =
     (case syscall_number num of
        None \<Rightarrow> sys_exit_with (FaultExit BadSystemCall) k
      | Some SysYield \<Rightarrow> sys_yield k
      | Some SysExit \<Rightarrow> sys_exit arg0 k
      | Some SysWrite \<Rightarrow> finish_call (sys_write arg0 arg1 arg2 arg3 k)
      | Some SysSend \<Rightarrow> finish_call (sys_send arg0 arg1 arg2 k)
      | Some SysRecv \<Rightarrow> sys_recv arg0 arg1 arg2 arg3 k
      | Some SysFrameAlloc \<Rightarrow> finish_call (sys_frame_alloc arg0 k)
      | Some SysFrameDealloc \<Rightarrow> finish_call (sys_frame_dealloc arg0 k)
      | Some SysAsCreate \<Rightarrow> finish_call (sys_as_create arg0 k)
      | Some SysMap \<Rightarrow> finish_call (sys_map arg0 arg1 arg2 arg3 arg4 k)
      | Some SysUnmap \<Rightarrow> finish_call (sys_unmap arg0 k)
      | Some SysTaskCreate \<Rightarrow> finish_call (sys_task_create arg0 arg1 arg2 arg3 k))"

text \<open>The rest of a suspended call, run when its task is selected again.\<close>

definition resume :: "Kernel \<Rightarrow> (Outcome \<times> Kernel) panics" where
  "resume k = do {
     c \<leftarrow> current (k_sched k);
     let k' = k\<lparr>k_pending := (k_pending k)(c := None)\<rparr>;
     (case k_pending k c of
        None \<Rightarrow> Ret (Done (Inr ()), k)
      | Some PendingYield \<Rightarrow> Ret (Done (Inr ()), k')
      | Some (PendingRecv out_ptr max_len out_actual_len out_sender) \<Rightarrow>
          finish_call (recv_finish out_ptr max_len out_actual_len out_sender k')) }"

subsection \<open>The entry path\<close>

text \<open>\<open>SyscallFrame\<close> and \<open>syscall_dispatch\<close> of \<open>src/src/arch/x86_64/syscall.rs\<close>.\<close>

record SyscallFrame =
  sf_r15 :: u64
  sf_r14 :: u64
  sf_r13 :: u64
  sf_r12 :: u64
  sf_rbp :: u64
  sf_rbx :: u64
  sf_r9 :: u64
  sf_r8 :: u64
  sf_r10 :: u64
  sf_rdx :: u64
  sf_rsi :: u64
  sf_rdi :: u64
  sf_rax :: u64
  sf_user_rip :: u64
  sf_user_rflags :: u64
  sf_user_rsp :: u64

definition syscall_dispatch :: "SyscallFrame \<Rightarrow> Kernel \<Rightarrow> (Outcome \<times> SyscallFrame \<times> Kernel) panics" where
  "syscall_dispatch frame k = do {
     (r, k) \<leftarrow> handle (sf_rax frame) (sf_rdi frame) (sf_rsi frame) (sf_rdx frame) (sf_r10 frame) (sf_r8 frame) (sf_r9 frame) k;
     (case r of
        Done res \<Rightarrow> Ret (r, frame\<lparr>sf_rax := result_code res\<rparr>, k)
      | _ \<Rightarrow> Ret (r, frame, k)) }"

text \<open>
  Exceptions of user code (\<open>exceptions.rs\<close>): the vector decides the fault the task dies of; an
  exception of kernel code halts the machine.
\<close>

definition fault_of_vector :: "u8 \<Rightarrow> Fault" where
  "fault_of_vector vector =
     (if vector = 11 \<or> vector = 12 \<or> vector = 13 \<or> vector = 14 then SegmentationFault
      else if vector = 6 then IllegalInstruction
      else Abort)"

definition handle_exception :: "u64 \<Rightarrow> u64 \<Rightarrow> Kernel \<Rightarrow> (Outcome \<times> Kernel) panics" where
  "handle_exception code_segment vector k =
     (if code_segment AND 3 \<noteq> 3 then Ret (Halted, k)
      else sys_exit_with (FaultExit (fault_of_vector (ucast vector))) k)"

end
