(* ===== verification/Scheduler_Correctness.thy ===== *)
theory Scheduler_Correctness
  imports Scheduler
begin

section \<open>Correctness of the scheduler\<close>

text \<open>
  The abstract scheduler: which task runs, the ready tasks in order, and the state of every
  task. Its operations are one-liners on lists and maps. Each operation of the code refines
  its abstract counterpart: under the invariant it never panics, keeps the invariant, changes
  nothing of a task but its state, and its effect on the abstraction is the abstract operation.
\<close>

record SchedView =
  v_current :: "TaskId option"
  v_ready :: "TaskId list"
  v_states :: "TaskId \<rightharpoonup> ThreadState"

definition sched_view :: "Scheduler \<Rightarrow> SchedView" where
  "sched_view s = \<lparr>v_current = sch_current s, v_ready = ready_contents (sch_ready s),
     v_states = (\<lambda>i. map_option tcb_state (slot_get (sch_tasks s) i))\<rparr>"

definition view_inv :: "SchedView \<Rightarrow> bool" where
  "view_inv a \<longleftrightarrow> dom (v_states a) \<subseteq> {..<MAX_TASKS} \<and> distinct (v_ready a)
     \<and> (\<forall>i. i \<in> set (v_ready a) \<longleftrightarrow> v_states a i = Some Ready)
     \<and> (\<forall>i. v_states a i = Some Running \<longleftrightarrow> v_current a = Some i)"

definition sched_inv :: "Scheduler \<Rightarrow> bool" where
  "sched_inv s \<longleftrightarrow> length (sch_tasks s) = MAX_TASKS \<and> ready_inv (sch_ready s) \<and> view_inv (sched_view s)
     \<and> (\<forall>i t. slot_get (sch_tasks s) i = Some t \<longrightarrow> tcb_id t = i)"

text \<open>The abstract operations. \<open>hand_over\<close> gives the processor to the first ready task.\<close>

definition hand_over :: "ThreadState \<Rightarrow> TaskId list \<Rightarrow> SchedView \<Rightarrow> SchedView" where
  "hand_over st tail a =
     (case (v_current a, v_ready a) of
        (Some c, n # rest) \<Rightarrow> \<lparr>v_current = Some n, v_ready = rest @ tail, v_states = (v_states a)(c \<mapsto> st, n \<mapsto> Running)\<rparr>
      | _ \<Rightarrow> a)"

definition view_yield :: "SchedView \<Rightarrow> SchedView" where
  "view_yield a = hand_over Ready (case v_current a of None \<Rightarrow> [] | Some c \<Rightarrow> [c]) a"

definition view_block :: "BlockReason \<Rightarrow> SchedView \<Rightarrow> SchedView" where
  "view_block reason = hand_over (Blocked reason) []"

definition view_exit :: "ExitReason \<Rightarrow> SchedView \<Rightarrow> SchedView" where
  "view_exit reason = hand_over (Dead reason) []"

definition view_wake :: "TaskId \<Rightarrow> SchedView \<Rightarrow> SchedView" where
  "view_wake i a = a\<lparr>v_ready := v_ready a @ [i], v_states := (v_states a)(i \<mapsto> Ready)\<rparr>"

text \<open>All of a task but its state.\<close>

definition task_frame :: "Scheduler \<Rightarrow> TaskId \<rightharpoonup> Tcb" where
  "task_frame s i = map_option (\<lambda>t. t\<lparr>tcb_state := Ready\<rparr>) (slot_get (sch_tasks s) i)"

subsection \<open>Helper lemmas\<close>

lemma view_simps [simp]:
  "v_current (sched_view s) = sch_current s" "v_ready (sched_view s) = ready_contents (sch_ready s)"
  "v_states (sched_view s) i = map_option tcb_state (slot_get (sch_tasks s) i)"
  by (simp_all add: sched_view_def)

lemma view_eqI:
  "v_current a = v_current b \<Longrightarrow> v_ready a = v_ready b \<Longrightarrow> v_states a = v_states b \<Longrightarrow> a = (b :: SchedView)"
  by simp

lemma task_at_slot: "task_at s i = slot_get (sch_tasks s) i"
  by (simp add: task_at_def slot_get_def)

lemma set_task_simps [simp]:
  "sch_current (set_task s i t) = sch_current s" "sch_ready (set_task s i t) = sch_ready s"
  "sch_stacks (set_task s i t) = sch_stacks s" "length (sch_tasks (set_task s i t)) = length (sch_tasks s)"
  by (simp_all add: set_task_def)

lemma set_task_slot:
  "i < length (sch_tasks s) \<Longrightarrow> slot_get (sch_tasks (set_task s i t)) j = (if j = i then Some t else slot_get (sch_tasks s) j)"
  by (simp add: set_task_def slot_get_update)

lemma slot_get_length: "slot_get xs i = Some t \<Longrightarrow> i < length xs"
  by (auto simp: slot_get_def split: if_splits)

lemma set_state_spec:
  assumes "slot_get (sch_tasks s) i = Some t"
  shows "set_state s i st = Ret (set_task s i (t\<lparr>tcb_state := st\<rparr>))"
    "sched_view (set_task s i (t\<lparr>tcb_state := st\<rparr>)) = (sched_view s)\<lparr>v_states := (v_states (sched_view s))(i \<mapsto> st)\<rparr>"
    "task_frame (set_task s i (t\<lparr>tcb_state := st\<rparr>)) = task_frame s"
  using assms slot_get_length [OF assms]
  by (auto simp: set_state_def task_at_slot set_task_slot sched_view_def task_frame_def fun_eq_iff)

lemma push_ready_spec:
  assumes "ready_inv (sch_ready s)" "length (ready_contents (sch_ready s)) < MAX_TASKS"
  shows "\<exists>q. push_ready s i = Ret (s\<lparr>sch_ready := q\<rparr>) \<and> ready_inv q \<and> ready_contents q = ready_contents (sch_ready s) @ [i]"
  using ready.push_room [OF assms, of i] by (auto simp: push_ready_def)

text \<open>The queue has room for a task that is not in it.\<close>

lemma ready_room:
  assumes "view_inv a" "i \<notin> set (v_ready a)" "i < MAX_TASKS"
  shows "length (v_ready a) < MAX_TASKS"
proof -
  have "set (v_ready a) \<subseteq> {..<MAX_TASKS} - {i}" using assms by (fastforce simp: view_inv_def)
  then have "card (set (v_ready a)) \<le> card ({..<MAX_TASKS} - {i})" by (intro card_mono) auto
  then show ?thesis using assms(1,3) by (simp add: view_inv_def distinct_card)
qed

lemma enter_task_spec:
  assumes "slot_get (sch_tasks s) c = Some tc" "slot_get (sch_tasks s) n = Some tn" "c \<noteq> n"
  shows "\<exists>s'. enter_task s c n = Ret (SwitchTo \<lparr>sw_previous = Some c, sw_next = n, sw_next_as_id = tcb_as_id tn,
             sw_next_kernel_stack = sm_top (tcb_kernel_stack tn), sw_activate_address_space = (tcb_as_id tn \<noteq> tcb_as_id tc)\<rparr>, s')
    \<and> sched_view s' = (sched_view s)\<lparr>v_current := Some n, v_states := (v_states (sched_view s))(n \<mapsto> Running)\<rparr>
    \<and> task_frame s' = task_frame s \<and> sch_ready s' = sch_ready s \<and> length (sch_tasks s') = length (sch_tasks s)
    \<and> sch_stacks s' = sch_stacks s"
proof -
  let ?s = "(set_task s n (tn\<lparr>tcb_state := Running\<rparr>))\<lparr>sch_current := Some n\<rparr>"
  note st = set_state_spec [OF assms(2), of Running]
  have "slot_get (sch_tasks ?s) c = Some tc" "slot_get (sch_tasks ?s) n = Some (tn\<lparr>tcb_state := Running\<rparr>)"
    using assms slot_get_length [OF assms(2)] by (simp_all add: set_task_slot)
  then have "make_switch ?s c n = Ret \<lparr>sw_previous = Some c, sw_next = n, sw_next_as_id = tcb_as_id tn,
       sw_next_kernel_stack = sm_top (tcb_kernel_stack tn), sw_activate_address_space = (tcb_as_id tn \<noteq> tcb_as_id tc)\<rparr>"
    using assms(3) by (simp add: make_switch_def task_at_slot)
  moreover have "sched_view ?s = (sched_view s)\<lparr>v_current := Some n, v_states := (v_states (sched_view s))(n \<mapsto> Running)\<rparr>"
    using st(2) by (simp add: sched_view_def)
  moreover have "task_frame ?s = task_frame s" using st(3) by (simp add: task_frame_def fun_eq_iff)
  ultimately show ?thesis using st(1) by (intro exI [of _ ?s]) (simp add: enter_task_def)
qed

lemma task_frame_ids:
  assumes "task_frame s' = task_frame s" "\<forall>i t. slot_get (sch_tasks s) i = Some t \<longrightarrow> tcb_id t = i"
  shows "\<forall>i t. slot_get (sch_tasks s') i = Some t \<longrightarrow> tcb_id t = i"
proof (intro allI impI)
  fix i t assume t: "slot_get (sch_tasks s') i = Some t"
  then have "task_frame s i = Some (t\<lparr>tcb_state := Ready\<rparr>)" using fun_cong [OF assms(1), of i] by (simp add: task_frame_def)
  then obtain t0 where "slot_get (sch_tasks s) i = Some t0" "t0\<lparr>tcb_state := Ready\<rparr> = t\<lparr>tcb_state := Ready\<rparr>"
    by (auto simp: task_frame_def)
  then show "tcb_id t = i" using assms(2) by (metis Tcb.select_convs(1) Tcb.surjective Tcb.update_convs(3))
qed

subsection \<open>Giving up the processor\<close>

lemma view_inv_hand_over:
  assumes inv: "view_inv a" and c: "v_current a = Some c" and st: "st \<noteq> Running"
  shows "view_inv (hand_over st (if st = Ready then [c] else []) a)"
proof (cases "v_ready a")
  case Nil
  then show ?thesis using inv c by (simp add: hand_over_def)
next
  case (Cons n rest)
  have sc: "v_states a c = Some Running" using inv c by (simp add: view_inv_def)
  have sn: "v_states a n = Some Ready" "n \<notin> set rest" "distinct rest" using inv Cons by (auto simp: view_inv_def)
  have "c \<in> set (v_ready a) \<longleftrightarrow> v_states a c = Some Ready" using inv unfolding view_inv_def by blast
  then have cn: "c \<noteq> n" "c \<notin> set rest" using sc Cons by auto
  let ?b = "hand_over st (if st = Ready then [c] else []) a"
  have b: "v_current ?b = Some n" "v_ready ?b = rest @ (if st = Ready then [c] else [])" "v_states ?b = (v_states a)(c \<mapsto> st, n \<mapsto> Running)"
    using c Cons by (simp_all add: hand_over_def)
  have "dom (v_states ?b) \<subseteq> {..<MAX_TASKS}" using inv sc sn(1) unfolding b by (auto simp: view_inv_def)
  moreover have "distinct (v_ready ?b)" using sn cn unfolding b by simp
  moreover have "i \<in> set (v_ready ?b) \<longleftrightarrow> v_states ?b i = Some Ready" for i
    using inv Cons sn cn unfolding b view_inv_def by auto
  moreover have "v_states ?b i = Some Running \<longleftrightarrow> v_current ?b = Some i" for i
    using inv c st unfolding b view_inv_def by auto
  ultimately show ?thesis by (simp add: view_inv_def)
qed

lemma current_task:
  assumes "sched_inv s" "sch_current s = Some c"
  obtains tc where "slot_get (sch_tasks s) c = Some tc" "tcb_state tc = Running" "c < MAX_TASKS" "c \<notin> set (ready_contents (sch_ready s))"
proof -
  have "v_states (sched_view s) c = Some Running" "\<forall>i. i \<in> set (v_ready (sched_view s)) \<longleftrightarrow> v_states (sched_view s) i = Some Ready"
    using assms by (auto simp: sched_inv_def view_inv_def)
  then obtain tc where "slot_get (sch_tasks s) c = Some tc" "tcb_state tc = Running" "c \<notin> set (ready_contents (sch_ready s))" by auto
  then show thesis using that assms(1) slot_get_length [of "sch_tasks s" c] by (auto simp: sched_inv_def)
qed

lemma ready_task:
  assumes "sched_inv s" "n \<in> set (ready_contents (sch_ready s))"
  obtains tn where "slot_get (sch_tasks s) n = Some tn" "tcb_state tn = Ready" "n < MAX_TASKS"
proof -
  have "v_states (sched_view s) n = Some Ready" using assms by (simp add: sched_inv_def view_inv_def)
  then obtain tn where "slot_get (sch_tasks s) n = Some tn" "tcb_state tn = Ready" by auto
  then show thesis using that assms(1) slot_get_length [of "sch_tasks s" n] by (auto simp: sched_inv_def)
qed

text \<open>The shared shape of \<open>block_current\<close>, \<open>yield_current\<close> and \<open>exit_current\<close> once a task is ready.\<close>

definition give_up :: "ThreadState \<Rightarrow> TaskId \<Rightarrow> TaskId \<Rightarrow> Scheduler \<Rightarrow> (Transfer \<times> Scheduler) panics" where
  "give_up st current_id next_id s = do {
     s \<leftarrow> set_state s current_id st;
     s \<leftarrow> (if st = Ready then push_ready s current_id else Ret s);
     enter_task s current_id next_id }"

definition switch_of :: "Scheduler \<Rightarrow> TaskId \<Rightarrow> TaskId \<Rightarrow> Switch \<Rightarrow> bool" where
  "switch_of s c n sw \<longleftrightarrow> sw_previous sw = Some c \<and> sw_next sw = n \<and>
     (\<exists>tc tn. slot_get (sch_tasks s) c = Some tc \<and> slot_get (sch_tasks s) n = Some tn \<and> sw_next_as_id sw = tcb_as_id tn
        \<and> sw_next_kernel_stack sw = sm_top (tcb_kernel_stack tn)
        \<and> (sw_activate_address_space sw \<longleftrightarrow> tcb_as_id tn \<noteq> tcb_as_id tc))"

lemma give_up_spec:
  assumes inv: "sched_inv s" and c: "sch_current s = Some c" and rd: "ready_contents (sch_ready s) = n # rest" and st: "st \<noteq> Running"
    and q: "ready_inv q" "ready_contents q = rest"
  shows "\<exists>sw s'. give_up st c n (s\<lparr>sch_ready := q\<rparr>) = Ret (SwitchTo sw, s') \<and> sched_inv s' \<and> switch_of s c n sw
    \<and> sched_view s' = hand_over st (if st = Ready then [c] else []) (sched_view s) \<and> task_frame s' = task_frame s
    \<and> sch_stacks s' = sch_stacks s"
proof -
  obtain tc where tc: "slot_get (sch_tasks s) c = Some tc" "c \<notin> set (ready_contents (sch_ready s))" "c < MAX_TASKS"
    using current_task [OF inv c] by metis
  obtain tn where tn: "slot_get (sch_tasks s) n = Some tn" using ready_task [OF inv, of n] rd by auto
  have cn: "c \<noteq> n" using tc(2) rd by auto
  have len: "length (sch_tasks s) = MAX_TASKS" using inv by (simp add: sched_inv_def)
  let ?s0 = "s\<lparr>sch_ready := q\<rparr>" and ?s1 = "set_task (s\<lparr>sch_ready := q\<rparr>) c (tc\<lparr>tcb_state := st\<rparr>)"
  have t0: "slot_get (sch_tasks ?s0) c = Some tc" using tc(1) by simp
  note ss = set_state_spec [OF t0, of st]
  have room: "length rest < MAX_TASKS"
  proof -
    have "view_inv (sched_view s)" using inv by (simp add: sched_inv_def)
    then show ?thesis using ready_room [of "sched_view s" c] tc rd by simp
  qed
  have "\<exists>s2. (if st = Ready then push_ready ?s1 c else Ret ?s1) = Ret s2 \<and> ready_inv (sch_ready s2)
      \<and> ready_contents (sch_ready s2) = rest @ (if st = Ready then [c] else []) \<and> sch_tasks s2 = sch_tasks ?s1 \<and> sch_current s2 = Some c
      \<and> sch_stacks s2 = sch_stacks s"
  proof (cases "st = Ready")
    case True
    then show ?thesis using push_ready_spec [of ?s1 c] q room c by auto
  next
    case False
    then show ?thesis using q c by simp
  qed
  then obtain s2 where s2: "(if st = Ready then push_ready ?s1 c else Ret ?s1) = Ret s2" "ready_inv (sch_ready s2)"
      "ready_contents (sch_ready s2) = rest @ (if st = Ready then [c] else [])" "sch_tasks s2 = sch_tasks ?s1" "sch_current s2 = Some c"
      "sch_stacks s2 = sch_stacks s"
    by blast
  have slots: "slot_get (sch_tasks s2) c = Some (tc\<lparr>tcb_state := st\<rparr>)" "slot_get (sch_tasks s2) n = Some tn"
    using tc(1,3) tn cn len unfolding s2(4) by (simp_all add: set_task_slot)
  have as: "tcb_as_id (tc\<lparr>tcb_state := st\<rparr>) = tcb_as_id tc" by simp
  obtain sw s3 where s3: "enter_task s2 c n = Ret (SwitchTo sw, s3)"
      "sw = \<lparr>sw_previous = Some c, sw_next = n, sw_next_as_id = tcb_as_id tn,
             sw_next_kernel_stack = sm_top (tcb_kernel_stack tn), sw_activate_address_space = (tcb_as_id tn \<noteq> tcb_as_id tc)\<rparr>"
      "sched_view s3 = (sched_view s2)\<lparr>v_current := Some n, v_states := (v_states (sched_view s2))(n \<mapsto> Running)\<rparr>"
      "task_frame s3 = task_frame s2" "sch_ready s3 = sch_ready s2" "length (sch_tasks s3) = length (sch_tasks s2)"
      "sch_stacks s3 = sch_stacks s2"
    using enter_task_spec [OF slots cn] unfolding as by blast
  have fr: "task_frame s3 = task_frame s"
    using s3(4) s2(4) ss(3) by (simp add: task_frame_def fun_eq_iff)
  have v1: "v_states (sched_view s2) = (v_states (sched_view s))(c \<mapsto> st)"
    using arg_cong [OF ss(2), of v_states] s2(4) by (simp add: sched_view_def)
  have view: "sched_view s3 = hand_over st (if st = Ready then [c] else []) (sched_view s)"
    unfolding s3(3) by (rule view_eqI) (simp_all add: hand_over_def c rd s2(3) v1)
  have "give_up st c n ?s0 = Ret (SwitchTo sw, s3)" using ss(1) s2(1) s3(1) by (simp add: give_up_def)
  moreover have "sched_inv s3"
    unfolding sched_inv_def view
  proof (intro conjI)
    show "view_inv (hand_over st (if st = Ready then [c] else []) (sched_view s))"
      using inv c by (intro view_inv_hand_over st) (simp_all add: sched_inv_def)
    show "\<forall>i t. slot_get (sch_tasks s3) i = Some t \<longrightarrow> tcb_id t = i"
      using inv by (intro task_frame_ids [OF fr]) (simp add: sched_inv_def)
  qed (simp_all add: s3(5,6) s2(2,4) len)
  moreover have "switch_of s c n sw" using s3(2) tc(1) tn by (simp add: switch_of_def)
  ultimately show ?thesis using view fr trans [OF s3(7) s2(6)] by blast
qed

text \<open>What the caller of an operation that gives up the processor sees.\<close>

definition transfer_ok :: "Transfer \<Rightarrow> Scheduler \<Rightarrow> TaskId \<Rightarrow> Transfer \<Rightarrow> bool" where
  "transfer_ok idle s c tr =
     (case ready_contents (sch_ready s) of [] \<Rightarrow> tr = idle | n # _ \<Rightarrow> \<exists>sw. tr = SwitchTo sw \<and> switch_of s c n sw)"

lemma give_up_all:
  assumes inv: "sched_inv s" and c: "sch_current s = Some c" and st: "st \<noteq> Running"
  shows "\<exists>tr s'. (do {
      (r, q) \<leftarrow> pop_front (sch_ready s);
      (case r of None \<Rightarrow> Ret (idle, s) | Some n \<Rightarrow> give_up st c n (s\<lparr>sch_ready := q\<rparr>)) }) = Ret (tr, s')
    \<and> sched_inv s' \<and> sched_view s' = hand_over st (if st = Ready then [c] else []) (sched_view s) \<and> task_frame s' = task_frame s
    \<and> sch_stacks s' = sch_stacks s
    \<and> transfer_ok idle s c tr"
proof -
  have rinv: "ready_inv (sch_ready s)" using inv by (simp add: sched_inv_def)
  show ?thesis
  proof (cases "ready_contents (sch_ready s)")
    case Nil
    then show ?thesis using ready.pop_empty [OF rinv] inv c by (simp add: hand_over_def transfer_ok_def)
  next
    case (Cons n rest)
    obtain q where q: "pop_front (sch_ready s) = Ret (Some n, q)" "ready_inv q" "ready_contents q = rest"
      using ready.pop_front [OF rinv Cons] by blast
    then show ?thesis using give_up_spec [OF inv c Cons st q(2,3)] Cons by (auto simp: transfer_ok_def)
  qed
qed

lemma yield_give_up:
  "sch_current s = Some c \<Longrightarrow> yield_current s = do {
      (r, q) \<leftarrow> pop_front (sch_ready s);
      (case r of None \<Rightarrow> Ret (Continue, s) | Some n \<Rightarrow> give_up Ready c n (s\<lparr>sch_ready := q\<rparr>)) }"
  by (simp add: yield_current_def give_up_def Let_def cong: option.case_cong)

lemma block_give_up:
  "sch_current s = Some c \<Longrightarrow> block_current reason s = do {
      (r, q) \<leftarrow> pop_front (sch_ready s);
      (case r of None \<Rightarrow> Ret (Halt, s) | Some n \<Rightarrow> give_up (Blocked reason) c n (s\<lparr>sch_ready := q\<rparr>)) }"
  by (simp add: block_current_def give_up_def Let_def cong: option.case_cong)

lemma exit_give_up:
  "sch_current s = Some c \<Longrightarrow> exit_current reason s = do {
      (r, q) \<leftarrow> pop_front (sch_ready s);
      (case r of None \<Rightarrow> Ret (Halt, s) | Some n \<Rightarrow> give_up (Dead reason) c n (s\<lparr>sch_ready := q\<rparr>)) }"
  by (simp add: exit_current_def give_up_def Let_def cong: option.case_cong)

lemma yield_spec:
  assumes "sched_inv s" "sch_current s = Some c"
  shows "\<exists>tr s'. yield_current s = Ret (tr, s') \<and> sched_inv s' \<and> sched_view s' = view_yield (sched_view s)
    \<and> task_frame s' = task_frame s \<and> sch_stacks s' = sch_stacks s \<and> transfer_ok Continue s c tr"
  unfolding yield_give_up [OF assms(2)] view_yield_def
  using give_up_all [OF assms, of Ready Continue] assms(2) by simp

lemma block_spec:
  assumes "sched_inv s" "sch_current s = Some c"
  shows "\<exists>tr s'. block_current reason s = Ret (tr, s') \<and> sched_inv s' \<and> sched_view s' = view_block reason (sched_view s)
    \<and> task_frame s' = task_frame s \<and> sch_stacks s' = sch_stacks s \<and> transfer_ok Halt s c tr"
  unfolding block_give_up [OF assms(2)] view_block_def
  using give_up_all [OF assms, of "Blocked reason" Halt] by simp

lemma exit_spec:
  assumes "sched_inv s" "sch_current s = Some c"
  shows "\<exists>tr s'. exit_current reason s = Ret (tr, s') \<and> sched_inv s' \<and> sched_view s' = view_exit reason (sched_view s)
    \<and> task_frame s' = task_frame s \<and> sch_stacks s' = sch_stacks s \<and> transfer_ok Halt s c tr"
  unfolding exit_give_up [OF assms(2)] view_exit_def
  using give_up_all [OF assms, of "Dead reason" Halt] by simp

subsection \<open>Making tasks ready\<close>

lemma view_inv_wake:
  assumes "view_inv a" "i < MAX_TASKS" "i \<notin> set (v_ready a)" "v_states a i \<noteq> Some Running"
  shows "view_inv (view_wake i a)"
  using assms by (auto simp: view_inv_def view_wake_def)

lemma unblock_spec:
  assumes inv: "sched_inv s" and i: "i < MAX_TASKS"
  shows "\<exists>s'. unblock i s = Ret s' \<and> sched_inv s' \<and> task_frame s' = task_frame s \<and> sch_stacks s' = sch_stacks s
    \<and> sched_view s' = (case v_states (sched_view s) i of Some (Blocked _) \<Rightarrow> view_wake i (sched_view s) | _ \<Rightarrow> sched_view s)"
proof (cases "\<exists>t b. slot_get (sch_tasks s) i = Some t \<and> tcb_state t = Blocked b")
  case False
  have "unblock i s = Ret s"
    using False inv i by (auto simp: unblock_def slot_get_def sched_inv_def split: option.splits ThreadState.splits)
  moreover have "(case v_states (sched_view s) i of Some (Blocked _) \<Rightarrow> view_wake i (sched_view s) | _ \<Rightarrow> sched_view s) = sched_view s"
    using False by (auto split: option.splits ThreadState.splits)
  ultimately show ?thesis using inv by simp
next
  case True
  then obtain t b where t: "slot_get (sch_tasks s) i = Some t" "tcb_state t = Blocked b" by blast
  have vi: "view_inv (sched_view s)" and len: "length (sch_tasks s) = MAX_TASKS" using inv by (simp_all add: sched_inv_def)
  have notin: "i \<notin> set (ready_contents (sch_ready s))"
  proof -
    have "i \<in> set (v_ready (sched_view s)) \<longleftrightarrow> v_states (sched_view s) i = Some Ready" using vi unfolding view_inv_def by blast
    then show ?thesis using t by simp
  qed
  let ?s1 = "set_task s i (t\<lparr>tcb_state := Ready\<rparr>)"
  note ss = set_state_spec [OF t(1), of Ready]
  obtain q where q: "push_ready ?s1 i = Ret (?s1\<lparr>sch_ready := q\<rparr>)" "ready_inv q" "ready_contents q = ready_contents (sch_ready s) @ [i]"
    using push_ready_spec [of ?s1 i] ready_room [OF vi] notin i inv by (auto simp: sched_inv_def)
  let ?s2 = "?s1\<lparr>sch_ready := q\<rparr>"
  have "unblock i s = Ret ?s2" using t q(1) i len by (simp add: unblock_def slot_get_def)
  moreover have view: "sched_view ?s2 = view_wake i (sched_view s)"
    using arg_cong [OF ss(2), of v_states] q(3) by (intro view_eqI) (simp_all add: sched_view_def view_wake_def)
  moreover have fr: "task_frame ?s2 = task_frame s" using ss(3) by (simp add: task_frame_def fun_eq_iff)
  moreover have "sched_inv ?s2"
    unfolding sched_inv_def view
  proof (intro conjI)
    show "view_inv (view_wake i (sched_view s))" using vi i notin t by (intro view_inv_wake) simp_all
    show "\<forall>j t. slot_get (sch_tasks ?s2) j = Some t \<longrightarrow> tcb_id t = j"
      using inv by (intro task_frame_ids [OF fr]) (simp add: sched_inv_def)
  qed (simp_all add: q(2) len)
  ultimately show ?thesis using t by simp
qed

text \<open>The slot of a new task is the first empty one; the task gets a handle to itself.\<close>

definition new_task :: "TaskId \<Rightarrow> Tcb \<Rightarrow> Tcb" where
  "new_task i task = task\<lparr>tcb_id := i, tcb_state := Ready,
     tcb_handles := snd (handle_push (tcb_handles task) \<lparr>h_object = ObjThread i, h_rights = READ OR WRITE OR EXECUTE\<rparr>)\<rparr>"

lemma add_task_spec:
  assumes inv: "sched_inv s" and room: "None \<in> set (ht_handles (tcb_handles task))"
  shows "\<exists>r s'. add_task task s = Ret (r, s') \<and> sched_inv s' \<and> sch_current s' = sch_current s \<and> sch_stacks s' = sch_stacks s \<and>
    (case position_none (sch_tasks s) of
       None \<Rightarrow> r = Inl task \<and> s' = s
     | Some i \<Rightarrow> r = Inr i \<and> sched_view s' = view_wake i (sched_view s)
         \<and> (\<forall>j. slot_get (sch_tasks s') j = (if j = i then Some (new_task i task) else slot_get (sch_tasks s) j)))"
proof (cases "position_none (sch_tasks s)")
  case None
  then show ?thesis using inv by (simp add: add_task_def)
next
  case (Some i)
  have i: "i < MAX_TASKS" "slot_get (sch_tasks s) i = None"
    using position_none_Some [OF Some] inv by (auto simp: slot_get_def sched_inv_def)
  let ?h = "\<lparr>h_object = ObjThread i, h_rights = READ OR WRITE OR EXECUTE\<rparr>"
  obtain k where "position_none (ht_handles (tcb_handles task)) = Some k"
    using room position_none_None [of "ht_handles (tcb_handles task)"] by auto
  then obtain hs where hp: "handle_push (tcb_handles task) ?h = (Inr k, hs)" by (simp add: handle_push_def)
  have vi: "view_inv (sched_view s)" and len: "length (sch_tasks s) = MAX_TASKS" using inv by (simp_all add: sched_inv_def)
  have notin: "i \<notin> set (ready_contents (sch_ready s))"
  proof -
    have "i \<in> set (v_ready (sched_view s)) \<longleftrightarrow> v_states (sched_view s) i = Some Ready" using vi unfolding view_inv_def by blast
    then show ?thesis using i by simp
  qed
  let ?s1 = "set_task s i (new_task i task)"
  obtain q where q: "push_ready ?s1 i = Ret (?s1\<lparr>sch_ready := q\<rparr>)" "ready_inv q" "ready_contents q = ready_contents (sch_ready s) @ [i]"
    using push_ready_spec [of ?s1 i] ready_room [OF vi] notin i(1) inv by (auto simp: sched_inv_def)
  let ?s2 = "?s1\<lparr>sch_ready := q\<rparr>"
  have slots: "slot_get (sch_tasks ?s2) j = (if j = i then Some (new_task i task) else slot_get (sch_tasks s) j)" for j
    using i(1) len by (simp add: set_task_slot)
  have "add_task task s = Ret (Inr i, ?s2)"
  proof -
    have "task\<lparr>tcb_id := i, tcb_handles := hs, tcb_state := Ready\<rparr> = new_task i task"
      using hp by (simp add: new_task_def)
    then show ?thesis using Some hp q(1) by (simp add: add_task_def)
  qed
  moreover have view: "sched_view ?s2 = view_wake i (sched_view s)"
    using slots q(3) by (intro view_eqI) (auto simp: sched_view_def view_wake_def fun_eq_iff new_task_def)
  moreover have "sched_inv ?s2"
    unfolding sched_inv_def view
  proof (intro conjI)
    show "view_inv (view_wake i (sched_view s))" using vi i notin by (intro view_inv_wake) simp_all
    show "\<forall>j t. slot_get (sch_tasks ?s2) j = Some t \<longrightarrow> tcb_id t = j"
      using inv slots by (auto simp: sched_inv_def new_task_def)
  qed (simp_all add: q(2) len)
  ultimately show ?thesis using Some slots by simp
qed

lemma scheduler_new_inv: "sched_inv scheduler_new"
proof -
  have "slot_get (sch_tasks scheduler_new) i = None" for i by (simp add: slot_get_def scheduler_new_def)
  then show ?thesis
    by (simp add: sched_inv_def view_inv_def scheduler_new_def sched_view_def dom_def)
qed

lemma scheduler_start_spec:
  assumes inv: "sched_inv s" and c: "sch_current s = None" and rd: "ready_contents (sch_ready s) = n # rest"
  shows "\<exists>sw s'. scheduler_start s = Ret (sw, s') \<and> sched_inv s' \<and> sw_previous sw = None \<and> sw_next sw = n
    \<and> sched_view s' = \<lparr>v_current = Some n, v_ready = rest, v_states = (v_states (sched_view s))(n \<mapsto> Running)\<rparr>
    \<and> task_frame s' = task_frame s"
proof -
  have rinv: "ready_inv (sch_ready s)" and vi: "view_inv (sched_view s)" and len: "length (sch_tasks s) = MAX_TASKS"
    using inv by (simp_all add: sched_inv_def)
  obtain q where q: "pop_front (sch_ready s) = Ret (Some n, q)" "ready_inv q" "ready_contents q = rest"
    using ready.pop_front [OF rinv rd] by blast
  obtain tn where tn: "slot_get (sch_tasks s) n = Some tn" using ready_task [OF inv, of n] rd by auto
  let ?s0 = "s\<lparr>sch_ready := q\<rparr>"
  have t0: "slot_get (sch_tasks ?s0) n = Some tn" using tn by simp
  note ss = set_state_spec [OF t0, of Running]
  let ?s2 = "(set_task ?s0 n (tn\<lparr>tcb_state := Running\<rparr>))\<lparr>sch_current := Some n\<rparr>"
  let ?v = "\<lparr>v_current = Some n, v_ready = rest, v_states = (v_states (sched_view s))(n \<mapsto> Running)\<rparr>"
  have view: "sched_view ?s2 = ?v"
    using arg_cong [OF ss(2), of v_states] q(3) by (simp add: sched_view_def)
  have fr: "task_frame ?s2 = task_frame s" using ss(3) by (simp add: task_frame_def fun_eq_iff)
  have nn: "v_states (sched_view s) n = Some Ready" "n \<notin> set rest" "distinct rest"
      "\<And>i. i \<in> set rest \<or> i = n \<longleftrightarrow> v_states (sched_view s) i = Some Ready" "\<And>i. v_states (sched_view s) i \<noteq> Some Running"
      "dom (v_states (sched_view s)) \<subseteq> {..<MAX_TASKS}"
    using vi rd c by (auto simp: view_inv_def simp del: view_simps(3))
  have "view_inv ?v" using nn by (auto simp: view_inv_def simp del: view_simps(3))
  moreover have "scheduler_start s = Ret (\<lparr>sw_previous = None, sw_next = n, sw_next_as_id = tcb_as_id tn,
           sw_next_kernel_stack = sm_top (tcb_kernel_stack tn), sw_activate_address_space = True\<rparr>, ?s2)"
    using q(1) tn ss(1) by (simp add: scheduler_start_def task_at_slot)
  moreover have "\<forall>j t. slot_get (sch_tasks ?s2) j = Some t \<longrightarrow> tcb_id t = j"
    using inv by (intro task_frame_ids [OF fr]) (simp add: sched_inv_def)
  ultimately show ?thesis
    using view fr q(2) len unfolding sched_inv_def by simp
qed

subsection \<open>Every run of the scheduler\<close>

text \<open>
  What the kernel does with the scheduler: it adds tasks, starts the first one, and the running
  task yields, blocks or exits, or wakes another one.
\<close>

inductive sched_step :: "Scheduler \<Rightarrow> Scheduler \<Rightarrow> bool" where
  step_add: "None \<in> set (ht_handles (tcb_handles task)) \<Longrightarrow> add_task task s = Ret (r, s') \<Longrightarrow> sched_step s s'"
| step_start: "sch_current s = None \<Longrightarrow> scheduler_start s = Ret (sw, s') \<Longrightarrow> sched_step s s'"
| step_yield: "sch_current s = Some c \<Longrightarrow> yield_current s = Ret (tr, s') \<Longrightarrow> sched_step s s'"
| step_block: "sch_current s = Some c \<Longrightarrow> block_current reason s = Ret (tr, s') \<Longrightarrow> sched_step s s'"
| step_exit: "sch_current s = Some c \<Longrightarrow> exit_current why s = Ret (tr, s') \<Longrightarrow> sched_step s s'"
| step_unblock: "with_task s i \<noteq> None \<Longrightarrow> unblock i s = Ret s' \<Longrightarrow> sched_step s s'"

inductive sched_reachable :: "Scheduler \<Rightarrow> bool" where
  reach_new: "sched_reachable scheduler_new"
| reach_step: "sched_reachable s \<Longrightarrow> sched_step s s' \<Longrightarrow> sched_reachable s'"

inductive_cases sched_stepE: "sched_step s s'"

lemma start_ready:
  assumes "sched_inv s" "scheduler_start s = Ret (sw, s')"
  obtains n rest where "ready_contents (sch_ready s) = n # rest"
proof -
  have "ready_contents (sch_ready s) \<noteq> []"
    using ready.pop_empty [of "sch_ready s"] assms by (auto simp: scheduler_start_def sched_inv_def)
  then show thesis using that by (cases "ready_contents (sch_ready s)") auto
qed

lemma add_task_inv:
  assumes "sched_inv s" "None \<in> set (ht_handles (tcb_handles task))" "add_task task s = Ret (r, s')"
  shows "sched_inv s'" "sch_current s' = sch_current s"
  using add_task_spec [OF assms(1,2)] assms(3) by auto

lemma sched_step_inv:
  assumes inv: "sched_inv s" and st: "sched_step s s'"
  shows "sched_inv s'"
  using st
proof cases
  case (step_add task r)
  then show ?thesis using add_task_inv(1) [OF inv] by blast
next
  case (step_start sw)
  obtain n rest where "ready_contents (sch_ready s) = n # rest" using start_ready [OF inv step_start(2)] .
  then show ?thesis using scheduler_start_spec [OF inv step_start(1)] step_start(2) by auto
next
  case (step_yield c tr)
  then show ?thesis using yield_spec [OF inv step_yield(1)] by auto
next
  case (step_block c reason tr)
  then show ?thesis using block_spec [OF inv step_block(1), of reason] by auto
next
  case (step_exit c why tr)
  then show ?thesis using exit_spec [OF inv step_exit(1), of why] by auto
next
  case (step_unblock i)
  then have "i < MAX_TASKS" using inv slot_get_length [of "sch_tasks s" i] by (auto simp: with_task_def sched_inv_def)
  then show ?thesis using unblock_spec [OF inv, of i] step_unblock(2) by auto
qed

lemma sched_reachable_inv: "sched_reachable s \<Longrightarrow> sched_inv s"
  by (induction rule: sched_reachable.induct) (auto intro: scheduler_new_inv sched_step_inv)

subsection \<open>Properties\<close>


definition sample_tcb :: Tcb where
  "sample_tcb = \<lparr>tcb_id = 0, tcb_as_id = 0, tcb_state = Ready,
     tcb_kernel_stack = \<lparr>sm_guard_page = 0x1000, sm_mapped_start = 0x2000, sm_stack_size = 0x1000, sm_top = 0x3000\<rparr>,
     tcb_context = thread_context_empty, tcb_mailbox = mailbox_new, tcb_handles = handle_table_new\<rparr>"

text \<open>Three tasks, the first of which runs.\<close>

definition sample_sched :: "Scheduler panics" where
  "sample_sched = do {
     (_, s) \<leftarrow> add_task sample_tcb scheduler_new;
     (_, s) \<leftarrow> add_task sample_tcb s;
     (_, s) \<leftarrow> add_task sample_tcb s;
     (_, s) \<leftarrow> scheduler_start s;
     Ret s }"

lemma sample_sched_run:
  obtains s where "sched_reachable s" "sch_current s = Some 0" "ready_contents (sch_ready s) = [1, 2]"
proof -
  have room: "None \<in> set (ht_handles (tcb_handles sample_tcb))" by code_simp
  have "map_option (\<lambda>s. (sch_current s, ready_contents (sch_ready s))) sample_sched = Some (Some 0, [1, 2])" by code_simp
  then obtain s where s: "sample_sched = Ret s" "sch_current s = Some 0" "ready_contents (sch_ready s) = [1, 2]" by auto
  then obtain r1 s1 r2 s2 r3 s3 sw where st: "add_task sample_tcb scheduler_new = Ret (r1, s1)" "add_task sample_tcb s1 = Ret (r2, s2)"
      "add_task sample_tcb s2 = Ret (r3, s3)" "scheduler_start s3 = Ret (sw, s)"
    by (auto simp: sample_sched_def split: bind_splits)
  have r3: "sched_reachable s3"
    using reach_new step_add [OF room st(1)] step_add [OF room st(2)] step_add [OF room st(3)] by (blast intro: reach_step)
  moreover have "sch_current s3 = None"
    using add_task_inv [OF scheduler_new_inv room st(1)] add_task_inv [OF _ room st(2)] add_task_inv [OF _ room st(3)]
    by (simp add: scheduler_new_def)
  ultimately show thesis using that s(2,3) step_start [OF _ st(4)] by (blast intro: reach_step)
qed


text \<open>
  (C16) The three ways of giving up the processor implement their specification on the list of
  ready tasks: the head of the list runs next; the old task goes to the end of the list when
  it yields, and leaves it when it blocks or exits; nothing but the states of these two tasks
  changes. The switch that is performed leaves the old task for the new one, with the new
  task's kernel stack, and activates its address space exactly when it differs. With no ready
  task, yielding continues and blocking or exiting halts.
\<close>

theorem give_up_refines:
  assumes "sched_inv s" "sch_current s = Some c"
  shows "(\<exists>tr s'. yield_current s = Ret (tr, s') \<and> sched_inv s' \<and> sched_view s' = view_yield (sched_view s)
        \<and> task_frame s' = task_frame s \<and> transfer_ok Continue s c tr)
    \<and> (\<exists>tr s'. block_current reason s = Ret (tr, s') \<and> sched_inv s' \<and> sched_view s' = view_block reason (sched_view s)
        \<and> task_frame s' = task_frame s \<and> transfer_ok Halt s c tr)
    \<and> (\<exists>tr s'. exit_current why s = Ret (tr, s') \<and> sched_inv s' \<and> sched_view s' = view_exit why (sched_view s)
        \<and> task_frame s' = task_frame s \<and> transfer_ok Halt s c tr)"
  using yield_spec [OF assms] block_spec [OF assms, of reason] exit_spec [OF assms, of why] by blast

theorem give_up_refines_witness:
  "\<exists>s tr s'. sched_inv s \<and> exit_current Killed s = Ret (tr, s') \<and> sched_view s' = view_exit Killed (sched_view s) \<and> sch_current s' = Some 1"
proof -
  obtain s where s: "sched_reachable s" "sch_current s = Some 0" "ready_contents (sch_ready s) = [1, 2]" by (rule sample_sched_run)
  have inv: "sched_inv s" by (rule sched_reachable_inv [OF s(1)])
  obtain tr s' where e: "exit_current Killed s = Ret (tr, s')" "sched_view s' = view_exit Killed (sched_view s)"
    using give_up_refines [OF inv s(2)] by blast
  have "v_current (sched_view s') = Some 1" unfolding e(2) using s by (simp add: view_exit_def hand_over_def)
  then have "sch_current s' = Some 1" by (simp only: view_simps)
  then show ?thesis using e inv by blast
qed

text \<open>Repeated yielding, by whichever task runs.\<close>

primrec yields :: "nat \<Rightarrow> Scheduler \<Rightarrow> Scheduler panics" where
  "yields 0 s = Ret s"
| "yields (Suc n) s = do { (_, s) \<leftarrow> yield_current s; yields n s }"

lemma view_yield_rotate:
  "v_current a = Some c \<Longrightarrow> \<exists>c'. v_current (view_yield a) = Some c' \<and> c' # v_ready (view_yield a) = rotate1 (c # v_ready a)"
  by (cases "v_ready a") (simp_all add: view_yield_def hand_over_def)

lemma yields_rotate:
  "sched_inv s \<Longrightarrow> sch_current s = Some c \<Longrightarrow>
   \<exists>s' c'. yields n s = Ret s' \<and> sched_inv s' \<and> sch_current s' = Some c'
     \<and> c' # ready_contents (sch_ready s') = rotate n (c # ready_contents (sch_ready s))"
proof (induction n arbitrary: s c)
  case (Suc n)
  obtain tr s1 where s1: "yield_current s = Ret (tr, s1)" "sched_inv s1" "sched_view s1 = view_yield (sched_view s)"
    using yield_spec [OF Suc.prems] by blast
  obtain c1 where c1: "v_current (sched_view s1) = Some c1" "c1 # v_ready (sched_view s1) = rotate1 (c # v_ready (sched_view s))"
    using view_yield_rotate [of "sched_view s" c] Suc.prems(2) unfolding s1(3) by auto
  have "sch_current s1 = Some c1" using c1(1) by simp
  then obtain s' c' where "yields n s1 = Ret s'" "sched_inv s'" "sch_current s' = Some c'"
      "c' # ready_contents (sch_ready s') = rotate n (c1 # ready_contents (sch_ready s1))"
    using Suc.IH [OF s1(2)] by blast
  then show ?case using s1(1) c1(2) by (simp add: rotate1_rotate_swap)
qed simp

text \<open>
  (C29) Scheduling is round robin: when the running tasks keep yielding, after \<open>n\<close> yields the task
  that runs is the one \<open>n\<close> places further in the cycle of the current task and the ready tasks
  at the start. So every ready task gets the processor, and waits for at most as many switches
  as there were tasks before it.
\<close>

theorem yield_round_robin:
  assumes "sched_inv s" "sch_current s = Some c"
  shows "\<exists>s'. yields n s = Ret s' \<and> sched_inv s' \<and>
    sch_current s' = Some ((c # ready_contents (sch_ready s)) ! (n mod Suc (length (ready_contents (sch_ready s)))))"
proof -
  let ?xs = "c # ready_contents (sch_ready s)"
  obtain s' c' where s': "yields n s = Ret s'" "sched_inv s'" "sch_current s' = Some c'"
      "c' # ready_contents (sch_ready s') = rotate n ?xs"
    using yields_rotate [OF assms] by blast
  have "c' = hd (rotate n ?xs)" using s'(4) by (metis list.sel(1))
  also have "\<dots> = ?xs ! (n mod length ?xs)" by (rule hd_rotate_conv_nth) simp
  finally show ?thesis using s' by simp
qed

theorem yield_round_robin_witness:
  "\<exists>s s'. sched_inv s \<and> ready_contents (sch_ready s) = [1, 2] \<and> yields 5 s = Ret s' \<and> sch_current s' = Some 2"
proof -
  obtain s where s: "sched_reachable s" "sch_current s = Some 0" "ready_contents (sch_ready s) = [1, 2]" by (rule sample_sched_run)
  have inv: "sched_inv s" by (rule sched_reachable_inv [OF s(1)])
  have "(0 # [1, 2 :: nat]) ! (5 mod Suc (length [1, 2 :: nat])) = 2" by code_simp
  then show ?thesis using yield_round_robin [OF inv s(2), of 5] s(3) inv by auto
qed

end
