(* ===== verification/Syscalls_Invariant.thy ===== *)
theory Syscalls_Invariant
  imports Syscalls Scheduler_Correctness
begin

section \<open>Every system call keeps the scheduler consistent\<close>

text \<open>
  The invariant of the scheduler, and well-formed control blocks: a mailbox that is a proper
  ring of well-formed messages, and a handle table of full length. Every system call, the rest
  of a suspended call, and the death of a task by an exception keep it.
\<close>

definition message_ok :: "Message \<Rightarrow> bool" where
  "message_ok msg \<longleftrightarrow> length (msg_data msg) = MAX_MSG_SIZE \<and> msg_length msg \<le> MAX_MSG_SIZE"

definition tcb_ok :: "Tcb \<Rightarrow> bool" where
  "tcb_ok t \<longleftrightarrow> mailbox_inv (tcb_mailbox t) \<and> (\<forall>msg\<in>set (mailbox_contents (tcb_mailbox t)). message_ok msg)
     \<and> length (ht_handles (tcb_handles t)) = MAX_HANDLES"

definition tasks_ok :: "Scheduler \<Rightarrow> bool" where
  "tasks_ok s \<longleftrightarrow> sched_inv s \<and> (\<forall>i t. slot_get (sch_tasks s) i = Some t \<longrightarrow> tcb_ok t)"

abbreviation kernel_ok :: "Kernel \<Rightarrow> bool" where
  "kernel_ok k \<equiv> tasks_ok (k_sched k)"

subsection \<open>Helper lemmas\<close>

lemma tcb_ok_state [simp]: "tcb_ok (t\<lparr>tcb_state := st\<rparr>) = tcb_ok t"
  by (simp add: tcb_ok_def)

text \<open>Changing anything of a task but its state and identifier.\<close>

lemma set_task_view:
  assumes "slot_get (sch_tasks s) i = Some t0" "tcb_state t = tcb_state t0"
  shows "sched_view (set_task s i t) = sched_view s"
proof -
  have "map_option tcb_state (slot_get (sch_tasks (set_task s i t)) j) = map_option tcb_state (slot_get (sch_tasks s) j)" for j
    using assms slot_get_length [OF assms(1)] by (simp add: set_task_slot)
  then show ?thesis by (simp add: sched_view_def)
qed

lemma tasks_ok_set_task:
  assumes "tasks_ok s" "slot_get (sch_tasks s) i = Some t0" "tcb_state t = tcb_state t0" "tcb_id t = tcb_id t0" "tcb_ok t"
  shows "tasks_ok (set_task s i t)"
  using assms set_task_view [OF assms(2,3)] slot_get_length [OF assms(2)]
  by (auto simp: tasks_ok_def sched_inv_def set_task_slot)

text \<open>Only the states of tasks change.\<close>

lemma tasks_ok_frame:
  assumes "tasks_ok s" "sched_inv s'" "task_frame s' = task_frame s"
  shows "tasks_ok s'"
  unfolding tasks_ok_def
proof (intro conjI allI impI)
  fix i t assume t: "slot_get (sch_tasks s') i = Some t"
  then have "task_frame s i = Some (t\<lparr>tcb_state := Ready\<rparr>)" using fun_cong [OF assms(3), of i] by (simp add: task_frame_def)
  then obtain t0 where "slot_get (sch_tasks s) i = Some t0" "t0\<lparr>tcb_state := Ready\<rparr> = t\<lparr>tcb_state := Ready\<rparr>"
    by (auto simp: task_frame_def)
  then show "tcb_ok t" using assms(1) by (metis tasks_ok_def tcb_ok_state)
qed (rule assms(2))

lemma current_taskD:
  assumes "current_task k = Ret (c, t)"
  shows "sch_current (k_sched k) = Some c" "slot_get (sch_tasks (k_sched k)) c = Some t"
  using assms by (auto simp: current_task_def current_def with_task_def split: bind_splits)

lemma kernel_ok_update:
  assumes "kernel_ok k" "slot_get (sch_tasks (k_sched k)) i = Some t0" "tcb_state t = tcb_state t0" "tcb_id t = tcb_id t0" "tcb_ok t"
  shows "kernel_ok (update_task i t k)"
  using tasks_ok_set_task [OF assms] by (simp add: update_task_def)

lemma task_tcb_ok: "kernel_ok k \<Longrightarrow> slot_get (sch_tasks (k_sched k)) i = Some t \<Longrightarrow> tcb_ok t"
  by (auto simp: tasks_ok_def)

lemma kernel_ok_handles:
  assumes "kernel_ok k" "current_task k = Ret (c, t)" "length (ht_handles ht) = length (ht_handles (tcb_handles t))"
  shows "kernel_ok (update_handles c t ht k)"
  unfolding update_handles_def
  using current_taskD [OF assms(2)] task_tcb_ok [OF assms(1)] assms(3)
  by (intro kernel_ok_update [OF assms(1)]) (auto simp: tcb_ok_def)

lemma handle_push_length: "handle_push ht h = (r, ht') \<Longrightarrow> length (ht_handles ht') = length (ht_handles ht)"
  by (auto simp: handle_push_def split: option.splits)

lemma handle_take_length: "handle_take ht i = (r, ht') \<Longrightarrow> length (ht_handles ht') = length (ht_handles ht)"
  by (auto simp: handle_take_def split: if_splits)

lemma handle_put_length: "handle_put ht i h = (r, ht') \<Longrightarrow> length (ht_handles ht') = length (ht_handles ht)"
  by (auto simp: handle_put_def split: if_splits)

named_theorems keeps \<open>what keeps the scheduler consistent\<close>

lemma with_allocator_sched [keeps]: "with_allocator f k = Ret (r, k') \<Longrightarrow> k_sched k' = k_sched k"
  by (auto simp: with_allocator_def split: bind_splits)

lemma alloc_frame_sched [keeps]: "alloc_frame k = Ret (r, k') \<Longrightarrow> k_sched k' = k_sched k"
  by (auto simp: alloc_frame_def split: bind_splits option.splits)

lemma dealloc_frame_sched [keeps]: "dealloc_frame f k = Ret k' \<Longrightarrow> k_sched k' = k_sched k"
  by (auto simp: dealloc_frame_def split: bind_splits option.splits)

lemma k_copy_val_sched [keeps]: "k_copy_val p x k = Ret (r, k') \<Longrightarrow> k_sched k' = k_sched k"
  by (auto simp: k_copy_val_def split: bind_splits)

lemma k_copy_out_sched [keeps]: "k_copy_out p bs k = Ret (r, k') \<Longrightarrow> k_sched k' = k_sched k"
  by (auto simp: k_copy_out_def split: bind_splits)

lemma insert_address_space_sched [keeps]: "insert_address_space sp k = (r, k') \<Longrightarrow> k_sched k' = k_sched k"
  by (auto simp: insert_address_space_def split: prod.splits)

lemma remove_address_space_sched [keeps]: "remove_address_space i k = (r, k') \<Longrightarrow> k_sched k' = k_sched k"
  by (auto simp: remove_address_space_def split: prod.splits)

lemma destroy_space_sched [keeps]: "destroy_space sp k = Ret k' \<Longrightarrow> k_sched k' = k_sched k"
  by (auto simp: destroy_space_def split: bind_splits dest: with_allocator_sched)

lemma push_handle_ok [keeps]: "push_handle h k = Ret (r, k') \<Longrightarrow> kernel_ok k \<Longrightarrow> kernel_ok k'"
  by (auto simp: push_handle_def split: bind_splits prod.splits intro!: kernel_ok_handles dest: handle_push_length)

lemma take_handle_ok [keeps]: "take_handle i k = Ret (r, k') \<Longrightarrow> kernel_ok k \<Longrightarrow> kernel_ok k'"
  by (auto simp: take_handle_def split: bind_splits prod.splits intro!: kernel_ok_handles dest: handle_take_length)

lemma put_handle_ok [keeps]: "put_handle i h k = Ret k' \<Longrightarrow> kernel_ok k \<Longrightarrow> kernel_ok k'"
  by (auto simp: put_handle_def split: bind_splits prod.splits sum.splits intro!: kernel_ok_handles dest: handle_put_length)

lemma transfer_sched [keeps]: "transfer rest tr k = (out, k') \<Longrightarrow> k_sched k' = k_sched k"
  by (auto simp: transfer_def perform_def set_kernel_stack_def Let_def split: Transfer.splits option.splits if_splits)

lemma write_chunks_sched [keeps]: "write_chunks buf len written k = Ret (r, k') \<Longrightarrow> k_sched k' = k_sched k"
proof (induction buf len written k rule: write_chunks.induct)
  case (1 buf len written k)
  show ?case
    using 1 by (subst (asm) write_chunks.simps)
      (auto simp: Let_def serial_write_def split: if_splits bind_splits sum.splits)
qed

subsection \<open>The system calls\<close>

lemma yield_ok:
  assumes "kernel_ok k" "sch_current (k_sched k) = Some c" "sys_yield k = Ret (out, k')"
  shows "kernel_ok k'"
proof -
  have inv: "sched_inv (k_sched k)" using assms(1) by (simp add: tasks_ok_def)
  obtain tr s where s: "yield_current (k_sched k) = Ret (tr, s)" "sched_inv s" "task_frame s = task_frame (k_sched k)"
    using yield_spec [OF inv assms(2)] by blast
  then show ?thesis
    using assms(3) tasks_ok_frame [OF assms(1) s(2,3)] transfer_sched [of "Some PendingYield" tr "k\<lparr>k_sched := s\<rparr>"]
    by (auto simp: sys_yield_def)
qed

lemma exit_ok:
  assumes "kernel_ok k" "sch_current (k_sched k) = Some c" "sys_exit_with why k = Ret (out, k')"
  shows "kernel_ok k'"
proof -
  have inv: "sched_inv (k_sched k)" using assms(1) by (simp add: tasks_ok_def)
  obtain tr s where s: "exit_current why (k_sched k) = Ret (tr, s)" "sched_inv s" "task_frame s = task_frame (k_sched k)"
    using exit_spec [OF inv assms(2), of why] by blast
  then show ?thesis
    using assms(3) tasks_ok_frame [OF assms(1) s(2,3)] transfer_sched [of None tr "k\<lparr>k_sched := s\<rparr>"]
    by (auto simp: sys_exit_with_def)
qed

lemma write_ok: "kernel_ok k \<Longrightarrow> sys_write fd buf len out k = Ret (r, k') \<Longrightarrow> kernel_ok k'"
  by (auto simp: sys_write_def split: if_splits bind_splits sum.splits dest!: keeps)

lemma frame_alloc_ok: "kernel_ok k \<Longrightarrow> sys_frame_alloc out k = Ret (r, k') \<Longrightarrow> kernel_ok k'"
  by (auto simp: sys_frame_alloc_def split: if_splits bind_splits sum.splits option.splits KernelObject.splits dest!: keeps)

lemma frame_dealloc_ok: "kernel_ok k \<Longrightarrow> sys_frame_dealloc h k = Ret (r, k') \<Longrightarrow> kernel_ok k'"
  by (auto simp: sys_frame_dealloc_def split: if_splits bind_splits sum.splits option.splits KernelObject.splits dest!: keeps)

lemma as_create_ok: "kernel_ok k \<Longrightarrow> sys_as_create out k = Ret (r, k') \<Longrightarrow> kernel_ok k'"
  by (auto simp: sys_as_create_def split: if_splits bind_splits sum.splits option.splits prod.splits KernelObject.splits dest!: keeps)

lemma unmap_ok: "kernel_ok k \<Longrightarrow> sys_unmap h k = Ret (r, k') \<Longrightarrow> kernel_ok k'"
  by (auto simp: sys_unmap_def split: if_splits bind_splits sum.splits option.splits KernelObject.splits dest!: keeps)

lemma map_taken_frame_ok: "map_taken_frame a f v p out k = Ret (r, k') \<Longrightarrow> kernel_ok k \<Longrightarrow> kernel_ok k'"
  by (auto simp: map_taken_frame_def split: bind_splits sum.splits option.splits KernelObject.splits dest!: keeps)

lemma map_ok: "kernel_ok k \<Longrightarrow> sys_map a f v p out k = Ret (r, k') \<Longrightarrow> kernel_ok k'"
  by (auto simp: sys_map_def Let_def split: if_splits bind_splits sum.splits option.splits dest!: map_taken_frame_ok)

lemma mailbox_push_ok:
  assumes "tcb_ok t" "message_ok msg" "mailbox_push (tcb_mailbox t) msg = Ret (ok, mb)"
  shows "tcb_ok (t\<lparr>tcb_mailbox := mb\<rparr>)"
  using assms mailbox.push_spec [of "tcb_mailbox t" msg] by (auto simp: tcb_ok_def split: if_splits)

lemma mailbox_pop_ok:
  assumes "tcb_ok t" "mailbox_pop (tcb_mailbox t) = Ret (r, mb)"
  shows "tcb_ok (t\<lparr>tcb_mailbox := mb\<rparr>)"
  using assms mailbox.pop_spec [of "tcb_mailbox t"] by (auto simp: tcb_ok_def dest: list.set_sel(2) split: list.splits)

lemma copy_from_user_length: "copy_from_user pt m src n = Ret (Inr bs) \<Longrightarrow> length bs = n"
proof -
  have "virt_read pt m v n = Ret bs \<Longrightarrow> length bs = n" for v bs
    by (induction n arbitrary: v bs) (auto split: bind_splits)
  then show "copy_from_user pt m src n = Ret (Inr bs) \<Longrightarrow> length bs = n"
    by (auto simp: copy_from_user_def split: option.splits if_splits bind_splits)
qed

lemma unblock_ok:
  assumes "tasks_ok s" "slot_get (sch_tasks s) i \<noteq> None" "unblock i s = Ret s'"
  shows "tasks_ok s'"
proof -
  have inv: "sched_inv s" using assms(1) by (simp add: tasks_ok_def)
  have "i < MAX_TASKS" using assms(2) slot_get_length [of "sch_tasks s" i] inv by (auto simp: sched_inv_def)
  then have "sched_inv s'" "task_frame s' = task_frame s" using unblock_spec [OF inv, of i] assms(3) by auto
  then show ?thesis by (rule tasks_ok_frame [OF assms(1)])
qed

lemma deliver_ok:
  assumes k: "kernel_ok k" and t: "with_task (k_sched k) dest = Some t"
    and push: "mailbox_push (tcb_mailbox t) msg = Ret (ok, mb)" and msg: "message_ok msg"
  shows "kernel_ok (update_task dest (t\<lparr>tcb_mailbox := mb\<rparr>) k)"
    "unblock dest (k_sched (update_task dest (t\<lparr>tcb_mailbox := mb\<rparr>) k)) = Ret s' \<Longrightarrow> tasks_ok s'"
proof -
  have slot: "slot_get (sch_tasks (k_sched k)) dest = Some t" using t by (simp add: with_task_def)
  have ok: "tcb_ok (t\<lparr>tcb_mailbox := mb\<rparr>)" using mailbox_push_ok [OF task_tcb_ok [OF k slot] msg push] .
  show u: "kernel_ok (update_task dest (t\<lparr>tcb_mailbox := mb\<rparr>) k)"
    by (rule kernel_ok_update [OF k slot]) (simp_all add: ok)
  have "slot_get (sch_tasks (k_sched (update_task dest (t\<lparr>tcb_mailbox := mb\<rparr>) k))) dest \<noteq> None"
    using slot slot_get_length [OF slot] by (simp add: update_task_def set_task_slot)
  then show "unblock dest (k_sched (update_task dest (t\<lparr>tcb_mailbox := mb\<rparr>) k)) = Ret s' \<Longrightarrow> tasks_ok s'"
    by (rule unblock_ok [OF u])
qed

lemma message_ok_copy:
  "copy_from_user pt m p (unat len) = Ret (Inr bs) \<Longrightarrow> \<not> MAX_MSG_SIZE < unat len \<Longrightarrow>
   message_ok \<lparr>msg_sender = c, msg_length = unat len, msg_data = bs @ replicate (MAX_MSG_SIZE - unat len) 0\<rparr>"
  using copy_from_user_length [of pt m p "unat len" bs] by (simp add: message_ok_def)

lemma send_ok: "kernel_ok k \<Longrightarrow> sys_send d p len k = Ret (r, k') \<Longrightarrow> kernel_ok k'"
  by (auto simp: sys_send_def Let_def split: if_splits bind_splits sum.splits option.splits)
    (rule deliver_ok, assumption, assumption, assumption, rule message_ok_copy, assumption+)+

lemma recv_finish_ok:
  assumes k: "kernel_ok k" and r: "recv_finish p n l q k = Ret (r, k')"
  shows "kernel_ok k'"
proof -
  have "kernel_ok (update_task c (t\<lparr>tcb_mailbox := mb\<rparr>) k)"
    if "current_task k = Ret (c, t)" "mailbox_pop (tcb_mailbox t) = Ret (m, mb)" for c t m mb
    using current_taskD [OF that(1)] task_tcb_ok [OF k] mailbox_pop_ok [OF _ that(2)]
    by (intro kernel_ok_update [OF k]) auto
  then show ?thesis
    using r k by (auto simp: recv_finish_def Let_def split: if_splits bind_splits sum.splits option.splits dest!: keeps)
qed

lemma recv_ok:
  assumes k: "kernel_ok k" and r: "sys_recv p n l q k = Ret (out, k')"
  shows "kernel_ok k'"
proof -
  have inv: "sched_inv (k_sched k)" using k by (simp add: tasks_ok_def)
  have "tasks_ok s" if "current_task k = Ret (c, t)" "block_current b (k_sched k) = Ret (tr, s)" for c t b tr s
    using block_spec [OF inv current_taskD(1) [OF that(1)], of b] that(2) by (auto intro: tasks_ok_frame [OF k])
  then show ?thesis
    using r k recv_finish_ok [OF k] by (auto simp: sys_recv_def split: if_splits bind_splits dest!: transfer_sched)
qed

lemma remove_slot_ok:
  assumes ok: "tasks_ok s" and cur: "sch_current s \<noteq> Some i" and i: "i < length (sch_tasks s)"
  shows "tasks_ok (s\<lparr>sch_tasks := (sch_tasks s)[i := None], sch_ready := snd (queue_remove (sch_ready s) i)\<rparr>)" (is "tasks_ok ?s")
proof -
  have inv: "sched_inv s" and vi: "view_inv (sched_view s)" and q: "ready_inv (sch_ready s)"
    using ok by (simp_all add: tasks_ok_def sched_inv_def)
  note rm = queue_remove_contents [OF q, of i]
  have slots: "slot_get (sch_tasks ?s) j = (if j = i then None else slot_get (sch_tasks s) j)" for j
    using i by (simp add: slot_get_update)
  have v: "v_states (sched_view ?s) = (v_states (sched_view s))(i := None)"
      "v_ready (sched_view ?s) = remove1 i (v_ready (sched_view s))" "v_current (sched_view ?s) = v_current (sched_view s)"
    using slots rm(3) by (auto simp: fun_eq_iff)
  have "view_inv (sched_view ?s)"
    unfolding view_inv_def v using vi cur
    by (auto simp: view_inv_def distinct_remove1 set_remove1_eq simp del: view_simps(3))
  then show ?thesis
    using ok slots rm(2) by (auto simp: tasks_ok_def sched_inv_def split: if_splits)
qed

lemma remove_task_ok:
  assumes "remove_task sp i s am = Ret (b, s', am')" "tasks_ok s"
  shows "tasks_ok s'"
proof (cases "sch_current s = Some i \<or> slot_get (sch_tasks s) i = None")
  case True
  then show ?thesis using assms by (auto simp: remove_task_def split: if_splits)
next
  case False
  then obtain t where t: "slot_get (sch_tasks s) i = Some t" and c: "sch_current s \<noteq> Some i" by auto
  note ok = remove_slot_ok [OF assms(2) c slot_get_length [OF t]]
  have "\<exists>p. s' = s\<lparr>sch_tasks := (sch_tasks s)[i := None], sch_ready := snd (queue_remove (sch_ready s) i), sch_stacks := p\<rparr>"
    using assms(1) t c by (auto simp: remove_task_def Let_def split: bind_splits)
  then show ?thesis using ok by (auto simp: tasks_ok_def sched_inv_def sched_view_def)
qed

lemma tasks_ok_stacks [simp]: "tasks_ok (s\<lparr>sch_stacks := p\<rparr>) = tasks_ok s"
  by (simp add: tasks_ok_def sched_inv_def sched_view_def)

lemma allocate_kernel_stack_ok: "allocate_kernel_stack sp s am = Ret (r, s', am') \<Longrightarrow> tasks_ok s \<Longrightarrow> tasks_ok s'"
  by (auto simp: allocate_kernel_stack_def split: bind_splits)

lemma handle_push_new: "handle_push handle_table_new h = (Inr 0, \<lparr>ht_handles = Some h # replicate 31 None\<rparr>)"
proof -
  have "replicate MAX_HANDLES None = (None :: Handle option) # replicate 31 None"
    by (simp add: MAX_HANDLES_def numeral_eq_Suc)
  then show ?thesis by (simp add: handle_push_def handle_table_new_def)
qed

lemma tcb_new_user_spec:
  assumes "tcb_new_user pt ute as_id stack entry us m = Ret (t, m')"
  shows "tcb_ok t" "None \<in> set (ht_handles (tcb_handles t))" "tcb_kernel_stack t = stack" "tcb_as_id t = as_id"
  using assms by (auto simp: tcb_new_user_def tcb_ok_def handle_push_new MAX_HANDLES_def split: bind_splits)

lemma new_task_ok: "tcb_ok t \<Longrightarrow> tcb_ok (new_task i t)"
  by (cases "handle_push (tcb_handles t) \<lparr>h_object = ObjThread i, h_rights = READ OR WRITE OR EXECUTE\<rparr>")
    (auto simp: new_task_def tcb_ok_def dest: handle_push_length)

lemma add_task_ok:
  assumes "add_task t s = Ret (r, s')" "tasks_ok s" "tcb_ok t" "None \<in> set (ht_handles (tcb_handles t))"
  shows "tasks_ok s'"
proof -
  have "sched_inv s" using assms(2) by (simp add: tasks_ok_def)
  then show ?thesis
    using add_task_spec [of s t] assms new_task_ok [OF assms(3)]
    by (auto simp: tasks_ok_def split: option.splits if_splits)
qed

lemma with_allocator_run:
  assumes "with_allocator f k = Ret (r, k')"
  obtains am am' where "f am = Ret (r, am')" "k_sched k' = k_sched k"
  using assms by (auto simp: with_allocator_def split: bind_splits)

lemma task_create_finish_ok:
  assumes k: "kernel_ok k" and r: "task_create_finish a e us out k = Ret (r, k')"
  shows "kernel_ok k'"
proof -
  obtain sp r1 s1 k1 where k1: "with_allocator (\<lambda>s. do {
         (r, sched, s) \<leftarrow> allocate_kernel_stack sp (k_sched k) s;
         Ret ((r, sched), s) }) k = Ret ((r1, s1), k1)" "k_kernel_space k = Some sp"
    using r by (auto simp: task_create_finish_def split: bind_splits)
  obtain am am1 where "allocate_kernel_stack sp (k_sched k) am = Ret (r1, s1, am1)"
    using k1(1) by (rule with_allocator_run) (auto split: bind_splits)
  then have s1: "tasks_ok s1" using allocate_kernel_stack_ok k by blast
  show ?thesis
  proof (cases r1)
    case (Inl e)
    then show ?thesis using r k1 s1 by (auto simp: task_create_finish_def)
  next
    case (Inr stack)
    let ?k1 = "k1\<lparr>k_sched := s1\<rparr>"
    obtain t m r2 s2 where t: "tcb_new_user (k_active ?k1) (k_user_thread_entry ?k1) a stack e us (k_mem ?k1) = Ret (t, m)"
        "add_task t s1 = Ret (r2, s2)"
      using r k1 Inr by (auto simp: task_create_finish_def split: bind_splits)
    note new = tcb_new_user_spec [OF t(1)]
    have s2: "tasks_ok s2" by (rule add_task_ok [OF t(2) s1 new(1,2)])
    let ?k2 = "k1\<lparr>k_mem := m, k_sched := s2\<rparr>"
    show ?thesis
    proof (cases r2)
      case (Inl t')
      then show ?thesis using r k1 Inr t s2 by (auto simp: task_create_finish_def)
    next
      case (Inr i)
      obtain r3 k3 where p: "push_handle \<lparr>h_object = ObjThread i, h_rights = ALL_RIGHTS\<rparr> ?k2 = Ret (r3, k3)"
        using r k1 \<open>r1 = Inr stack\<close> t Inr by (auto simp: task_create_finish_def split: bind_splits)
      have k3: "kernel_ok k3" using push_handle_ok [OF p] s2 by simp
      show ?thesis
      proof (cases r3)
        case (Inr h)
        then have "k_copy_val out (of_nat h) k3 = Ret (r, k')"
          using r k1 \<open>r1 = Inr stack\<close> t \<open>r2 = Inr i\<close> p by (simp add: task_create_finish_def)
        then show ?thesis using k_copy_val_sched k3 by fastforce
      next
        case (Inl h)
        obtain sp3 b s4 k4 where k4: "with_allocator (\<lambda>s. do {
            (ok, sched, s) \<leftarrow> remove_task sp3 i (k_sched k3) s;
            Ret ((ok, sched), s) }) k3 = Ret ((b, s4), k4)" "k' = k4\<lparr>k_sched := s4\<rparr>"
          using r k1 \<open>r1 = Inr stack\<close> t \<open>r2 = Inr i\<close> p Inl by (auto simp: task_create_finish_def split: bind_splits)
        obtain am3 am4 where "remove_task sp3 i (k_sched k3) am3 = Ret (b, s4, am4)"
          using k4(1) by (rule with_allocator_run) (auto split: bind_splits)
        then show ?thesis using remove_task_ok k3 k4(2) by auto
      qed
    qed
  qed
qed

lemma task_create_ok: "kernel_ok k \<Longrightarrow> sys_task_create a e us out k = Ret (r, k') \<Longrightarrow> kernel_ok k'"
  by (auto simp: sys_task_create_def split: if_splits bind_splits sum.splits option.splits dest: task_create_finish_ok)

lemma yield_idle:
  assumes "kernel_ok k" "sch_current (k_sched k) = None" "sys_yield k = Ret (out, k')"
  shows "kernel_ok k'"
  using assms by (auto simp: sys_yield_def yield_current_def Let_def split: bind_splits option.splits dest!: transfer_sched)

lemma sys_yield_ok: "kernel_ok k \<Longrightarrow> sys_yield k = Ret (out, k') \<Longrightarrow> kernel_ok k'"
  using yield_ok yield_idle by (cases "sch_current (k_sched k)") blast+

lemma sys_exit_ok: "kernel_ok k \<Longrightarrow> sys_exit_with why k = Ret (out, k') \<Longrightarrow> kernel_ok k'"
  using exit_ok by (cases "sch_current (k_sched k)") (auto simp: sys_exit_with_def exit_current_def)

lemma finish_callD: "finish_call r = Ret (out, k') \<Longrightarrow> \<exists>res. r = Ret (res, k')"
  by (auto simp: finish_call_def)

lemma handle_ok:
  assumes k: "kernel_ok k" and h: "handle num a0 a1 a2 a3 a4 a5 k = Ret (out, k')"
  shows "kernel_ok k'"
proof (cases "syscall_number num")
  case None
  then show ?thesis using h sys_exit_ok [OF k] by (simp add: handle_def)
next
  case (Some n)
  show ?thesis
    using h Some sys_yield_ok [OF k] sys_exit_ok [OF k] write_ok [OF k] send_ok [OF k] recv_ok [OF k] frame_alloc_ok [OF k]
      frame_dealloc_ok [OF k] as_create_ok [OF k] map_ok [OF k] unmap_ok [OF k] task_create_ok [OF k]
    by (cases n) (auto simp: handle_def sys_exit_def dest!: finish_callD)
qed

lemma resume_ok:
  assumes k: "kernel_ok k" and r: "resume k = Ret (out, k')"
  shows "kernel_ok k'"
proof -
  have "kernel_ok k'" if "recv_finish p n l q (k\<lparr>k_pending := pd\<rparr>) = Ret (res, k')" for p n l q pd res
    using recv_finish_ok [OF _ that] k by simp
  then show ?thesis
    using r k by (auto simp: resume_def current_def Let_def split: bind_splits option.splits Pending.splits dest!: finish_callD)
qed

subsection \<open>Every run of the kernel\<close>

text \<open>
  A step of the kernel after start-up: the running task makes a system call, the task that was
  switched to finishes the call it was suspended in, or user code raises an exception.
\<close>

inductive kernel_step :: "Kernel \<Rightarrow> Kernel \<Rightarrow> bool" where
  step_syscall: "handle num a0 a1 a2 a3 a4 a5 k = Ret (out, k') \<Longrightarrow> kernel_step k k'"
| step_resume: "resume k = Ret (out, k') \<Longrightarrow> kernel_step k k'"
| step_exception: "handle_exception cs vector k = Ret (out, k') \<Longrightarrow> kernel_step k k'"

lemma kernel_step_ok: "kernel_step k k' \<Longrightarrow> kernel_ok k \<Longrightarrow> kernel_ok k'"
  by (induction rule: kernel_step.induct)
    (auto simp: handle_exception_def intro: handle_ok resume_ok sys_exit_ok split: if_splits)

text \<open>
  (C3) Any sequence of system calls, resumptions and user exceptions keeps the scheduler
  consistent and every task well-formed: each ready task is queued exactly once, exactly the
  current task is running, and mailboxes and handle tables keep their shape. No argument a
  user program passes can break this.
\<close>

theorem kernel_steps_keep_invariant:
  assumes "kernel_step\<^sup>*\<^sup>* k k'" "tasks_ok (k_sched k)"
  shows "tasks_ok (k_sched k')"
  using assms by (induction rule: rtranclp_induct) (auto intro: kernel_step_ok)

definition sample_kernel :: "Scheduler \<Rightarrow> Kernel" where
  "sample_kernel s = \<lparr>k_allocator = Some sample_fa8, k_mem = zero_mem, k_spaces = address_space_table_new, k_kernel_space = None,
     k_sched = s, k_active = sample_pt, k_stack_top = 0, k_serial = [], k_pending = Map.empty, k_user_thread_entry = 0\<rparr>"

lemma sample_tasks:
  obtains s t0 t1 where "tasks_ok s" "sch_current s = Some 0" "ready_contents (sch_ready s) = [1, 2]"
    "slot_get (sch_tasks s) 0 = Some t0" "tcb_as_id t0 = 0" "slot_get (sch_tasks s) 1 = Some t1" "tcb_mailbox t1 = mailbox_new"
    "ht_handles (tcb_handles t0) = Some \<lparr>h_object = ObjThread 0, h_rights = 7\<rparr> # replicate 31 None"
    "list_all (\<lambda>x. case x of None \<Rightarrow> True | Some t \<Rightarrow> tcb_as_id t = 0 \<and> sm_top (tcb_kernel_stack t) = 0x3000) (sch_tasks s)"
proof -
  have room: "None \<in> set (ht_handles (tcb_handles sample_tcb))" by code_simp
  have ok: "tcb_ok sample_tcb" by (simp add: tcb_ok_def sample_tcb_def handle_table_new_def)
  have ok0: "tasks_ok scheduler_new" using scheduler_new_inv by (simp add: tasks_ok_def scheduler_new_def slot_get_def)
  have "map_option (\<lambda>s. (sch_current s, ready_contents (sch_ready s), map_option tcb_as_id (slot_get (sch_tasks s) 0),
      map_option tcb_mailbox (slot_get (sch_tasks s) 1), map_option (\<lambda>t. ht_handles (tcb_handles t)) (slot_get (sch_tasks s) 0),
      list_all (\<lambda>x. case x of None \<Rightarrow> True | Some t \<Rightarrow> tcb_as_id t = 0 \<and> sm_top (tcb_kernel_stack t) = 0x3000) (sch_tasks s))) sample_sched
      = Some (Some 0, [1, 2], Some 0, Some mailbox_new, Some (Some \<lparr>h_object = ObjThread 0, h_rights = 7\<rparr> # replicate 31 None), True)"
    by code_simp
  then obtain s t0 t1 where s: "sample_sched = Ret s" "sch_current s = Some 0" "ready_contents (sch_ready s) = [1, 2]"
      "slot_get (sch_tasks s) 0 = Some t0" "tcb_as_id t0 = 0" "slot_get (sch_tasks s) 1 = Some t1" "tcb_mailbox t1 = mailbox_new"
      "ht_handles (tcb_handles t0) = Some \<lparr>h_object = ObjThread 0, h_rights = 7\<rparr> # replicate 31 None"
      "list_all (\<lambda>x. case x of None \<Rightarrow> True | Some t \<Rightarrow> tcb_as_id t = 0 \<and> sm_top (tcb_kernel_stack t) = 0x3000) (sch_tasks s)" by auto
  then obtain r1 s1 r2 s2 r3 s3 sw where st: "add_task sample_tcb scheduler_new = Ret (r1, s1)" "add_task sample_tcb s1 = Ret (r2, s2)"
      "add_task sample_tcb s2 = Ret (r3, s3)" "scheduler_start s3 = Ret (sw, s)"
    by (auto simp: sample_sched_def split: bind_splits)
  have ok3: "tasks_ok s3"
    using add_task_ok [OF st(3) add_task_ok [OF st(2) add_task_ok [OF st(1) ok0 ok room] ok room] ok room] .
  have i1: "sched_inv s1" by (rule add_task_inv(1) [OF scheduler_new_inv room st(1)])
  have i2: "sched_inv s2" by (rule add_task_inv(1) [OF i1 room st(2)])
  have i3: "sched_inv s3" by (rule add_task_inv(1) [OF i2 room st(3)])
  have c: "sch_current s3 = None"
    using add_task_inv(2) [OF scheduler_new_inv room st(1)] add_task_inv(2) [OF i1 room st(2)] add_task_inv(2) [OF i2 room st(3)]
    by (simp add: scheduler_new_def)
  obtain n rest where "ready_contents (sch_ready s3) = n # rest" using start_ready [OF i3 st(4)] .
  then have "sched_inv s" "task_frame s = task_frame s3" using scheduler_start_spec [OF i3 c] st(4) by auto
  then have "tasks_ok s" by (rule tasks_ok_frame [OF ok3])
  then show thesis using s(2-9) by (rule that)
qed

theorem kernel_steps_keep_invariant_witness:
  "\<exists>k k'. kernel_step k k' \<and> sch_current (k_sched k) = Some 0 \<and> sch_current (k_sched k') = Some 1 \<and> tasks_ok (k_sched k')"
proof -
  obtain s where s: "tasks_ok s" "sch_current s = Some 0" "ready_contents (sch_ready s) = [1, 2]" by (rule sample_tasks) blast
  have inv: "sched_inv s" using s(1) by (simp add: tasks_ok_def)
  obtain tr s' where y: "yield_current s = Ret (tr, s')" "sched_view s' = view_yield (sched_view s)"
    using yield_spec [OF inv s(2)] by blast
  have "v_current (sched_view s') = Some 1" unfolding y(2) using s by (simp add: view_yield_def hand_over_def)
  then have c: "sch_current s' = Some 1" by (simp only: view_simps)
  obtain out k' where t: "transfer (Some PendingYield) tr (sample_kernel s\<lparr>k_sched := s'\<rparr>) = (out, k')"
    by (cases "transfer (Some PendingYield) tr (sample_kernel s\<lparr>k_sched := s'\<rparr>)")
  have "handle 1 0 0 0 0 0 0 (sample_kernel s) = Ret (out, k')"
    using y(1) t by (simp add: handle_def syscall_number_def sys_yield_def sample_kernel_def)
  then have st: "kernel_step (sample_kernel s) k'" by (rule step_syscall)
  moreover have "kernel_step\<^sup>*\<^sup>* (sample_kernel s) k'" using st by (rule r_into_rtranclp)
  then have "tasks_ok (k_sched k')"
    by (rule kernel_steps_keep_invariant) (simp add: sample_kernel_def s(1))
  moreover have "k_sched k' = s'" using transfer_sched [OF t] by simp
  ultimately show ?thesis using c s(2) by (intro exI [of _ "sample_kernel s"] exI [of _ k']) (simp add: sample_kernel_def)
qed

end
