(* ===== verification/User_Correctness.thy ===== *)
theory User_Correctness
  imports User Stack_Correctness
begin

section \<open>Correctness of user memory accesses\<close>

text \<open>
  \<open>validate_user_range\<close> accepts a range exactly when every byte of it lies in the user half and
  is mapped with the needed permissions, although it looks at one address per page only. A
  validated range can be copied without a fault.
\<close>

subsection \<open>One address per page is enough\<close>

lemma user_canonical:
  assumes "v < USER_SPACE_END"
  shows "is_canonical pt v"
proof -
  let ?s = "64 - virtual_address_bits (pc_mode (pt_config pt))"
  have v: "unat v < 2 ^ 47" using assms by (simp add: USER_SPACE_END_def word_less_nat_alt)
  have hi: "\<not> bit v n" if "47 \<le> n" for n
  proof -
    have "unat v < 2 ^ n" using v power_increasing [OF that, of "2 :: nat"] by simp
    then have "\<not> bit (unat v) n" by (metis bit_take_bit_iff less_irrefl take_bit_nat_eq_self)
    then show ?thesis by (simp add: bit_unsigned_iff)
  qed
  have "signed_drop_bit ?s (push_bit ?s v) = v"
  proof (rule bit_word_eqI)
    fix n :: nat assume "n < LENGTH(64)"
    then show "bit (signed_drop_bit ?s (push_bit ?s v)) n = bit v n"
      using hi by (cases "pc_mode (pt_config pt)") (auto simp: bit_signed_drop_bit_iff bit_push_bit_iff)
  qed
  then show ?thesis by (simp add: is_canonical_def Let_def)
qed

lemma mapping_same_page:
  assumes "as_inv space s" "is_canonical (as_root space) a" "is_canonical (as_root space) b" "same_page a b"
  shows "address_space_mapping space (snd s) a = address_space_mapping space (snd s) b"
proof -
  have inv: "pt_inv (as_root space) (fst s) (snd s)" using assms(1) by (simp add: as_inv_def)
  have "page_entry (as_root space) (snd s) a = page_entry (as_root space) (snd s) b"
    using same_page_iff [OF assms(2,3)] assms(4) unfolding page_entry_def by (simp cong: option.case_cong)
  then show ?thesis
    using page_table_mapping_eq [OF inv assms(2)] page_table_mapping_eq [OF inv assms(3)] by (simp add: address_space_mapping_def)
qed

lemma align_down_aligned: "unat (a AND NOT (FRAME_SIZE - 1)) = unat a div 4096 * 4096"
  using unat_and_not_low12 [of a] by (simp add: FRAME_SIZE_def minus_mod_eq_div_mult)

lemma set_page_range:
  assumes "unat start mod 4096 = 0" "unat stop \<le> 2 ^ 63"
  shows "p \<in> set (page_range start stop) \<longleftrightarrow> unat p mod 4096 = 0 \<and> start \<le> p \<and> p < stop"
proof
  have k: "unat (start + of_nat (k * 4096)) = unat start + k * 4096 \<and> unat start + k * 4096 < unat stop"
    if "k < (unat stop - unat start + 4095) div 4096" for k
  proof -
    have "k * 4096 < unat stop - unat start" using that by simp
    then show ?thesis using assms(2) unat_add_small [of start "k * 4096"] by simp
  qed
  {
    assume "p \<in> set (page_range start stop)"
    then obtain k where "k < (unat stop - unat start + 4095) div 4096" "p = start + of_nat (k * 4096)"
      unfolding page_range_def set_map set_upt by (meson atLeastLessThan_iff imageE)
    then show "unat p mod 4096 = 0 \<and> start \<le> p \<and> p < stop"
      using k [of k] assms(1) by (simp add: word_le_nat_alt word_less_nat_alt)
  next
    assume p: "unat p mod 4096 = 0 \<and> start \<le> p \<and> p < stop"
    define j where "j = (unat p - unat start) div 4096"
    have le: "unat start \<le> unat p" "unat p < unat stop" using p by (simp_all add: word_le_nat_alt word_less_nat_alt)
    have "4096 dvd unat p - unat start" using p assms(1) by (intro dvd_diff_nat) (auto simp: mod_eq_0_iff_dvd)
    then have j: "unat p = unat start + j * 4096" unfolding j_def using le by auto
    then have lt: "j < (unat stop - unat start + 4095) div 4096" using le by simp
    have "unat (start + of_nat (j * 4096)) = unat p" using k [OF lt] j by simp
    then have "p = start + of_nat (j * 4096)" by (metis word_unat_eq_iff)
    then show "p \<in> set (page_range start stop)" using lt unfolding page_range_def set_map set_upt by auto
  }
qed

lemma validate_pages_iff:
  assumes "address_space_get t as_id = Some space"
  shows "validate_pages t m as_id wr pages = Inr () \<longleftrightarrow> (\<forall>p\<in>set pages. page_allows wr (address_space_mapping space m p))"
    "validate_pages t m as_id wr pages = Inr () \<or> validate_pages t m as_id wr pages = Inl BadAddress"
  using assms by (induction pages) auto

lemma validate_user_range_spec:
  assumes inv: "as_inv space (fa, m)" and sp: "address_space_get t as_id = Some space" and len: "len \<noteq> 0"
  shows "validate_user_range t m as_id start len wr =
    (if unat start + unat len \<le> unat USER_SPACE_END
        \<and> (\<forall>k<unat len. page_allows wr (address_space_mapping space m (start + of_nat k)))
     then Inr () else Inl BadAddress)"
proof (cases "unat start + unat len \<le> unat USER_SPACE_END")
  case False
  then show ?thesis
    using unat_add_no_overflow [of start len]
    by (auto simp: validate_user_range_def checked_add_def word_le_nat_alt word_less_nat_alt split: option.splits)
next
  case True
  have U: "unat USER_SPACE_END = 2 ^ 47" by (simp add: USER_SPACE_END_def)
  let ?base = "start AND NOT (FRAME_SIZE - 1)"
  have lpos: "0 < unat len" using len by (simp add: unat_gt_0)
  have e: "checked_add start len = Some (start + len)" "unat (start + len) = unat start + unat len"
    using True U unat_add_no_overflow [of start len] by (simp_all add: checked_add_def)
  have val: "validate_user_range t m as_id start len wr = validate_pages t m as_id wr (page_range ?base (start + len))"
    using True e lpos len by (auto simp: validate_user_range_def word_le_nat_alt word_less_nat_alt)
  have bytes: "unat (start + of_nat k) = unat start + k" if "k < unat len" for k
    using unat_add_small [of start k] that True U by simp
  have pages: "p \<in> set (page_range ?base (start + len)) \<longleftrightarrow> unat p mod 4096 = 0 \<and> ?base \<le> p \<and> p < start + len" for p
    using align_down_aligned [of start] e(2) True U by (intro set_page_range) simp_all
  have same: "address_space_mapping space m a = address_space_mapping space m b"
    if "unat a < 2 ^ 47" "unat b < 2 ^ 47" "unat a div 4096 = unat b div 4096" for a b
  proof -
    have "is_canonical (as_root space) x" if "unat x < 2 ^ 47" for x
      using that by (intro user_canonical) (simp add: word_less_nat_alt USER_SPACE_END_def)
    then show ?thesis using mapping_same_page [OF inv, of a b] that by (simp add: same_page_def)
  qed
  have "(\<forall>p\<in>set (page_range ?base (start + len)). page_allows wr (address_space_mapping space m p))
      \<longleftrightarrow> (\<forall>k<unat len. page_allows wr (address_space_mapping space m (start + of_nat k)))"
  proof (intro iffI ballI allI impI)
    fix k assume A: "\<forall>p\<in>set (page_range ?base (start + len)). page_allows wr (address_space_mapping space m p)" and k: "k < unat len"
    let ?p = "(start + of_nat k) AND NOT (FRAME_SIZE - 1)"
    have up: "unat ?p = (unat start + k) div 4096 * 4096" using align_down_aligned [of "start + of_nat k"] bytes [OF k] by simp
    have "unat ?base \<le> unat ?p" unfolding up align_down_aligned [of start] by (simp add: div_le_mono)
    moreover have "unat ?p < unat start + unat len" using up k div_times_less_eq_dividend [of "unat start + k" 4096] by linarith
    ultimately have "?p \<in> set (page_range ?base (start + len))"
      unfolding pages using up e(2) by (simp add: word_le_nat_alt word_less_nat_alt)
    then have "page_allows wr (address_space_mapping space m ?p)" using A by blast
    moreover have "address_space_mapping space m ?p = address_space_mapping space m (start + of_nat k)"
      using up bytes [OF k] k True U div_times_less_eq_dividend [of "unat start + k" 4096] by (intro same) simp_all
    ultimately show "page_allows wr (address_space_mapping space m (start + of_nat k))" by simp
  next
    fix p assume A: "\<forall>k<unat len. page_allows wr (address_space_mapping space m (start + of_nat k))"
      and "p \<in> set (page_range ?base (start + len))"
    then have p: "unat p mod 4096 = 0" "unat start div 4096 * 4096 \<le> unat p" "unat p < unat start + unat len"
      using pages [of p] align_down_aligned [of start] e(2) by (simp_all add: word_le_nat_alt word_less_nat_alt)
    define k where "k = unat p - unat start"
    have k: "k < unat len" using p lpos unfolding k_def by simp
    have "(unat start + k) div 4096 = unat p div 4096"
    proof (cases "unat start \<le> unat p")
      case False
      then have "unat p div 4096 = unat start div 4096" using p(2) div_le_mono [of "unat p" "unat start" 4096]
        div_le_mono [OF p(2), of 4096] by simp
      then show ?thesis using False by (simp add: k_def)
    qed (simp add: k_def)
    then have "address_space_mapping space m p = address_space_mapping space m (start + of_nat k)"
      using bytes [OF k] k True U p(3) by (intro same) simp_all
    then show "page_allows wr (address_space_mapping space m p)" using A k by simp
  qed
  then show ?thesis
    unfolding val using validate_pages_iff [OF sp] True by metis
qed


definition sample_table :: AddressSpaceTable where
  "sample_table = \<lparr>ast_entries = [Some sample_space]\<rparr>"


subsection \<open>Accesses to data pages\<close>

text \<open>
  A page that is mapped to an allocated frame which is no page table. Storing to it cannot
  change a translation.
\<close>

definition data_page :: "PageTable \<Rightarrow> alloc_mem \<Rightarrow> usize \<Rightarrow> bool" where
  "data_page pt s v \<longleftrightarrow> is_canonical pt v \<and>
     (\<exists>e. page_entry pt (snd s) v = Some e \<and> entry_writable e \<and> entry_physical_address e (pt_config pt) \<in> data_frames pt s)"

definition phys_of :: "PageTable \<Rightarrow> mem \<Rightarrow> usize \<Rightarrow> usize" where
  "phys_of pt m v = (case page_table_to_physical pt m v of None \<Rightarrow> 0 | Some p \<Rightarrow> p + dm_offset (pt_direct_map pt))"

lemma virt_read_spec:
  "(\<And>k. k < n \<Longrightarrow> page_table_to_physical pt m (v + of_nat k) \<noteq> None) \<Longrightarrow>
   virt_read pt m v n = Ret (map (\<lambda>k. m (phys_of pt m (v + of_nat k))) [0..<n])"
proof (induction n arbitrary: v)
  case (Suc n)
  have "virt_read pt m (v + 1) n = Ret (map (\<lambda>k. m (phys_of pt m (v + 1 + of_nat k))) [0..<n])"
  proof (rule Suc.IH)
    fix k assume "k < n"
    then show "page_table_to_physical pt m (v + 1 + of_nat k) \<noteq> None"
      using Suc.prems [of "Suc k"] by (simp add: add_ac)
  qed
  moreover have "virt_load pt m v = Ret (m (phys_of pt m v))"
    using Suc.prems [of 0] by (auto simp: virt_load_def phys_of_def)
  moreover have "[0..<Suc n] = 0 # map Suc [0..<n]" by (simp add: upt_conv_Cons map_Suc_upt del: upt_Suc)
  ultimately show ?case by (simp add: add_ac del: upt_Suc)
qed simp

lemma in_frame_offset:
  assumes "dm_frame pt f" "unat o4 < 4096"
  shows "in_frame pt f (f + o4 + dm_offset (pt_direct_map pt))"
proof -
  have "unat (f + dm_offset (pt_direct_map pt) + o4) = unat f + unat (dm_offset (pt_direct_map pt)) + unat o4"
    using assms dm_frame_unat [OF assms(1)] unat_add_no_overflow [of "f + dm_offset (pt_direct_map pt)" o4]
    by (simp add: dm_frame_def)
  then show ?thesis using assms(2) by (simp add: in_frame_def add_ac)
qed

lemma virt_store_spec:
  assumes inv: "pt_inv pt fa m" and dp: "data_page pt (fa, m) v"
  shows "virt_store pt m v b = Ret (m(phys_of pt m v := b))"
    and "pt_inv pt fa (m(phys_of pt m v := b))" "pt_tables pt (m(phys_of pt m v := b)) = pt_tables pt m"
    and "page_entry pt (m(phys_of pt m v := b)) a = page_entry pt m a"
proof -
  obtain e where e: "is_canonical pt v" "page_entry pt m v = Some e" "entry_writable e"
      "entry_physical_address e (pt_config pt) \<in> data_frames pt (fa, m)"
    using dp by (auto simp: data_page_def)
  let ?f = "entry_physical_address e (pt_config pt)" and ?m' = "m(phys_of pt m v := b)"
  have ph: "page_table_to_physical pt m v = Some (?f + page_offset v)" "phys_of pt m v = ?f + page_offset v + dm_offset (pt_direct_map pt)"
    using page_table_to_physical_eq [OF inv e(1)] e(2) by (simp_all add: phys_of_def)
  show "virt_store pt m v b = Ret ?m'"
    using page_table_mapping_eq [OF inv e(1)] e(2,3) ph
    by (simp add: virt_store_def entry_permissions_def page_permissions_def)
  have f: "fa_state fa ?f = Some Allocated" "?f \<notin> pt_tables pt m" using e(4) by (auto simp: data_frames_def)
  have dm: "dm_frame pt ?f" using fa_state_dm_frame [OF pt_invD(1) [OF inv] f(1)] .
  have "in_frame pt ?f (phys_of pt m v)"
    using in_frame_offset [OF dm, of "page_offset v"] page_offset_unat [of v] by (simp add: ph(2))
  then have se: "same_except pt {?f} m ?m'" by (auto simp: same_except_def)
  have same: "ent pt ?m' g j = ent pt m g j" if "g \<in> pt_tables pt m" "j < 512" for g j
    using same_except_ent [OF se pt_invD(5) [OF inv that(1)] _ _ that(2)] f(2) dm that(1) by auto
  show "pt_inv pt fa ?m'" "pt_tables pt ?m' = pt_tables pt m" "page_entry pt ?m' a = page_entry pt m a"
    by (rule pt_inv_frame [OF inv pt_invD(1) [OF inv]]; (erule pt_invD(4) [OF inv] | erule (1) same))+
qed

text \<open>What the translation of an address depends on: the entry of its page.\<close>

lemma phys_of_cong:
  assumes "pt_inv pt fa m" "pt_inv pt fa' m'" "page_entry pt m' v = page_entry pt m v" "is_canonical pt v"
  shows "phys_of pt m' v = phys_of pt m v"
  using page_table_to_physical_eq [OF assms(1,4)] page_table_to_physical_eq [OF assms(2,4)] assms(3) by (simp add: phys_of_def)

lemma virt_write_spec:
  assumes "pt_inv pt fa m" "\<And>k. k < length bs \<Longrightarrow> data_page pt (fa, m) (v + of_nat k)"
  shows "\<exists>m'. virt_write pt v bs m = Ret m' \<and> pt_inv pt fa m' \<and> pt_tables pt m' = pt_tables pt m
    \<and> (\<forall>a. page_entry pt m' a = page_entry pt m a)
    \<and> (\<forall>x. (\<forall>k<length bs. x \<noteq> phys_of pt m (v + of_nat k)) \<longrightarrow> m' x = m x)
    \<and> (inj_on (\<lambda>k. phys_of pt m (v + of_nat k)) {..<length bs} \<longrightarrow> (\<forall>k<length bs. m' (phys_of pt m (v + of_nat k)) = bs ! k))"
  using assms
proof (induction bs arbitrary: v m)
  case Nil
  then show ?case by simp
next
  case (Cons b bs)
  let ?m1 = "m(phys_of pt m v := b)"
  have dp: "data_page pt (fa, m) v" using Cons.prems(2) [of 0] by simp
  note st = virt_store_spec [OF Cons.prems(1) dp, of b]
  have dp1: "data_page pt (fa, ?m1) (v + 1 + of_nat k)" if "k < length bs" for k
    using Cons.prems(2) [of "Suc k"] that by (simp add: data_page_def data_frames_def st(3,4) add_ac)
  have ph: "phys_of pt ?m1 (v + 1 + of_nat k) = phys_of pt m (v + of_nat (Suc k))" if "k < length bs" for k
    using phys_of_cong [OF Cons.prems(1) st(2) st(4)] dp1 [OF that] by (simp add: data_page_def add_ac)
  obtain m' where m': "virt_write pt (v + 1) bs ?m1 = Ret m'" "pt_inv pt fa m'" "pt_tables pt m' = pt_tables pt ?m1"
      "\<forall>a. page_entry pt m' a = page_entry pt ?m1 a"
      "\<forall>x. (\<forall>k<length bs. x \<noteq> phys_of pt ?m1 (v + 1 + of_nat k)) \<longrightarrow> m' x = ?m1 x"
      "inj_on (\<lambda>k. phys_of pt ?m1 (v + 1 + of_nat k)) {..<length bs} \<longrightarrow>
         (\<forall>k<length bs. m' (phys_of pt ?m1 (v + 1 + of_nat k)) = bs ! k)"
    using Cons.IH [OF st(2) dp1] by blast
  have "m' x = m x" if "\<forall>k<length (b # bs). x \<noteq> phys_of pt m (v + of_nat k)" for x
  proof -
    have "x \<noteq> phys_of pt m v" using that [rule_format, of 0] by simp
    moreover have "\<forall>k<length bs. x \<noteq> phys_of pt ?m1 (v + 1 + of_nat k)" using that ph by (metis Suc_less_eq length_Cons)
    ultimately show ?thesis using m'(5) by simp
  qed
  moreover have "m' (phys_of pt m (v + of_nat k)) = (b # bs) ! k"
    if inj: "inj_on (\<lambda>k. phys_of pt m (v + of_nat k)) {..<length (b # bs)}" and k: "k < length (b # bs)" for k
  proof (cases k)
    case 0
    have "\<forall>j<length bs. phys_of pt m v \<noteq> phys_of pt ?m1 (v + 1 + of_nat j)"
    proof (intro allI impI notI)
      fix j assume "j < length bs" "phys_of pt m v = phys_of pt ?m1 (v + 1 + of_nat j)"
      then show False using inj_onD [OF inj, of 0 "Suc j"] ph [of j] by simp
    qed
    then show ?thesis using m'(5) 0 by simp
  next
    case (Suc j)
    have "inj_on (\<lambda>k. phys_of pt ?m1 (v + 1 + of_nat k)) {..<length bs}"
    proof (rule inj_onI)
      fix i l assume "i \<in> {..<length bs}" "l \<in> {..<length bs}" "phys_of pt ?m1 (v + 1 + of_nat i) = phys_of pt ?m1 (v + 1 + of_nat l)"
      then show "i = l" using inj_onD [OF inj, of "Suc i" "Suc l"] ph [of i] ph [of l] by simp
    qed
    then have "m' (phys_of pt ?m1 (v + 1 + of_nat j)) = bs ! j" using m'(6) Suc k by simp
    then show ?thesis using Suc k ph [of j] by (simp del: of_nat_Suc)
  qed
  moreover have "virt_write pt v (b # bs) m = Ret m'" using st(1) m'(1) by simp
  moreover have "pt_tables pt m' = pt_tables pt m" "\<forall>a. page_entry pt m' a = page_entry pt m a"
    using m'(3,4) st(3,4) by simp_all
  ultimately show ?case using m'(2) by blast
qed

subsection \<open>Copying\<close>

text \<open>The user pages of a space are data pages: what the kernel maps for user code are data frames.\<close>

definition user_pages_data :: "AddressSpace \<Rightarrow> alloc_mem \<Rightarrow> bool" where
  "user_pages_data space s \<longleftrightarrow>
     (\<forall>v f p. v < USER_SPACE_END \<longrightarrow> as_look space s v = Some (f, p) \<longrightarrow> f \<in> as_owned space s)"

lemma user_pages_dataD:
  assumes "user_pages_data space s" "v < USER_SPACE_END" "page_entry (as_root space) (snd s) v = Some e"
  shows "entry_physical_address e (pt_config (as_root space)) \<in> data_frames (as_root space) s"
proof -
  let ?a = "v AND NOT (FRAME_SIZE - 1)" and ?pt = "as_root space"
  have a: "unat ?a = unat v div 4096 * 4096" by (rule align_down_aligned)
  then have "unat ?a \<le> unat v" by simp
  then have lt: "?a < USER_SPACE_END" using assms(2) by (simp add: word_less_nat_alt)
  note c = user_canonical [OF lt, of ?pt] user_canonical [OF assms(2), of ?pt]
  have "same_page ?a v" using a by (simp add: same_page_def)
  then have "page_entry ?pt (snd s) ?a = Some e"
    using same_page_iff [OF c] assms(3) unfolding page_entry_def by (simp cong: option.case_cong)
  moreover have "?a mod PAGE_SIZE = 0"
    using frame_aligned_unat [of ?a] a by (simp add: frame_aligned_def FRAME_SIZE_def PAGE_SIZE_def)
  ultimately have "as_look space s ?a = Some (entry_physical_address e (pt_config ?pt), entry_permissions e)"
    using c(1) lt by (simp add: as_look_def as_covers_def page_view_def)
  then show ?thesis using assms(1) lt by (auto simp: user_pages_data_def as_owned_def)
qed

lemma allowed_byte:
  assumes "as_inv space (fa, m)" "v < USER_SPACE_END" "page_allows wr (address_space_mapping space m v)"
  obtains e where "page_entry (as_root space) m v = Some e" "is_user_accessible e" "wr \<Longrightarrow> entry_writable e"
    "page_table_to_physical (as_root space) m v = Some (entry_physical_address e (pt_config (as_root space)) + page_offset v)"
proof -
  have inv: "pt_inv (as_root space) fa m" and c: "is_canonical (as_root space) v"
    using assms(1,2) user_canonical by (auto simp: as_inv_def)
  show thesis
    using assms(3) page_table_mapping_eq [OF inv c] page_table_to_physical_eq [OF inv c] that
    by (auto simp: page_allows_def address_space_mapping_def entry_permissions_def page_permissions_def split: option.splits)
qed

lemma validated_bytes:
  assumes "as_inv space (fa, m)" "address_space_get t as_id = Some space"
    "validate_user_range t m as_id start len wr = Inr ()" "k < unat len"
  shows "start + of_nat k < USER_SPACE_END" "page_allows wr (address_space_mapping space m (start + of_nat k))"
    "unat start + unat len \<le> unat USER_SPACE_END"
proof -
  have "len \<noteq> 0" using assms(4) by auto
  then have v: "unat start + unat len \<le> unat USER_SPACE_END"
      "\<forall>k<unat len. page_allows wr (address_space_mapping space m (start + of_nat k))"
    using validate_user_range_spec [OF assms(1,2), of len start wr] assms(3) by (auto split: if_splits)
  then have "unat (start + of_nat k) = unat start + k"
    using unat_add_small [of start k] assms(4) by (simp add: USER_SPACE_END_def)
  then show "start + of_nat k < USER_SPACE_END" using v(1) assms(4) by (simp add: word_less_nat_alt)
  show "page_allows wr (address_space_mapping space m (start + of_nat k))" "unat start + unat len \<le> unat USER_SPACE_END"
    using v assms(4) by auto
qed

lemma copy_from_user_spec:
  assumes inv: "as_inv space (fa, m)" and sp: "address_space_get t as_id = Some space"
    and val: "validate_user_range t m as_id src len wr = Inr ()" and len: "n \<le> unat len"
  shows "copy_from_user (as_root space) m src n =
    Ret (Inr (map (\<lambda>k. m (phys_of (as_root space) m (src + of_nat k))) [0..<n]))"
proof (cases "n = 0")
  case True
  have "\<not> USER_SPACE_END \<le> src"
    using val by (auto simp: validate_user_range_def split: option.splits if_splits)
  then show ?thesis using True unat_u64_bound [of src] by (auto simp: copy_from_user_def checked_add_def not_le)
next
  case False
  note vb = validated_bytes [OF inv sp val]
  have "page_table_to_physical (as_root space) m (src + of_nat k) \<noteq> None" if "k < n" for k
  proof -
    have "k < unat len" using that len by simp
    then show ?thesis using allowed_byte [OF inv vb(1,2)] by blast
  qed
  then have "virt_read (as_root space) m src n = Ret (map (\<lambda>k. m (phys_of (as_root space) m (src + of_nat k))) [0..<n])"
    by (rule virt_read_spec)
  moreover have "unat src + n \<le> unat USER_SPACE_END" using vb(3) [of 0] False len by simp
  ultimately show ?thesis
    using unat_add_small [of src n] by (simp add: copy_from_user_def checked_add_def word_less_nat_alt USER_SPACE_END_def)
qed

text \<open>
  A validated range can be read: while the processor runs on the page table of the
  address space the range was validated in, \<open>copy_from_user\<close> of it neither fails nor faults,
  and returns the bytes the user's pages hold.
\<close>

theorem copy_from_validated:
  assumes inv: "as_inv space (fa, m)" and sp: "address_space_get t as_id = Some space"
    and val: "validate_user_range t m as_id src len wr = Inr ()" and len: "n \<le> unat len"
  shows "copy_from_user (as_root space) m src n =
    Ret (Inr (map (\<lambda>k. m (phys_of (as_root space) m (src + of_nat k))) [0..<n]))"
  by (rule copy_from_user_spec [OF assms])

text \<open>The bytes of an aligned word lie next to each other in memory.\<close>

lemma word_in_page:
  assumes "x mod 8 = 0" "k < (8 :: nat)"
  shows "x mod 4096 + k < 4096" "(x + k) div 4096 = x div 4096" "(x + k) mod 4096 = x mod 4096 + k"
proof -
  obtain q where x: "x = 8 * q" using assms(1) by auto
  have "x mod 4096 = 8 * (q mod 512)" unfolding x using mod_mult_mult1 [of 8 q 512] by simp
  moreover have "q mod 512 \<le> 511" using mod_less_divisor [of 512 q] by linarith
  ultimately show lt: "x mod 4096 + k < 4096" using assms(2) by linarith
  show "(x + k) div 4096 = x div 4096" using lt assms(2) div_add1_eq [of x k 4096] by simp
  show "(x + k) mod 4096 = x mod 4096 + k" using lt assms(2) mod_add_eq [of x 4096 k] by simp
qed

lemma word_phys:
  assumes inv: "as_inv space (fa, m)" and al: "dst mod 8 = 0" and k: "k < 8" and len: "unat dst + 8 \<le> unat USER_SPACE_END"
    and ok: "page_allows wr (address_space_mapping space m dst)"
  shows "phys_of (as_root space) m (dst + of_nat k) = phys_of (as_root space) m dst + of_nat k"
proof -
  let ?pt = "as_root space"
  have pinv: "pt_inv ?pt fa m" using inv by (simp add: as_inv_def)
  have u: "unat (dst + of_nat k) = unat dst + k" using len unat_add_small [of dst k] k by (simp add: USER_SPACE_END_def)
  have "unat dst mod unat (8 :: usize) = 0" using al by (metis unat_mod_distrib unat_0)
  then have "unat dst mod 8 = 0" by simp
  note d = word_in_page [OF this k]
  have dl: "dst < USER_SPACE_END" "dst + of_nat k < USER_SPACE_END" using len u k by (simp_all add: word_less_nat_alt)
  note c = user_canonical [OF dl(1), of ?pt] user_canonical [OF dl(2), of ?pt]
  obtain e where e: "page_entry ?pt m dst = Some e"
      "page_table_to_physical ?pt m dst = Some (entry_physical_address e (pt_config ?pt) + page_offset dst)"
    using allowed_byte [OF inv dl(1) ok] by blast
  have "same_page dst (dst + of_nat k)" using u d(2) by (simp add: same_page_def)
  then have "page_entry ?pt m (dst + of_nat k) = Some e"
    using same_page_iff [OF c] e(1) unfolding page_entry_def by (simp cong: option.case_cong)
  then have "page_table_to_physical ?pt m (dst + of_nat k) = Some (entry_physical_address e (pt_config ?pt) + page_offset (dst + of_nat k))"
    using page_table_to_physical_eq [OF pinv c(2)] by simp
  moreover have "page_offset (dst + of_nat k) = page_offset dst + of_nat k"
  proof -
    have "unat (page_offset dst + of_nat k) = unat dst mod 4096 + k"
      using page_offset_unat [of dst] d(1) unat_add_small [of "page_offset dst" k] by simp
    moreover have "unat (page_offset (dst + of_nat k)) = unat dst mod 4096 + k"
      using page_offset_unat [of "dst + of_nat k"] u d(3) by simp
    ultimately show ?thesis by (simp add: word_unat_eq_iff)
  qed
  ultimately show ?thesis using e(2) by (simp add: phys_of_def add_ac)
qed

lemma copy_val_to_user_spec:
  assumes inv: "as_inv space (fa, m)" and sp: "address_space_get t as_id = Some space"
    and val: "validate_user_range t m as_id dst 8 True = Inr ()" and al: "dst mod 8 = 0"
    and data: "user_pages_data space (fa, m)"
  shows "\<exists>m'. copy_val_to_user (as_root space) dst x m = Ret (Inr (), m') \<and> as_inv space (fa, m')
    \<and> copy_val_from_user (as_root space) m' dst = Ret (Inr x) \<and> pt_tables (as_root space) m' = pt_tables (as_root space) m
    \<and> (\<forall>v. page_entry (as_root space) m' v = page_entry (as_root space) m v)
    \<and> (\<forall>a. (\<forall>k<8. a \<noteq> phys_of (as_root space) m (dst + of_nat k)) \<longrightarrow> m' a = m a)"
proof -
  let ?pt = "as_root space"
  have pinv: "pt_inv ?pt fa m" using inv by (simp add: as_inv_def)
  have 8: "unat (8 :: usize) = 8" by simp
  note vb = validated_bytes [OF inv sp val, unfolded 8]
  have dp: "data_page ?pt (fa, m) (dst + of_nat k)" if "k < length (to_le_bytes 8 x)" for k
  proof -
    have k: "k < 8" using that by simp
    obtain e where "page_entry ?pt m (dst + of_nat k) = Some e" "entry_writable e"
      using allowed_byte [OF inv vb(1,2) [OF k]] by blast
    then show ?thesis
      using user_pages_dataD [OF data vb(1) [OF k]] user_canonical [OF vb(1) [OF k]] by (auto simp: data_page_def)
  qed
  have off: "phys_of ?pt m (dst + of_nat k) = phys_of ?pt m dst + of_nat k" if k: "k < 8" for k
    using word_phys [OF inv al k vb(3) [OF k], of True] vb(2) [of 0] by simp
  have inj: "inj_on (\<lambda>k. phys_of ?pt m (dst + of_nat k)) {..<length (to_le_bytes 8 x)}"
  proof (rule inj_onI)
    fix i j assume ij: "i \<in> {..<length (to_le_bytes 8 x)}" "j \<in> {..<length (to_le_bytes 8 x)}"
      and "phys_of ?pt m (dst + of_nat i) = phys_of ?pt m (dst + of_nat j)"
    then have "(of_nat i :: usize) = of_nat j" using off by simp
    then have "unat (of_nat i :: usize) = unat (of_nat j :: usize)" by simp
    then show "i = j" using ij by simp
  qed
  obtain m' where m': "virt_write ?pt dst (to_le_bytes 8 x) m = Ret m'" "pt_inv ?pt fa m'"
      "pt_tables ?pt m' = pt_tables ?pt m"
      "\<forall>a. page_entry ?pt m' a = page_entry ?pt m a"
      "\<forall>a. (\<forall>k<8. a \<noteq> phys_of ?pt m (dst + of_nat k)) \<longrightarrow> m' a = m a"
      "\<forall>k<8. m' (phys_of ?pt m (dst + of_nat k)) = to_le_bytes 8 x ! k"
    using virt_write_spec [OF pinv, of "to_le_bytes 8 x" dst] dp inj unfolding length_to_le_bytes by blast
  have tr: "page_table_to_physical ?pt m' (dst + of_nat k) \<noteq> None \<and> phys_of ?pt m' (dst + of_nat k) = phys_of ?pt m (dst + of_nat k)"
    if k: "k < 8" for k
  proof -
    have c: "is_canonical ?pt (dst + of_nat k)" using user_canonical [OF vb(1) [OF k]] .
    then show ?thesis
      using dp k m'(4) page_table_to_physical_eq [OF m'(2) c] phys_of_cong [OF pinv m'(2) _ c] by (auto simp: data_page_def)
  qed
  have "virt_read ?pt m' dst 8 = Ret (map (\<lambda>k. m' (phys_of ?pt m' (dst + of_nat k))) [0..<8])"
    by (rule virt_read_spec) (use tr in blast)
  also have "map (\<lambda>k. m' (phys_of ?pt m' (dst + of_nat k))) [0..<8] = to_le_bytes 8 x"
    using m'(6) tr by (intro nth_equalityI) simp_all
  finally have rd: "virt_read ?pt m' dst 8 = Ret (to_le_bytes 8 x)" .
  have end8: "checked_add dst 8 = Some (dst + 8)" "\<not> USER_SPACE_END < dst + 8"
    using vb(3) [of 0] unat_add_small [of dst 8] by (simp_all add: checked_add_def word_less_nat_alt USER_SPACE_END_def)
  have "copy_val_from_user ?pt m' dst = Ret (Inr x)"
    using al end8 rd from_to_le_bytes [where n = 8 and w = x] by (simp add: copy_val_from_user_def)
  moreover have "copy_val_to_user ?pt dst x m = Ret (Inr (), m')" using al end8 m'(1) by (simp add: copy_val_to_user_def)
  ultimately show ?thesis using m'(2-5) by (auto simp: as_inv_def)
qed

text \<open>
  A value stored with \<open>copy_val_to_user\<close> to a validated, aligned address is read back by
  \<open>copy_val_from_user\<close>: the store does not fault, it changes no translation, and only the eight
  bytes of the value change.
\<close>

theorem copy_val_roundtrip:
  assumes inv: "as_inv space (fa, m)" and sp: "address_space_get t as_id = Some space"
    and val: "validate_user_range t m as_id dst 8 True = Inr ()" and al: "dst mod 8 = 0"
    and data: "user_pages_data space (fa, m)"
  shows "\<exists>m'. copy_val_to_user (as_root space) dst x m = Ret (Inr (), m') \<and> as_inv space (fa, m')
    \<and> copy_val_from_user (as_root space) m' dst = Ret (Inr x)
    \<and> (\<forall>v. page_entry (as_root space) m' v = page_entry (as_root space) m v)
    \<and> (\<forall>a. (\<forall>k<8. a \<noteq> phys_of (as_root space) m (dst + of_nat k)) \<longrightarrow> m' a = m a)"
  using copy_val_to_user_spec [OF assms] by blast

subsection \<open>A sample user page\<close>

text \<open>The state after allocating a one-page user stack: the page below \<open>0x7FFFFFFFF000\<close> is a data page.\<close>

lemma sample_user_page:
  obtains fa m where "as_inv sample_space (fa, m)" "user_pages_data sample_space (fa, m)"
    "validate_user_range sample_table m 0 0x7FFFFFFFE000 8 True = Inr ()"
proof -
  let ?p = "page_permissions True False True" and ?v = "0x7FFFFFFFE000 :: usize"
  obtain stack s where al: "stack_allocate sample_space 0x1000 0x7FFFFFFFF000 ?p (sample_fa8, zero_mem) = Ret (Inr stack, s)"
    using sample_stack by blast
  have n: "unat ((0x1000 :: usize) div FRAME_SIZE) = 1" by (simp add: FRAME_SIZE_def)
  have inv: "as_inv sample_space s" and mp: "stack_mapped sample_space ?p ?v 1 (sample_fa8, zero_mem) s"
    using stack_allocate_spec [OF sample_space_inv, of "0x1000" "0x7FFFFFFFF000" ?p] al n by auto
  obtain fs where fs: "length fs = 1" "as_owned sample_space s = as_owned sample_space (sample_fa8, zero_mem) \<union> set fs"
      "as_look sample_space s ?v = Some (fs ! 0, ?p)"
      "\<And>v. v \<noteq> ?v \<Longrightarrow> as_look sample_space s v = as_look sample_space (sample_fa8, zero_mem) v"
    using mp unfolding stack_mapped_def by (force simp: less_Suc_eq)
  have none: "as_look sample_space (sample_fa8, zero_mem) v = None" for v
    using sample_pt_inv(2) by (simp add: as_look_def page_view_def sample_space_def)
  have "user_pages_data sample_space s"
    unfolding user_pages_data_def
  proof (intro allI impI)
    fix v f p assume "as_look sample_space s v = Some (f, p)"
    then have "v = ?v" "f = fs ! 0" using fs(3,4) none by (cases "v = ?v"; simp)+
    then show "f \<in> as_owned sample_space s" using fs(1,2) by simp
  qed
  moreover have "validate_user_range sample_table (snd s) 0 ?v 8 True = Inr ()"
  proof -
    have c: "as_covers sample_space ?v" "is_canonical (as_root sample_space) ?v" "?v mod PAGE_SIZE = 0"
      using as_look_SomeD [OF fs(3)] by auto
    have "address_space_mapping sample_space (snd s) ?v = Some ?p"
      using as_look_translation(2) [OF inv c] fs(3) by simp
    moreover have "page_range (?v AND NOT (FRAME_SIZE - 1)) (?v + 8) = [?v]" by (simp add: page_range_def FRAME_SIZE_def)
    ultimately show ?thesis
      by (simp add: validate_user_range_def checked_add_def USER_SPACE_END_def sample_table_def address_space_get_def
          page_allows_def page_permissions_def)
  qed
  ultimately show thesis using that [of "fst s" "snd s"] inv by simp
qed

lemma sample_table_get: "address_space_get sample_table 0 = Some sample_space"
  by (simp add: sample_table_def address_space_get_def)

theorem copy_from_validated_witness:
  "\<exists>m bs. copy_from_user sample_pt m 0x7FFFFFFFE000 8 = Ret (Inr bs) \<and> length bs = 8"
proof -
  obtain fa m where s: "as_inv sample_space (fa, m)" "validate_user_range sample_table m 0 0x7FFFFFFFE000 8 True = Inr ()"
    using sample_user_page by metis
  show ?thesis
    using copy_from_validated [OF s(1) sample_table_get s(2), of 8] by (fastforce simp: sample_space_def)
qed

theorem copy_val_roundtrip_witness:
  "\<exists>m m'. copy_val_to_user sample_pt 0x7FFFFFFFE000 42 m = Ret (Inr (), m') \<and> copy_val_from_user sample_pt m' 0x7FFFFFFFE000 = Ret (Inr 42)"
proof -
  obtain fa m where s: "as_inv sample_space (fa, m)" "user_pages_data sample_space (fa, m)"
      "validate_user_range sample_table m 0 0x7FFFFFFFE000 8 True = Inr ()"
    using sample_user_page by metis
  show ?thesis
    using copy_val_roundtrip [OF s(1) sample_table_get s(3) _ s(2), of 42] by (auto simp: sample_space_def)
qed

end
