(* ===== verification/Syscalls_Memory.thy ===== *)
theory Syscalls_Memory
  imports Syscalls_Invariant User_Correctness
begin

section \<open>System calls on user memory\<close>

text \<open>
  What \<open>sys_write\<close>, \<open>sys_send\<close> and \<open>sys_recv\<close> do for a task that runs on its own address space:
  which bytes they move, and that a validated pointer can never make the kernel fault.
\<close>

text \<open>
  A task runs: it is the current task, the processor uses the page table of its address space,
  the tables are well-formed, and the pages of the user half are data pages.
\<close>

definition running :: "Kernel \<Rightarrow> TaskId \<Rightarrow> Tcb \<Rightarrow> AddressSpace \<Rightarrow> FrameAllocator \<Rightarrow> bool" where
  "running k c task space fa \<longleftrightarrow> current_task k = Ret (c, task)
     \<and> address_space_get (k_spaces k) (tcb_as_id task) = Some space \<and> k_active k = as_root space
     \<and> k_allocator k = Some fa \<and> as_inv space (fa, k_mem k) \<and> user_pages_data space (fa, k_mem k)"

text \<open>The bytes of user memory.\<close>

definition user_bytes :: "PageTable \<Rightarrow> mem \<Rightarrow> usize \<Rightarrow> nat \<Rightarrow> u8 list" where
  "user_bytes pt m v n = map (\<lambda>k. m (phys_of pt m (v + of_nat k))) [0..<n]"

subsection \<open>Stores to user pages keep the task running\<close>

lemma running_mem:
  assumes "running k c task space fa" "as_inv space (fa, m')" "pt_tables (as_root space) m' = pt_tables (as_root space) (k_mem k)"
    "\<forall>v. page_entry (as_root space) m' v = page_entry (as_root space) (k_mem k) v"
  shows "running (k\<lparr>k_mem := m'\<rparr>) c task space fa"
proof -
  have "as_look space (fa, m') = as_look space (fa, k_mem k)"
    using assms(4) by (simp add: as_look_def page_view_def fun_eq_iff)
  moreover have "as_owned space (fa, m') = as_owned space (fa, k_mem k)"
    using assms(3) by (simp add: as_owned_def data_frames_def)
  ultimately show ?thesis
    using assms(1,2) by (simp add: running_def user_pages_data_def current_task_def)
qed

lemma validate_cong:
  assumes "as_inv space (fa, m)" "as_inv space (fa', m')" "address_space_get t as_id = Some space"
    "\<forall>v. page_entry (as_root space) m' v = page_entry (as_root space) m v"
  shows "validate_user_range t m' as_id start len wr = validate_user_range t m as_id start len wr"
proof (cases "len = 0")
  case True
  then show ?thesis by (simp add: validate_user_range_def split: option.split)
next
  case False
  have "address_space_mapping space m' v = address_space_mapping space m v" for v
    using page_table_mapping_eq [of "as_root space" fa m v] page_table_mapping_eq [of "as_root space" fa' m' v] assms
    by (cases "is_canonical (as_root space) v") (auto simp: as_inv_def address_space_mapping_def page_table_mapping_def)
  then show ?thesis
    using validate_user_range_spec [OF assms(1,3) False] validate_user_range_spec [OF assms(2,3) False] by simp
qed

lemma validated_mapped:
  assumes run: "running k c task space fa" and val: "validate k (tcb_as_id task) p len wr = Inr ()"
  shows "j < unat len \<Longrightarrow> page_table_to_physical (k_active k) (k_mem k) (p + of_nat j) \<noteq> None"
    "unat p + unat len \<le> unat USER_SPACE_END"
proof -
  have r: "address_space_get (k_spaces k) (tcb_as_id task) = Some space" "k_active k = as_root space" "as_inv space (fa, k_mem k)"
    using run by (simp_all add: running_def)
  note vb = validated_bytes [OF r(3,1) val [unfolded validate_def]]
  show "page_table_to_physical (k_active k) (k_mem k) (p + of_nat j) \<noteq> None" if "j < unat len"
    using allowed_byte [OF r(3) vb(1,2) [OF that]] r(2) by (metis option.distinct(1))
  show "unat p + unat len \<le> unat USER_SPACE_END"
    using val unat_add_no_overflow [of p len]
    by (auto simp: validate_def validate_user_range_def checked_add_def word_less_nat_alt split: if_splits)
qed

lemma copy_from_user_mapped:
  assumes "\<And>k. k < n \<Longrightarrow> page_table_to_physical pt m (src + of_nat k) \<noteq> None" "unat src + n \<le> unat USER_SPACE_END"
  shows "copy_from_user pt m src n = Ret (Inr (user_bytes pt m src n))"
  using virt_read_spec [OF assms(1)] assms(2) unat_add_small [of src n]
  by (simp add: copy_from_user_def checked_add_def word_less_nat_alt USER_SPACE_END_def user_bytes_def)

subsection \<open>Stores and their footprints\<close>

text \<open>The memory cells behind a range of user addresses, and a store that stays inside a set of cells.\<close>

definition footprint :: "PageTable \<Rightarrow> mem \<Rightarrow> usize \<Rightarrow> nat \<Rightarrow> usize set" where
  "footprint pt m v n = (\<lambda>j. phys_of pt m (v + of_nat j)) ` {..<n}"

definition stores :: "AddressSpace \<Rightarrow> FrameAllocator \<Rightarrow> usize set \<Rightarrow> mem \<Rightarrow> mem \<Rightarrow> bool" where
  "stores space fa cells m m' \<longleftrightarrow> as_inv space (fa, m) \<and> as_inv space (fa, m')
     \<and> pt_tables (as_root space) m' = pt_tables (as_root space) m
     \<and> (\<forall>v. page_entry (as_root space) m' v = page_entry (as_root space) m v) \<and> (\<forall>a. a \<notin> cells \<longrightarrow> m' a = m a)"

lemma stores_refl: "as_inv space (fa, m) \<Longrightarrow> stores space fa {} m m"
  by (simp add: stores_def)

lemma stores_trans: "stores space fa A m m1 \<Longrightarrow> stores space fa B m1 m2 \<Longrightarrow> stores space fa (A \<union> B) m m2"
  by (simp add: stores_def)

lemma stores_running: "running k c task space fa \<Longrightarrow> stores space fa A (k_mem k) m' \<Longrightarrow> running (k\<lparr>k_mem := m'\<rparr>) c task space fa"
  by (rule running_mem) (simp_all add: stores_def)

lemma stores_validate:
  "running k c task space fa \<Longrightarrow> stores space fa A (k_mem k) m' \<Longrightarrow>
   validate (k\<lparr>k_mem := m'\<rparr>) (tcb_as_id task) p n wr = validate k (tcb_as_id task) p n wr"
  using validate_cong [of space fa "k_mem k" fa m' "k_spaces k" "tcb_as_id task" p n wr]
  by (simp add: stores_def running_def validate_def)

lemma stores_phys:
  assumes "stores space fa A m m'" "v < USER_SPACE_END"
  shows "phys_of (as_root space) m' v = phys_of (as_root space) m v"
  by (rule phys_of_cong) (use assms user_canonical in \<open>auto simp: stores_def as_inv_def\<close>)

text \<open>What lies outside of the cells that are stored to reads the same afterwards.\<close>

lemma stores_frame:
  assumes st: "stores space fa A m m'" and ub: "unat v + n \<le> unat USER_SPACE_END"
    and dj: "footprint (as_root space) m v n \<inter> A = {}"
  shows "user_bytes (as_root space) m' v n = user_bytes (as_root space) m v n"
    "footprint (as_root space) m' v n = footprint (as_root space) m v n"
proof -
  have lt: "v + of_nat j < USER_SPACE_END" if "j < n" for j
    using that ub unat_add_small [of v j] by (simp add: word_less_nat_alt USER_SPACE_END_def)
  note ph = stores_phys [OF st lt]
  show "footprint (as_root space) m' v n = footprint (as_root space) m v n" unfolding footprint_def using ph by auto
  have "m' (phys_of (as_root space) m (v + of_nat j)) = m (phys_of (as_root space) m (v + of_nat j))" if "j < n" for j
    using st dj that by (auto simp: stores_def footprint_def)
  then show "user_bytes (as_root space) m' v n = user_bytes (as_root space) m v n" using ph by (simp add: user_bytes_def)
qed

lemma copy_val_from_user_bytes:
  assumes run: "running k c task space fa" and val: "validate k (tcb_as_id task) p 8 wr = Inr ()" and al: "p mod 8 = 0"
  shows "copy_val_from_user (as_root space) (k_mem k) p = Ret (Inr (from_le_bytes (user_bytes (as_root space) (k_mem k) p 8)))"
proof -
  have act: "k_active k = as_root space" using run by (simp add: running_def)
  have "virt_read (as_root space) (k_mem k) p 8 = Ret (user_bytes (as_root space) (k_mem k) p 8)"
    unfolding user_bytes_def using validated_mapped(1) [OF run val] act by (intro virt_read_spec) simp
  moreover have "checked_add p 8 = Some (p + 8)" "\<not> USER_SPACE_END < p + 8"
    using validated_mapped(2) [OF run val] unat_add_small [of p 8] by (simp_all add: checked_add_def word_less_nat_alt USER_SPACE_END_def)
  ultimately show ?thesis using al by (simp add: copy_val_from_user_def)
qed

lemma k_copy_val_stores:
  assumes run: "running k c task space fa" and val: "validate k (tcb_as_id task) p 8 True = Inr ()" and al: "p mod 8 = 0"
  shows "\<exists>m'. k_copy_val p x k = Ret (Inr (), k\<lparr>k_mem := m'\<rparr>) \<and> stores space fa (footprint (as_root space) (k_mem k) p 8) (k_mem k) m'
    \<and> copy_val_from_user (as_root space) m' p = Ret (Inr x)"
proof -
  have r: "address_space_get (k_spaces k) (tcb_as_id task) = Some space" "k_active k = as_root space"
      "as_inv space (fa, k_mem k)" "user_pages_data space (fa, k_mem k)"
    using run by (simp_all add: running_def)
  obtain m' where m': "copy_val_to_user (as_root space) p x (k_mem k) = Ret (Inr (), m')" "as_inv space (fa, m')"
      "copy_val_from_user (as_root space) m' p = Ret (Inr x)" "pt_tables (as_root space) m' = pt_tables (as_root space) (k_mem k)"
      "\<forall>v. page_entry (as_root space) m' v = page_entry (as_root space) (k_mem k) v"
      "\<forall>a. (\<forall>j<8. a \<noteq> phys_of (as_root space) (k_mem k) (p + of_nat j)) \<longrightarrow> m' a = k_mem k a"
    using copy_val_to_user_spec [OF r(3,1) val [unfolded validate_def] al r(4), of x] by blast
  have "stores space fa (footprint (as_root space) (k_mem k) p 8) (k_mem k) m'"
    using m'(2,4-6) r(3) unfolding stores_def footprint_def by (simp add: image_iff)
  then show ?thesis using m'(1,3) r(2) by (auto simp: k_copy_val_def)
qed

lemma k_copy_out_stores:
  assumes run: "running k c task space fa" and val: "validate k (tcb_as_id task) p len True = Inr ()" and len: "length bs \<le> unat len"
  shows "\<exists>m'. k_copy_out p bs k = Ret (Inr (), k\<lparr>k_mem := m'\<rparr>) \<and> stores space fa (footprint (as_root space) (k_mem k) p (length bs)) (k_mem k) m'
    \<and> (inj_on (\<lambda>j. phys_of (as_root space) (k_mem k) (p + of_nat j)) {..<length bs} \<longrightarrow> user_bytes (as_root space) m' p (length bs) = bs)"
proof -
  let ?pt = "as_root space" and ?m = "k_mem k"
  have r: "address_space_get (k_spaces k) (tcb_as_id task) = Some space" "k_active k = as_root space"
      "as_inv space (fa, k_mem k)" "user_pages_data space (fa, k_mem k)"
    using run by (simp_all add: running_def)
  have pinv: "pt_inv ?pt fa ?m" using r(3) by (simp add: as_inv_def)
  note vb = validated_bytes [OF r(3,1) val [unfolded validate_def]]
  have ub: "unat p + length bs \<le> unat USER_SPACE_END" using validated_mapped(2) [OF run val] len by simp
  have dp: "data_page ?pt (fa, ?m) (p + of_nat j)" if "j < length bs" for j
  proof -
    have j: "j < unat len" using that len by simp
    obtain e where "page_entry ?pt ?m (p + of_nat j) = Some e" "entry_writable e"
      using allowed_byte [OF r(3) vb(1,2) [OF j]] by blast
    then show ?thesis
      using user_pages_dataD [OF r(4) vb(1) [OF j]] user_canonical [OF vb(1) [OF j]] by (auto simp: data_page_def)
  qed
  obtain m' where m': "virt_write ?pt p bs ?m = Ret m'" "pt_inv ?pt fa m'" "pt_tables ?pt m' = pt_tables ?pt ?m"
      "\<forall>a. page_entry ?pt m' a = page_entry ?pt ?m a"
      "\<forall>x. (\<forall>j<length bs. x \<noteq> phys_of ?pt ?m (p + of_nat j)) \<longrightarrow> m' x = ?m x"
      "inj_on (\<lambda>j. phys_of ?pt ?m (p + of_nat j)) {..<length bs} \<longrightarrow> (\<forall>j<length bs. m' (phys_of ?pt ?m (p + of_nat j)) = bs ! j)"
    using virt_write_spec [OF pinv, of bs p] dp by blast
  have st: "stores space fa (footprint ?pt ?m p (length bs)) ?m m'"
    using m'(2-5) r(3) by (auto simp: stores_def as_inv_def footprint_def)
  have "user_bytes ?pt m' p (length bs) = bs" if "inj_on (\<lambda>j. phys_of ?pt ?m (p + of_nat j)) {..<length bs}"
  proof (rule nth_equalityI)
    fix j assume "j < length (user_bytes ?pt m' p (length bs))"
    then have j: "j < length bs" by (simp add: user_bytes_def)
    then have "p + of_nat j < USER_SPACE_END"
      using ub unat_add_small [of p j] by (simp add: word_less_nat_alt USER_SPACE_END_def)
    then show "user_bytes ?pt m' p (length bs) ! j = bs ! j"
      using m'(6) that j stores_phys [OF st] by (simp add: user_bytes_def)
  qed (simp add: user_bytes_def)
  moreover have "k_copy_out p bs k = Ret (Inr (), k\<lparr>k_mem := m'\<rparr>)"
    using m'(1) r(2) ub unat_add_small [of p "length bs"]
    by (simp add: k_copy_out_def copy_to_user_def checked_add_def word_less_nat_alt USER_SPACE_END_def)
  ultimately show ?thesis using st by blast
qed

subsection \<open>Writing to the serial port\<close>

lemma serial_bytes_append [simp]: "serial_bytes (a @ b) = serial_bytes a @ serial_bytes b" "serial_bytes [] = []"
  by (simp_all add: serial_bytes_def)

lemma write_chunks_spec:
  assumes "\<And>j. j < len \<Longrightarrow> page_table_to_physical (k_active k) (k_mem k) (buf + of_nat j) \<noteq> None"
    and "unat buf + len \<le> unat USER_SPACE_END" "written \<le> len"
  shows "write_chunks buf len written k = Ret (Inr len, k\<lparr>k_serial := k_serial k
    @ serial_bytes (user_bytes (k_active k) (k_mem k) (buf + of_nat written) (len - written))\<rparr>)"
  using assms
proof (induction buf len written k rule: write_chunks.induct)
  case (1 buf len written k)
  show ?case
  proof (cases "written < len")
    case False
    then show ?thesis using "1.prems"(3) by (subst write_chunks.simps) (simp add: user_bytes_def)
  next
    case True
    let ?n = "min (len - written) 128" and ?src = "buf + of_nat written" and ?ub = "user_bytes (k_active k) (k_mem k)"
    have u: "unat ?src = unat buf + written" "checked_add buf (of_nat written) = Some ?src"
      using "1.prems"(2) True unat_add_small [of buf written] unat_of_nat_u64 [of written]
      by (simp_all add: checked_add_def USER_SPACE_END_def)
    have cp: "copy_from_user (k_active k) (k_mem k) ?src ?n = Ret (Inr (?ub ?src ?n))"
    proof (rule copy_from_user_mapped)
      fix j assume "j < ?n"
      then have "written + j < len" by linarith
      then show "page_table_to_physical (k_active k) (k_mem k) (?src + of_nat j) \<noteq> None"
        using "1.prems"(1) [of "written + j"] by (simp add: add_ac)
    qed (use "1.prems"(2) u True in simp)
    let ?k = "serial_write (?ub ?src ?n) k"
    have k: "k_active ?k = k_active k" "k_mem ?k = k_mem k" "k_serial ?k = k_serial k @ serial_bytes (?ub ?src ?n)"
      by (simp_all add: serial_write_def)
    have split: "?ub ?src (len - written) = ?ub ?src ?n @ ?ub (buf + of_nat (written + ?n)) (len - (written + ?n))"
    proof -
      have l: "len - written = ?n + (len - (written + ?n))" using True by linarith
      have "[0..<len - written] = [0..<?n] @ map (\<lambda>i. i + ?n) [0..<len - (written + ?n)]"
        unfolding map_add_upt by (subst l) (simp only: upt_add_eq_append [of 0 ?n, simplified] add.commute)
      then show ?thesis by (simp add: user_bytes_def add_ac o_def)
    qed
    have "write_chunks buf len (written + ?n) ?k = Ret (Inr len, ?k\<lparr>k_serial := k_serial ?k
        @ serial_bytes (user_bytes (k_active ?k) (k_mem ?k) (buf + of_nat (written + ?n)) (len - (written + ?n)))\<rparr>)"
      using "1.prems" True by (intro "1.IH" [OF _ refl u(2) cp refl]) (simp_all add: k)
    then show ?thesis
      using True u(2) cp by (subst write_chunks.simps) (simp add: k split serial_write_def Let_def)
  qed
qed

lemma running_serial: "running (k\<lparr>k_serial := bs\<rparr>) c task space fa = running k c task space fa"
  by (simp add: running_def current_task_def)

lemma check_out_ptrD:
  assumes "check_out_ptr k as_id p = Inr ()" "p \<noteq> 0"
  shows "p mod 8 = 0" "validate k as_id p 8 True = Inr ()"
  using assms by (auto simp: check_out_ptr_def split: if_splits)

text \<open>
  \<open>sys_write\<close> is exact and never faults: with a bad descriptor or a pointer that is not the
  caller's, it reports the error and changes nothing; otherwise the serial port receives
  exactly the bytes of the buffer, in order and whatever the chunking, with a carriage return
  before each newline, and the number of bytes is stored where the caller asked for it.
\<close>

theorem sys_write_exact:
  assumes run: "running k c task space fa"
  shows "if fd \<noteq> 1 \<and> fd \<noteq> 2 then sys_write fd buf len out_ptr k = Ret (Inl BadFileDescriptor, k)
    else case validate k (tcb_as_id task) buf len False of
        Inl e \<Rightarrow> sys_write fd buf len out_ptr k = Ret (Inl e, k)
      | Inr _ \<Rightarrow> (case check_out_ptr k (tcb_as_id task) out_ptr of
          Inl e \<Rightarrow> sys_write fd buf len out_ptr k = Ret (Inl e, k)
        | Inr _ \<Rightarrow> \<exists>m'. sys_write fd buf len out_ptr k = Ret (Inr (),
              k\<lparr>k_serial := k_serial k @ serial_bytes (user_bytes (as_root space) (k_mem k) buf (unat len)), k_mem := m'\<rparr>)
            \<and> (if out_ptr = 0 then m' = k_mem k else copy_val_from_user (as_root space) m' out_ptr = Ret (Inr len)))"
proof -
  have cur: "current_task k = Ret (c, task)" and act: "k_active k = as_root space" using run by (simp_all add: running_def)
  let ?k = "k\<lparr>k_serial := k_serial k @ serial_bytes (user_bytes (as_root space) (k_mem k) buf (unat len))\<rparr>"
  define bad_fd where "bad_fd \<longleftrightarrow> fd \<noteq> 1 \<and> fd \<noteq> 2"
  have "\<exists>m'. sys_write fd buf len out_ptr k = Ret (Inr (), ?k\<lparr>k_mem := m'\<rparr>)
      \<and> (if out_ptr = 0 then m' = k_mem k else copy_val_from_user (as_root space) m' out_ptr = Ret (Inr len))"
    if A: "\<not> bad_fd" "validate k (tcb_as_id task) buf len False = Inr ()" "check_out_ptr k (tcb_as_id task) out_ptr = Inr ()"
  proof -
    have "write_chunks buf (unat len) 0 k = Ret (Inr (unat len), ?k)"
      using write_chunks_spec [of "unat len" k buf 0] validated_mapped [OF run A(2)] act by simp
    then have eq: "sys_write fd buf len out_ptr k = (if out_ptr \<noteq> 0 then k_copy_val out_ptr len ?k else Ret (Inr (), ?k))"
      using A by (auto simp: sys_write_def cur bad_fd_def)
    show ?thesis
    proof (cases "out_ptr = 0")
      case False
      have v: "validate ?k (tcb_as_id task) out_ptr 8 True = Inr ()"
        using check_out_ptrD(2) [OF A(3) False] by (simp add: validate_def)
      show ?thesis
        using k_copy_val_stores [of ?k c task space fa out_ptr len] v check_out_ptrD(1) [OF A(3) False] run eq False act
        by (auto simp: running_serial)
    qed (use eq in auto)
  qed
  moreover have "bad_fd \<Longrightarrow> sys_write fd buf len out_ptr k = Ret (Inl BadFileDescriptor, k)"
      "\<not> bad_fd \<Longrightarrow> validate k (tcb_as_id task) buf len False = Inl e \<Longrightarrow> sys_write fd buf len out_ptr k = Ret (Inl e, k)"
      "\<not> bad_fd \<Longrightarrow> validate k (tcb_as_id task) buf len False = Inr () \<Longrightarrow> check_out_ptr k (tcb_as_id task) out_ptr = Inl e
         \<Longrightarrow> sys_write fd buf len out_ptr k = Ret (Inl e, k)" for e
    by (auto simp: sys_write_def cur bad_fd_def)
  ultimately show ?thesis unfolding bad_fd_def [symmetric] 
    by (cases bad_fd; cases "validate k (tcb_as_id task) buf len False"; cases "check_out_ptr k (tcb_as_id task) out_ptr") simp_all
qed

subsection \<open>Sending\<close>

text \<open>A task is its frame and its state.\<close>

lemma task_slot_eqI:
  assumes "task_frame s' i = task_frame s i" "v_states (sched_view s') i = v_states (sched_view s) i"
  shows "slot_get (sch_tasks s') i = slot_get (sch_tasks s) i"
proof (cases "slot_get (sch_tasks s) i")
  case None
  then show ?thesis using assms(2) by simp
next
  case (Some t)
  then obtain t' where t': "slot_get (sch_tasks s') i = Some t'" "tcb_state t' = tcb_state t" using assms(2) by auto
  then have "t'\<lparr>tcb_state := Ready\<rparr>\<lparr>tcb_state := tcb_state t\<rparr> = t\<lparr>tcb_state := Ready\<rparr>\<lparr>tcb_state := tcb_state t\<rparr>"
    using assms(1) Some by (simp add: task_frame_def)
  then have "t' = t" using t'(2) by (metis Tcb.unfold_congs(3) Tcb.surjective Tcb.update_convs(3))
  then show ?thesis using t' Some by simp
qed

lemma task_frame_mailbox:
  assumes "task_frame s' i = task_frame s i" "slot_get (sch_tasks s) i = Some t"
  obtains t' where "slot_get (sch_tasks s') i = Some t'" "tcb_mailbox t' = tcb_mailbox t"
proof -
  obtain t' where "slot_get (sch_tasks s') i = Some t'" "t'\<lparr>tcb_state := Ready\<rparr> = t\<lparr>tcb_state := Ready\<rparr>"
    using assms by (auto simp: task_frame_def)
  then show thesis using that by (metis Tcb.select_convs(6) Tcb.surjective Tcb.update_convs(3))
qed

text \<open>Handing a message to a task: the mailbox grows at its end, and a task that waits for a message becomes ready.\<close>

lemma deliver_spec:
  assumes ok: "kernel_ok k" and t: "slot_get (sch_tasks (k_sched k)) d = Some t" and msg: "message_ok msg"
    and push: "mailbox_push (tcb_mailbox t) msg = Ret (True, mb)"
  shows "\<exists>s' t'. (if tcb_state t = Blocked RecvBlock then unblock d (set_task (k_sched k) d (t\<lparr>tcb_mailbox := mb\<rparr>))
        else Ret (set_task (k_sched k) d (t\<lparr>tcb_mailbox := mb\<rparr>))) = Ret s'
    \<and> slot_get (sch_tasks s') d = Some t' \<and> tcb_mailbox t' = mb
    \<and> sched_view s' = (if tcb_state t = Blocked RecvBlock then view_wake d (sched_view (k_sched k)) else sched_view (k_sched k))
    \<and> (\<forall>i. i \<noteq> d \<longrightarrow> slot_get (sch_tasks s') i = slot_get (sch_tasks (k_sched k)) i)"
proof -
  let ?t = "t\<lparr>tcb_mailbox := mb\<rparr>" and ?s = "set_task (k_sched k) d (t\<lparr>tcb_mailbox := mb\<rparr>)"
  have lt: "d < length (sch_tasks (k_sched k))" using slot_get_length [OF t] .
  have slot: "slot_get (sch_tasks ?s) i = (if i = d then Some ?t else slot_get (sch_tasks (k_sched k)) i)" for i
    using set_task_slot [OF lt] .
  have view: "sched_view ?s = sched_view (k_sched k)" by (rule set_task_view [OF t]) simp
  show ?thesis
  proof (cases "tcb_state t = Blocked RecvBlock")
    case False
    then show ?thesis using slot view by auto
  next
    case True
    have "tasks_ok ?s"
      using deliver_ok(1) [OF ok _ push msg, of d] t by (simp add: with_task_def update_task_def)
    then have inv: "sched_inv ?s" by (simp add: tasks_ok_def)
    have d: "d < MAX_TASKS" using lt ok by (simp add: tasks_ok_def sched_inv_def)
    obtain s' where s': "unblock d ?s = Ret s'" "task_frame s' = task_frame ?s" "sched_view s' = view_wake d (sched_view ?s)"
      using unblock_spec [OF inv d] True slot by auto
    have "slot_get (sch_tasks s') i = slot_get (sch_tasks (k_sched k)) i" if "i \<noteq> d" for i
    proof -
      have "v_states (sched_view s') i = v_states (sched_view ?s) i" unfolding s'(3) using that by (simp add: view_wake_def)
      then show ?thesis using task_slot_eqI [OF fun_cong [OF s'(2), of i]] slot that by simp
    qed
    moreover obtain t' where "slot_get (sch_tasks s') d = Some t'" "tcb_mailbox t' = mb"
      using task_frame_mailbox [OF fun_cong [OF s'(2)], of d ?t] slot by auto
    ultimately show ?thesis using s' True view by auto
  qed
qed

definition user_message :: "TaskId \<Rightarrow> PageTable \<Rightarrow> mem \<Rightarrow> usize \<Rightarrow> usize \<Rightarrow> Message" where
  "user_message c pt m p len = \<lparr>msg_sender = c, msg_length = unat len,
     msg_data = user_bytes pt m p (unat len) @ replicate (MAX_MSG_SIZE - unat len) 0\<rparr>"

lemma sys_send_errors:
  assumes run: "running k c task space fa"
  shows "MAX_MSG_SIZE < unat len \<Longrightarrow> sys_send d p len k = Ret (Inl InvalidArgument, k)"
    "unat len \<le> MAX_MSG_SIZE \<Longrightarrow> validate k (tcb_as_id task) p len False = Inl e \<Longrightarrow> sys_send d p len k = Ret (Inl e, k)"
    "unat len \<le> MAX_MSG_SIZE \<Longrightarrow> validate k (tcb_as_id task) p len False = Inr () \<Longrightarrow> with_task (k_sched k) (unat d) = None \<Longrightarrow>
       sys_send d p len k = Ret (Inl NoSuchTask, k)"
proof -
  have cur: "current_task k = Ret (c, task)" using run by (simp add: running_def)
  show "MAX_MSG_SIZE < unat len \<Longrightarrow> sys_send d p len k = Ret (Inl InvalidArgument, k)" by (simp add: sys_send_def)
  show "unat len \<le> MAX_MSG_SIZE \<Longrightarrow> validate k (tcb_as_id task) p len False = Inl e \<Longrightarrow> sys_send d p len k = Ret (Inl e, k)"
    by (simp add: sys_send_def cur)
  assume A: "unat len \<le> MAX_MSG_SIZE" "validate k (tcb_as_id task) p len False = Inr ()" "with_task (k_sched k) (unat d) = None"
  have "copy_from_user (k_active k) (k_mem k) p (unat len) = Ret (Inr (user_bytes (k_active k) (k_mem k) p (unat len)))"
    using copy_from_user_mapped [of "unat len" "k_active k" "k_mem k" p] validated_mapped [OF run A(2)] by simp
  then show "sys_send d p len k = Ret (Inl NoSuchTask, k)" using A by (simp add: sys_send_def cur)
qed

lemma sys_send_mailbox:
  assumes run: "running k c task space fa" and len: "unat len \<le> MAX_MSG_SIZE"
    and val: "validate k (tcb_as_id task) p len False = Inr ()" and t: "with_task (k_sched k) (unat d) = Some t"
    and push: "mailbox_push (tcb_mailbox t) (user_message c (as_root space) (k_mem k) p len) = Ret (b, mb)"
  shows "sys_send d p len k = (if \<not> b then Ret (Inl OutOfMemory, k) else do {
    s \<leftarrow> (if tcb_state t = Blocked RecvBlock then unblock (unat d) (set_task (k_sched k) (unat d) (t\<lparr>tcb_mailbox := mb\<rparr>))
        else Ret (set_task (k_sched k) (unat d) (t\<lparr>tcb_mailbox := mb\<rparr>)));
    Ret (Inr (), k\<lparr>k_sched := s\<rparr>) })"
proof -
  have r: "current_task k = Ret (c, task)" "k_active k = as_root space" using run by (simp_all add: running_def)
  have "copy_from_user (k_active k) (k_mem k) p (unat len) = Ret (Inr (user_bytes (as_root space) (k_mem k) p (unat len)))"
    using copy_from_user_mapped [of "unat len" "k_active k" "k_mem k" p] validated_mapped [OF run val] r(2) by simp
  then show ?thesis
    using r len val t push by (auto simp: sys_send_def user_message_def update_task_def Let_def)
qed

text \<open>
  (C18) \<open>sys_send\<close> is all-or-nothing: every failure (message too long, a pointer that is not the
  caller's, no such task, a full mailbox) is reported and changes nothing at all; a success
  appends exactly one message, with the true sender and the caller's bytes, to the mailbox of
  the receiver, makes the receiver ready if it was waiting, and touches no other task.
\<close>

theorem sys_send_delivers:
  assumes run: "running k c task space fa" and ok: "tasks_ok (k_sched k)"
  shows "if MAX_MSG_SIZE < unat len then sys_send d p len k = Ret (Inl InvalidArgument, k)
    else case validate k (tcb_as_id task) p len False of
        Inl e \<Rightarrow> sys_send d p len k = Ret (Inl e, k)
      | Inr _ \<Rightarrow> (case with_task (k_sched k) (unat d) of
          None \<Rightarrow> sys_send d p len k = Ret (Inl NoSuchTask, k)
        | Some t \<Rightarrow>
            if length (mailbox_contents (tcb_mailbox t)) = MAILBOX_CAPACITY then sys_send d p len k = Ret (Inl OutOfMemory, k)
            else \<exists>s' t'. sys_send d p len k = Ret (Inr (), k\<lparr>k_sched := s'\<rparr>) \<and> with_task s' (unat d) = Some t'
              \<and> mailbox_contents (tcb_mailbox t') = mailbox_contents (tcb_mailbox t) @ [user_message c (as_root space) (k_mem k) p len]
              \<and> sched_view s' = (if tcb_state t = Blocked RecvBlock then view_wake (unat d) (sched_view (k_sched k))
                                else sched_view (k_sched k))
              \<and> (\<forall>i. i \<noteq> unat d \<longrightarrow> with_task s' i = with_task (k_sched k) i))"
proof (cases "MAX_MSG_SIZE < unat len \<or> (\<exists>e. validate k (tcb_as_id task) p len False = Inl e)")
  case True
  then show ?thesis using sys_send_errors(1,2) [OF run, of len] by (cases "MAX_MSG_SIZE < unat len") auto
next
  case False
  then have len: "unat len \<le> MAX_MSG_SIZE" and val: "validate k (tcb_as_id task) p len False = Inr ()"
    by (simp, cases "validate k (tcb_as_id task) p len False") auto
  let ?msg = "user_message c (as_root space) (k_mem k) p len"
  show ?thesis
  proof (cases "with_task (k_sched k) (unat d)")
    case None
    then show ?thesis using sys_send_errors(3) [OF run len val] len val by simp
  next
    case (Some t)
    have slot: "slot_get (sch_tasks (k_sched k)) (unat d) = Some t" using Some by (simp add: with_task_def)
    have inv: "mailbox_inv (tcb_mailbox t)" using task_tcb_ok [OF ok slot] by (simp add: tcb_ok_def)
    obtain mb where mb: "mailbox_push (tcb_mailbox t) ?msg = Ret (length (mailbox_contents (tcb_mailbox t)) < MAILBOX_CAPACITY, mb)"
        "mailbox_contents mb = (if length (mailbox_contents (tcb_mailbox t)) < MAILBOX_CAPACITY
           then mailbox_contents (tcb_mailbox t) @ [?msg] else mailbox_contents (tcb_mailbox t))"
      using mailbox.push_spec [OF inv, of ?msg] by blast
    have msg: "message_ok ?msg" using len by (simp add: message_ok_def user_message_def user_bytes_def)
    note send = sys_send_mailbox [OF run len val Some mb(1)]
    show ?thesis
    proof (cases "length (mailbox_contents (tcb_mailbox t)) < MAILBOX_CAPACITY")
      case True
      then obtain s' t' where s': "(if tcb_state t = Blocked RecvBlock then unblock (unat d) (set_task (k_sched k) (unat d) (t\<lparr>tcb_mailbox := mb\<rparr>))
            else Ret (set_task (k_sched k) (unat d) (t\<lparr>tcb_mailbox := mb\<rparr>))) = Ret s'"
          "slot_get (sch_tasks s') (unat d) = Some t'" "tcb_mailbox t' = mb"
          "sched_view s' = (if tcb_state t = Blocked RecvBlock then view_wake (unat d) (sched_view (k_sched k)) else sched_view (k_sched k))"
          "\<forall>i. i \<noteq> unat d \<longrightarrow> slot_get (sch_tasks s') i = slot_get (sch_tasks (k_sched k)) i"
        using deliver_spec [OF ok slot msg, of mb] mb(1) by (simp only: simp_thms) blast
      have "sys_send d p len k = Ret (Inr (), k\<lparr>k_sched := s'\<rparr>)" using send s'(1) True by simp
      then have "\<exists>s' t'. sys_send d p len k = Ret (Inr (), k\<lparr>k_sched := s'\<rparr>) \<and> with_task s' (unat d) = Some t'
          \<and> mailbox_contents (tcb_mailbox t') = mailbox_contents (tcb_mailbox t) @ [?msg]
          \<and> sched_view s' = (if tcb_state t = Blocked RecvBlock then view_wake (unat d) (sched_view (k_sched k)) else sched_view (k_sched k))
          \<and> (\<forall>i. i \<noteq> unat d \<longrightarrow> with_task s' i = with_task (k_sched k) i)"
        using s'(2,3,5) mb(2) True by (intro exI [of _ s'] exI [of _ t'] conjI s'(4)) (simp_all add: with_task_def)
      moreover have "length (mailbox_contents (tcb_mailbox t)) \<noteq> MAILBOX_CAPACITY" using True by simp
      ultimately show ?thesis using len val Some by (simp del: if_split)
    next
      case False
      then show ?thesis using send mailbox.bounded [OF inv] len val Some by simp
    qed
  qed
qed

subsection \<open>Receiving\<close>

text \<open>An optional output argument: the cells it covers, and storing to it.\<close>

definition opt_footprint :: "PageTable \<Rightarrow> mem \<Rightarrow> usize \<Rightarrow> usize set" where
  "opt_footprint pt m p = (if p = 0 then {} else footprint pt m p 8)"

lemma opt_copy_stores:
  assumes run: "running k c task space fa" and chk: "check_out_ptr k (tcb_as_id task) p = Inr ()"
  shows "\<exists>m'. (if p \<noteq> 0 then k_copy_val p x k else Ret (Inr (), k)) = Ret (Inr (), k\<lparr>k_mem := m'\<rparr>)
    \<and> stores space fa (opt_footprint (as_root space) (k_mem k) p) (k_mem k) m'
    \<and> (p \<noteq> 0 \<longrightarrow> copy_val_from_user (as_root space) m' p = Ret (Inr x))"
proof (cases "p = 0")
  case True
  have "as_inv space (fa, k_mem k)" using run by (simp add: running_def)
  then show ?thesis using True by (intro exI [of _ "k_mem k"]) (simp add: opt_footprint_def stores_refl)
next
  case False
  then show ?thesis
    using k_copy_val_stores [OF run check_out_ptrD(2) [OF chk False] check_out_ptrD(1) [OF chk False], of x]
    by (simp add: opt_footprint_def)
qed

lemma stores_check_out:
  "running k c task space fa \<Longrightarrow> stores space fa A (k_mem k) m' \<Longrightarrow>
   check_out_ptr (k\<lparr>k_mem := m'\<rparr>) (tcb_as_id task) p = check_out_ptr k (tcb_as_id task) p"
  by (simp add: check_out_ptr_def stores_validate)

lemma stores_opt_footprint:
  assumes "stores space fa A (k_mem k) m'" "check_out_ptr k (tcb_as_id task) p = Inr ()" "running k c task space fa"
  shows "opt_footprint (as_root space) m' p = opt_footprint (as_root space) (k_mem k) p"
proof (cases "p = 0")
  case False
  have "unat p + 8 \<le> unat USER_SPACE_END"
    using validated_mapped(2) [OF assms(3) check_out_ptrD(2) [OF assms(2) False]] by simp
  then have "phys_of (as_root space) m' (p + of_nat j) = phys_of (as_root space) (k_mem k) (p + of_nat j)" if "j < 8" for j
    using stores_phys [OF assms(1)] that unat_add_small [of p j] by (simp add: word_less_nat_alt USER_SPACE_END_def)
  then show ?thesis using False by (auto simp: opt_footprint_def footprint_def)
qed (simp add: opt_footprint_def)

text \<open>A value stored for an optional argument survives stores to other cells.\<close>

lemma stores_keep_val:
  assumes run: "running k c task space fa" and chk: "check_out_ptr k (tcb_as_id task) p = Inr ()" and p: "p \<noteq> 0"
    and st: "stores space fa A (k_mem k) m'" and dj: "opt_footprint (as_root space) (k_mem k) p \<inter> A = {}"
  shows "copy_val_from_user (as_root space) m' p = copy_val_from_user (as_root space) (k_mem k) p"
proof -
  note c = check_out_ptrD [OF chk p]
  have "user_bytes (as_root space) m' p 8 = user_bytes (as_root space) (k_mem k) p 8"
    using stores_frame(1) [OF st] validated_mapped(2) [OF run c(2)] dj p by (simp add: opt_footprint_def)
  then show ?thesis
    using copy_val_from_user_bytes [OF run c(2,1)]
      copy_val_from_user_bytes [OF stores_running [OF run st] _ c(1), of True] stores_validate [OF run st] c(2) by simp
qed

lemma running_pop:
  assumes run: "running k c task space fa"
  shows "running (update_task c (task\<lparr>tcb_mailbox := mb\<rparr>) k) c (task\<lparr>tcb_mailbox := mb\<rparr>) space fa"
proof -
  have "current_task k = Ret (c, task)" using run by (simp add: running_def)
  note t = current_taskD [OF this]
  have "current_task (update_task c (task\<lparr>tcb_mailbox := mb\<rparr>) k) = Ret (c, task\<lparr>tcb_mailbox := mb\<rparr>)"
    using t slot_get_length [OF t(2)] by (simp add: current_task_def current_def with_task_def update_task_def set_task_slot)
  then show ?thesis using run by (simp add: running_def update_task_def)
qed

text \<open>The checks of \<open>recv_finish\<close>, in order, and when its three outputs do not overlap in memory.\<close>

definition recv_check :: "Kernel \<Rightarrow> AddressSpaceId \<Rightarrow> usize \<Rightarrow> usize \<Rightarrow> usize \<Rightarrow> usize \<Rightarrow> Status + unit" where
  "recv_check k as_id p max_len l q =
     (case validate k as_id p max_len True of
        Inl e \<Rightarrow> Inl e
      | Inr _ \<Rightarrow> (case check_out_ptr k as_id l of Inl e \<Rightarrow> Inl e | Inr _ \<Rightarrow> check_out_ptr k as_id q))"

definition separate_outputs :: "PageTable \<Rightarrow> mem \<Rightarrow> usize \<Rightarrow> nat \<Rightarrow> usize \<Rightarrow> usize \<Rightarrow> bool" where
  "separate_outputs pt m p n l q \<longleftrightarrow> inj_on (\<lambda>j. phys_of pt m (p + of_nat j)) {..<n}
     \<and> footprint pt m p n \<inter> opt_footprint pt m l = {} \<and> footprint pt m p n \<inter> opt_footprint pt m q = {}
     \<and> opt_footprint pt m l \<inter> opt_footprint pt m q = {}"

lemma recv_finish_error:
  assumes "current_task k = Ret (c, task)" "recv_check k (tcb_as_id task) p max_len l q = Inl e"
  shows "recv_finish p max_len l q k = Ret (Inl e, k)"
  using assms by (auto simp: recv_finish_def recv_check_def split: sum.splits)

lemma recv_checkD:
  assumes "recv_check k as_id p max_len l q = Inr ()"
  shows "validate k as_id p max_len True = Inr ()" "check_out_ptr k as_id l = Inr ()" "check_out_ptr k as_id q = Inr ()"
  using assms by (auto simp: recv_check_def split: sum.splits)

lemma recv_finish_copies:
  assumes cur: "current_task k = Ret (c, task)" and chk: "recv_check k (tcb_as_id task) p max_len l q = Inr ()"
    and pop: "mailbox_pop (tcb_mailbox task) = Ret (Some msg, mb)" and msg: "message_ok msg"
    and k0: "k0 = update_task c (task\<lparr>tcb_mailbox := mb\<rparr>) k"
    and w1: "k_copy_out p (take (min (msg_length msg) (unat max_len)) (msg_data msg)) k0 = Ret (Inr (), k1)"
    and w2: "(if l \<noteq> 0 then k_copy_val l (of_nat (msg_length msg)) k1 else Ret (Inr (), k1)) = Ret (Inr (), k2)"
    and w3: "(if q \<noteq> 0 then k_copy_val q (of_nat (msg_sender msg)) k2 else Ret (Inr (), k2)) = Ret (Inr (), k3)"
  shows "recv_finish p max_len l q k = Ret (Inr (), k3)"
proof -
  have "\<not> length (msg_data msg) < min (msg_length msg) (unat max_len)" using msg by (simp add: message_ok_def)
  then show ?thesis
    unfolding recv_finish_def using cur recv_checkD [OF chk] pop w1 w2 w3 by (simp add: k0 del: if_split)
qed

lemma recv_finish_spec:
  assumes run: "running k c task space fa" and tok: "tcb_ok task" and box: "mailbox_contents (tcb_mailbox task) = msg # rest"
    and chk: "recv_check k (tcb_as_id task) p max_len l q = Inr ()" and n: "n = min (msg_length msg) (unat max_len)"
  shows "\<exists>m' mb. recv_finish p max_len l q k = Ret (Inr (), (update_task c (task\<lparr>tcb_mailbox := mb\<rparr>) k)\<lparr>k_mem := m'\<rparr>)
    \<and> mailbox_contents mb = rest
    \<and> stores space fa (footprint (as_root space) (k_mem k) p n \<union> opt_footprint (as_root space) (k_mem k) l
        \<union> opt_footprint (as_root space) (k_mem k) q) (k_mem k) m'
    \<and> (separate_outputs (as_root space) (k_mem k) p n l q \<longrightarrow>
         user_bytes (as_root space) m' p n = take n (msg_data msg)
         \<and> (l \<noteq> 0 \<longrightarrow> copy_val_from_user (as_root space) m' l = Ret (Inr (of_nat (msg_length msg))))
         \<and> (q \<noteq> 0 \<longrightarrow> copy_val_from_user (as_root space) m' q = Ret (Inr (of_nat (msg_sender msg)))))"
proof -
  let ?pt = "as_root space" and ?m = "k_mem k" and ?bs = "take n (msg_data msg)"
  have msg: "message_ok msg" and mi: "mailbox_inv (tcb_mailbox task)" using tok box by (auto simp: tcb_ok_def)
  obtain mb where pop: "mailbox_pop (tcb_mailbox task) = Ret (Some msg, mb)" "mailbox_contents mb = rest"
    using mailbox.pop_front [OF mi box] by blast
  define t0 k0 where "t0 = task\<lparr>tcb_mailbox := mb\<rparr>" and "k0 = update_task c t0 k"
  have r0: "running k0 c t0 space fa" unfolding k0_def t0_def by (rule running_pop [OF run])
  have same: "k_mem k0 = ?m" "tcb_as_id t0 = tcb_as_id task" "validate k0 = validate k" "check_out_ptr k0 = check_out_ptr k"
    by (auto simp: k0_def t0_def update_task_def fun_eq_iff validate_def check_out_ptr_def)
  note c = recv_checkD [OF chk]
  have len: "length ?bs = n" using msg n by (auto simp: message_ok_def min_def)
  obtain m1 where m1: "k_copy_out p ?bs k0 = Ret (Inr (), k0\<lparr>k_mem := m1\<rparr>)" "stores space fa (footprint ?pt ?m p n) ?m m1"
      "inj_on (\<lambda>j. phys_of ?pt ?m (p + of_nat j)) {..<n} \<longrightarrow> user_bytes ?pt m1 p n = ?bs"
    using k_copy_out_stores [OF r0, of p max_len ?bs] c(1) len n same by auto
  let ?k1 = "k0\<lparr>k_mem := m1\<rparr>"
  have r1: "running ?k1 c t0 space fa" using stores_running [OF r0] m1(2) same by simp
  have c1: "check_out_ptr ?k1 (tcb_as_id t0) l = Inr ()" "check_out_ptr ?k1 (tcb_as_id t0) q = Inr ()"
    using stores_check_out [OF r0] m1(2) c(2,3) same by simp_all
  obtain m2 where m2: "(if l \<noteq> 0 then k_copy_val l (of_nat (msg_length msg)) ?k1 else Ret (Inr (), ?k1)) = Ret (Inr (), ?k1\<lparr>k_mem := m2\<rparr>)"
      "stores space fa (opt_footprint ?pt m1 l) m1 m2" "l \<noteq> 0 \<longrightarrow> copy_val_from_user ?pt m2 l = Ret (Inr (of_nat (msg_length msg)))"
    using opt_copy_stores [OF r1 c1(1), of "of_nat (msg_length msg)"] by auto
  let ?k2 = "?k1\<lparr>k_mem := m2\<rparr>"
  have r2: "running ?k2 c t0 space fa" using stores_running [OF r1] m2(2) by simp
  have c2: "check_out_ptr ?k2 (tcb_as_id t0) l = Inr ()" "check_out_ptr ?k2 (tcb_as_id t0) q = Inr ()"
    using stores_check_out [OF r1, of "opt_footprint ?pt m1 l" m2] m2(2) c1 by simp_all
  obtain m3 where m3: "(if q \<noteq> 0 then k_copy_val q (of_nat (msg_sender msg)) ?k2 else Ret (Inr (), ?k2)) = Ret (Inr (), ?k2\<lparr>k_mem := m3\<rparr>)"
      "stores space fa (opt_footprint ?pt m2 q) m2 m3" "q \<noteq> 0 \<longrightarrow> copy_val_from_user ?pt m3 q = Ret (Inr (of_nat (msg_sender msg)))"
    using opt_copy_stores [OF r2 c2(2), of "of_nat (msg_sender msg)"] by auto
  have fp: "opt_footprint ?pt m1 l = opt_footprint ?pt ?m l" "opt_footprint ?pt m1 q = opt_footprint ?pt ?m q"
    using stores_opt_footprint [OF _ _ r0, of "footprint ?pt ?m p n" m1] m1(2) c(2,3) same by simp_all
  have fp2: "opt_footprint ?pt m2 l = opt_footprint ?pt ?m l" "opt_footprint ?pt m2 q = opt_footprint ?pt ?m q"
    using stores_opt_footprint [OF _ _ r1, of "opt_footprint ?pt m1 l" m2] m2(2) c1 fp by simp_all
  have st: "stores space fa (footprint ?pt ?m p n \<union> opt_footprint ?pt ?m l \<union> opt_footprint ?pt ?m q) ?m m3"
    using stores_trans [OF stores_trans [OF m1(2) m2(2)] m3(2)] fp fp2 by simp
  have "recv_finish p max_len l q k = Ret (Inr (), ?k2\<lparr>k_mem := m3\<rparr>)"
    using current_taskD run
    by (intro recv_finish_copies [OF _ chk pop(1) msg k0_def [unfolded t0_def] _ m2(1) m3(1)]) (use run m1(1) n in \<open>simp_all add: running_def\<close>)
  moreover have "user_bytes ?pt m3 p n = ?bs" "l \<noteq> 0 \<longrightarrow> copy_val_from_user ?pt m3 l = Ret (Inr (of_nat (msg_length msg)))"
    if sep: "separate_outputs ?pt ?m p n l q"
  proof -
    have ub: "unat p + n \<le> unat USER_SPACE_END" using validated_mapped(2) [OF run c(1)] n by simp
    have f1: "footprint ?pt m1 p n = footprint ?pt ?m p n"
    proof -
      have "phys_of ?pt m1 (p + of_nat j) = phys_of ?pt ?m (p + of_nat j)" if "j < n" for j
        using stores_phys [OF m1(2)] that ub unat_add_small [of p j] by (simp add: word_less_nat_alt USER_SPACE_END_def)
      then show ?thesis by (auto simp: footprint_def)
    qed
    have "stores space fa (opt_footprint ?pt ?m l \<union> opt_footprint ?pt ?m q) m1 m3"
      using stores_trans [OF m2(2) m3(2)] fp fp2 by simp
    then show "user_bytes ?pt m3 p n = ?bs"
      using stores_frame(1) [OF _ ub] m1(3) f1 sep by (simp add: separate_outputs_def Int_Un_distrib)
    show "l \<noteq> 0 \<longrightarrow> copy_val_from_user ?pt m3 l = Ret (Inr (of_nat (msg_length msg)))"
      using stores_keep_val [OF r2 c2(1), of "opt_footprint ?pt m2 q" m3] m2(3) m3(2) sep fp2 by (auto simp: separate_outputs_def)
  qed
  ultimately show ?thesis using st m3(3) pop(2) unfolding k0_def t0_def by (intro exI [of _ m3] exI [of _ mb]) simp
qed

text \<open>
  (C19) \<open>sys_recv\<close> with a message waiting: if one of the output arguments is not acceptable, the
  error is reported and nothing changes, so the message is not lost; otherwise the oldest
  message leaves the mailbox and the call succeeds without a fault, storing only to the
  output arguments. Where these do not overlap, the caller finds the data (as much as fits),
  the length and the sender there.
\<close>

theorem sys_recv_delivers:
  assumes run: "running k c task space fa" and ok: "tasks_ok (k_sched k)"
    and box: "mailbox_contents (tcb_mailbox task) = msg # rest" and p: "p \<noteq> 0"
  shows "case recv_check k (tcb_as_id task) p max_len l q of
      Inl e \<Rightarrow> sys_recv p max_len l q k = Ret (Done (Inl e), k)
    | Inr _ \<Rightarrow> \<exists>m' mb. let n = min (msg_length msg) (unat max_len); pt = as_root space; m = k_mem k in
        sys_recv p max_len l q k = Ret (Done (Inr ()), (update_task c (task\<lparr>tcb_mailbox := mb\<rparr>) k)\<lparr>k_mem := m'\<rparr>)
        \<and> mailbox_contents mb = rest
        \<and> stores space fa (footprint pt m p n \<union> opt_footprint pt m l \<union> opt_footprint pt m q) m m'
        \<and> (separate_outputs pt m p n l q \<longrightarrow> user_bytes pt m' p n = take n (msg_data msg)
             \<and> (l \<noteq> 0 \<longrightarrow> copy_val_from_user pt m' l = Ret (Inr (of_nat (msg_length msg))))
             \<and> (q \<noteq> 0 \<longrightarrow> copy_val_from_user pt m' q = Ret (Inr (of_nat (msg_sender msg)))))"
proof -
  have cur: "current_task k = Ret (c, task)" using run by (simp add: running_def)
  have tok: "tcb_ok task" using task_tcb_ok [OF ok current_taskD(2) [OF cur]] .
  have "length (mailbox_contents (tcb_mailbox task)) = mb_len (tcb_mailbox task)" by (simp add: mailbox_contents_def)
  then have "mb_len (tcb_mailbox task) \<noteq> 0" using box by auto
  then have "sys_recv p max_len l q k = map_option (map_prod Done id) (recv_finish p max_len l q k)"
    using p cur by (auto simp: sys_recv_def split: bind_splits)
  then show ?thesis
    using recv_finish_error [OF cur] recv_finish_spec [OF run tok box _ refl]
    by (auto simp: Let_def split: sum.split)
qed

subsection \<open>Witnesses\<close>

lemma validate_readable:
  assumes "validate k as_id p n True = Inr ()" shows "validate k as_id p n False = Inr ()"
proof -
  have "validate_pages t m as_id True pages = Inr () \<Longrightarrow> validate_pages t m as_id False pages = Inr ()" for t m pages
    by (induction pages) (auto simp: page_allows_def split: option.splits if_splits)
  then show ?thesis
    using assms by (auto simp: validate_def validate_user_range_def split: option.splits if_splits)
qed

lemma sample_running:
  obtains k task fa t1 where "running k 0 task sample_space fa" "tasks_ok (k_sched k)" "tcb_as_id task = 0"
    "validate k 0 0x7FFFFFFFE000 8 True = Inr ()" "with_task (k_sched k) 1 = Some t1" "mailbox_contents (tcb_mailbox t1) = []"
proof -
  obtain s t0 t1 where s: "tasks_ok s" "sch_current s = Some 0" "slot_get (sch_tasks s) 0 = Some t0" "tcb_as_id t0 = 0"
      "slot_get (sch_tasks s) 1 = Some t1" "tcb_mailbox t1 = mailbox_new"
    by (rule sample_tasks) blast
  obtain fa m where m: "as_inv sample_space (fa, m)" "user_pages_data sample_space (fa, m)"
      "validate_user_range sample_table m 0 0x7FFFFFFFE000 8 True = Inr ()"
    by (rule sample_user_page) blast
  let ?k = "(sample_kernel s)\<lparr>k_allocator := Some fa, k_mem := m, k_spaces := sample_table\<rparr>"
  have "running ?k 0 t0 sample_space fa"
    using s m(1,2) by (simp add: running_def sample_kernel_def current_task_def current_def with_task_def sample_table_get)
      (simp add: sample_space_def)
  moreover have "validate ?k 0 0x7FFFFFFFE000 8 True = Inr ()" using m(3) by (simp add: validate_def)
  ultimately show thesis
    using that [of ?k t0 fa t1] s by (simp add: sample_kernel_def with_task_def)
qed

theorem sys_write_exact_witness:
  "\<exists>k bs. length bs = 8 \<and> sys_write 1 0x7FFFFFFFE000 8 0 k = Ret (Inr (), k\<lparr>k_serial := k_serial k @ serial_bytes bs\<rparr>)"
proof -
  obtain k task fa where k: "running k 0 task sample_space fa" "tcb_as_id task = 0" "validate k 0 0x7FFFFFFFE000 8 True = Inr ()"
    by (rule sample_running) blast
  let ?bs = "user_bytes (as_root sample_space) (k_mem k) 0x7FFFFFFFE000 8"
  have "sys_write 1 0x7FFFFFFFE000 8 0 k = Ret (Inr (), k\<lparr>k_serial := k_serial k @ serial_bytes ?bs\<rparr>)"
    using sys_write_exact [OF k(1), of 1 "0x7FFFFFFFE000" 8 0] validate_readable [OF k(3)] k(2)
    by (auto simp: check_out_ptr_def)
  moreover have "length ?bs = 8" by (simp add: user_bytes_def)
  ultimately show ?thesis by blast
qed

theorem sys_send_delivers_witness:
  "\<exists>k s' t'. sys_send 1 0x7FFFFFFFE000 8 k = Ret (Inr (), k\<lparr>k_sched := s'\<rparr>) \<and> with_task s' 1 = Some t'
     \<and> length (mailbox_contents (tcb_mailbox t')) = 1 \<and> msg_sender (hd (mailbox_contents (tcb_mailbox t'))) = 0"
proof -
  obtain k task fa t1 where k: "running k 0 task sample_space fa" "tasks_ok (k_sched k)" "tcb_as_id task = 0"
      "validate k 0 0x7FFFFFFFE000 8 True = Inr ()" "with_task (k_sched k) 1 = Some t1" "mailbox_contents (tcb_mailbox t1) = []"
    by (rule sample_running)
  have "\<not> MAX_MSG_SIZE < unat (8 :: usize)" "MAILBOX_CAPACITY \<noteq> 0" by (simp_all add: MAX_MSG_SIZE_def MAILBOX_CAPACITY_def)
  then obtain s' t' where "sys_send 1 0x7FFFFFFFE000 8 k = Ret (Inr (), k\<lparr>k_sched := s'\<rparr>)" "with_task s' 1 = Some t'"
      "mailbox_contents (tcb_mailbox t') = [user_message 0 (as_root sample_space) (k_mem k) 0x7FFFFFFFE000 8]"
    using sys_send_delivers [OF k(1,2), of 8 1 "0x7FFFFFFFE000"] validate_readable [OF k(4)] k(3,5,6) by auto
  then show ?thesis by (intro exI) (auto simp: user_message_def)
qed

theorem sys_recv_delivers_witness:
  "\<exists>k k'. sys_recv 0x7FFFFFFFE000 8 0 0 k = Ret (Done (Inr ()), k') \<and> tasks_ok (k_sched k)"
proof -
  obtain k task fa where k: "running k 0 task sample_space fa" "tasks_ok (k_sched k)" "tcb_as_id task = 0"
      "validate k 0 0x7FFFFFFFE000 8 True = Inr ()"
    by (rule sample_running) blast
  let ?msg = "\<lparr>msg_sender = 1, msg_length = 1, msg_data = replicate 128 0\<rparr>"
  let ?mb = "\<lparr>mb_messages = [Some ?msg, None, None, None], mb_head = 0, mb_len = 1\<rparr>"
  let ?t = "task\<lparr>tcb_mailbox := ?mb\<rparr>"
  let ?k = "update_task 0 ?t k"
  have slot: "slot_get (sch_tasks (k_sched k)) 0 = Some task" using current_taskD(2) [of k 0 task] k(1) by (simp add: running_def)
  have box: "mailbox_contents (tcb_mailbox ?t) = [?msg]" by (simp add: mailbox_contents_def ring_contents_def)
  have "mailbox_inv ?mb" by (simp add: mailbox_inv_def MAILBOX_CAPACITY_def ring_contents_def)
  then have "tcb_ok ?t"
    using task_tcb_ok [OF k(2) slot] box by (simp add: tcb_ok_def message_ok_def MAX_MSG_SIZE_def)
  then have ok: "tasks_ok (k_sched ?k)" by (intro kernel_ok_update [OF k(2) slot]) simp_all
  have "recv_check ?k (tcb_as_id ?t) 0x7FFFFFFFE000 8 0 0 = Inr ()"
    using k(3,4) by (simp add: recv_check_def check_out_ptr_def validate_def update_task_def)
  then show ?thesis
    using sys_recv_delivers [OF running_pop [OF k(1)] ok box, of "0x7FFFFFFFE000" 8 0 0] ok by (auto simp: Let_def)
qed

end
