(* ===== verification/Syscalls_Frames.thy ===== *)
theory Syscalls_Frames
  imports Syscalls_Memory
begin

section \<open>System calls on frames and mappings\<close>

text \<open>
  \<open>sys_frame_alloc\<close>, \<open>sys_frame_dealloc\<close>, \<open>sys_map\<close> and \<open>sys_unmap\<close> of a task on its own address
  space. The handles of the task tell the truth about memory (\<open>handles_inv\<close>): a frame handle
  stands for an allocated frame that is mapped nowhere, a mapping handle for a frame that is
  mapped exactly where the handle says, and no frame has two handles. The calls keep this,
  and under it none of the panics in them can happen.
\<close>

primrec obj_frame :: "KernelObject \<Rightarrow> FrameAddr option" where
  "obj_frame (ObjAddressSpace a) = None"
| "obj_frame (ObjFrame f) = Some f"
| "obj_frame (ObjMapping f a v) = Some f"
| "obj_frame (ObjThread t) = None"

definition holds :: "AddressSpace \<Rightarrow> AddressSpaceId \<Rightarrow> alloc_mem \<Rightarrow> KernelObject \<Rightarrow> bool" where
  "holds space as_id s obj \<longleftrightarrow>
     (case obj of
        ObjFrame f \<Rightarrow> f \<in> as_owned space s \<and> (\<forall>u<USER_SPACE_END. map_option fst (as_look space s u) \<noteq> Some f)
      | ObjMapping f a v \<Rightarrow> f \<in> as_owned space s \<and> (a = as_id \<longrightarrow> v < USER_SPACE_END)
          \<and> (\<forall>u<USER_SPACE_END. map_option fst (as_look space s u) = Some f \<longleftrightarrow> a = as_id \<and> u = v)
      | _ \<Rightarrow> True)"

definition handles_inv :: "AddressSpace \<Rightarrow> AddressSpaceId \<Rightarrow> alloc_mem \<Rightarrow> HandleTable \<Rightarrow> bool" where
  "handles_inv space as_id s ht \<longleftrightarrow>
     (\<forall>i h. handle_get ht i = Some h \<longrightarrow> holds space as_id s (h_object h))
   \<and> (\<forall>i j hi hj f. handle_get ht i = Some hi \<longrightarrow> handle_get ht j = Some hj \<longrightarrow> obj_frame (h_object hi) = Some f \<longrightarrow>
        obj_frame (h_object hj) = Some f \<longrightarrow> i = j)"

text \<open>The processor can address every frame the allocator manages.\<close>

definition frames_fit :: "AddressSpace \<Rightarrow> FrameAllocator \<Rightarrow> bool" where
  "frames_fit space fa \<longleftrightarrow> (\<forall>f\<in>dom (fa_state fa). f < physical_address_limit (pt_config (as_root space)))"

text \<open>All that the calls of a task rely on: its memory and its handles.\<close>

definition space_ok :: "AddressSpace \<Rightarrow> AddressSpaceId \<Rightarrow> alloc_mem \<Rightarrow> HandleTable \<Rightarrow> bool" where
  "space_ok space as_id s ht \<longleftrightarrow> as_inv space s \<and> user_pages_data space s \<and> frames_fit space (fst s) \<and> handles_inv space as_id s ht"

definition mem_ok :: "Kernel \<Rightarrow> TaskId \<Rightarrow> Tcb \<Rightarrow> AddressSpace \<Rightarrow> FrameAllocator \<Rightarrow> bool" where
  "mem_ok k c task space fa \<longleftrightarrow> running k c task space fa \<and> space_ok space (tcb_as_id task) (fa, k_mem k) (tcb_handles task)"

subsection \<open>Frames stay the allocator's\<close>

lemma page_table_map_dom:
  assumes "pt_inv pt fa m" "frame_aligned f" "page_table_map pt v f perms cache g (fa, m) = Ret (r, fa', m')"
  shows "dom (fa_state fa') = dom (fa_state fa)"
  using page_table_map_spec [OF assms(1,2), of v perms cache g] assms(3)
  by (fastforce simp: unmapped_error_def mapped_def split: sum.splits if_splits)

lemma address_space_map_dom:
  assumes "as_inv space (fa, m)" "address_space_map space p v perms cache (fa, m) = Ret (r, fa', m')"
  shows "dom (fa_state fa') = dom (fa_state fa)"
  using assms(2)
proof (cases rule: address_space_map_cases)
  case (2 x)
  then show ?thesis using page_table_map_dom assms(1) by (simp add: as_inv_def)
qed simp


lemma frames_fit_dom: "frames_fit space fa \<Longrightarrow> dom (fa_state fa') = dom (fa_state fa) \<Longrightarrow> frames_fit space fa'"
  by (simp add: frames_fit_def)

text \<open>The errors of a mapping that passed the checks of \<open>sys_map\<close> have a status.\<close>

lemma address_space_map_status:
  assumes inv: "as_inv space (fa, m)" and fit: "frames_fit space fa" and f: "fa_state fa f \<noteq> None"
    and v: "v < USER_SPACE_END" "v mod PAGE_SIZE = 0" and u: "user_accessible perms"
    and err: "address_space_map space f v perms cache (fa, m) = Ret (Inl e, s')"
  shows "map_error_status e \<noteq> Panic"
proof -
  let ?pt = "as_root space"
  have pinv: "pt_inv ?pt fa m" using inv by (simp add: as_inv_def)
  have al: "frame_aligned f" using f by (auto simp: fa_state_def split: if_splits)
  have lim: "f < physical_address_limit (pt_config ?pt)" using fit f by (auto simp: frames_fit_def)
  obtain e0 where e0: "page_table_map ?pt v f perms cache (as_kind space = KernelSpace) (fa, m) = Ret (Inl e0, s')" "e = map_error_from e0"
    using err
  proof (cases rule: address_space_map_cases)
    case (2 x)
    then show ?thesis using that by (cases x) auto
  qed (use al u v(1) in simp)
  have "map_error_reason ?pt v f perms (fa, m) e0" using page_table_map_spec [OF pinv al, of v perms cache "as_kind space = KernelSpace"] e0 by simp
  moreover have "\<not> physical_address_limit (pt_config ?pt) \<le> g" if "fa_state fa g = Some Free" for g
    using fit that by (auto simp: frames_fit_def not_le)
  ultimately show ?thesis
    using user_canonical [OF v(1), of ?pt] v(2) lim e0(2) unfolding map_error_reason_def frame_shortage_def by auto
qed

subsection \<open>Handles and memory\<close>

definition set_handle :: "HandleTable \<Rightarrow> nat \<Rightarrow> Handle option \<Rightarrow> HandleTable" where
  "set_handle ht i h = ht\<lparr>ht_handles := (ht_handles ht)[i := h]\<rparr>"

lemma handle_get_set: "handle_get (set_handle ht i h) j = (if j = i \<and> i < length (ht_handles ht) then h else handle_get ht j)"
  by (simp add: handle_get_def set_handle_def nth_list_update)

lemma handles_invD:
  assumes "handles_inv space as_id s ht" "handle_get ht i = Some h"
  shows "holds space as_id s (h_object h)"
    "handle_get ht j = Some g \<Longrightarrow> obj_frame (h_object g) \<noteq> None \<Longrightarrow> obj_frame (h_object g) = obj_frame (h_object h) \<Longrightarrow> j = i"
  using assms unfolding handles_inv_def by (blast, metis option.collapse)

text \<open>
  Changing memory and one slot: the objects of the other slots still hold, the new one holds,
  and its frame is no other handle's.
\<close>

lemma handles_inv_set:
  assumes "handles_inv space as_id s ht"
    and "\<And>j g. j \<noteq> i \<Longrightarrow> handle_get ht j = Some g \<Longrightarrow> holds space as_id s' (h_object g)"
    and "\<And>g. h = Some g \<Longrightarrow> holds space as_id s' (h_object g)"
    and "\<And>j g g' f. j \<noteq> i \<Longrightarrow> handle_get ht j = Some g \<Longrightarrow> h = Some g' \<Longrightarrow> obj_frame (h_object g) = Some f \<Longrightarrow> obj_frame (h_object g') \<noteq> Some f"
    and "i < length (ht_handles ht)"
  shows "handles_inv space as_id s' (set_handle ht i h)"
  unfolding handles_inv_def handle_get_set
proof (intro conjI allI impI)
  fix j g assume "(if j = i \<and> i < length (ht_handles ht) then h else handle_get ht j) = Some g"
  then show "holds space as_id s' (h_object g)" using assms(2,3,5) by (auto split: if_splits)
next
  fix j l g g' f
  assume A: "(if j = i \<and> i < length (ht_handles ht) then h else handle_get ht j) = Some g"
    "(if l = i \<and> i < length (ht_handles ht) then h else handle_get ht l) = Some g'"
    "obj_frame (h_object g) = Some f" "obj_frame (h_object g') = Some f"
  show "j = l"
  proof (cases "j = i \<or> l = i")
    case True
    then show ?thesis using A assms(4,5) by (metis (full_types))
  next
    case False
    then show ?thesis using A assms(1) unfolding handles_inv_def by auto
  qed
qed

lemma holds_cong:
  assumes "holds space as_id s obj" "as_look space s' = as_look space s" "obj_frame obj \<noteq> None \<Longrightarrow> the (obj_frame obj) \<in> as_owned space s'"
  shows "holds space as_id s' obj"
  using assms by (cases obj) (auto simp: holds_def)

lemma handles_inv_cong:
  assumes "handles_inv space as_id s ht" "as_look space s' = as_look space s" "as_owned space s \<subseteq> as_owned space s'"
  shows "handles_inv space as_id s' ht"
proof -
  have "holds space as_id s' (h_object h)" if "handle_get ht i = Some h" for i h
    using handles_invD(1) [OF assms(1) that] assms(2,3) by (cases "h_object h") (auto simp: holds_def)
  then show ?thesis using assms(1) unfolding handles_inv_def by blast
qed

text \<open>What each change of memory needs of the handles, and what it leaves.\<close>

lemma space_ok_same:
  assumes "space_ok space as_id s ht" "as_inv space s'" "as_look space s' = as_look space s" "as_owned space s' = as_owned space s"
    "dom (fa_state (fst s')) = dom (fa_state (fst s))"
  shows "space_ok space as_id s' ht"
  using assms handles_inv_cong [of space as_id s ht s'] frames_fit_dom [of space "fst s" "fst s'"]
  by (simp add: space_ok_def user_pages_data_def)

lemma owned_frame:
  assumes "space_ok space as_id s ht" "handle_get ht i = Some h" "obj_frame (h_object h) = Some f"
  shows "f \<in> as_owned space s" "fa_state (fst s) f = Some Allocated"
proof -
  have "holds space as_id s (h_object h)" using handles_invD(1) [OF _ assms(2)] assms(1) by (simp add: space_ok_def)
  then show "f \<in> as_owned space s" using assms(3) by (cases "h_object h") (auto simp: holds_def)
  then show "fa_state (fst s) f = Some Allocated" by (simp add: as_owned_def data_frames_def)
qed

lemma user_page_owned:
  assumes "user_pages_data space s" "u < USER_SPACE_END" "map_option fst (as_look space s u) = Some f"
  shows "f \<in> as_owned space s"
  using assms by (auto simp: user_pages_data_def)

text \<open>An allocated frame that no user page maps and no handle stands for.\<close>

definition loose :: "AddressSpace \<Rightarrow> alloc_mem \<Rightarrow> HandleTable \<Rightarrow> FrameAddr \<Rightarrow> bool" where
  "loose space s ht f \<longleftrightarrow> f \<in> as_owned space s \<and> (\<forall>u<USER_SPACE_END. map_option fst (as_look space s u) \<noteq> Some f)
     \<and> (\<forall>j g. handle_get ht j = Some g \<longrightarrow> obj_frame (h_object g) \<noteq> Some f)"

lemma space_ok_insert:
  assumes ok: "space_ok space as_id s ht" and f: "loose space s ht f" and i: "i < length (ht_handles ht)"
  shows "space_ok space as_id s (set_handle ht i (Some \<lparr>h_object = ObjFrame f, h_rights = rights\<rparr>))"
proof -
  have hi: "handles_inv space as_id s ht" using ok by (simp add: space_ok_def)
  have "handles_inv space as_id s (set_handle ht i (Some \<lparr>h_object = ObjFrame f, h_rights = rights\<rparr>))"
    using f i handles_invD(1) [OF hi] by (intro handles_inv_set [OF hi]) (auto simp: loose_def holds_def)
  then show ?thesis using ok by (simp add: space_ok_def)
qed


lemma space_ok_alloc:
  assumes ok: "space_ok space as_id (fa, m) ht"
  shows "\<exists>r fa' m'. alloc fa m = Ret (r, fa', m') \<and> as_look space (fa', m') = as_look space (fa, m) \<and>
    (case r of
       None \<Rightarrow> fa' = fa \<and> m' = m \<and> (\<forall>f. fa_state fa f \<noteq> Some Free)
     | Some f \<Rightarrow> fa_state fa f = Some Free \<and> fa_state fa' = (fa_state fa)(f \<mapsto> Allocated)
         \<and> space_ok space as_id (fa', m') ht \<and> loose space (fa', m') ht f)"
proof -
  have inv: "as_inv space (fa, m)" and hi0: "handles_inv space as_id (fa, m) ht" using ok by (simp_all add: space_ok_def)
  obtain r fa' m' where r: "alloc fa m = Ret (r, fa', m')" "as_inv space (fa', m')" "as_look space (fa', m') = as_look space (fa, m)"
      "case r of
         None \<Rightarrow> fa' = fa \<and> m' = m \<and> (\<forall>f. fa_state fa f \<noteq> Some Free)
       | Some f \<Rightarrow> fa_state fa f = Some Free \<and> fa_state fa' = (fa_state fa)(f \<mapsto> Allocated)
           \<and> as_owned space (fa', m') = insert f (as_owned space (fa, m)) \<and> f \<notin> as_owned space (fa, m)"
    using as_inv_alloc [OF inv] by blast
  show ?thesis
  proof (cases r)
    case (Some f)
    then have f: "fa_state fa f = Some Free" "fa_state fa' = (fa_state fa)(f \<mapsto> Allocated)"
        "as_owned space (fa', m') = insert f (as_owned space (fa, m))" "f \<notin> as_owned space (fa, m)" using r(4) by auto
    have hi: "handles_inv space as_id (fa', m') ht"
      by (rule handles_inv_cong [OF hi0 r(3)]) (simp add: f(3) subset_insertI)
    have dom: "dom (fa_state fa') = dom (fa_state fa)" unfolding f(2) using f(1) by auto
    have fit: "frames_fit space fa'" using ok dom by (auto simp: space_ok_def intro: frames_fit_dom)
    have data: "user_pages_data space (fa', m')" using ok unfolding space_ok_def user_pages_data_def r(3) f(3) by blast
    have "map_option fst (as_look space (fa', m') u) \<noteq> Some f" if "u < USER_SPACE_END" for u
      using ok f(4) that user_page_owned [of space "(fa, m)" u f] unfolding r(3) space_ok_def by blast
    then have "loose space (fa', m') ht f" using f(3,4) owned_frame(1) [OF ok] unfolding loose_def by blast
    then show ?thesis using r(1,2,3) Some f hi fit data by (simp add: space_ok_def)
  qed (use r ok in simp)
qed

lemma space_ok_dealloc:
  assumes ok: "space_ok space as_id (fa, m) ht" and f: "loose space (fa, m) ht f"
  shows "\<exists>fa'. dealloc fa f = Ret fa' \<and> space_ok space as_id (fa', m) ht
    \<and> fa_state fa' = (fa_state fa)(f \<mapsto> Free) \<and> as_look space (fa', m) = as_look space (fa, m)"
proof -
  have inv: "as_inv space (fa, m)" and hi: "handles_inv space as_id (fa, m) ht" using ok by (simp_all add: space_ok_def)
  have own: "f \<in> as_owned space (fa, m)" "fa_state fa f = Some Allocated"
    using f by (auto simp: loose_def as_owned_def data_frames_def)
  obtain fa' where fa': "dealloc fa f = Ret fa'" "as_inv space (fa', m)" "as_look space (fa', m) = as_look space (fa, m)"
      "as_owned space (fa', m) = as_owned space (fa, m) - {f}" "fa_state fa' = (fa_state fa)(f \<mapsto> Free)"
    using as_inv_dealloc [OF inv own(1)] by blast
  have "user_pages_data space (fa', m)"
    using ok f unfolding space_ok_def user_pages_data_def loose_def fa'(3,4) by fastforce
  moreover have "dom (fa_state fa') = dom (fa_state fa)" unfolding fa'(5) using own(2) by auto
  then have "frames_fit space fa'" using ok by (auto simp: space_ok_def intro: frames_fit_dom)
  moreover have "holds space as_id (fa', m) (h_object g)" if j: "handle_get ht j = Some g" for j g
    using handles_invD(1) [OF hi j] fa'(3)
  proof (rule holds_cong)
    assume "obj_frame (h_object g) \<noteq> None"
    then obtain x where x: "obj_frame (h_object g) = Some x" by auto
    then have "x \<noteq> f" using f j by (auto simp: loose_def)
    then show "the (obj_frame (h_object g)) \<in> as_owned space (fa', m)" using owned_frame(1) [OF ok j x] x fa'(4) by simp
  qed
  then have "handles_inv space as_id (fa', m) ht" using hi unfolding handles_inv_def by blast
  ultimately show ?thesis using fa' by (auto simp: space_ok_def)
qed

text \<open>A frame handle becomes a mapping handle, or nothing changes.\<close>

lemma space_ok_map:
  assumes ok: "space_ok space as_id s ht" and h: "handle_get ht i = Some h" "h_object h = ObjFrame f"
    and v: "v < USER_SPACE_END" "v mod PAGE_SIZE = 0" and u: "user_accessible perms"
  shows "\<exists>r s'. address_space_map space f v perms cache s = Ret (r, s') \<and>
    (case r of
       Inl e \<Rightarrow> space_ok space as_id s' ht \<and> as_look space s' = as_look space s \<and> map_error_status e \<noteq> Panic
         \<and> fa_state (fst s') = fa_state (fst s)
     | Inr _ \<Rightarrow> space_ok space as_id s' (set_handle ht i (Some (h\<lparr>h_object := ObjMapping f as_id v\<rparr>)))
         \<and> as_look space s v = None \<and> as_look space s' = (as_look space s)(v \<mapsto> (f, perms)) \<and> as_owned space s' = as_owned space s)"
proof -
  have inv: "as_inv space s" and hi: "handles_inv space as_id s ht" and fit: "frames_fit space (fst s)"
    and data: "user_pages_data space s" using ok by (simp_all add: space_ok_def)
  note own = owned_frame [OF ok h(1), unfolded h(2), simplified]
  obtain r s' where r: "address_space_map space f v perms cache s = Ret (r, s')" "as_inv space s'"
      "case r of
         Inl _ \<Rightarrow> as_look space s' = as_look space s \<and> as_owned space s' = as_owned space s \<and> fa_state (fst s') = fa_state (fst s)
       | Inr _ \<Rightarrow> as_covers space v \<and> is_canonical (as_root space) v \<and> v mod PAGE_SIZE = 0 \<and> as_look space s v = None
           \<and> as_look space s' = (as_look space s)(v \<mapsto> (f, perms)) \<and> as_owned space s' = as_owned space s"
    using address_space_map_spec [OF inv, of f v perms cache] by blast
  have dom: "dom (fa_state (fst s')) = dom (fa_state (fst s))"
    using address_space_map_dom [of space "fst s" "snd s" f v perms cache r "fst s'" "snd s'"] inv r(1) by simp
  show ?thesis
  proof (cases r)
    case (Inl e)
    then have "map_error_status e \<noteq> Panic"
      using address_space_map_status [of space "fst s" "snd s" f v perms cache e s'] inv fit own(2) v u r(1) by simp
    moreover have "space_ok space as_id s' ht" using space_ok_same [OF ok r(2)] r(3) Inl dom by simp
    ultimately show ?thesis using r(1,3) Inl by simp
  next
    case (Inr x)
    then have lk: "as_look space s v = None" "as_look space s' = (as_look space s)(v \<mapsto> (f, perms))" "as_owned space s' = as_owned space s"
      using r(3) by auto
    have "user_pages_data space s'"
      using data own(1) unfolding user_pages_data_def lk(2,3) by (auto split: if_splits)
    moreover have "handles_inv space as_id s' (set_handle ht i (Some (h\<lparr>h_object := ObjMapping f as_id v\<rparr>)))"
    proof (rule handles_inv_set [OF hi])
      fix j g assume j: "j \<noteq> i" "handle_get ht j = Some g"
      have "obj_frame (h_object g) \<noteq> Some f" using handles_invD(2) [OF hi h(1) j(2)] j(1) h(2) by auto
      then show "holds space as_id s' (h_object g)"
        using handles_invD(1) [OF hi j(2)] lk by (cases "h_object g") (auto simp: holds_def)
    next
      fix g assume "Some (h\<lparr>h_object := ObjMapping f as_id v\<rparr>) = Some g"
      then show "holds space as_id s' (h_object g)"
        using handles_invD(1) [OF hi h(1)] h(2) lk v(1) by (auto simp: holds_def)
    next
      fix j g g' x assume "j \<noteq> i" "handle_get ht j = Some g" "Some (h\<lparr>h_object := ObjMapping f as_id v\<rparr>) = Some g'" "obj_frame (h_object g) = Some x"
      then show "obj_frame (h_object g') \<noteq> Some x" using handles_invD(2) [OF hi h(1), of j g] h(2) by auto
    qed (use h(1) in \<open>auto simp: handle_get_def split: if_splits\<close>)
    ultimately show ?thesis using r(1,2) Inr lk frames_fit_dom [OF fit dom] by (simp add: space_ok_def)
  qed
qed


subsection \<open>The state during a call\<close>

text \<open>The kernel with the current task's handles and the memory replaced.\<close>

definition with_mem :: "Kernel \<Rightarrow> TaskId \<Rightarrow> Tcb \<Rightarrow> HandleTable \<Rightarrow> alloc_mem \<Rightarrow> Kernel" where
  "with_mem k c task ht s =
     k\<lparr>k_allocator := Some (fst s), k_mem := snd s, k_sched := set_task (k_sched k) c (task\<lparr>tcb_handles := ht\<rparr>)\<rparr>"

lemma with_mem_id:
  assumes "running k c task space fa"
  shows "with_mem k c task (tcb_handles task) (fa, k_mem k) = k"
proof -
  have cur: "current_task k = Ret (c, task)" and al: "k_allocator k = Some fa" using assms by (simp_all add: running_def)
  have "sch_tasks (k_sched k) ! c = Some task" using current_taskD(2) [OF cur] by (simp add: slot_get_def split: if_splits)
  then have "(sch_tasks (k_sched k))[c := Some task] = sch_tasks (k_sched k)" using list_update_id [of "sch_tasks (k_sched k)" c] by simp
  then have "set_task (k_sched k) c (task\<lparr>tcb_handles := tcb_handles task\<rparr>) = k_sched k" by (simp add: set_task_def)
  then show ?thesis using al by (simp add: with_mem_def)
qed

lemma with_mem_simps [simp]:
  "k_mem (with_mem k c task ht s) = snd s" "k_allocator (with_mem k c task ht s) = Some (fst s)"
  "k_spaces (with_mem k c task ht s) = k_spaces k" "k_active (with_mem k c task ht s) = k_active k"
  "k_serial (with_mem k c task ht s) = k_serial k"
  "(with_mem k c task ht s)\<lparr>k_mem := m\<rparr> = with_mem k c task ht (fst s, m)"
  by (simp_all add: with_mem_def)

lemma current_with_mem:
  assumes "current_task k = Ret (c, task)"
  shows "current_task (with_mem k c task ht s) = Ret (c, task\<lparr>tcb_handles := ht\<rparr>)"
  using current_taskD [OF assms] slot_get_length [OF current_taskD(2) [OF assms]]
  by (simp add: current_task_def current_def with_task_def with_mem_def set_task_slot)

lemma update_with_mem:
  "update_handles c (task\<lparr>tcb_handles := ht\<rparr>) ht' (with_mem k c task ht s) = with_mem k c task ht' s"
  by (simp add: update_handles_def update_task_def with_mem_def set_task_def)

lemma handle_ops_with_mem:
  assumes cur: "current_task k = Ret (c, task)"
  shows "take_handle i (with_mem k c task ht s) = Ret (handle_get ht i, with_mem k c task (set_handle ht i None) s)"
    and "i < length (ht_handles ht) \<Longrightarrow> handle_get ht i = None \<Longrightarrow>
      put_handle i h (with_mem k c task ht s) = Ret (with_mem k c task (set_handle ht i (Some h)) s)"
    and "push_handle h (with_mem k c task ht s) = (case position_none (ht_handles ht) of
        None \<Rightarrow> Ret (Inl h, with_mem k c task ht s)
      | Some i \<Rightarrow> Ret (Inr i, with_mem k c task (set_handle ht i (Some h)) s))"
proof -
  note c = current_with_mem [OF cur, of ht s]
  have "ht\<lparr>ht_handles := (ht_handles ht)[i := None]\<rparr> = ht" if "\<not> i < length (ht_handles ht)" using that by (simp add: list_update_beyond)
  then show "take_handle i (with_mem k c task ht s) = Ret (handle_get ht i, with_mem k c task (set_handle ht i None) s)"
    by (simp add: take_handle_def c handle_take_def handle_get_def update_with_mem set_handle_def)
  show "i < length (ht_handles ht) \<Longrightarrow> handle_get ht i = None \<Longrightarrow>
      put_handle i h (with_mem k c task ht s) = Ret (with_mem k c task (set_handle ht i (Some h)) s)"
    by (simp add: put_handle_def c handle_put_def handle_get_def update_with_mem set_handle_def)
  show "push_handle h (with_mem k c task ht s) = (case position_none (ht_handles ht) of
        None \<Rightarrow> Ret (Inl h, with_mem k c task ht s)
      | Some i \<Rightarrow> Ret (Inr i, with_mem k c task (set_handle ht i (Some h)) s))"
    by (simp add: push_handle_def c handle_push_def update_with_mem set_handle_def split: option.split)
qed

lemma memory_ops_with_mem:
  "with_allocator f (with_mem k c task ht s) = map_option (\<lambda>(r, s'). (r, with_mem k c task ht s')) (f s)"
  "alloc_frame (with_mem k c task ht s) = map_option (\<lambda>(r, s'). (r, with_mem k c task ht s')) (alloc (fst s) (snd s))"
  "dealloc_frame fr (with_mem k c task ht s) = map_option (\<lambda>fa. with_mem k c task ht (fa, snd s)) (dealloc (fst s) fr)"
  by (auto simp: with_allocator_def alloc_frame_def dealloc_frame_def with_mem_def split: bind_splits)

lemma mem_ok_with_mem:
  assumes run: "running k c task space fa" and ok: "space_ok space (tcb_as_id task) s ht"
  shows "mem_ok (with_mem k c task ht s) c (task\<lparr>tcb_handles := ht\<rparr>) space (fst s)"
  using run ok current_with_mem [of k c task ht s] by (simp add: mem_ok_def running_def space_ok_def)

text \<open>A validated range stays valid as long as no page of it is unmapped.\<close>

lemma look_mapping:
  assumes inv: "as_inv space s" and v: "v < USER_SPACE_END"
  shows "address_space_mapping space (snd s) v = map_option snd (as_look space s (v AND NOT (FRAME_SIZE - 1)))"
proof -
  let ?b = "v AND NOT (FRAME_SIZE - 1)"
  have b: "unat ?b = unat v div 4096 * 4096" by (rule align_down_aligned)
  then have "unat ?b \<le> unat v" by simp
  then have lt: "?b < USER_SPACE_END" using v by (simp add: word_less_nat_alt)
  have "?b mod PAGE_SIZE = 0" using frame_aligned_unat [of ?b] b by (simp add: frame_aligned_def FRAME_SIZE_def PAGE_SIZE_def)
  moreover have "same_page v ?b" using b by (simp add: same_page_def)
  then have "address_space_mapping space (snd s) v = address_space_mapping space (snd s) ?b"
    using mapping_same_page [OF inv] user_canonical v lt by blast
  ultimately show ?thesis
    using as_look_translation(2) [OF inv] user_canonical [OF lt] lt by (simp add: as_covers_def)
qed

lemma validate_mono:
  assumes "as_inv space (fa, m)" "as_inv space (fa', m')" "address_space_get t as_id = Some space"
    and look: "\<And>u e. as_look space (fa, m) u = Some e \<Longrightarrow> as_look space (fa', m') u = Some e"
    and val: "validate_user_range t m as_id start len wr = Inr ()"
  shows "validate_user_range t m' as_id start len wr = Inr ()"
proof (cases "len = 0")
  case True
  then show ?thesis using val by (auto simp: validate_user_range_def split: option.splits if_splits)
next
  case False
  have "page_allows wr (address_space_mapping space m' v)"
    if "v < USER_SPACE_END" "page_allows wr (address_space_mapping space m v)" for v
    using look_mapping [OF assms(1) that(1)] look_mapping [OF assms(2) that(1)] that(2) look
    by (cases "as_look space (fa, m) (v AND NOT (FRAME_SIZE - 1))") (auto simp: page_allows_def)
  then show ?thesis
    using validated_bytes(1,2) [OF assms(1,3) val] validate_user_range_spec [OF assms(1,3) False, of start wr]
      validate_user_range_spec [OF assms(2,3) False, of start wr] val by (auto split: if_splits)
qed

lemma copy_with_mem:
  assumes run: "running k c task space fa" and ok: "space_ok space (tcb_as_id task) s ht"
    and look: "\<And>u e. as_look space (fa, k_mem k) u = Some e \<Longrightarrow> as_look space s u = Some e"
    and val: "validate k (tcb_as_id task) p 8 True = Inr ()" and al: "p mod 8 = 0"
  shows "\<exists>m'. k_copy_val p x (with_mem k c task ht s) = Ret (Inr (), with_mem k c task ht (fst s, m'))
    \<and> space_ok space (tcb_as_id task) (fst s, m') ht \<and> as_look space (fst s, m') = as_look space s
    \<and> copy_val_from_user (as_root space) m' p = Ret (Inr x)"
proof -
  let ?k = "with_mem k c task ht s" and ?t = "task\<lparr>tcb_handles := ht\<rparr>"
  have r: "running ?k c ?t space (fst s)" using mem_ok_with_mem [OF run ok] by (simp add: mem_ok_def)
  have "validate ?k (tcb_as_id ?t) p 8 True = Inr ()"
    using validate_mono [of space fa "k_mem k" "fst s" "snd s" "k_spaces k" "tcb_as_id task" p 8 True] look val run ok
    by (simp add: validate_def running_def space_ok_def)
  then obtain m' where m': "k_copy_val p x ?k = Ret (Inr (), ?k\<lparr>k_mem := m'\<rparr>)" "copy_val_from_user (as_root space) m' p = Ret (Inr x)"
      "stores space (fst s) (footprint (as_root space) (k_mem ?k) p 8) (k_mem ?k) m'"
    using k_copy_val_stores [OF r _ al, of x] by blast
  then have lk: "as_inv space (fst s, m')" "as_look space (fst s, m') = as_look space s" "as_owned space (fst s, m') = as_owned space s"
    by (auto simp: stores_def as_look_def page_view_def as_owned_def data_frames_def fun_eq_iff)
  then have "space_ok space (tcb_as_id task) (fst s, m') ht" using space_ok_same [OF ok lk] by simp
  then show ?thesis using m'(1,2) lk(2) by (intro exI [of _ m']) simp
qed

subsection \<open>The calls\<close>

lemma position_none_free:
  assumes "position_none (ht_handles ht) = Some i"
  shows "i < length (ht_handles ht)" "handle_get ht i = None"
  using position_none_Some [OF assms] by (simp_all add: handle_get_def)

text \<open>
  How a call on frames ends: the task's memory and handles stay well-formed in any case; an
  error leaves the handles, the user's mappings and the state of every frame as they were.
\<close>

definition call_ends ::
  "Kernel \<Rightarrow> TaskId \<Rightarrow> Tcb \<Rightarrow> AddressSpace \<Rightarrow> FrameAllocator \<Rightarrow> ((Status + unit) \<times> Kernel) panics
   \<Rightarrow> (Status \<Rightarrow> bool) \<Rightarrow> (HandleTable \<Rightarrow> alloc_mem \<Rightarrow> bool) \<Rightarrow> bool" where
  "call_ends k c task space fa res reason effect \<longleftrightarrow>
     (\<exists>r ht s. res = Ret (r, with_mem k c task ht s) \<and> space_ok space (tcb_as_id task) s ht \<and>
        (case r of
           Inl e \<Rightarrow> reason e \<and> ht = tcb_handles task \<and> as_look space s = as_look space (fa, k_mem k) \<and> fa_state (fst s) = fa_state fa
         | Inr _ \<Rightarrow> effect ht s))"

lemma call_ends_unchanged:
  assumes "mem_ok k c task space fa" "res = Ret (Inl e, k)" "reason e"
  shows "call_ends k c task space fa res reason effect"
  using assms with_mem_id [of k c task space fa] unfolding call_ends_def mem_ok_def
  by (intro exI [of _ "Inl e"] exI [of _ "tcb_handles task"] exI [of _ "(fa, k_mem k)"]) simp

definition allocated :: "Tcb \<Rightarrow> AddressSpace \<Rightarrow> FrameAllocator \<Rightarrow> mem \<Rightarrow> usize \<Rightarrow> HandleTable \<Rightarrow> alloc_mem \<Rightarrow> bool" where
  "allocated task space fa m out ht s \<longleftrightarrow> as_look space s = as_look space (fa, m) \<and>
     (\<exists>f i. fa_state fa f = Some Free \<and> fa_state (fst s) = (fa_state fa)(f \<mapsto> Allocated)
        \<and> handle_get (tcb_handles task) i = None
        \<and> ht = set_handle (tcb_handles task) i (Some \<lparr>h_object = ObjFrame f, h_rights = ALL_RIGHTS OR MAP\<rparr>)
        \<and> handle_get ht i = Some \<lparr>h_object = ObjFrame f, h_rights = ALL_RIGHTS OR MAP\<rparr>
        \<and> copy_val_from_user (as_root space) (snd s) out = Ret (Inr (of_nat i)))"

text \<open>The allocation fails for lack of memory only when there is no free frame or no free handle.\<close>

definition alloc_error :: "Tcb \<Rightarrow> FrameAllocator \<Rightarrow> Status \<Rightarrow> bool" where
  "alloc_error task fa e \<longleftrightarrow>
     (e = OutOfMemory \<longrightarrow> (\<forall>f. fa_state fa f \<noteq> Some Free) \<or> None \<notin> set (ht_handles (tcb_handles task)))"

lemma validate_error:
  assumes "validate k as_id p n wr = Inl e" shows "e = BadAddress"
proof -
  have "validate_pages t m as_id wr pages = Inl e \<Longrightarrow> e = BadAddress" for t m pages
    by (induction pages) (auto split: option.splits if_splits)
  then show ?thesis using assms by (auto simp: validate_def validate_user_range_def split: option.splits if_splits)
qed

lemma frame_alloc_spec:
  assumes ok: "mem_ok k c task space fa"
  shows "call_ends k c task space fa (sys_frame_alloc out k) (alloc_error task fa)
    (allocated task space fa (k_mem k) out)"
proof (cases "check_out_arg out \<and> validate k (tcb_as_id task) out 8 True = Inr ()")
  case False
  have run: "current_task k = Ret (c, task)" using ok by (simp add: mem_ok_def running_def)
  have "\<exists>e. sys_frame_alloc out k = Ret (Inl e, k) \<and> e \<noteq> OutOfMemory"
    using False run validate_error [of k "tcb_as_id task" out 8 True]
    by (cases "check_out_arg out"; cases "validate k (tcb_as_id task) out 8 True") (auto simp: sys_frame_alloc_def)
  then obtain e where e: "sys_frame_alloc out k = Ret (Inl e, k)" "e \<noteq> OutOfMemory" by blast
  show ?thesis by (rule call_ends_unchanged [OF ok e(1)]) (use e(2) in \<open>simp add: alloc_error_def\<close>)
next
  case True
  then have arg: "check_out_arg out" "out mod 8 = 0" and val: "validate k (tcb_as_id task) out 8 True = Inr ()"
    by (simp_all add: check_out_arg_def)
  let ?ht = "tcb_handles task" and ?id = "tcb_as_id task"
  have run: "running k c task space fa" and sok: "space_ok space ?id (fa, k_mem k) ?ht" using ok by (simp_all add: mem_ok_def)
  have cur: "current_task k = Ret (c, task)" using run by (simp add: running_def)
  let ?wm = "with_mem k c task"
  note id = with_mem_id [OF run]
  obtain r fa' m' where r: "alloc fa (k_mem k) = Ret (r, fa', m')" "as_look space (fa', m') = as_look space (fa, k_mem k)"
      "case r of
         None \<Rightarrow> fa' = fa \<and> m' = k_mem k \<and> (\<forall>f. fa_state fa f \<noteq> Some Free)
       | Some f \<Rightarrow> fa_state fa f = Some Free \<and> fa_state fa' = (fa_state fa)(f \<mapsto> Allocated)
           \<and> space_ok space ?id (fa', m') ?ht \<and> loose space (fa', m') ?ht f"
    using space_ok_alloc [OF sok] by blast
  have al: "alloc_frame k = Ret (r, ?wm ?ht (fa', m'))" using memory_ops_with_mem(2) [of k c task ?ht "(fa, k_mem k)"] r(1) id by simp
  show ?thesis
  proof (cases r)
    case None
    then have "sys_frame_alloc out k = Ret (Inl OutOfMemory, k)" using arg val al cur id r(3) by (simp add: sys_frame_alloc_def)
    then show ?thesis by (rule call_ends_unchanged [OF ok]) (use None r(3) in \<open>simp add: alloc_error_def\<close>)
  next
    case (Some f)
    then have f: "fa_state fa f = Some Free" "fa_state fa' = (fa_state fa)(f \<mapsto> Allocated)" "space_ok space ?id (fa', m') ?ht"
        "loose space (fa', m') ?ht f" using r(3) by auto
    let ?h = "\<lparr>h_object = ObjFrame f, h_rights = ALL_RIGHTS OR MAP\<rparr>"
    note push = handle_ops_with_mem(3) [OF cur, of ?h ?ht "(fa', m')"]
    show ?thesis
    proof (cases "position_none (ht_handles ?ht)")
      case None
      obtain fa2 where d: "dealloc fa' f = Ret fa2" "space_ok space ?id (fa2, m') ?ht" "fa_state fa2 = (fa_state fa')(f \<mapsto> Free)"
          "as_look space (fa2, m') = as_look space (fa', m')"
        using space_ok_dealloc [OF f(3,4)] by blast
      have "sys_frame_alloc out k = Ret (Inl OutOfMemory, ?wm ?ht (fa2, m'))"
        using arg val al cur Some push None memory_ops_with_mem(3) [of f k c task ?ht "(fa', m')"] d(1) by (simp add: sys_frame_alloc_def)
      moreover have "fa_state fa2 = fa_state fa" using d(3) f(1,2) by (auto simp: fun_eq_iff)
      ultimately show ?thesis
        unfolding call_ends_def using d(2,4) r(2) None
        by (intro exI [of _ "Inl OutOfMemory"] exI [of _ ?ht] exI [of _ "(fa2, m')"]) (simp add: alloc_error_def position_none_None)
    next
      case (Some i)
      note i = position_none_free [OF Some]
      have ins: "space_ok space ?id (fa', m') (set_handle ?ht i (Some ?h))" by (rule space_ok_insert [OF f(3,4) i(1)])
      obtain m2 where m2: "k_copy_val out (of_nat i) (?wm (set_handle ?ht i (Some ?h)) (fa', m')) = Ret (Inr (), ?wm (set_handle ?ht i (Some ?h)) (fa', m2))"
          "space_ok space ?id (fa', m2) (set_handle ?ht i (Some ?h))" "as_look space (fa', m2) = as_look space (fa', m')"
          "copy_val_from_user (as_root space) m2 out = Ret (Inr (of_nat i))"
        using copy_with_mem [OF run ins _ val arg(2), of "of_nat i"] r(2) by auto
      have "sys_frame_alloc out k = Ret (Inr (), ?wm (set_handle ?ht i (Some ?h)) (fa', m2))"
        using arg val al cur \<open>r = Some f\<close> push Some m2(1) by (simp add: sys_frame_alloc_def)
      moreover have "allocated task space fa (k_mem k) out (set_handle ?ht i (Some ?h)) (fa', m2)"
        unfolding allocated_def using f(1,2) i m2(3,4) r(2) by (auto simp: handle_get_set)
      ultimately show ?thesis
        unfolding call_ends_def using m2(2) by (intro exI [of _ "Inr ()"] exI [of _ "set_handle ?ht i (Some ?h)"] exI [of _ "(fa', m2)"]) simp
    qed
  qed
qed


lemma set_handle_twice [simp]: "set_handle (set_handle ht i g) i h = set_handle ht i h"
  by (simp add: set_handle_def)

lemma length_set_handle [simp]: "length (ht_handles (set_handle ht i h)) = length (ht_handles ht)"
  by (simp add: set_handle_def)











lemma call_endsD:
  assumes run: "running k c task space fa" and "call_ends k c task space fa res reason effect"
  obtains r k' task' fa' where "res = Ret (r, k')" "mem_ok k' c task' space fa'" "tcb_as_id task' = tcb_as_id task"
    "case r of
       Inl e \<Rightarrow> reason e \<and> tcb_handles task' = tcb_handles task \<and> as_look space (fa', k_mem k') = as_look space (fa, k_mem k)
         \<and> fa_state fa' = fa_state fa
     | Inr _ \<Rightarrow> effect (tcb_handles task') (fa', k_mem k')"
proof -
  obtain r ht s where r: "res = Ret (r, with_mem k c task ht s)" "space_ok space (tcb_as_id task) s ht"
      "case r of
         Inl e \<Rightarrow> reason e \<and> ht = tcb_handles task \<and> as_look space s = as_look space (fa, k_mem k) \<and> fa_state (fst s) = fa_state fa
       | Inr _ \<Rightarrow> effect ht s"
    using assms(2) unfolding call_ends_def by blast
  show thesis by (rule that [OF r(1) mem_ok_with_mem [OF run r(2)]]) (use r(3) in \<open>simp_all split: sum.splits\<close>)
qed

subsection \<open>Properties\<close>


text \<open>
  \<open>sys_frame_alloc\<close> returns and reports the truth. On success exactly one frame that was free
  becomes allocated, a slot of the handle table that was empty holds a handle for it with all
  rights, and the number of that slot is stored where the caller asked. On an error the
  handles, the mappings and the state of every frame are the ones before the call; it runs
  out of memory only if no frame is free or all handles are in use.
\<close>

theorem sys_frame_alloc_correct:
  assumes ok: "mem_ok k c task space fa"
  shows "\<exists>r k' task' fa'. sys_frame_alloc out k = Ret (r, k') \<and> mem_ok k' c task' space fa'
    \<and> as_look space (fa', k_mem k') = as_look space (fa, k_mem k) \<and>
    (case r of
       Inl e \<Rightarrow> tcb_handles task' = tcb_handles task \<and> fa_state fa' = fa_state fa
         \<and> (e = OutOfMemory \<longrightarrow> (\<forall>f. fa_state fa f \<noteq> Some Free) \<or> None \<notin> set (ht_handles (tcb_handles task)))
     | Inr _ \<Rightarrow> \<exists>f i. fa_state fa f = Some Free \<and> fa_state fa' = (fa_state fa)(f \<mapsto> Allocated)
         \<and> handle_get (tcb_handles task) i = None
         \<and> (\<forall>j. handle_get (tcb_handles task') j = (if j = i then Some \<lparr>h_object = ObjFrame f, h_rights = ALL_RIGHTS OR MAP\<rparr>
                                                  else handle_get (tcb_handles task) j))
         \<and> copy_val_from_user (as_root space) (k_mem k') out = Ret (Inr (of_nat i)))"
proof -
  have run: "running k c task space fa" using ok by (simp add: mem_ok_def)
  obtain r k' task' fa' where r: "sys_frame_alloc out k = Ret (r, k')" "mem_ok k' c task' space fa'"
      "case r of
         Inl e \<Rightarrow> alloc_error task fa e \<and> tcb_handles task' = tcb_handles task
           \<and> as_look space (fa', k_mem k') = as_look space (fa, k_mem k) \<and> fa_state fa' = fa_state fa
       | Inr _ \<Rightarrow> allocated task space fa (k_mem k) out (tcb_handles task') (fa', k_mem k')"
    by (rule call_endsD [OF run frame_alloc_spec [OF ok, of out]])
  show ?thesis
  proof (cases r)
    case (Inl e)
    then show ?thesis using r by (intro exI conjI) (assumption | simp add: alloc_error_def)+
  next
    case (Inr x)
    then obtain f i where f: "as_look space (fa', k_mem k') = as_look space (fa, k_mem k)" "fa_state fa f = Some Free"
        "fa_state fa' = (fa_state fa)(f \<mapsto> Allocated)" "handle_get (tcb_handles task) i = None"
        "tcb_handles task' = set_handle (tcb_handles task) i (Some \<lparr>h_object = ObjFrame f, h_rights = ALL_RIGHTS OR MAP\<rparr>)"
        "handle_get (tcb_handles task') i = Some \<lparr>h_object = ObjFrame f, h_rights = ALL_RIGHTS OR MAP\<rparr>"
        "copy_val_from_user (as_root space) (k_mem k') out = Ret (Inr (of_nat i))"
      using r(3) by (auto simp: allocated_def)
    have "handle_get (tcb_handles task') j = (if j = i then Some \<lparr>h_object = ObjFrame f, h_rights = ALL_RIGHTS OR MAP\<rparr>
        else handle_get (tcb_handles task) j)" for j
      using f(6) unfolding f(5) by (auto simp: handle_get_set)
    then show ?thesis using r(1,2) Inr f(1-4,7) by (intro exI [of _ r] exI [of _ k'] exI [of _ task'] exI [of _ fa']) auto
  qed
qed


subsection \<open>Witnesses\<close>

lemma sample_frames_fit: "frames_fit sample_space sample_fa8"
  unfolding frames_fit_def
proof
  fix f assume "f \<in> dom (fa_state sample_fa8)"
  then have f: "frame_aligned f" "frame_index f < 8" by (auto simp: fa_state_def sample_fa8_fields split: if_splits)
  then have "unat f < 0x8000" using frame_unat_index [OF f(1)] by simp
  then show "f < physical_address_limit (pt_config (as_root sample_space))"
    by (simp add: sample_space_def sample_pt_def sample_limit word_less_nat_alt)
qed

lemma sample_space_ok:
  assumes "\<And>i h. handle_get ht i = Some h \<Longrightarrow> obj_frame (h_object h) = None"
  shows "space_ok sample_space as_id (sample_fa8, zero_mem) ht"
proof -
  have "as_look sample_space (sample_fa8, zero_mem) v = None" for v
    using sample_pt_inv(2) by (simp add: as_look_def page_view_def sample_space_def)
  moreover have "holds sample_space as_id s obj" if "obj_frame obj = None" for s obj using that by (cases obj) (simp_all add: holds_def)
  ultimately show ?thesis
    using assms sample_space_inv sample_frames_fit by (auto simp: space_ok_def user_pages_data_def handles_inv_def)
qed

text \<open>A task with one page mapped at \<open>0x7FFFFFFFE000\<close>, held by its handle 1.\<close>

lemma sample_mem_ok:
  obtains k task fa where "mem_ok k 0 task sample_space fa" "tcb_as_id task = 0" "validate k 0 0x7FFFFFFFE000 8 True = Inr ()"
    "\<And>i h a. handle_get (tcb_handles task) i = Some h \<Longrightarrow> h_object h \<noteq> ObjAddressSpace a"
    "\<And>i h f a v. handle_get (tcb_handles task) i = Some h \<Longrightarrow> h_object h = ObjMapping f a v \<Longrightarrow> a = 0"
proof -
  let ?v = "0x7FFFFFFFE000 :: usize" and ?perms = "page_permissions True False True"
  obtain s t0 where s: "tasks_ok s" "sch_current s = Some 0" "slot_get (sch_tasks s) 0 = Some t0" "tcb_as_id t0 = 0"
      "ht_handles (tcb_handles t0) = Some \<lparr>h_object = ObjThread 0, h_rights = 7\<rparr> # replicate 31 None"
    by (rule sample_tasks) blast
  let ?k = "(sample_kernel s)\<lparr>k_allocator := Some sample_fa8, k_mem := zero_mem, k_spaces := sample_table\<rparr>" and ?ht = "tcb_handles t0"
  have get: "handle_get ?ht i = (if i = 0 then Some \<lparr>h_object = ObjThread 0, h_rights = 7\<rparr> else None)" for i
    using s(5) by (simp add: handle_get_def nth_Cons split: nat.split)
  have len: "1 < length (ht_handles ?ht)" using s(5) by simp
  have sok: "space_ok sample_space 0 (sample_fa8, zero_mem) ?ht" using get by (intro sample_space_ok) (auto split: if_splits)
  then have run: "running ?k 0 t0 sample_space sample_fa8"
    using s by (simp add: running_def sample_kernel_def current_task_def current_def with_task_def sample_table_get space_ok_def)
      (simp add: sample_space_def)
  obtain f fa1 m1 s2 where al: "alloc sample_fa8 zero_mem = Ret (Some f, fa1, m1)"
      and mp: "address_space_map sample_space f ?v ?perms WriteBack (fa1, m1) = Ret (Inr (), s2)"
    using sample_stack_page by (auto simp: stack_page_map_def split: bind_splits option.splits sum.splits)
  let ?h = "\<lparr>h_object = ObjFrame f, h_rights = ALL_RIGHTS OR MAP\<rparr>"
  have "space_ok sample_space 0 (fa1, m1) ?ht" "loose sample_space (fa1, m1) ?ht f"
    using space_ok_alloc [OF sok] al by auto
  from space_ok_insert [OF this len] have sok1: "space_ok sample_space 0 (fa1, m1) (set_handle ?ht 1 (Some ?h))" .
  let ?ht1 = "set_handle ?ht 1 (Some ?h)" and ?ht2 = "set_handle ?ht 1 (Some (?h\<lparr>h_object := ObjMapping f 0 ?v\<rparr>))"
  have g1: "handle_get ?ht1 1 = Some ?h" using len by (simp add: handle_get_set)
  have ok2: "space_ok sample_space 0 s2 ?ht2" "as_look sample_space s2 = (as_look sample_space (fa1, m1))(?v \<mapsto> (f, ?perms))"
    using space_ok_map [OF sok1 g1, of f ?v ?perms WriteBack] mp
    by (auto simp: USER_SPACE_END_def PAGE_SIZE_def page_permissions_def)
  let ?k2 = "with_mem ?k 0 t0 ?ht2 s2" and ?t2 = "t0\<lparr>tcb_handles := ?ht2\<rparr>"
  have ok: "mem_ok ?k2 0 ?t2 sample_space (fst s2)" using mem_ok_with_mem [OF run] ok2(1) s(4) by simp
  have inv: "as_inv sample_space s2" using ok2(1) by (simp add: space_ok_def)
  have "as_look sample_space s2 ?v = Some (f, ?perms)" using ok2(2) by simp
  then have "address_space_mapping sample_space (snd s2) ?v = Some ?perms"
    using look_mapping [OF inv, of ?v] by (simp add: USER_SPACE_END_def FRAME_SIZE_def)
  moreover have "page_range (?v AND NOT (FRAME_SIZE - 1)) (?v + 8) = [?v]" by (simp add: page_range_def FRAME_SIZE_def)
  ultimately have "validate ?k2 0 ?v 8 True = Inr ()"
    by (simp add: validate_def validate_user_range_def checked_add_def USER_SPACE_END_def sample_table_get page_allows_def page_permissions_def)
  then show thesis
    using ok s(4) get by (intro that [of ?k2 ?t2 "fst s2"]) (auto simp: handle_get_set split: if_splits)
qed


theorem sys_frame_alloc_correct_witness:
  "\<exists>k task fa r k'. mem_ok k 0 task sample_space fa \<and> sys_frame_alloc 0x7FFFFFFFE000 k = Ret (r, k')"
proof -
  obtain k task fa where k: "mem_ok k 0 task sample_space fa" by (rule sample_mem_ok) blast
  then show ?thesis using sys_frame_alloc_correct [OF k, of "0x7FFFFFFFE000"] by blast
qed


end
