(* ===== verification/Syscalls_Control.thy ===== *)
theory Syscalls_Control
  imports Syscalls_Invariant User_Correctness
begin

section \<open>The processor follows the scheduler\<close>

text \<open>
  Every task runs in its own address space and on its own kernel stack: after any system
  call, resumption or exception, the page table the processor uses is the one of the current
  task, and the next entry into the kernel will use the current task's kernel stack. This is
  what \<open>Switch\<close>, which activates an address space only when it differs from the previous
  one, has to achieve. It rests on the address space of every task being in the table.
\<close>

definition task_shape :: "Scheduler \<Rightarrow> TaskId \<rightharpoonup> AddressSpaceId \<times> VirtualAddr" where
  "task_shape s i = map_option (\<lambda>t. (tcb_as_id t, sm_top (tcb_kernel_stack t))) (slot_get (sch_tasks s) i)"

definition runs_own_space :: "Kernel \<Rightarrow> bool" where
  "runs_own_space k \<longleftrightarrow>
     (\<forall>i a st. task_shape (k_sched k) i = Some (a, st) \<longrightarrow> address_space_get (k_spaces k) a \<noteq> None)
   \<and> (\<forall>c a st. sch_current (k_sched k) = Some c \<longrightarrow> task_shape (k_sched k) c = Some (a, st) \<longrightarrow>
        map_option as_root (address_space_get (k_spaces k) a) = Some (k_active k) \<and> k_stack_top k = st)"

text \<open>What \<open>runs_own_space\<close> looks at.\<close>

definition machine :: "Kernel \<Rightarrow> AddressSpaceTable \<times> PageTable \<times> VirtualAddr \<times> TaskId option \<times> (TaskId \<rightharpoonup> AddressSpaceId \<times> VirtualAddr)" where
  "machine k = (k_spaces k, k_active k, k_stack_top k, sch_current (k_sched k), task_shape (k_sched k))"

lemma runs_own_space_machine: "machine k' = machine k \<Longrightarrow> runs_own_space k' = runs_own_space k"
  by (simp add: machine_def runs_own_space_def)

subsection \<open>What leaves the machine alone\<close>

lemma task_shape_frame: "task_frame s' = task_frame s \<Longrightarrow> task_shape s' = task_shape s"
proof
  fix i assume "task_frame s' = task_frame s"
  then have "task_frame s' i = task_frame s i" by simp
  then show "task_shape s' i = task_shape s i"
    by (auto simp: task_frame_def task_shape_def map_option_case split: option.splits)
      (metis Tcb.select_convs(2,4) Tcb.surjective Tcb.update_convs(3))+
qed

lemma task_shape_set_task:
  assumes "slot_get (sch_tasks s) i = Some t0" "tcb_as_id t = tcb_as_id t0" "tcb_kernel_stack t = tcb_kernel_stack t0"
  shows "task_shape (set_task s i t) = task_shape s"
  using assms slot_get_length [OF assms(1)] by (auto simp: task_shape_def set_task_slot fun_eq_iff)

lemma machine_update_handles:
  assumes "current_task k = Ret (c, t)" shows "machine (update_handles c t ht k) = machine k"
  using task_shape_set_task [OF current_taskD(2) [OF assms], of "t\<lparr>tcb_handles := ht\<rparr>"]
  by (simp add: machine_def update_handles_def update_task_def)

lemma machine_update_mailbox:
  assumes "with_task (k_sched k) d = Some t" shows "machine (update_task d (t\<lparr>tcb_mailbox := mb\<rparr>) k) = machine k"
  using task_shape_set_task [of "k_sched k" d t "t\<lparr>tcb_mailbox := mb\<rparr>"] assms
  by (simp add: machine_def update_task_def with_task_def)

named_theorems still \<open>what leaves the machine alone\<close>

lemma machine_with_allocator [still]: "with_allocator f k = Ret (r, k') \<Longrightarrow> machine k' = machine k"
  by (auto simp: with_allocator_def machine_def split: bind_splits)

lemma machine_alloc_frame [still]: "alloc_frame k = Ret (r, k') \<Longrightarrow> machine k' = machine k"
  by (auto simp: alloc_frame_def machine_def split: bind_splits option.splits)

lemma machine_dealloc_frame [still]: "dealloc_frame f k = Ret k' \<Longrightarrow> machine k' = machine k"
  by (auto simp: dealloc_frame_def machine_def split: bind_splits option.splits)

lemma machine_k_copy_val [still]: "k_copy_val p x k = Ret (r, k') \<Longrightarrow> machine k' = machine k"
  by (auto simp: k_copy_val_def machine_def split: bind_splits)

lemma machine_k_copy_out [still]: "k_copy_out p bs k = Ret (r, k') \<Longrightarrow> machine k' = machine k"
  by (auto simp: k_copy_out_def machine_def split: bind_splits)

lemma machine_destroy_space [still]: "destroy_space sp k = Ret k' \<Longrightarrow> machine k' = machine k"
  by (auto simp: destroy_space_def split: bind_splits dest: machine_with_allocator)

lemma machine_push_handle [still]: "push_handle h k = Ret (r, k') \<Longrightarrow> machine k' = machine k"
  by (auto simp: push_handle_def machine_update_handles split: bind_splits prod.splits)

lemma machine_take_handle [still]: "take_handle i k = Ret (r, k') \<Longrightarrow> machine k' = machine k"
  by (auto simp: take_handle_def machine_update_handles split: bind_splits prod.splits)

lemma machine_put_handle [still]: "put_handle i h k = Ret k' \<Longrightarrow> machine k' = machine k"
  by (auto simp: put_handle_def machine_update_handles split: bind_splits prod.splits sum.splits)

lemma machine_write_chunks [still]: "write_chunks buf len written k = Ret (r, k') \<Longrightarrow> machine k' = machine k"
proof (induction buf len written k rule: write_chunks.induct)
  case (1 buf len written k)
  have m: "machine (serial_write bs k) = machine k" for bs by (simp add: machine_def serial_write_def)
  show ?case
    using 1 m by (subst (asm) write_chunks.simps) (auto simp: Let_def split: if_splits bind_splits sum.splits)
qed

lemma machine_write: "sys_write fd buf len out k = Ret (r, k') \<Longrightarrow> machine k' = machine k"
  by (auto simp: sys_write_def split: if_splits bind_splits sum.splits dest!: still)

lemma machine_frame_alloc: "sys_frame_alloc out k = Ret (r, k') \<Longrightarrow> machine k' = machine k"
  by (auto simp: sys_frame_alloc_def split: if_splits bind_splits sum.splits option.splits KernelObject.splits dest!: still)

lemma machine_frame_dealloc: "sys_frame_dealloc h k = Ret (r, k') \<Longrightarrow> machine k' = machine k"
  by (auto simp: sys_frame_dealloc_def split: if_splits bind_splits sum.splits option.splits KernelObject.splits dest!: still)

lemma machine_unmap: "sys_unmap h k = Ret (r, k') \<Longrightarrow> machine k' = machine k"
  by (auto simp: sys_unmap_def split: if_splits bind_splits sum.splits option.splits KernelObject.splits dest!: still)

lemma machine_map_taken_frame: "map_taken_frame a f v p out k = Ret (r, k') \<Longrightarrow> machine k' = machine k"
  by (auto simp: map_taken_frame_def split: bind_splits sum.splits option.splits KernelObject.splits dest!: still)

lemma machine_map: "sys_map a f v p out k = Ret (r, k') \<Longrightarrow> machine k' = machine k"
  by (auto simp: sys_map_def Let_def split: if_splits bind_splits sum.splits option.splits dest!: machine_map_taken_frame)

lemma machine_unblock:
  assumes "sched_inv s" "i < MAX_TASKS" "unblock i s = Ret s'"
  shows "sch_current s' = sch_current s" "task_shape s' = task_shape s"
proof -
  obtain s1 where u: "unblock i s = Ret s1" "task_frame s1 = task_frame s"
      "sched_view s1 = (case v_states (sched_view s) i of Some (Blocked _) \<Rightarrow> view_wake i (sched_view s) | _ \<Rightarrow> sched_view s)"
    using unblock_spec [OF assms(1,2)] by blast
  have "v_current (sched_view s1) = v_current (sched_view s)"
    unfolding u(3) by (simp add: view_wake_def split: option.split ThreadState.split)
  moreover have "s1 = s'" using u(1) assms(3) by simp
  ultimately show "sch_current s' = sch_current s" "task_shape s' = task_shape s" using task_shape_frame [OF u(2)] by simp_all
qed

lemma machine_recv_finish: "recv_finish p n l q k = Ret (r, k') \<Longrightarrow> machine k' = machine k"
  by (auto simp: recv_finish_def Let_def split: if_splits bind_splits sum.splits option.splits dest!: still)
    (auto dest!: current_taskD simp: machine_update_mailbox with_task_def)

lemma machine_deliver:
  assumes k: "kernel_ok k" and t: "with_task (k_sched k) dest = Some t"
    and push: "mailbox_push (tcb_mailbox t) msg = Ret (ok, mb)" and msg: "message_ok msg"
    and ub: "unblock dest (k_sched (update_task dest (t\<lparr>tcb_mailbox := mb\<rparr>) k)) = Ret s'"
  shows "machine ((update_task dest (t\<lparr>tcb_mailbox := mb\<rparr>) k)\<lparr>k_sched := s'\<rparr>) = machine k"
proof -
  let ?k = "update_task dest (t\<lparr>tcb_mailbox := mb\<rparr>) k"
  have "dest < length (sch_tasks (k_sched k))" using slot_get_length t by (auto simp: with_task_def)
  then have d: "dest < MAX_TASKS" using k by (simp add: tasks_ok_def sched_inv_def)
  have inv: "sched_inv (k_sched ?k)" using deliver_ok(1) [OF k t push msg] by (simp add: tasks_ok_def)
  show ?thesis
    using machine_unblock [OF inv d ub] machine_update_mailbox [OF t, of mb] by (simp add: machine_def)
qed

lemma machine_send: "kernel_ok k \<Longrightarrow> sys_send d p len k = Ret (r, k') \<Longrightarrow> machine k' = machine k"
  by (auto simp: sys_send_def Let_def machine_update_mailbox split: if_splits bind_splits sum.splits option.splits)
    (rule machine_deliver, assumption, assumption, assumption, rule message_ok_copy, assumption+)

subsection \<open>Switching\<close>

lemma runs_own_space_transfer:
  assumes own: "runs_own_space k" and c: "sch_current (k_sched k) = Some c" and ok: "transfer_ok idle (k_sched k) c tr"
    and fr: "task_frame s' = task_frame (k_sched k)" and view: "sched_view s' = hand_over st queued (sched_view (k_sched k))"
    and idle: "idle = Continue \<or> idle = Halt" and tr: "transfer rest tr (k\<lparr>k_sched := s'\<rparr>) = (out, k')"
  shows "runs_own_space k'"
proof (cases "ready_contents (sch_ready (k_sched k))")
  case Nil
  have "v_current (sched_view s') = Some c" unfolding view using Nil c by (simp add: hand_over_def)
  then have "machine (k\<lparr>k_sched := s'\<rparr>) = machine k" using c task_shape_frame [OF fr] by (simp add: machine_def)
  moreover have "k' = k\<lparr>k_sched := s'\<rparr>" using ok idle tr Nil by (auto simp: transfer_ok_def transfer_def)
  ultimately show ?thesis using own runs_own_space_machine by blast
next
  case (Cons n others)
  have "v_current (sched_view s') = Some n" unfolding view using Cons c by (simp add: hand_over_def)
  then have n: "sch_current s' = Some n" by simp
  obtain sw where sw: "tr = SwitchTo sw" "switch_of (k_sched k) c n sw" using ok Cons by (auto simp: transfer_ok_def)
  obtain tc tn where t: "slot_get (sch_tasks (k_sched k)) c = Some tc" "slot_get (sch_tasks (k_sched k)) n = Some tn"
      "sw_next_as_id sw = tcb_as_id tn" "sw_next_kernel_stack sw = sm_top (tcb_kernel_stack tn)"
      "sw_activate_address_space sw \<longleftrightarrow> tcb_as_id tn \<noteq> tcb_as_id tc"
    using sw(2) by (auto simp: switch_of_def)
  have shapes: "task_shape s' = task_shape (k_sched k)" "task_shape (k_sched k) c = Some (tcb_as_id tc, sm_top (tcb_kernel_stack tc))"
      "task_shape (k_sched k) n = Some (tcb_as_id tn, sm_top (tcb_kernel_stack tn))"
    using task_shape_frame [OF fr] t(1,2) by (simp_all add: task_shape_def)
  obtain sp where sp: "address_space_get (k_spaces k) (tcb_as_id tn) = Some sp"
    using own shapes(3) unfolding runs_own_space_def by blast
  have act: "map_option as_root (address_space_get (k_spaces k) (tcb_as_id tc)) = Some (k_active k)"
    using own c shapes(2) unfolding runs_own_space_def by blast
  have k': "k_spaces k' = k_spaces k" "k_sched k' = s'" "k_stack_top k' = sm_top (tcb_kernel_stack tn)" "k_active k' = as_root sp"
    using tr sw(1) t(3-5) sp act
    by (auto simp: transfer_def perform_def set_kernel_stack_def Let_def split: option.splits if_splits)
  show ?thesis
    using own n sp shapes unfolding runs_own_space_def k' by (auto simp: runs_own_space_def)
qed

lemma sys_yield_own: "runs_own_space k \<Longrightarrow> kernel_ok k \<Longrightarrow> sys_yield k = Ret (out, k') \<Longrightarrow> runs_own_space k'"
proof (cases "sch_current (k_sched k)")
  case None
  then show "sys_yield k = Ret (out, k') \<Longrightarrow> runs_own_space k \<Longrightarrow> runs_own_space k'"
    by (auto simp: sys_yield_def yield_current_def transfer_def Let_def split: bind_splits option.splits)
next
  case (Some c)
  assume own: "runs_own_space k" and ok: "kernel_ok k" and y: "sys_yield k = Ret (out, k')"
  have inv: "sched_inv (k_sched k)" using ok by (simp add: tasks_ok_def)
  obtain tr s where s: "yield_current (k_sched k) = Ret (tr, s)" "sched_view s = view_yield (sched_view (k_sched k))"
      "task_frame s = task_frame (k_sched k)" "transfer_ok Continue (k_sched k) c tr"
    using yield_spec [OF inv Some] by blast
  show "runs_own_space k'"
    using y s(1) by (intro runs_own_space_transfer [OF own Some s(4,3) s(2) [unfolded view_yield_def]]) (auto simp: sys_yield_def)
qed

lemma sys_exit_own: "runs_own_space k \<Longrightarrow> kernel_ok k \<Longrightarrow> sys_exit_with why k = Ret (out, k') \<Longrightarrow> runs_own_space k'"
proof (cases "sch_current (k_sched k)")
  case None
  then show "sys_exit_with why k = Ret (out, k') \<Longrightarrow> runs_own_space k'"
    by (auto simp: sys_exit_with_def exit_current_def)
next
  case (Some c)
  assume own: "runs_own_space k" and ok: "kernel_ok k" and y: "sys_exit_with why k = Ret (out, k')"
  have inv: "sched_inv (k_sched k)" using ok by (simp add: tasks_ok_def)
  obtain tr s where s: "exit_current why (k_sched k) = Ret (tr, s)" "sched_view s = view_exit why (sched_view (k_sched k))"
      "task_frame s = task_frame (k_sched k)" "transfer_ok Halt (k_sched k) c tr"
    using exit_spec [OF inv Some, of why] by blast
  show "runs_own_space k'"
    using y s(1) by (intro runs_own_space_transfer [OF own Some s(4,3) s(2) [unfolded view_exit_def]]) (auto simp: sys_exit_with_def)
qed

lemma sys_recv_own:
  assumes own: "runs_own_space k" and ok: "kernel_ok k" and r: "sys_recv p n l q k = Ret (out, k')"
  shows "runs_own_space k'"
proof (cases "\<exists>c t. current_task k = Ret (c, t) \<and> p \<noteq> 0 \<and> mb_len (tcb_mailbox t) = 0")
  case False
  then show ?thesis
    using r own by (auto simp: sys_recv_def split: if_splits bind_splits dest!: machine_recv_finish runs_own_space_machine)
next
  case True
  then obtain c t where c: "current_task k = Ret (c, t)" "p \<noteq> 0" "mb_len (tcb_mailbox t) = 0" by blast
  have inv: "sched_inv (k_sched k)" using ok by (simp add: tasks_ok_def)
  note cur = current_taskD(1) [OF c(1)]
  obtain tr s where s: "block_current RecvBlock (k_sched k) = Ret (tr, s)" "sched_view s = view_block RecvBlock (sched_view (k_sched k))"
      "task_frame s = task_frame (k_sched k)" "transfer_ok Halt (k_sched k) c tr"
    using block_spec [OF inv cur, of RecvBlock] by blast
  show ?thesis
    using r s(1) c by (intro runs_own_space_transfer [OF own cur s(4,3) s(2) [unfolded view_block_def]]) (auto simp: sys_recv_def)
qed

subsection \<open>Creating address spaces\<close>

text \<open>Spaces may be added; nothing else changes.\<close>

definition grows :: "Kernel \<Rightarrow> Kernel \<Rightarrow> bool" where
  "grows k k' \<longleftrightarrow> snd (machine k') = snd (machine k)
     \<and> (\<forall>a sp. address_space_get (k_spaces k) a = Some sp \<longrightarrow> address_space_get (k_spaces k') a = Some sp)"

lemma grows_machine: "machine k' = machine k \<Longrightarrow> grows k k'"
  by (simp add: grows_def machine_def)

lemma grows_trans: "grows k k1 \<Longrightarrow> grows k1 k2 \<Longrightarrow> grows k k2"
  by (simp add: grows_def)

lemma runs_own_space_grows:
  assumes own: "runs_own_space k" and "grows k k'"
  shows "runs_own_space k'"
proof -
  have sp: "address_space_get (k_spaces k') a = Some sp" if "address_space_get (k_spaces k) a = Some sp" for a sp
    using assms(2) that by (simp add: grows_def)
  have eq: "k_active k' = k_active k" "k_stack_top k' = k_stack_top k" "sch_current (k_sched k') = sch_current (k_sched k)"
      "task_shape (k_sched k') = task_shape (k_sched k)"
    using assms(2) by (simp_all add: grows_def machine_def)
  show ?thesis
    unfolding runs_own_space_def eq
  proof (intro conjI allI impI)
    fix i a st assume "task_shape (k_sched k) i = Some (a, st)"
    then obtain x where "address_space_get (k_spaces k) a = Some x" using own unfolding runs_own_space_def by blast
    then show "address_space_get (k_spaces k') a \<noteq> None" using sp by simp
  next
    fix c a st assume c: "sch_current (k_sched k) = Some c" "task_shape (k_sched k) c = Some (a, st)"
    then have "map_option as_root (address_space_get (k_spaces k) a) = Some (k_active k)" "k_stack_top k = st"
      using own unfolding runs_own_space_def by blast+
    then show "map_option as_root (address_space_get (k_spaces k') a) = Some (k_active k)" "k_stack_top k = st"
      using sp by auto
  qed
qed

lemma insert_space_grows:
  assumes "insert_address_space sp k = (r, k1)"
  shows "grows k k1" "r = Inr i \<Longrightarrow> address_space_get (k_spaces k) i = None"
    "r = Inr i \<Longrightarrow> address_space_get (k_spaces k1) j = (if j = i then Some sp else address_space_get (k_spaces k) j)"
    "snd (machine k1) = snd (machine k)"
proof -
  obtain t where t: "address_space_insert (k_spaces k) sp = (r, t)" "k1 = k\<lparr>k_spaces := t\<rparr>"
    using assms by (auto simp: insert_address_space_def split: prod.splits)
  show m: "snd (machine k1) = snd (machine k)" using t(2) by (simp add: machine_def)
  show new: "r = Inr i \<Longrightarrow> address_space_get (k_spaces k) i = None" for i
    using spaces.insert_fresh [of "k_spaces k" sp i t] t(1) by simp
  show get: "r = Inr i \<Longrightarrow> address_space_get (k_spaces k1) j = (if j = i then Some sp else address_space_get (k_spaces k) j)" for i j
    using spaces.get_after_insert [of "k_spaces k" sp i t j] t by simp
  have "r = Inl x \<Longrightarrow> t = k_spaces k" for x
    using t(1) by (auto simp: address_space_insert_def split: option.splits)
  then show "grows k k1"
    using m new get t(2) by (cases r) (auto simp: grows_def)
qed

lemma remove_space_get:
  assumes "remove_address_space i k = (r, k1)"
  shows "address_space_get (k_spaces k1) j = (if j = i then None else address_space_get (k_spaces k) j)" "snd (machine k1) = snd (machine k)"
  using assms spaces.get_after_remove [of "k_spaces k" i]
  by (auto simp: remove_address_space_def machine_def split: prod.splits)

lemma undone_space_grows:
  assumes "insert_address_space sp k = (Inr i, k1)" "machine k2 = machine k1" "remove_address_space i k2 = (r, k3)"
  shows "grows k k3"
proof -
  have "k_spaces k2 = k_spaces k1" "snd (machine k2) = snd (machine k1)" using assms(2) by (simp_all add: machine_def)
  then show ?thesis
    unfolding grows_def
    using insert_space_grows(2-4) [OF assms(1)] remove_space_get [OF assms(3)] by auto
qed

lemma as_create_grows:
  assumes c: "sys_as_create out k = Ret (r, k')"
  shows "grows k k'"
proof (cases "k' = k")
  case True
  then show ?thesis by (simp add: grows_machine)
next
  case False
  then obtain task sp r1 k1 where k1: "with_allocator (address_space_new_user sp) k = Ret (r1, k1)"
      and rest: "(case r1 of
                     Inl _ \<Rightarrow> Ret (Inl OutOfMemory, k1)
                   | Inr new_as \<Rightarrow>
                       (case insert_address_space new_as k1 of
                          (Inl space, k) \<Rightarrow> do { k \<leftarrow> destroy_space space k; Ret (Inl OutOfMemory, k) }
                        | (Inr as_id, k) \<Rightarrow> do {
                            (r, k) \<leftarrow> push_handle \<lparr>h_object = ObjAddressSpace as_id, h_rights = ALL_RIGHTS\<rparr> k;
                            (case r of
                               Inl hh \<Rightarrow>
                                 (case h_object hh of
                                    ObjAddressSpace as_id \<Rightarrow>
                                      (case remove_address_space as_id k of
                                         (None, _) \<Rightarrow> Panic
                                       | (Some space, k) \<Rightarrow> do { k \<leftarrow> destroy_space space k; Ret (Inl OutOfMemory, k) })
                                  | _ \<Rightarrow> Panic)
                             | Inr handle_id \<Rightarrow> k_copy_val out (of_nat handle_id) k) })) = Ret (r, k')"
    using c by (auto simp: sys_as_create_def split: if_splits bind_splits sum.splits option.splits)
  have g1: "grows k k1" using machine_with_allocator [OF k1] by (rule grows_machine)
  have "grows k1 k'"
  proof (cases r1)
    case (Inl e)
    then show ?thesis using rest by (simp add: grows_machine)
  next
    case (Inr new_as)
    obtain r2 k2 where ins: "insert_address_space new_as k1 = (r2, k2)" by (cases "insert_address_space new_as k1")
    note g2 = insert_space_grows(1) [OF ins]
    show ?thesis
    proof (cases r2)
      case (Inl sp2)
      then show ?thesis
        using rest Inr ins grows_trans [OF g2 grows_machine] machine_destroy_space by (auto split: bind_splits)
    next
      case i: (Inr as_id)
      let ?h = "\<lparr>h_object = ObjAddressSpace as_id, h_rights = ALL_RIGHTS\<rparr>"
      obtain r3 k3 where p: "push_handle ?h k2 = Ret (r3, k3)" using rest Inr ins i by (auto split: bind_splits)
      note m3 = machine_push_handle [OF p]
      show ?thesis
      proof (cases r3)
        case (Inr h)
        then have "k_copy_val out (of_nat h) k3 = Ret (r, k')" using rest \<open>r1 = Inr new_as\<close> ins i p by simp
        then have "machine k' = machine k2" using machine_k_copy_val m3 by simp
        then show ?thesis using grows_trans [OF g2 grows_machine] by blast
      next
        case (Inl h)
        have "h = ?h" using p Inl by (auto simp: push_handle_def handle_push_def split: bind_splits option.splits)
        then obtain sp4 k4 where rm: "remove_address_space as_id k3 = (Some sp4, k4)" "destroy_space sp4 k4 = Ret k'"
          using rest \<open>r1 = Inr new_as\<close> ins i p Inl by (auto split: bind_splits option.splits prod.splits)
        have "grows k1 k4" by (rule undone_space_grows [OF ins [unfolded i] m3 rm(1)])
        then show ?thesis using grows_trans [OF _ grows_machine] machine_destroy_space [OF rm(2)] by blast
      qed
    qed
  qed
  then show ?thesis using grows_trans [OF g1] by blast
qed

subsection \<open>Creating tasks\<close>

lemma task_shape_stacks [simp]: "task_shape (s\<lparr>sch_stacks := p\<rparr>) = task_shape s"
  by (simp add: task_shape_def fun_eq_iff)

lemma add_task_own:
  assumes own: "runs_own_space k" and ok: "kernel_ok k" and t: "tcb_ok t" "None \<in> set (ht_handles (tcb_handles t))"
    and sp: "address_space_get (k_spaces k) (tcb_as_id t) \<noteq> None" and add: "add_task t (k_sched k) = Ret (r, s')"
  shows "runs_own_space (k\<lparr>k_sched := s'\<rparr>)" "r = Inr i \<Longrightarrow> sch_current s' \<noteq> Some i"
proof -
  have inv: "sched_inv (k_sched k)" using ok by (simp add: tasks_ok_def)
  have cur: "sch_current s' = sch_current (k_sched k)" using add_task_inv(2) [OF inv t(2) add] .
  have "runs_own_space (k\<lparr>k_sched := s'\<rparr>) \<and> (\<forall>i. r = Inr i \<longrightarrow> sch_current s' \<noteq> Some i)"
  proof (cases "position_none (sch_tasks (k_sched k))")
    case None
    then have "s' = k_sched k" "\<not> (\<exists>i. r = Inr i)" using add_task_spec [OF inv t(2)] add by auto
    then show ?thesis using own by auto
  next
    case (Some i)
    then have slots: "\<And>j. slot_get (sch_tasks s') j = (if j = i then Some (new_task i t) else slot_get (sch_tasks (k_sched k)) j)"
      and r: "r = Inr i" using add_task_spec [OF inv t(2)] add by auto
    have shape: "task_shape s' j = (if j = i then Some (tcb_as_id t, sm_top (tcb_kernel_stack t)) else task_shape (k_sched k) j)" for j
      using slots by (simp add: task_shape_def new_task_def)
    have "slot_get (sch_tasks (k_sched k)) i = None" using position_none_Some [OF Some] by (simp add: slot_get_def)
    then have ci: "sch_current (k_sched k) \<noteq> Some i" using current_task [OF inv, of i] by (metis option.distinct(1))
    have "runs_own_space (k\<lparr>k_sched := s'\<rparr>)"
      using own sp ci unfolding runs_own_space_def by (simp add: cur shape)
    then show ?thesis using r ci cur by simp
  qed
  then show "runs_own_space (k\<lparr>k_sched := s'\<rparr>)" "r = Inr i \<Longrightarrow> sch_current s' \<noteq> Some i" by auto
qed

lemma remove_task_shape:
  assumes "remove_task sp i s am = Ret (b, s', am')"
  shows "sch_current s' = sch_current s" "task_shape s' j = task_shape s j \<or> task_shape s' j = None"
    "sch_current s = Some c \<Longrightarrow> task_shape s' c = task_shape s c"
proof -
  have "s' = s \<or> sch_current s \<noteq> Some i \<and> sch_current s' = sch_current s \<and> sch_tasks s' = (sch_tasks s)[i := None]"
    using assms by (auto simp: remove_task_def Let_def split: if_splits option.splits bind_splits)
  then show "sch_current s' = sch_current s" "task_shape s' j = task_shape s j \<or> task_shape s' j = None"
    "sch_current s = Some c \<Longrightarrow> task_shape s' c = task_shape s c"
    by (auto simp: task_shape_def slot_get_update split: if_splits)
qed

lemma runs_own_space_fewer:
  assumes "runs_own_space k" "k_spaces k' = k_spaces k" "k_active k' = k_active k" "k_stack_top k' = k_stack_top k"
    "sch_current (k_sched k') = sch_current (k_sched k)"
    "\<And>j. task_shape (k_sched k') j = task_shape (k_sched k) j \<or> task_shape (k_sched k') j = None"
  shows "runs_own_space k'"
  unfolding runs_own_space_def assms(2-5)
  using assms(1,6) unfolding runs_own_space_def by (metis option.distinct(1))

lemma machine_allocate_kernel_stack:
  assumes "with_allocator (\<lambda>s. do { (r, sched, s) \<leftarrow> allocate_kernel_stack sp (k_sched k) s; Ret ((r, sched), s) }) k = Ret ((r1, s1), k1)"
  shows "machine (k1\<lparr>k_sched := s1\<rparr>) = machine k" "tasks_ok (k_sched k) \<Longrightarrow> tasks_ok s1"
proof -
  obtain am am1 where al: "allocate_kernel_stack sp (k_sched k) am = Ret (r1, s1, am1)"
    using assms by (rule with_allocator_run) (auto split: bind_splits)
  then have "sch_current s1 = sch_current (k_sched k)" "task_shape s1 = task_shape (k_sched k)"
    by (auto simp: allocate_kernel_stack_def split: bind_splits)
  then show "machine (k1\<lparr>k_sched := s1\<rparr>) = machine k" using machine_with_allocator [OF assms] by (simp add: machine_def)
  show "tasks_ok (k_sched k) \<Longrightarrow> tasks_ok s1" using allocate_kernel_stack_ok [OF al] .
qed

lemma task_create_finish_own:
  assumes own: "runs_own_space k" and ok: "kernel_ok k" and sp: "address_space_get (k_spaces k) a \<noteq> None"
    and r: "task_create_finish a e us out k = Ret (r, k')"
  shows "runs_own_space k'"
proof -
  obtain ksp r1 s1 k1 where k1: "with_allocator (\<lambda>s. do {
         (r, sched, s) \<leftarrow> allocate_kernel_stack ksp (k_sched k) s;
         Ret ((r, sched), s) }) k = Ret ((r1, s1), k1)" "k_kernel_space k = Some ksp"
    using r by (auto simp: task_create_finish_def split: bind_splits)
  note m1 = machine_allocate_kernel_stack [OF k1(1)]
  have own1: "runs_own_space (k1\<lparr>k_sched := s1\<rparr>)" using own runs_own_space_machine [OF m1(1)] by simp
  have sp1: "address_space_get (k_spaces k1) a \<noteq> None" using sp m1(1) by (simp add: machine_def)
  show ?thesis
  proof (cases r1)
    case (Inl e)
    then show ?thesis using r k1 own1 by (auto simp: task_create_finish_def)
  next
    case (Inr stack)
    obtain t m r2 s2 where t: "tcb_new_user (k_active k1) (k_user_thread_entry k1) a stack e us (k_mem k1) = Ret (t, m)"
        "add_task t s1 = Ret (r2, s2)"
      using r k1 Inr by (auto simp: task_create_finish_def split: bind_splits)
    note new = tcb_new_user_spec [OF t(1)]
    let ?k1 = "k1\<lparr>k_mem := m, k_sched := s1\<rparr>" and ?k2 = "k1\<lparr>k_mem := m, k_sched := s2\<rparr>"
    have own1': "runs_own_space ?k1" using own1 by (simp add: runs_own_space_def)
    have own2: "runs_own_space ?k2" "r2 = Inr i \<Longrightarrow> sch_current s2 \<noteq> Some i" for i
      using add_task_own [OF own1' _ new(1,2)] sp1 new(4) m1(2) ok t(2) by simp_all
    show ?thesis
    proof (cases r2)
      case (Inl t')
      then show ?thesis using r k1 Inr t own2 by (auto simp: task_create_finish_def)
    next
      case (Inr i)
      obtain r3 k3 where p: "push_handle \<lparr>h_object = ObjThread i, h_rights = ALL_RIGHTS\<rparr> ?k2 = Ret (r3, k3)"
        using r k1 \<open>r1 = Inr stack\<close> t Inr by (auto simp: task_create_finish_def split: bind_splits)
      have own3: "runs_own_space k3" using own2(1) runs_own_space_machine [OF machine_push_handle [OF p]] by simp
      show ?thesis
      proof (cases r3)
        case (Inr h)
        then have "k_copy_val out (of_nat h) k3 = Ret (r, k')"
          using r k1 \<open>r1 = Inr stack\<close> t \<open>r2 = Inr i\<close> p by (simp add: task_create_finish_def)
        then show ?thesis using own3 runs_own_space_machine [OF machine_k_copy_val] by blast
      next
        case (Inl h)
        obtain sp3 b s4 k4 where k4: "with_allocator (\<lambda>s. do {
            (ok, sched, s) \<leftarrow> remove_task sp3 i (k_sched k3) s;
            Ret ((ok, sched), s) }) k3 = Ret ((b, s4), k4)" "k' = k4\<lparr>k_sched := s4\<rparr>"
          using r k1 \<open>r1 = Inr stack\<close> t \<open>r2 = Inr i\<close> p Inl by (auto simp: task_create_finish_def split: bind_splits)
        obtain am3 am4 where "remove_task sp3 i (k_sched k3) am3 = Ret (b, s4, am4)"
          using k4(1) by (rule with_allocator_run) (auto split: bind_splits)
        note rm = remove_task_shape [OF this]
        have "k_spaces k4 = k_spaces k3" "k_active k4 = k_active k3" "k_stack_top k4 = k_stack_top k3"
          using machine_with_allocator [OF k4(1)] by (simp_all add: machine_def)
        then show ?thesis unfolding k4(2) using rm(1,2) by (intro runs_own_space_fewer [OF own3]) simp_all
      qed
    qed
  qed
qed

lemma task_create_own:
  assumes own: "runs_own_space k" and ok: "kernel_ok k" and r: "sys_task_create a e us out k = Ret (r, k')"
  shows "runs_own_space k'"
proof -
  have finish: "task_create_finish i e us out k = Ret (r, k') \<Longrightarrow> address_space_get (k_spaces k) i = Some x \<Longrightarrow> ?thesis" for i x
    using task_create_finish_own [OF own ok, of i e us out r k'] by simp
  show ?thesis
    using r own by (auto simp: sys_task_create_def split: if_splits bind_splits sum.splits option.splits dest: finish)
qed

subsection \<open>Every step\<close>

lemma handle_own:
  assumes own: "runs_own_space k" and ok: "kernel_ok k" and h: "handle num a0 a1 a2 a3 a4 a5 k = Ret (out, k')"
  shows "runs_own_space k'"
proof (cases "syscall_number num")
  case None
  then show ?thesis using h sys_exit_own [OF own ok] by (simp add: handle_def)
next
  case (Some n)
  have still: "machine k' = machine k \<Longrightarrow> runs_own_space k'" using own runs_own_space_machine by blast
  show ?thesis
    using h Some sys_yield_own [OF own ok] sys_exit_own [OF own ok] still [OF machine_write] still [OF machine_send [OF ok]]
      sys_recv_own [OF own ok] still [OF machine_frame_alloc] still [OF machine_frame_dealloc]
      runs_own_space_grows [OF own as_create_grows] still [OF machine_map] still [OF machine_unmap] task_create_own [OF own ok]
    by (cases n) (auto simp: handle_def sys_exit_def dest!: finish_callD)
qed

lemma resume_own:
  assumes own: "runs_own_space k" and r: "resume k = Ret (out, k')"
  shows "runs_own_space k'"
proof -
  have "machine (k\<lparr>k_pending := pd\<rparr>) = machine k" for pd by (simp add: machine_def)
  then have "machine k' = machine k"
    using r by (auto simp: resume_def Let_def split: bind_splits option.splits Pending.splits dest!: finish_callD machine_recv_finish)
  then show ?thesis using own runs_own_space_machine by blast
qed

lemma kernel_step_own: "kernel_step k k' \<Longrightarrow> kernel_ok k \<Longrightarrow> runs_own_space k \<Longrightarrow> runs_own_space k'"
  by (induction rule: kernel_step.induct)
    (auto simp: handle_exception_def intro: handle_own resume_own sys_exit_own split: if_splits)

text \<open>
  (C4) Isolation of address spaces: in every run of the kernel, whatever system calls are made and
  whatever exceptions occur, the processor uses the page table of the current task's own
  address space and will enter the kernel on the current task's own kernel stack; and the
  address space of every task exists.
\<close>

theorem processor_follows_scheduler:
  assumes "kernel_step\<^sup>*\<^sup>* k k'" "tasks_ok (k_sched k)" "runs_own_space k"
  shows "runs_own_space k'"
proof -
  have "kernel_ok k' \<and> runs_own_space k'"
    using assms by (induction rule: rtranclp_induct) (auto intro: kernel_step_ok kernel_step_own)
  then show ?thesis by blast
qed

lemma sample_own:
  obtains s where "tasks_ok s" "sch_current s = Some 0" "ready_contents (sch_ready s) = [1, 2]"
    "runs_own_space ((sample_kernel s)\<lparr>k_spaces := sample_table, k_stack_top := 0x3000\<rparr>)"
proof -
  obtain s where s: "tasks_ok s" "sch_current s = Some 0" "ready_contents (sch_ready s) = [1, 2]"
      "list_all (\<lambda>x. case x of None \<Rightarrow> True | Some t \<Rightarrow> tcb_as_id t = 0 \<and> sm_top (tcb_kernel_stack t) = 0x3000) (sch_tasks s)"
    by (rule sample_tasks) blast
  have shape: "a = 0 \<and> st = 0x3000" if "task_shape s i = Some (a, st)" for i a st
    using that s(4) by (auto simp: task_shape_def slot_get_def list_all_length split: if_splits option.splits)
  have "runs_own_space ((sample_kernel s)\<lparr>k_spaces := sample_table, k_stack_top := 0x3000\<rparr>)"
    using shape by (fastforce simp: runs_own_space_def sample_kernel_def sample_table_get sample_space_def)
  then show thesis using that [OF s(1-3)] by simp
qed

theorem processor_follows_scheduler_witness:
  "\<exists>k k'. kernel_step k k' \<and> sch_current (k_sched k) = Some 0 \<and> sch_current (k_sched k') = Some 1 \<and> runs_own_space k'"
proof -
  obtain s where s: "tasks_ok s" "sch_current s = Some 0" "ready_contents (sch_ready s) = [1, 2]"
      "runs_own_space ((sample_kernel s)\<lparr>k_spaces := sample_table, k_stack_top := 0x3000\<rparr>)"
    by (rule sample_own)
  let ?k = "(sample_kernel s)\<lparr>k_spaces := sample_table, k_stack_top := 0x3000\<rparr>"
  have inv: "sched_inv s" using s(1) by (simp add: tasks_ok_def)
  obtain tr s' where y: "yield_current s = Ret (tr, s')" "sched_view s' = view_yield (sched_view s)"
    using yield_spec [OF inv s(2)] by blast
  have "v_current (sched_view s') = Some 1" unfolding y(2) using s by (simp add: view_yield_def hand_over_def)
  then have c: "sch_current s' = Some 1" by (simp only: view_simps)
  obtain out k' where t: "transfer (Some PendingYield) tr (?k\<lparr>k_sched := s'\<rparr>) = (out, k')"
    by (cases "transfer (Some PendingYield) tr (?k\<lparr>k_sched := s'\<rparr>)")
  have "handle 1 0 0 0 0 0 0 ?k = Ret (out, k')"
    using y(1) t by (simp add: handle_def syscall_number_def sys_yield_def sample_kernel_def)
  then have st: "kernel_step ?k k'" by (rule step_syscall)
  have "runs_own_space k'"
    by (rule processor_follows_scheduler [OF r_into_rtranclp [of kernel_step, OF st] _ s(4)]) (simp add: sample_kernel_def s(1))
  moreover have "k_sched k' = s'" using transfer_sched [OF t] by simp
  ultimately show ?thesis using c s(2) st by (intro exI [of _ ?k] exI [of _ k']) (simp add: sample_kernel_def)
qed



end
