(* ===== verification/Dusk_Sys.thy ===== *)
theory Dusk_Sys
  imports Syscalls_Control
begin

section \<open>The system call library of user programs\<close>

text \<open>
  \<open>src/userspace/dusk-sys/src/lib.rs\<close>: each function loads the registers and executes
  \<open>syscall\<close>. A stub is the function from its arguments and the registers before it to the
  registers at the \<open>syscall\<close> instruction, which are those the kernel finds in its frame;
  registers the assembly does not name keep their values. Where the Rust function passes the
  address of a local variable, that address is an argument of the stub. The status in \<open>rax\<close>
  is turned into a result by \<open>stub_status\<close> and \<open>stub_value\<close>.
\<close>

datatype UserStatus =
  UInvalidArgument | UBadAddress | UBadFileDescriptor | UNoSuchTask | UOutOfMemory | UBadHandle

definition user_status_from :: "usize \<Rightarrow> UserStatus" where
  "user_status_from value =
     (if value = 1 then UInvalidArgument else if value = 2 then UBadAddress else if value = 3 then UBadFileDescriptor
      else if value = 4 then UNoSuchTask else if value = 5 then UOutOfMemory else if value = 6 then UBadHandle
      else UInvalidArgument)"

datatype AddressSpaceHandle = AddressSpaceHandle usize
datatype ThreadHandle = ThreadHandle usize

definition SELF_AS :: AddressSpaceHandle where
  "SELF_AS = AddressSpaceHandle 0"

definition SELF_THREAD :: ThreadHandle where
  "SELF_THREAD = ThreadHandle 1"



subsection \<open>Results\<close>


text \<open>The calls that return what the kernel stored: the value is read after the call.\<close>

definition stub_value :: "usize \<Rightarrow> 'a \<Rightarrow> UserStatus + 'a" where
  "stub_value status v = (if status \<noteq> 0 then Inl (user_status_from status) else Inr v)"

subsection \<open>Stubs\<close>












subsection \<open>The library and the kernel agree\<close>







text \<open>The handles every task is given: its own address space first, itself second.\<close>

lemma self_handles:
  assumes new: "tcb_new_user pt ute as_id stack entry us m = Ret (t, m')" and inv: "sched_inv s" and add: "add_task t s = Ret (Inr i, s')"
  obtains t' where "slot_get (sch_tasks s') i = Some t'"
    "map_option h_object (handle_get (tcb_handles t') 0) = Some (ObjAddressSpace as_id)" "SELF_AS = AddressSpaceHandle 0"
    "map_option h_object (handle_get (tcb_handles t') 1) = Some (ObjThread i)" "SELF_THREAD = ThreadHandle 1"
proof -
  have room: "None \<in> set (ht_handles (tcb_handles t))" using tcb_new_user_spec [OF new] by simp
  have i: "slot_get (sch_tasks s') i = Some (new_task i t)"
    using add_task_spec [OF inv room] add by (auto split: option.splits)
  have h: "ht_handles (tcb_handles t) = Some \<lparr>h_object = ObjAddressSpace as_id, h_rights = READ OR WRITE OR EXECUTE\<rparr> # replicate 31 None"
    using new by (auto simp: tcb_new_user_def handle_push_new split: bind_splits)
  have r: "replicate 31 None = (None :: Handle option) # replicate 30 None" by (simp add: numeral_eq_Suc)
  show thesis
    using that [OF i] h by (simp add: new_task_def handle_push_def handle_get_def r SELF_AS_def SELF_THREAD_def)
qed

end
