(* ===== verification/Bytes.thy ===== *)
theory Bytes
  imports Memory
begin

section \<open>Byte slices and text\<close>

text \<open>
  What the parsers of \<open>src/src/format\<close> and \<open>src/userspace/omega3\<close> use of Rust's slices,
  strings and numbers. A \<open>&[u8]\<close> is a list of bytes; a \<open>&str\<close> is the list of its UTF-8 bytes.
  \<^item> \<open>bytes[a..b]\<close> panics out of range (\<open>slice\<close>, \<open>slice_from\<close>), \<open>bytes.get(a..b)\<close> gives
    \<open>None\<close> (\<open>slice_get\<close>).
  \<^item> \<open>from_utf8\<close> checks the byte ranges of well-formed UTF-8: no overlong forms, no
    surrogates, nothing above U+10FFFF.
  \<^item> \<open>usize::from_str_radix(_, 16)\<close> takes an optional plus sign and at least one digit of
    either case, and fails when the value does not fit.
\<close>

text \<open>A byte string literal.\<close>

definition ascii :: "string \<Rightarrow> u8 list" where
  "ascii s = map of_char s"

text \<open>\<open>?\<close> on a \<open>Result\<close>.\<close>

definition and_then :: "'e + 'a \<Rightarrow> ('a \<Rightarrow> 'e + 'b) \<Rightarrow> 'e + 'b" where
  "and_then r f = (case r of Inl e \<Rightarrow> Inl e | Inr a \<Rightarrow> f a)"

lemma and_then_simps [simp]: "and_then (Inl e) f = Inl e" "and_then (Inr a) f = f a"
  by (simp_all add: and_then_def)

definition slice_len :: "'a list \<Rightarrow> usize" where
  "slice_len xs = of_nat (length xs)"

definition slice_get :: "'a list \<Rightarrow> usize \<Rightarrow> usize \<Rightarrow> 'a list option" where
  "slice_get xs a b = (if a \<le> b \<and> unat b \<le> length xs then Some (take (unat b - unat a) (drop (unat a) xs)) else None)"

definition slice :: "'a list \<Rightarrow> usize \<Rightarrow> usize \<Rightarrow> 'a list panics" where
  "slice xs a b = slice_get xs a b"

definition slice_from :: "'a list \<Rightarrow> usize \<Rightarrow> 'a list panics" where
  "slice_from xs a = (if unat a \<le> length xs then Ret (drop (unat a) xs) else Panic)"

text \<open>A slice never has more than \<open>isize::MAX\<close> bytes.\<close>

definition slice_ok :: "'a list \<Rightarrow> bool" where
  "slice_ok xs \<longleftrightarrow> length xs < 2 ^ 63"

lemma unat_slice_len [simp]: "slice_ok xs \<Longrightarrow> unat (slice_len xs) = length xs"
  by (simp add: slice_ok_def slice_len_def)

lemma le_slice_len: "slice_ok xs \<Longrightarrow> a \<le> slice_len xs \<longleftrightarrow> unat a \<le> length xs"
  by (simp add: word_le_nat_alt)

lemma slice_get_Some:
  "slice_get xs a b = Some ys \<Longrightarrow> unat a \<le> unat b \<and> unat b \<le> length xs \<and> length ys = unat b - unat a \<and> ys = take (unat b - unat a) (drop (unat a) xs)"
  by (auto simp: slice_get_def word_le_nat_alt split: if_splits)

lemma slice_get_take:
  "unat a \<le> unat b \<Longrightarrow> unat b \<le> length xs \<Longrightarrow> slice_get xs a b = Some (take (unat b - unat a) (drop (unat a) xs))"
  by (simp add: slice_get_def word_le_nat_alt)

text \<open>A list that is a piece of another.\<close>

definition piece_at :: "'a list \<Rightarrow> nat \<Rightarrow> 'a list \<Rightarrow> bool" where
  "piece_at xs i ys \<longleftrightarrow> i + length ys \<le> length xs \<and> take (length ys) (drop i xs) = ys"

lemma piece_at_append [simp]: "piece_at (xs @ ys @ zs) (length xs) ys"
  by (simp add: piece_at_def)

lemma piece_at_slice: "piece_at xs i ys \<Longrightarrow> unat a = i \<Longrightarrow> unat b = i + length ys \<Longrightarrow> slice_get xs a b = Some ys"
  by (simp add: slice_get_def piece_at_def word_le_nat_alt)

lemma slice_piece_at: "slice_get xs a b = Some ys \<Longrightarrow> piece_at xs (unat a) ys"
  by (auto dest!: slice_get_Some simp: piece_at_def)

text \<open>Rounding down to a multiple of four.\<close>

lemma unat_and_not_3: "unat ((x :: 64 word) AND - 4) = unat x div 4 * 4"
proof -
  have m: "(- 4 :: 64 word) = NOT (mask 2)" by (simp add: mask_eq_exp_minus_1)
  have "x AND - 4 = push_bit 2 (drop_bit 2 x)"
    unfolding m by (rule bit_word_eqI) (auto simp: bit_simps simp flip: Suc_diff_le)
  also have "\<dots> = x div 4 * 4" by (simp add: push_bit_eq_mult drop_bit_eq_div)
  finally have "x AND - 4 = x div 4 * 4" .
  moreover have "unat x div 4 * 4 < 18446744073709551616" using unat_u64_bound [of x] by simp
  ultimately show ?thesis by (simp add: unat_word_ariths unat_div_distrib)
qed

lemma unat_of_nat_le: "unat (of_nat k :: usize) \<le> k"
  by (simp add: unat_of_nat)

lemma eq_of_unat: "unat x = k \<Longrightarrow> x = of_nat k"
  by auto

lemma unat_ucast_up [simp]:
  "unat (ucast (x :: u8) :: usize) = unat x" "unat (ucast (y :: u16) :: usize) = unat y" "unat (ucast (z :: u32) :: usize) = unat z"
  by (simp_all add: unsigned_ucast_eq take_bit_nat_eq_self_iff order.strict_trans [OF unsigned_less])

lemma checked_add_ret:
  assumes "unat a + unat b < 2 ^ 64"
  obtains c where "checked_add (a :: 64 word) b = Some c" "unat c = unat a + unat b"
  using assms by (auto simp: checked_add_def unat_add_no_overflow)

lemma to_from_le_bytes:
  assumes "LENGTH('l) = 8 * n" "length bs = n"
  shows "to_le_bytes n (from_le_bytes bs :: 'l::len word) = bs"
proof (rule nth_equalityI)
  fix i assume "i < length (to_le_bytes n (from_le_bytes bs :: 'l word))"
  then have i: "i < n" by simp
  show "to_le_bytes n (from_le_bytes bs :: 'l word) ! i = bs ! i"
  proof (rule bit_word_eqI)
    fix k assume "k < LENGTH(8)"
    then have "k < 8" "8 * i + k < 8 * n" "(8 * i + k) div 8 = i" "(8 * i + k) mod 8 = k" using i by simp_all
    then show "bit (to_le_bytes n (from_le_bytes bs :: 'l word) ! i) k = bit (bs ! i) k"
      using i assms by (simp add: to_le_bytes_def bit_from_le_bytes bit_simps)
  qed
qed (use assms in simp)

lemmas le_bytes_back [simp] = from_to_le_bytes [where n = 2 and 'l = 16, simplified]
  from_to_le_bytes [where n = 4 and 'l = 32, simplified] from_to_le_bytes [where n = 8 and 'l = 64, simplified]

subsection \<open>Fixed-size chunks\<close>

text \<open>\<open>chunks_exact(n)\<close>: the pieces of length \<open>n\<close>; a shorter rest is left out.\<close>

fun chunks_exact :: "nat \<Rightarrow> 'a list \<Rightarrow> 'a list list" where
  "chunks_exact n xs = (if n = 0 \<or> length xs < n then [] else take n xs # chunks_exact n (drop n xs))"

declare chunks_exact.simps [simp del]

lemma chunks_exact_Nil [simp]: "chunks_exact n [] = []"
  by (subst chunks_exact.simps) auto

lemma chunks_exact_append [simp]: "length xs = n \<Longrightarrow> 0 < n \<Longrightarrow> chunks_exact n (xs @ ys) = xs # chunks_exact n ys"
  by (subst chunks_exact.simps) simp

lemma chunks_exact_concat: "0 < n \<Longrightarrow> (\<And>x. x \<in> set xs \<Longrightarrow> length x = n) \<Longrightarrow> chunks_exact n (concat xs) = xs"
  by (induction xs) simp_all

lemma length_chunk: "c \<in> set (chunks_exact n xs) \<Longrightarrow> length c = n"
proof (induction n xs rule: chunks_exact.induct)
  case (1 n xs)
  then show ?case by (subst (asm) (2) chunks_exact.simps) (auto split: if_splits)
qed

lemma chunks_exact_index:
  assumes "0 < n" "length xs = k * n"
  shows "chunks_exact n xs = map (\<lambda>i. take n (drop (i * n) xs)) [0..<k]"
  using assms
proof (induction k arbitrary: xs)
  case 0
  then show ?case by simp
next
  case (Suc k)
  then have "chunks_exact n (drop n xs) = map (\<lambda>i. take n (drop (i * n) (drop n xs))) [0..<k]" by simp
  moreover have "chunks_exact n xs = take n xs # chunks_exact n (drop n xs)"
    using Suc.prems by (subst chunks_exact.simps) simp
  ultimately show ?case by (simp add: map_upt_Suc add.commute del: upt_Suc)
qed

lemma concat_chunks: "0 < n \<Longrightarrow> n dvd length xs \<Longrightarrow> concat (chunks_exact n xs) = xs"
proof (induction n xs rule: chunks_exact.induct)
  case (1 n xs)
  show ?case
  proof (cases "length xs < n")
    case True
    then have "xs = []" using 1(3) by (auto dest: dvd_imp_le)
    then show ?thesis by simp
  next
    case False
    then have "concat (chunks_exact n (drop n xs)) = drop n xs" using 1 by (intro 1(1)) (auto intro: dvd_diff_nat)
    then show ?thesis using False 1(2) by (subst chunks_exact.simps) simp
  qed
qed

subsection \<open>UTF-8\<close>

definition utf8_cont :: "u8 \<Rightarrow> bool" where
  "utf8_cont b \<longleftrightarrow> 0x80 \<le> b \<and> b \<le> 0xBF"

text \<open>The second byte of a three-byte and of a four-byte sequence.\<close>

definition utf8_second3 :: "u8 \<Rightarrow> u8 \<Rightarrow> bool" where
  "utf8_second3 a b \<longleftrightarrow> utf8_cont b \<and> (a = 0xE0 \<longrightarrow> 0xA0 \<le> b) \<and> (a = 0xED \<longrightarrow> b \<le> 0x9F)"

definition utf8_second4 :: "u8 \<Rightarrow> u8 \<Rightarrow> bool" where
  "utf8_second4 a b \<longleftrightarrow> utf8_cont b \<and> (a = 0xF0 \<longrightarrow> 0x90 \<le> b) \<and> (a = 0xF4 \<longrightarrow> b \<le> 0x8F)"

text \<open>\<open>UTF8_CHAR_WIDTH\<close>: how many bytes the sequence that starts with this byte has, 0 if none does.\<close>

definition utf8_width :: "u8 \<Rightarrow> nat" where
  "utf8_width a =
     (if a < 0x80 then 1 else if a < 0xC2 then 0 else if a < 0xE0 then 2 else if a < 0xF0 then 3
      else if a < 0xF5 then 4 else 0)"

fun utf8_valid :: "u8 list \<Rightarrow> bool" where
  "utf8_valid [] = True"
| "utf8_valid (a # bs) =
     (if utf8_width a = 1 then utf8_valid bs
      else if utf8_width a = 2 then (case bs of b # cs \<Rightarrow> utf8_cont b \<and> utf8_valid cs | _ \<Rightarrow> False)
      else if utf8_width a = 3 then
        (case bs of b # c # cs \<Rightarrow> utf8_second3 a b \<and> utf8_cont c \<and> utf8_valid cs | _ \<Rightarrow> False)
      else if utf8_width a = 4 then
        (case bs of b # c # d # cs \<Rightarrow> utf8_second4 a b \<and> utf8_cont c \<and> utf8_cont d \<and> utf8_valid cs | _ \<Rightarrow> False)
      else False)"

definition from_utf8 :: "u8 list \<Rightarrow> u8 list option" where
  "from_utf8 bs = (if utf8_valid bs then Some bs else None)"

lemma utf8_valid_ascii: "\<forall>b \<in> set bs. b < 0x80 \<Longrightarrow> utf8_valid bs"
  by (induction bs) (simp_all add: utf8_width_def)

lemma utf8_valid_append: "utf8_valid xs \<Longrightarrow> utf8_valid ys \<Longrightarrow> utf8_valid (xs @ ys)"
proof (induction xs rule: utf8_valid.induct)
  case 1
  then show ?case by simp
next
  case (2 a bs)
  consider "utf8_width a = 1" "utf8_valid bs"
    | b cs where "utf8_width a = 2" "bs = b # cs" "utf8_cont b" "utf8_valid cs"
    | b c cs where "utf8_width a = 3" "bs = b # c # cs" "utf8_second3 a b" "utf8_cont c" "utf8_valid cs"
    | b c d cs where "utf8_width a = 4" "bs = b # c # d # cs" "utf8_second4 a b" "utf8_cont c" "utf8_cont d" "utf8_valid cs"
    using 2(5) by (simp split: if_splits list.splits)
  then show ?case by cases (simp_all add: 2)
qed

text \<open>\<open>trim_end_matches('\0')\<close>.\<close>

definition trim_end_nul :: "u8 list \<Rightarrow> u8 list" where
  "trim_end_nul bs = rev (dropWhile (\<lambda>b. b = 0) (rev bs))"

lemma trim_end_nul_replicate: "name = [] \<or> last name \<noteq> 0 \<Longrightarrow> trim_end_nul (name @ replicate k 0) = name"
  by (cases name rule: rev_cases) (auto simp: trim_end_nul_def dropWhile_append)

subsection \<open>Hexadecimal numbers\<close>

definition hex_digit :: "u8 \<Rightarrow> usize option" where
  "hex_digit b =
     (if 48 \<le> b \<and> b \<le> 57 then Some (ucast (b - 48))
      else if 65 \<le> b \<and> b \<le> 70 then Some (ucast (b - 55))
      else if 97 \<le> b \<and> b \<le> 102 then Some (ucast (b - 87))
      else None)"

fun hex_value :: "usize \<Rightarrow> u8 list \<Rightarrow> usize option" where
  "hex_value acc [] = Some acc"
| "hex_value acc (b # bs) = do {
     d \<leftarrow> hex_digit b;
     acc \<leftarrow> checked_mul acc 16;
     acc \<leftarrow> checked_add acc d;
     hex_value acc bs }"

definition from_str_radix16 :: "u8 list \<Rightarrow> usize option" where
  "from_str_radix16 bs =
     (case bs of
        [] \<Rightarrow> None
      | b # ds \<Rightarrow> if b = 43 then (if ds = [] then None else hex_value 0 ds) else hex_value 0 bs)"

text \<open>\<open>usize::from_str_radix(core::str::from_utf8(field).ok()?, 16).ok()?\<close>\<close>

definition parse_field :: "u8 list \<Rightarrow> usize option" where
  "parse_field bs = do { s \<leftarrow> from_utf8 bs; from_str_radix16 s }"

text \<open>Printing: \<open>n\<close> upper-case digits of a number.\<close>

definition hex_char :: "nat \<Rightarrow> u8" where
  "hex_char d = (if d < 10 then of_nat (48 + d) else of_nat (55 + d))"

fun hex_chars :: "nat \<Rightarrow> nat \<Rightarrow> u8 list" where
  "hex_chars 0 v = []"
| "hex_chars (Suc n) v = hex_chars n (v div 16) @ [hex_char (v mod 16)]"

lemma length_hex_chars [simp]: "length (hex_chars n v) = n"
  by (induction n arbitrary: v) simp_all

lemma sixteen_cases: "d < (16 :: nat) \<Longrightarrow> d \<in> {0, 1, 2, 3, 4, 5, 6, 7, 8, 9, 10, 11, 12, 13, 14, 15}"
  by (simp only: insert_iff empty_iff) arith

lemma hex_digit_char: "d < 16 \<Longrightarrow> hex_digit (hex_char d) = Some (of_nat d) \<and> hex_char d < 0x80 \<and> hex_char d \<noteq> 43"
  by (drule sixteen_cases, simp only: insert_iff empty_iff, elim disjE) (simp_all add: hex_digit_def hex_char_def)

lemma hex_value_append: "hex_value acc (xs @ ys) = hex_value acc xs \<bind> (\<lambda>v. hex_value v ys)"
  by (induction xs arbitrary: acc) (auto split: bind_splits)

lemma hex_chars_plain: "b \<in> set (hex_chars n v) \<Longrightarrow> b < 0x80 \<and> b \<noteq> 43"
  by (induction n arbitrary: v) (auto simp: hex_digit_char)

lemma hex_value_chars: "v < 16 ^ n \<Longrightarrow> n \<le> 16 \<Longrightarrow> hex_value 0 (hex_chars n v) = Some (of_nat v)"
proof (induction n arbitrary: v)
  case 0
  then show ?case by simp
next
  case (Suc n)
  then have q: "v div 16 < 16 ^ n" by (simp add: less_mult_imp_div_less)
  have "(16 :: nat) ^ Suc n \<le> 16 ^ 16" using Suc.prems by (intro power_increasing) simp_all
  then have v: "v < 18446744073709551616" using Suc.prems(1) by simp
  then have "v div 16 < 18446744073709551616" "v div 16 * 16 < 18446744073709551616" "v div 16 * 16 + v mod 16 < 18446744073709551616"
    by simp_all
  then have u: "unat (of_nat (v div 16 * 16) :: usize) = v div 16 * 16" by (intro unat_of_nat_u64)
  have "checked_mul (of_nat (v div 16) :: usize) 16 = Some (of_nat (v div 16 * 16))" using v by (simp add: checked_mul_def)
  moreover have "checked_add (of_nat (v div 16 * 16) :: usize) (of_nat (v mod 16)) = Some (of_nat v)"
    using v by (simp add: checked_add_def u del: of_nat_mult flip: of_nat_add)
  ultimately show ?case using Suc.IH [OF q] Suc.prems(2) by (simp add: hex_value_append hex_digit_char)
qed

lemma parse_field_hex: "v < 2 ^ 32 \<Longrightarrow> parse_field (hex_chars 8 v) = Some (of_nat v)"
proof -
  assume v: "v < 2 ^ 32"
  have "hex_value 0 (hex_chars 8 v) = Some (of_nat v)" using v by (intro hex_value_chars) simp_all
  moreover obtain b ds where b: "hex_chars 8 v = b # ds"
    using length_hex_chars [of 8 v] by (cases "hex_chars 8 v") auto
  moreover have "utf8_valid (hex_chars 8 v)" "b \<noteq> 43"
    using hex_chars_plain [of _ 8 v] b by (auto simp del: utf8_valid.simps intro: utf8_valid_ascii)
  ultimately show ?thesis by (simp add: parse_field_def from_utf8_def from_str_radix16_def)
qed

lemma hex_value_bound: "hex_value acc bs = Some v \<Longrightarrow> unat v < (unat acc + 1) * 16 ^ length bs"
proof (induction bs arbitrary: acc)
  case Nil
  then show ?case by simp
next
  case (Cons b bs)
  then obtain d a1 a2 where "hex_digit b = Some d" "checked_mul acc 16 = Some a1" "checked_add a1 d = Some a2" "hex_value a2 bs = Some v"
    by (auto split: bind_splits)
  moreover have "unat d < 16" if "hex_digit b = Some d" for d
    using that by (auto simp: hex_digit_def word_le_nat_alt unat_sub unsigned_ucast_eq take_bit_nat_eq_self split: if_splits)
  ultimately have "unat a2 + 1 \<le> (unat acc + 1) * 16" "unat v < (unat a2 + 1) * 16 ^ length bs"
    using Cons.IH checked_add_unat [of a1 d a2] by (force simp: checked_simps unat_word_ariths)+
  then have "unat v < (unat acc + 1) * 16 * 16 ^ length bs"
    using mult_right_mono [of "unat a2 + 1" "(unat acc + 1) * 16" "16 ^ length bs"] by linarith
  then show ?case by (simp add: algebra_simps)
qed

lemma parse_field_bound: "parse_field bs = Some v \<Longrightarrow> length bs = 8 \<Longrightarrow> unat v < 2 ^ 32"
proof -
  assume p: "parse_field bs = Some v" and l: "length bs = 8"
  then obtain ds where "hex_value 0 ds = Some v" "length ds \<le> 8"
    by (auto simp: parse_field_def from_utf8_def from_str_radix16_def simp del: hex_value.simps split: bind_splits list.splits if_splits)
  moreover then have "(16 :: nat) ^ length ds \<le> 16 ^ 8" by (intro power_increasing) simp_all
  ultimately show ?thesis using hex_value_bound [of 0 ds v] by simp
qed

end
