(* ===== verification/Elf.thy ===== *)
theory Elf
  imports Bytes
begin

section \<open>Executable images\<close>

text \<open>
  \<open>src/src/format/elf.rs\<close>: the kernel's reader of static ELF64 executables. Reading a number
  at a fixed offset panics when the slice is too short; the theorems show that this cannot
  happen, and that the reader accepts exactly the files that start with the header of an
  image (\<open>image_header\<close>) and contain its program headers.
\<close>

datatype ElfError = ElfError

definition MACHINE :: u16 where
  "MACHINE = 62"

record Elf =
  elf_bytes :: "u8 list"
  elf_headers :: "u8 list"
  elf_entry :: usize

record Segment =
  seg_data :: "u8 list"
  seg_address :: usize
  seg_memory_size :: usize
  seg_writable :: bool
  seg_executable :: bool

definition u16_at :: "u8 list \<Rightarrow> nat \<Rightarrow> u16 panics" where
  "u16_at bytes offset = (if offset + 2 \<le> length bytes then Ret (from_le_bytes (take 2 (drop offset bytes))) else Panic)"

definition u32_at :: "u8 list \<Rightarrow> nat \<Rightarrow> u32 panics" where
  "u32_at bytes offset = (if offset + 4 \<le> length bytes then Ret (from_le_bytes (take 4 (drop offset bytes))) else Panic)"

definition usize_at :: "u8 list \<Rightarrow> nat \<Rightarrow> usize panics" where
  "usize_at bytes offset = (if offset + 8 \<le> length bytes then Ret (from_le_bytes (take 8 (drop offset bytes))) else Panic)"

definition ELF_IDENT :: "u8 list" where
  "ELF_IDENT = [0x7F, 0x45, 0x4C, 0x46, 2, 1, 1]"

text \<open>The condition of \<open>parse\<close>; each disjunct is read only when the ones before it are false.\<close>

definition header_rejected :: "u8 list \<Rightarrow> bool panics" where
  "header_rejected header = do {
     ident \<leftarrow> slice header 0 7;
     if ident \<noteq> ELF_IDENT then Ret True else do {
       object_type \<leftarrow> u16_at header 16;
       if object_type \<noteq> 2 then Ret True else do {
         machine \<leftarrow> u16_at header 18;
         if machine \<noteq> MACHINE then Ret True else do {
           version \<leftarrow> u32_at header 20;
           if version \<noteq> 1 then Ret True else do {
             header_size \<leftarrow> u16_at header 52;
             if header_size \<noteq> 64 then Ret True else do {
               entry_size \<leftarrow> u16_at header 54;
               Ret (entry_size \<noteq> 56) } } } } } }"

fun any_dynamic :: "u8 list list \<Rightarrow> bool panics" where
  "any_dynamic [] = Ret False"
| "any_dynamic (h # hs) = do {
     t \<leftarrow> u32_at h 0;
     if t = 2 \<or> t = 3 then Ret True else any_dynamic hs }"

definition elf_parse :: "u8 list \<Rightarrow> (ElfError + Elf) panics" where
  "elf_parse bytes =
     (case slice_get bytes 0 64 of
        None \<Rightarrow> Ret (Inl ElfError)
      | Some header \<Rightarrow> do {
          rejected \<leftarrow> header_rejected header;
          if rejected then Ret (Inl ElfError)
          else do {
            offset \<leftarrow> usize_at header 32;
            n \<leftarrow> u16_at header 56;
            let count = (ucast n :: usize);
            table_size \<leftarrow> checked_mul count 56;
            (case checked_add offset table_size of
               None \<Rightarrow> Ret (Inl ElfError)
             | Some table_end \<Rightarrow>
                 (case slice_get bytes offset table_end of
                    None \<Rightarrow> Ret (Inl ElfError)
                  | Some headers \<Rightarrow> do {
                      dynamic \<leftarrow> any_dynamic (chunks_exact 56 headers);
                      if dynamic then Ret (Inl ElfError)
                      else do {
                        entry \<leftarrow> usize_at header 24;
                        Ret (Inr \<lparr>elf_bytes = bytes, elf_headers = headers, elf_entry = entry\<rparr>) } })) } })"

text \<open>\<open>is_power_of_two\<close>: exactly one bit is set.\<close>

definition is_power_of_two :: "usize \<Rightarrow> bool" where
  "is_power_of_two w \<longleftrightarrow> list_ex (\<lambda>n. w = push_bit n 1) [0..<64]"

text \<open>The closure of \<open>segments\<close> that reads one program header.\<close>

definition elf_segment :: "Elf \<Rightarrow> u8 list \<Rightarrow> (ElfError + Segment) panics" where
  "elf_segment elf h = do {
     offset \<leftarrow> usize_at h 8;
     address \<leftarrow> usize_at h 16;
     file_size \<leftarrow> usize_at h 32;
     memory_size \<leftarrow> usize_at h 40;
     alignment \<leftarrow> usize_at h 48;
     if memory_size < file_size
        \<or> 1 < alignment \<and> (\<not> is_power_of_two alignment \<or> address mod alignment \<noteq> offset mod alignment)
     then Ret (Inl ElfError)
     else (case checked_add offset file_size of
             None \<Rightarrow> Ret (Inl ElfError)
           | Some data_end \<Rightarrow>
               (case slice_get (elf_bytes elf) offset data_end of
                  None \<Rightarrow> Ret (Inl ElfError)
                | Some data \<Rightarrow> do {
                    flags \<leftarrow> u32_at h 4;
                    Ret (Inr \<lparr>seg_data = data, seg_address = address, seg_memory_size = memory_size,
                      seg_writable = flags AND 2 \<noteq> 0, seg_executable = flags AND 1 \<noteq> 0\<rparr>) })) }"

fun segment_list :: "Elf \<Rightarrow> u8 list list \<Rightarrow> (ElfError + Segment) list panics" where
  "segment_list elf [] = Ret []"
| "segment_list elf (h # hs) = do {
     t \<leftarrow> u32_at h 0;
     if t = 1 then do {
       s \<leftarrow> elf_segment elf h;
       ss \<leftarrow> segment_list elf hs;
       Ret (s # ss) }
     else segment_list elf hs }"

definition elf_segments :: "Elf \<Rightarrow> (ElfError + Segment) list panics" where
  "elf_segments elf = segment_list elf (chunks_exact 56 (elf_headers elf))"

subsection \<open>Images\<close>

text \<open>The ELF64 layout of the file header and of a program header, as the specification gives it.\<close>

record Phdr =
  ph_type :: u32
  ph_flags :: u32
  ph_offset :: u64
  ph_vaddr :: u64
  ph_paddr :: u64
  ph_filesz :: u64
  ph_memsz :: u64
  ph_align :: u64

definition phdr_bytes :: "Phdr \<Rightarrow> u8 list" where
  "phdr_bytes p =
     to_le_bytes 4 (ph_type p) @ to_le_bytes 4 (ph_flags p) @ to_le_bytes 8 (ph_offset p) @ to_le_bytes 8 (ph_vaddr p)
     @ to_le_bytes 8 (ph_paddr p) @ to_le_bytes 8 (ph_filesz p) @ to_le_bytes 8 (ph_memsz p) @ to_le_bytes 8 (ph_align p)"

record Image =
  im_abi :: "u8 list"
  im_entry :: u64
  im_phoff :: u64
  im_shoff :: u64
  im_flags :: u32
  im_sections :: "u8 list"
  im_phdrs :: "Phdr list"

definition image_header :: "Image \<Rightarrow> u8 list" where
  "image_header im =
     ELF_IDENT @ im_abi im @ to_le_bytes 2 (2 :: u16) @ to_le_bytes 2 (62 :: u16) @ to_le_bytes 4 (1 :: u32)
     @ to_le_bytes 8 (im_entry im) @ to_le_bytes 8 (im_phoff im) @ to_le_bytes 8 (im_shoff im) @ to_le_bytes 4 (im_flags im)
     @ to_le_bytes 2 (64 :: u16) @ to_le_bytes 2 (56 :: u16) @ to_le_bytes 2 (of_nat (length (im_phdrs im)) :: u16) @ im_sections im"

definition image_table :: "Image \<Rightarrow> u8 list" where
  "image_table im = concat (map phdr_bytes (im_phdrs im))"

definition static_image :: "Image \<Rightarrow> u8 list \<Rightarrow> bool" where
  "static_image im bytes \<longleftrightarrow>
     length (im_abi im) = 9 \<and> length (im_sections im) = 6 \<and> length (im_phdrs im) < 2 ^ 16
   \<and> piece_at bytes 0 (image_header im) \<and> piece_at bytes (unat (im_phoff im)) (image_table im)
   \<and> (\<forall>p \<in> set (im_phdrs im). ph_type p \<noteq> 2 \<and> ph_type p \<noteq> 3)"

definition image_elf :: "Image \<Rightarrow> u8 list \<Rightarrow> Elf" where
  "image_elf im bytes = \<lparr>elf_bytes = bytes, elf_headers = image_table im, elf_entry = im_entry im\<rparr>"

text \<open>The segment a program header describes.\<close>

definition phdr_segment :: "u8 list \<Rightarrow> Phdr \<Rightarrow> ElfError + Segment" where
  "phdr_segment bytes p =
     (if ph_filesz p \<le> ph_memsz p \<and> unat (ph_offset p) + unat (ph_filesz p) \<le> length bytes
        \<and> (1 < ph_align p \<longrightarrow> is_power_of_two (ph_align p) \<and> ph_vaddr p mod ph_align p = ph_offset p mod ph_align p)
      then Inr \<lparr>seg_data = take (unat (ph_filesz p)) (drop (unat (ph_offset p)) bytes), seg_address = ph_vaddr p,
        seg_memory_size = ph_memsz p, seg_writable = bit (ph_flags p) 1, seg_executable = bit (ph_flags p) 0\<rparr>
      else Inl ElfError)"

lemma length_phdr_bytes [simp]: "length (phdr_bytes p) = 56"
  by (simp add: phdr_bytes_def)

lemma length_image_table [simp]: "length (image_table im) = 56 * length (im_phdrs im)"
  by (simp add: image_table_def length_concat comp_def sum_list_triv)

lemma chunks_image_table [simp]: "chunks_exact 56 (image_table im) = map phdr_bytes (im_phdrs im)"
  unfolding image_table_def by (rule chunks_exact_concat) auto

lemma phdr_fields [simp]:
  "u32_at (phdr_bytes p) 0 = Ret (ph_type p)" "u32_at (phdr_bytes p) 4 = Ret (ph_flags p)"
  "usize_at (phdr_bytes p) 8 = Ret (ph_offset p)" "usize_at (phdr_bytes p) 16 = Ret (ph_vaddr p)"
  "usize_at (phdr_bytes p) 32 = Ret (ph_filesz p)" "usize_at (phdr_bytes p) 40 = Ret (ph_memsz p)"
  "usize_at (phdr_bytes p) 48 = Ret (ph_align p)"
  by (simp_all add: u32_at_def usize_at_def) (simp_all add: phdr_bytes_def)

lemma header_fields:
  assumes "length (im_abi im) = 9" "length (im_sections im) = 6"
  defines "h \<equiv> image_header im"
  shows "length h = 64" "header_rejected h = Ret False" "usize_at h 32 = Ret (im_phoff im)" "usize_at h 24 = Ret (im_entry im)"
    "u16_at h 56 = Ret (of_nat (length (im_phdrs im)))"
proof -
  have l: "length ELF_IDENT = 7" by (simp add: ELF_IDENT_def)
  show len: "length h = 64" using assms l by (simp add: h_def image_header_def)
  have "take 7 h = ELF_IDENT" using l by (simp add: h_def image_header_def)
  then have "slice h 0 7 = Ret ELF_IDENT" using len by (simp add: slice_def slice_get_def)
  moreover have "u16_at h 16 = Ret 2" "u16_at h 18 = Ret 62" "u32_at h 20 = Ret 1" "u16_at h 52 = Ret 64" "u16_at h 54 = Ret 56"
    using assms(1,2) l len by (simp_all add: u16_at_def u32_at_def) (simp_all add: h_def image_header_def)
  ultimately show "header_rejected h = Ret False" by (simp add: header_rejected_def MACHINE_def)
  show "usize_at h 32 = Ret (im_phoff im)" "usize_at h 24 = Ret (im_entry im)"
    "u16_at h 56 = Ret (of_nat (length (im_phdrs im)))"
    using assms(1,2) l len by (simp_all add: u16_at_def usize_at_def) (simp_all add: h_def image_header_def)
qed

lemma any_dynamic_phdrs: "any_dynamic (map phdr_bytes ps) = Ret (\<exists>p \<in> set ps. ph_type p = 2 \<or> ph_type p = 3)"
  by (induction ps) auto

subsection \<open>Acceptance\<close>

lemma checked_table_size: "n < 2 ^ 16 \<Longrightarrow> checked_mul (ucast (of_nat n :: u16) :: usize) 56 = Some (of_nat (56 * n))"
proof -
  assume n: "n < 2 ^ 16"
  then have u: "unat (ucast (of_nat n :: u16) :: usize) = n" by (simp add: unsigned_ucast_eq unsigned_of_nat take_bit_nat_eq_self)
  then have "ucast (of_nat n :: u16) = (of_nat n :: usize)" by (rule eq_of_unat)
  then show ?thesis using n u by (simp add: checked_mul_def mult.commute)
qed

lemma elf_parse_image:
  assumes im: "static_image im bytes" and ok: "slice_ok bytes"
  shows "elf_parse bytes = Ret (Inr (image_elf im bytes))"
proof -
  have n: "length (im_phdrs im) < 2 ^ 16" and h: "piece_at bytes 0 (image_header im)"
      and t: "piece_at bytes (unat (im_phoff im)) (image_table im)"
    using im by (simp_all add: static_image_def)
  note f = header_fields [of im]
  have fs: "length (im_abi im) = 9" "length (im_sections im) = 6" using im by (simp_all add: static_image_def)
  have g: "slice_get bytes 0 64 = Some (image_header im)" using h f(1) [OF fs] by (intro piece_at_slice) simp_all
  have u: "unat (of_nat (56 * length (im_phdrs im)) :: usize) = 56 * length (im_phdrs im)" using n by (intro unat_of_nat_u64) simp
  have "unat (im_phoff im) + 56 * length (im_phdrs im) < 2 ^ 64" using t ok by (simp add: piece_at_def slice_ok_def)
  then obtain e where e: "checked_add (im_phoff im) (of_nat (56 * length (im_phdrs im))) = Some e"
      "unat e = unat (im_phoff im) + 56 * length (im_phdrs im)"
    using u by (metis checked_add_ret)
  have "slice_get bytes (im_phoff im) e = Some (image_table im)" using t e(2) by (intro piece_at_slice) simp_all
  moreover have "any_dynamic (map phdr_bytes (im_phdrs im)) = Ret False"
    using im by (simp add: any_dynamic_phdrs static_image_def)
  ultimately show ?thesis
    using e(1) by (simp add: elf_parse_def g f(2-5) [OF fs] checked_table_size [OF n] image_elf_def Let_def)
qed

lemma le_bytes_forth:
  "length bs = 2 \<Longrightarrow> to_le_bytes 2 (from_le_bytes bs :: u16) = bs"
  "length bs = 4 \<Longrightarrow> to_le_bytes 4 (from_le_bytes bs :: u32) = bs"
  "length bs = 8 \<Longrightarrow> to_le_bytes 8 (from_le_bytes bs :: u64) = bs"
  by (rule to_from_le_bytes; simp)+

lemma take_split: "take (a + b) xs = take a xs @ take b (drop a xs)"
  by (simp add: take_add)

text \<open>Reading a program header back.\<close>

definition phdr_of :: "u8 list \<Rightarrow> Phdr" where
  "phdr_of h = \<lparr>ph_type = from_le_bytes (take 4 h), ph_flags = from_le_bytes (take 4 (drop 4 h)),
     ph_offset = from_le_bytes (take 8 (drop 8 h)), ph_vaddr = from_le_bytes (take 8 (drop 16 h)),
     ph_paddr = from_le_bytes (take 8 (drop 24 h)), ph_filesz = from_le_bytes (take 8 (drop 32 h)),
     ph_memsz = from_le_bytes (take 8 (drop 40 h)), ph_align = from_le_bytes (take 8 (drop 48 h))\<rparr>"

lemma phdr_bytes_of: "length h = 56 \<Longrightarrow> phdr_bytes (phdr_of h) = h"
proof -
  assume l: "length h = 56"
  have "h = take (4 + 4 + 8 + 8 + 8 + 8 + 8 + 8) h" using l by simp
  also have "\<dots> = phdr_bytes (phdr_of h)"
    unfolding take_split using l by (simp add: phdr_bytes_def phdr_of_def le_bytes_forth)
  finally show ?thesis by simp
qed

lemma header_of_accepted:
  assumes l: "length h = 64" and acc: "header_rejected h = Ret False"
    and n: "u16_at h 56 = Ret (of_nat (length ps))"
  shows "image_header \<lparr>im_abi = take 9 (drop 7 h), im_entry = from_le_bytes (take 8 (drop 24 h)), im_phoff = from_le_bytes (take 8 (drop 32 h)),
      im_shoff = from_le_bytes (take 8 (drop 40 h)), im_flags = from_le_bytes (take 4 (drop 48 h)), im_sections = take 6 (drop 58 h), im_phdrs = ps\<rparr> = h"
    (is "image_header ?im = h")
proof -
  have f: "take 7 h = ELF_IDENT" "from_le_bytes (take 2 (drop 16 h)) = (2 :: u16)" "from_le_bytes (take 2 (drop 18 h)) = (62 :: u16)"
      "from_le_bytes (take 4 (drop 20 h)) = (1 :: u32)" "from_le_bytes (take 2 (drop 52 h)) = (64 :: u16)" "from_le_bytes (take 2 (drop 54 h)) = (56 :: u16)"
    using acc l by (auto simp: header_rejected_def slice_def slice_get_def u16_at_def u32_at_def MACHINE_def split: if_splits)
  have c: "from_le_bytes (take 2 (drop 56 h)) = (of_nat (length ps) :: u16)" using n l by (simp add: u16_at_def)
  have "h = take (7 + 9 + 2 + 2 + 4 + 8 + 8 + 8 + 4 + 2 + 2 + 2 + 6) h" using l by simp
  also have "\<dots> = image_header ?im"
    unfolding take_split using l by (simp add: image_header_def le_bytes_forth f(1) flip: f(2-6) c)
  finally show ?thesis by simp
qed

lemma elf_parse_accepted:
  assumes p: "elf_parse bytes = Ret (Inr e)"
  obtains im where "static_image im bytes" "e = image_elf im bytes"
proof -
  obtain h where h: "slice_get bytes 0 64 = Some h" using p by (auto simp: elf_parse_def split: option.splits)
  have l: "length h = 64" "piece_at bytes 0 h" using slice_get_Some [OF h] slice_piece_at [OF h] by simp_all
  obtain off n ts te hs entry where f: "header_rejected h = Ret False" "usize_at h 32 = Ret off" "u16_at h 56 = Ret n"
      "checked_mul (ucast n :: usize) 56 = Some ts" "checked_add off ts = Some te" "slice_get bytes off te = Some hs"
      "any_dynamic (chunks_exact 56 hs) = Ret False" "usize_at h 24 = Ret entry"
      "e = \<lparr>elf_bytes = bytes, elf_headers = hs, elf_entry = entry\<rparr>"
    using p h by (auto simp: elf_parse_def Let_def split: option.splits bind_splits if_splits)
  have "unat n < 2 ^ 16" using unsigned_less [of n] by simp
  then have "unat ts = unat n * 56" using f(4) by (auto simp: checked_simps unat_word_ariths unsigned_ucast_eq take_bit_nat_eq_self)
  moreover have "length hs = unat te - unat off" using slice_get_Some [OF f(6)] by blast
  ultimately have hs: "length hs = unat n * 56" using checked_add_unat [OF f(5)] by simp
  let ?ps = "map phdr_of (chunks_exact 56 hs)"
  let ?im = "\<lparr>im_abi = take 9 (drop 7 h), im_entry = from_le_bytes (take 8 (drop 24 h)), im_phoff = from_le_bytes (take 8 (drop 32 h)),
      im_shoff = from_le_bytes (take 8 (drop 40 h)), im_flags = from_le_bytes (take 4 (drop 48 h)), im_sections = take 6 (drop 58 h), im_phdrs = ?ps\<rparr>"
  have len: "length ?ps = unat n" using chunks_exact_index [OF _ hs] by simp
  have ps: "map phdr_bytes ?ps = chunks_exact 56 hs" by (auto simp: phdr_bytes_of length_chunk intro!: map_idI)
  have "concat (chunks_exact 56 hs) = hs" using hs by (intro concat_chunks) simp_all
  then have t: "image_table ?im = hs" using ps by (simp add: image_table_def)
  have "image_header ?im = h" using f(3) len by (intro header_of_accepted l(1) f(1)) simp
  moreover have "off = from_le_bytes (take 8 (drop 32 h))" "entry = from_le_bytes (take 8 (drop 24 h))"
    using f(2,8) l(1) by (simp_all add: usize_at_def)
  moreover have "\<forall>p \<in> set ?ps. ph_type p \<noteq> 2 \<and> ph_type p \<noteq> 3" using any_dynamic_phdrs [of ?ps] f(7) unfolding ps by auto
  moreover have "unat n < 2 ^ 16" using unsigned_less [of n] by simp
  ultimately show thesis
    using that [of ?im] l len t slice_piece_at [OF f(6)] f(9) by (simp add: static_image_def image_elf_def)
qed

text \<open>No input makes the reader panic.\<close>

lemma number_at_ret:
  "k + 2 \<le> length h \<Longrightarrow> \<exists>v. u16_at h k = Ret v" "k + 4 \<le> length h \<Longrightarrow> \<exists>v. u32_at h k = Ret v"
  "k + 8 \<le> length h \<Longrightarrow> \<exists>v. usize_at h k = Ret v"
  by (simp_all add: u16_at_def u32_at_def usize_at_def)

lemma header_rejected_ret: "length h = 64 \<Longrightarrow> header_rejected h \<noteq> Panic"
  by (simp add: header_rejected_def slice_def slice_get_def u16_at_def u32_at_def del: not_None_eq)

lemma any_dynamic_ret: "\<forall>h \<in> set hs. length h = 56 \<Longrightarrow> \<exists>b. any_dynamic hs = Ret b"
  by (induction hs) (auto simp: u32_at_def)

lemma elf_parse_ret: "\<exists>r. elf_parse bytes = Ret r"
proof (cases "slice_get bytes 0 64")
  case None
  then show ?thesis by (simp add: elf_parse_def)
next
  case (Some h)
  then have l: "length h = 64" by (auto dest: slice_get_Some)
  obtain b where b: "header_rejected h = Ret b" using header_rejected_ret [OF l] by blast
  obtain off n entry where f: "usize_at h 32 = Ret off" "u16_at h 56 = Ret n" "usize_at h 24 = Ret entry"
    using number_at_ret(3) [of 32 h] number_at_ret(1) [of 56 h] number_at_ret(3) [of 24 h] l by auto
  have "unat n < 2 ^ 16" using unsigned_less [of n] by simp
  then obtain ts where ts: "checked_mul (ucast n :: usize) 56 = Some ts"
    by (simp add: checked_mul_def unsigned_ucast_eq take_bit_nat_eq_self)
  define d where "d hs = the (any_dynamic (chunks_exact 56 hs))" for hs
  have "any_dynamic (chunks_exact 56 hs) = Ret (d hs)" for hs
    using any_dynamic_ret [of "chunks_exact 56 hs"] by (auto simp: d_def length_chunk)
  then show ?thesis
    using Some b f ts by (auto simp: elf_parse_def Let_def split: option.split)
qed

lemma elf_segment_phdr:
  assumes ok: "slice_ok bytes" and e: "elf_bytes elf = bytes"
  shows "elf_segment elf (phdr_bytes p) = Ret (phdr_segment bytes p)"
proof -
  have bits: "ph_flags p AND 2 \<noteq> 0 \<longleftrightarrow> bit (ph_flags p) 1" "ph_flags p AND 1 \<noteq> 0 \<longleftrightarrow> bit (ph_flags p) 0"
    by (simp_all add: and_one_eq odd_iff_mod_2_eq_one bit_0 and_exp_eq_0_iff_not_bit [of _ 1, simplified])
  show ?thesis
  proof (cases "unat (ph_offset p) + unat (ph_filesz p) \<le> length bytes")
    case True
    then obtain c where c: "checked_add (ph_offset p) (ph_filesz p) = Some c" "unat c = unat (ph_offset p) + unat (ph_filesz p)"
      using ok by (auto simp: slice_ok_def intro: checked_add_ret [of "ph_offset p" "ph_filesz p"])
    have "slice_get bytes (ph_offset p) c = Some (take (unat (ph_filesz p)) (drop (unat (ph_offset p)) bytes))"
      using True c(2) by (simp add: slice_get_take)
    then show ?thesis using True c(1) by (auto simp: elf_segment_def phdr_segment_def e bits not_le not_less)
  next
    case False
    then have "slice_get bytes (ph_offset p) c = None" if "checked_add (ph_offset p) (ph_filesz p) = Some c" for c
      using checked_add_unat [OF that] by (simp add: slice_get_def)
    then show ?thesis using False by (auto simp: elf_segment_def phdr_segment_def e split: option.splits)
  qed
qed

lemma elf_segments_image:
  assumes "slice_ok bytes"
  shows "elf_segments (image_elf im bytes) = Ret (map (phdr_segment bytes) (filter (\<lambda>p. ph_type p = 1) (im_phdrs im)))"
proof -
  have "segment_list (image_elf im bytes) (map phdr_bytes ps) = Ret (map (phdr_segment bytes) (filter (\<lambda>p. ph_type p = 1) ps))" for ps
    by (induction ps) (simp_all add: elf_segment_phdr [OF assms] image_elf_def)
  then show ?thesis by (simp add: elf_segments_def image_elf_def)
qed

text \<open>
  (C33) The kernel's ELF reader never panics, accepts exactly the static images for its
  machine, and lists for an accepted one exactly the loadable segments its program headers
  describe, each with data inside the file or an error.
\<close>

theorem elf_parse_exact:
  assumes "slice_ok bytes"
  shows "(\<exists>r. elf_parse bytes = Ret r)
    \<and> (\<forall>e. elf_parse bytes = Ret (Inr e) \<longleftrightarrow> (\<exists>im. static_image im bytes \<and> e = image_elf im bytes))
    \<and> (\<forall>im. static_image im bytes \<longrightarrow>
         elf_segments (image_elf im bytes) = Ret (map (phdr_segment bytes) (filter (\<lambda>p. ph_type p = 1) (im_phdrs im))))"
  using elf_parse_ret elf_parse_accepted elf_parse_image [OF _ assms] elf_segments_image [OF assms] by blast

definition sample_phdr :: Phdr where
  "sample_phdr = \<lparr>ph_type = 1, ph_flags = 5, ph_offset = 120, ph_vaddr = 0x400078, ph_paddr = 0, ph_filesz = 2, ph_memsz = 4, ph_align = 0x1000\<rparr>"

definition sample_image :: Image where
  "sample_image = \<lparr>im_abi = replicate 9 0, im_entry = 0x400078, im_phoff = 64, im_shoff = 0, im_flags = 0, im_sections = replicate 6 0,
     im_phdrs = [sample_phdr]\<rparr>"

definition sample_elf :: "u8 list" where
  "sample_elf = image_header sample_image @ image_table sample_image @ [0xEB, 0xFE]"

lemma sample_static: "static_image sample_image sample_elf" "slice_ok sample_elf" "length sample_elf = 122"
proof -
  have l: "length (image_header sample_image) = 64" by (rule header_fields(1)) (simp_all add: sample_image_def)
  have t: "length (image_table sample_image) = 56" by (simp add: sample_image_def)
  show "length sample_elf = 122" using l t by (simp add: sample_elf_def)
  then show "slice_ok sample_elf" by (simp add: slice_ok_def)
  have "piece_at sample_elf 0 (image_header sample_image)" "piece_at sample_elf 64 (image_table sample_image)"
    using l t by (simp_all add: sample_elf_def piece_at_def)
  then show "static_image sample_image sample_elf" by (simp add: static_image_def) (simp add: sample_image_def sample_phdr_def)
qed

lemma sample_segments:
  "elf_segments (image_elf sample_image sample_elf) = Ret [Inr \<lparr>seg_data = [0xEB, 0xFE], seg_address = 0x400078, seg_memory_size = 4,
     seg_writable = False, seg_executable = True\<rparr>]"
proof -
  have "drop 120 sample_elf = [0xEB, 0xFE]"
    using sample_static(3) by (simp add: sample_elf_def)
  moreover have "is_power_of_two 0x1000" by (simp add: is_power_of_two_def upt_rec)
  ultimately have "phdr_segment sample_elf sample_phdr = Inr \<lparr>seg_data = [0xEB, 0xFE], seg_address = 0x400078, seg_memory_size = 4,
     seg_writable = False, seg_executable = True\<rparr>"
    using sample_static(3) by (simp add: phdr_segment_def sample_phdr_def)
  moreover have "filter (\<lambda>p. ph_type p = 1) (im_phdrs sample_image) = [sample_phdr]" by (simp add: sample_image_def sample_phdr_def)
  ultimately show ?thesis using elf_segments_image [OF sample_static(2)] by simp
qed

theorem elf_parse_exact_witness:
  "elf_parse sample_elf = Ret (Inr (image_elf sample_image sample_elf)) \<and>
   elf_segments (image_elf sample_image sample_elf) = Ret [Inr \<lparr>seg_data = [0xEB, 0xFE], seg_address = 0x400078, seg_memory_size = 4,
     seg_writable = False, seg_executable = True\<rparr>]"
  using elf_parse_exact [OF sample_static(2)] sample_static(1) sample_segments by auto

end
