(* ===== verification/Omega_Elf.thy ===== *)
theory Omega_Elf
  imports Elf
begin

section \<open>The ELF reader of the root server\<close>

text \<open>
  \<open>src/userspace/omega3/src/elf.rs\<close>: unlike the kernel's reader it knows both classes and both
  byte orders and reads its numbers one after the other. A \<open>Reader\<close> is passed along
  explicitly; every failure is \<open>InvalidElf\<close>. The iterator over the program headers is the
  record \<open>ProgramHeaders\<close> with the function \<open>headers_next\<close>.
\<close>

datatype OmegaElfError = InvalidElf

subsection \<open>Enumerations\<close>

datatype ElfIsa = IsaNone | Sparc | X86 | Mips | Ppc | Arm | SuperH | Ia64 | Amd64 | AArch64 | Riscv

definition isa_from_u16 :: "u16 \<Rightarrow> OmegaElfError + ElfIsa" where
  "isa_from_u16 v =
     (if v = 0x00 then Inr IsaNone else if v = 0x02 then Inr Sparc else if v = 0x03 then Inr X86
      else if v = 0x08 then Inr Mips else if v = 0x14 then Inr Ppc else if v = 0x28 then Inr Arm
      else if v = 0x2A then Inr SuperH else if v = 0x32 then Inr Ia64 else if v = 0x3E then Inr Amd64
      else if v = 0xB7 then Inr AArch64 else if v = 0xF3 then Inr Riscv else Inl InvalidElf)"

datatype ElfClass = Elf32 | Elf64

definition class_from_u8 :: "u8 \<Rightarrow> OmegaElfError + ElfClass" where
  "class_from_u8 v = (if v = 1 then Inr Elf32 else if v = 2 then Inr Elf64 else Inl InvalidElf)"

fun class_header_size :: "ElfClass \<Rightarrow> u16" where
  "class_header_size Elf32 = 52"
| "class_header_size Elf64 = 64"

datatype Endianness = Little | Big

definition endianness_from_u8 :: "u8 \<Rightarrow> OmegaElfError + Endianness" where
  "endianness_from_u8 v = (if v = 1 then Inr Little else if v = 2 then Inr Big else Inl InvalidElf)"

datatype ElfType = Relocatable | Executable | SharedObject | Core

definition elf_type_from_u16 :: "u16 \<Rightarrow> OmegaElfError + ElfType" where
  "elf_type_from_u16 v =
     (if v = 1 then Inr Relocatable else if v = 2 then Inr Executable else if v = 3 then Inr SharedObject
      else if v = 4 then Inr Core else Inl InvalidElf)"

datatype ProgramHeaderType =
  PtNull | PtLoad | PtDynamic | PtInterpreter | PtNote | PtShlib | PtPhdr | PtGnuStack | PtRelro | PtOther u32

definition header_type_from_u32 :: "u32 \<Rightarrow> ProgramHeaderType" where
  "header_type_from_u32 v =
     (if v = 0 then PtNull else if v = 1 then PtLoad else if v = 2 then PtDynamic else if v = 3 then PtInterpreter
      else if v = 4 then PtNote else if v = 5 then PtShlib else if v = 6 then PtPhdr
      else if v = 0x6474e551 then PtGnuStack else if v = 0x6474e552 then PtRelro else PtOther v)"

subsection \<open>The reader\<close>

record Reader =
  rd_bytes :: "u8 list"
  rd_offset :: usize
  rd_endianness :: Endianness

definition reader_new :: "u8 list \<Rightarrow> Reader" where
  "reader_new bytes = \<lparr>rd_bytes = bytes, rd_offset = 0, rd_endianness = Little\<rparr>"

definition set_endianness :: "Endianness \<Rightarrow> Reader \<Rightarrow> Reader" where
  "set_endianness e r = r\<lparr>rd_endianness := e\<rparr>"

definition read_array :: "usize \<Rightarrow> Reader \<Rightarrow> OmegaElfError + (u8 list \<times> Reader)" where
  "read_array n r =
     (case checked_add (rd_offset r) n of
        None \<Rightarrow> Inl InvalidElf
      | Some e \<Rightarrow>
          (case slice_get (rd_bytes r) (rd_offset r) e of
             None \<Rightarrow> Inl InvalidElf
           | Some bytes \<Rightarrow> Inr (bytes, r\<lparr>rd_offset := e\<rparr>)))"

definition from_bytes :: "Endianness \<Rightarrow> u8 list \<Rightarrow> 'l::len word" where
  "from_bytes e bytes = (case e of Little \<Rightarrow> from_le_bytes bytes | Big \<Rightarrow> from_be_bytes bytes)"

definition read_u8 :: "Reader \<Rightarrow> OmegaElfError + (u8 \<times> Reader)" where
  "read_u8 r = and_then (read_array 1 r) (\<lambda>(bytes, r). Inr (bytes ! 0, r))"

definition read_u16 :: "Reader \<Rightarrow> OmegaElfError + (u16 \<times> Reader)" where
  "read_u16 r = and_then (read_array 2 r) (\<lambda>(bytes, r). Inr (from_bytes (rd_endianness r) bytes, r))"

definition read_u32 :: "Reader \<Rightarrow> OmegaElfError + (u32 \<times> Reader)" where
  "read_u32 r = and_then (read_array 4 r) (\<lambda>(bytes, r). Inr (from_bytes (rd_endianness r) bytes, r))"

definition read_u64 :: "Reader \<Rightarrow> OmegaElfError + (u64 \<times> Reader)" where
  "read_u64 r = and_then (read_array 8 r) (\<lambda>(bytes, r). Inr (from_bytes (rd_endianness r) bytes, r))"

definition read_word :: "ElfClass \<Rightarrow> Reader \<Rightarrow> OmegaElfError + (u64 \<times> Reader)" where
  "read_word c r = (case c of Elf32 \<Rightarrow> and_then (read_u32 r) (\<lambda>(v, r). Inr (ucast v, r)) | Elf64 \<Rightarrow> read_u64 r)"

subsection \<open>Headers\<close>

record ElfHeader =
  oh_magic :: "u8 list"
  oh_class :: ElfClass
  oh_endianness :: Endianness
  oh_version :: u8
  oh_os_abi :: u8
  oh_reserved :: "u8 list"
  oh_object_type :: ElfType
  oh_machine :: ElfIsa
  oh_version_1 :: u32
  oh_entry :: u64
  oh_program_header_offset :: u64
  oh_section_header_offset :: u64
  oh_flags :: u32
  oh_header_size :: u16
  oh_program_header_entry_size :: u16
  oh_program_header_count :: u16
  oh_section_header_entry_size :: u16
  oh_section_header_count :: u16
  oh_section_name_index :: u16

definition elf_header_parse :: "u8 list \<Rightarrow> OmegaElfError + ElfHeader" where
  "elf_header_parse bytes =
     and_then (read_array 4 (reader_new bytes)) (\<lambda>(magic, r).
     if magic \<noteq> [0x7F, 0x45, 0x4C, 0x46] then Inl InvalidElf else
     and_then (read_u8 r) (\<lambda>(v, r). and_then (class_from_u8 v) (\<lambda>cls.
     and_then (read_u8 r) (\<lambda>(v, r). and_then (endianness_from_u8 v) (\<lambda>endianness.
     let r = set_endianness endianness r in
     and_then (read_u8 r) (\<lambda>(version, r).
     and_then (read_u8 r) (\<lambda>(os_abi, r).
     and_then (read_array 8 r) (\<lambda>(reserved, r).
     and_then (read_u16 r) (\<lambda>(v, r). and_then (elf_type_from_u16 v) (\<lambda>object_type.
     and_then (read_u16 r) (\<lambda>(v, r). and_then (isa_from_u16 v) (\<lambda>machine.
     and_then (read_u32 r) (\<lambda>(version_1, r).
     and_then (read_word cls r) (\<lambda>(entry, r).
     and_then (read_word cls r) (\<lambda>(program_header_offset, r).
     and_then (read_word cls r) (\<lambda>(section_header_offset, r).
     and_then (read_u32 r) (\<lambda>(flags, r).
     and_then (read_u16 r) (\<lambda>(header_size, r).
     and_then (read_u16 r) (\<lambda>(program_header_entry_size, r).
     and_then (read_u16 r) (\<lambda>(program_header_count, r).
     and_then (read_u16 r) (\<lambda>(section_header_entry_size, r).
     and_then (read_u16 r) (\<lambda>(section_header_count, r).
     and_then (read_u16 r) (\<lambda>(section_name_index, r).
     if header_size \<noteq> class_header_size cls then Inl InvalidElf
     else Inr \<lparr>oh_magic = magic, oh_class = cls, oh_endianness = endianness, oh_version = version, oh_os_abi = os_abi,
       oh_reserved = reserved, oh_object_type = object_type, oh_machine = machine, oh_version_1 = version_1, oh_entry = entry,
       oh_program_header_offset = program_header_offset, oh_section_header_offset = section_header_offset, oh_flags = flags,
       oh_header_size = header_size, oh_program_header_entry_size = program_header_entry_size,
       oh_program_header_count = program_header_count, oh_section_header_entry_size = section_header_entry_size,
       oh_section_header_count = section_header_count, oh_section_name_index = section_name_index\<rparr>)))))))))))))))))))))))"

record ProgramHeader =
  p_segment_type :: ProgramHeaderType
  p_flags :: u32
  p_file_offset :: u64
  p_virtual_address :: u64
  p_physical_address :: u64
  p_file_size :: u64
  p_memory_size :: u64
  p_alignment :: u64

definition program_header_parse :: "u8 list \<Rightarrow> ElfClass \<Rightarrow> Endianness \<Rightarrow> OmegaElfError + ProgramHeader" where
  "program_header_parse bytes cls endianness =
     (let r = set_endianness endianness (reader_new bytes) in
     and_then (read_u32 r) (\<lambda>(v, r). let segment_type = header_type_from_u32 v in
     and_then (if cls = Elf64 then read_u32 r else Inr (0, r)) (\<lambda>(flags, r).
     and_then (read_word cls r) (\<lambda>(file_offset, r).
     and_then (read_word cls r) (\<lambda>(virtual_address, r).
     and_then (read_word cls r) (\<lambda>(physical_address, r).
     and_then (read_word cls r) (\<lambda>(file_size, r).
     and_then (read_word cls r) (\<lambda>(memory_size, r).
     and_then (if cls = Elf32 then read_u32 r else Inr (flags, r)) (\<lambda>(flags, r).
     and_then (read_word cls r) (\<lambda>(alignment, r).
     Inr \<lparr>p_segment_type = segment_type, p_flags = flags, p_file_offset = file_offset, p_virtual_address = virtual_address,
       p_physical_address = physical_address, p_file_size = file_size, p_memory_size = memory_size, p_alignment = alignment\<rparr>))))))))))"

subsection \<open>The file and its program headers\<close>

record OmegaElf =
  oe_bytes :: "u8 list"
  oe_header :: ElfHeader

definition omega_elf_parse :: "u8 list \<Rightarrow> OmegaElfError + OmegaElf" where
  "omega_elf_parse bytes = and_then (elf_header_parse bytes) (\<lambda>header. Inr \<lparr>oe_bytes = bytes, oe_header = header\<rparr>)"

definition omega_entry :: "OmegaElf \<Rightarrow> usize" where
  "omega_entry elf = oh_entry (oe_header elf)"

definition omega_machine :: "OmegaElf \<Rightarrow> ElfIsa" where
  "omega_machine elf = oh_machine (oe_header elf)"

record ProgramHeaders =
  phs_bytes :: "u8 list"
  phs_class :: ElfClass
  phs_endianness :: Endianness
  phs_entry_size :: usize
  phs_remaining :: usize

fun expected_entry_size :: "ElfClass \<Rightarrow> usize" where
  "expected_entry_size Elf32 = 32"
| "expected_entry_size Elf64 = 56"

definition program_headers :: "OmegaElf \<Rightarrow> OmegaElfError + ProgramHeaders" where
  "program_headers elf =
     (let offset = oh_program_header_offset (oe_header elf);
          entry_size = (ucast (oh_program_header_entry_size (oe_header elf)) :: usize);
          count = (ucast (oh_program_header_count (oe_header elf)) :: usize)
      in if entry_size \<noteq> expected_entry_size (oh_class (oe_header elf)) then Inl InvalidElf
         else (case checked_mul entry_size count of
             None \<Rightarrow> Inl InvalidElf
           | Some table_size \<Rightarrow>
               (case checked_add offset table_size of
                  None \<Rightarrow> Inl InvalidElf
                | Some table_end \<Rightarrow>
                    (case slice_get (oe_bytes elf) offset table_end of
                       None \<Rightarrow> Inl InvalidElf
                     | Some bytes \<Rightarrow> Inr \<lparr>phs_bytes = bytes, phs_class = oh_class (oe_header elf),
                         phs_endianness = oh_endianness (oe_header elf), phs_entry_size = entry_size, phs_remaining = count\<rparr>))))"

definition headers_next :: "ProgramHeaders \<Rightarrow> (OmegaElfError + ProgramHeader) option \<times> ProgramHeaders" where
  "headers_next it =
     (if phs_remaining it = 0 then (None, it)
      else (case slice_get (phs_bytes it) 0 (phs_entry_size it) of
              None \<Rightarrow> (None, it\<lparr>phs_remaining := 0\<rparr>)
            | Some entry \<Rightarrow>
                (Some (program_header_parse entry (phs_class it) (phs_endianness it)),
                 it\<lparr>phs_bytes := drop (unat (phs_entry_size it)) (phs_bytes it), phs_remaining := phs_remaining it - 1\<rparr>)))"

definition size_hint :: "ProgramHeaders \<Rightarrow> usize \<times> usize option" where
  "size_hint it = (phs_remaining it, Some (phs_remaining it))"

lemma headers_next_remaining: "headers_next it = (Some h, it') \<Longrightarrow> unat (phs_remaining it) = Suc (unat (phs_remaining it'))"
  by (auto simp: headers_next_def unat_minus_one unat_gt_0 split: if_splits option.splits)

text \<open>What a \<open>for\<close> loop over the iterator sees.\<close>

function collect_headers :: "ProgramHeaders \<Rightarrow> (OmegaElfError + ProgramHeader) list" where
  "collect_headers it = (case headers_next it of (None, _) \<Rightarrow> [] | (Some h, it') \<Rightarrow> h # collect_headers it')"
  by pat_completeness auto

termination
  by (relation "measure (\<lambda>it. unat (phs_remaining it))") (auto dest: headers_next_remaining [OF sym])

declare collect_headers.simps [simp del]

subsection \<open>Reading\<close>

text \<open>The reader at a position; reading moves it on, and fails only at the end of the bytes.\<close>

definition reader_at :: "u8 list \<Rightarrow> nat \<Rightarrow> Endianness \<Rightarrow> Reader" where
  "reader_at bs k e = \<lparr>rd_bytes = bs, rd_offset = of_nat k, rd_endianness = e\<rparr>"

lemma reader_at_simps [simp]:
  "reader_new bs = reader_at bs 0 Little" "set_endianness e (reader_at bs k e') = reader_at bs k e" "rd_endianness (reader_at bs k e) = e"
  by (simp_all add: reader_at_def reader_new_def set_endianness_def)

lemma read_array_at:
  assumes "k + unat n \<le> length bs" "slice_ok bs"
  shows "read_array n (reader_at bs k e) = Inr (take (unat n) (drop k bs), reader_at bs (k + unat n) e)"
proof -
  have k: "unat (of_nat k :: usize) = k" using assms by (simp add: slice_ok_def)
  obtain c where c: "checked_add (of_nat k) n = Some c" "unat c = k + unat n"
    using assms k by (auto simp: slice_ok_def intro: checked_add_ret [of "of_nat k" n])
  moreover have "slice_get bs (of_nat k) c = Some (take (unat n) (drop k bs))" using assms c k by (simp add: slice_get_take)
  moreover have "c = of_nat k + n" using c(2) by (metis eq_of_unat of_nat_add of_nat_unat)
  ultimately show ?thesis by (simp add: read_array_def reader_at_def)
qed

lemma read_numbers [simp]:
  assumes "slice_ok bs"
  shows "k + 1 \<le> length bs \<Longrightarrow> read_u8 (reader_at bs k e) = Inr (bs ! k, reader_at bs (k + 1) e)"
    "k + 2 \<le> length bs \<Longrightarrow> read_u16 (reader_at bs k e) = Inr (from_bytes e (take 2 (drop k bs)), reader_at bs (k + 2) e)"
    "k + 4 \<le> length bs \<Longrightarrow> read_u32 (reader_at bs k e) = Inr (from_bytes e (take 4 (drop k bs)), reader_at bs (k + 4) e)"
    "k + 8 \<le> length bs \<Longrightarrow> read_u64 (reader_at bs k e) = Inr (from_bytes e (take 8 (drop k bs)), reader_at bs (k + 8) e)"
    "k + 4 \<le> length bs \<Longrightarrow> read_word Elf32 (reader_at bs k e) = Inr (ucast (from_bytes e (take 4 (drop k bs)) :: u32), reader_at bs (k + 4) e)"
    "k + 8 \<le> length bs \<Longrightarrow> read_word Elf64 (reader_at bs k e) = Inr (from_bytes e (take 8 (drop k bs)), reader_at bs (k + 8) e)"
  using assms by (simp_all add: read_u8_def read_u16_def read_u32_def read_u64_def read_word_def read_array_at)

lemma program_header_parse_ok:
  assumes "length bs = unat (expected_entry_size cls)"
  shows "\<exists>h. program_header_parse bs cls e = Inr h"
proof (cases cls)
  case Elf32
  then have "length bs = 32" "slice_ok bs" using assms by (simp_all add: slice_ok_def)
  then show ?thesis using Elf32 by (simp add: program_header_parse_def Let_def)
next
  case Elf64
  then have "length bs = 56" "slice_ok bs" using assms by (simp_all add: slice_ok_def)
  then show ?thesis using Elf64 by (simp add: program_header_parse_def Let_def)
qed

subsection \<open>The iterator\<close>

text \<open>The bytes the iterator still holds are those of the headers it still has to give.\<close>

definition headers_inv :: "ProgramHeaders \<Rightarrow> bool" where
  "headers_inv it \<longleftrightarrow> phs_entry_size it = expected_entry_size (phs_class it)
     \<and> length (phs_bytes it) = unat (phs_remaining it) * unat (phs_entry_size it)"

lemma entry_size_pos [simp]: "0 < unat (expected_entry_size c)"
  by (cases c) simp_all

lemma collect_headers_eq:
  assumes "headers_inv it"
  shows "collect_headers it = map (\<lambda>c. program_header_parse c (phs_class it) (phs_endianness it)) (chunks_exact (unat (phs_entry_size it)) (phs_bytes it))"
  using assms
proof (induction it rule: collect_headers.induct)
  case (1 it)
  have size: "phs_entry_size it = expected_entry_size (phs_class it)" and
    len: "length (phs_bytes it) = unat (phs_remaining it) * unat (phs_entry_size it)" using 1(2) by (simp_all add: headers_inv_def)
  show ?case
  proof (cases "phs_remaining it = 0")
    case True
    then have "phs_bytes it = []" using len by simp
    then show ?thesis using True by (subst collect_headers.simps) (simp add: headers_next_def)
  next
    case False
    then obtain n where n: "unat (phs_remaining it) = Suc n" "unat (phs_remaining it - 1) = n"
      using unat_minus_one [of "phs_remaining it"] by (cases "unat (phs_remaining it)") (auto simp: unat_eq_zero)
    let ?k = "unat (phs_entry_size it)"
    let ?it = "it\<lparr>phs_bytes := drop ?k (phs_bytes it), phs_remaining := phs_remaining it - 1\<rparr>"
    have nx: "headers_next it = (Some (program_header_parse (take ?k (phs_bytes it)) (phs_class it) (phs_endianness it)), ?it)"
      using False len n by (simp add: headers_next_def slice_get_def)
    have "headers_inv ?it" using size len n by (simp add: headers_inv_def)
    then have IH: "collect_headers ?it = map (\<lambda>c. program_header_parse c (phs_class it) (phs_endianness it)) (chunks_exact ?k (drop ?k (phs_bytes it)))"
      using 1(1) [OF nx [symmetric] refl] by simp
    have "chunks_exact ?k (phs_bytes it) = take ?k (phs_bytes it) # chunks_exact ?k (drop ?k (phs_bytes it))"
      using len n size by (subst chunks_exact.simps) simp
    then show ?thesis using IH nx by (subst collect_headers.simps) simp
  qed
qed

lemma program_headers_inv:
  assumes "program_headers elf = Inr it"
  shows "headers_inv it"
proof -
  obtain ts te where t: "checked_mul (phs_entry_size it) (phs_remaining it) = Some ts"
      "checked_add (oh_program_header_offset (oe_header elf)) ts = Some te"
      "slice_get (oe_bytes elf) (oh_program_header_offset (oe_header elf)) te = Some (phs_bytes it)"
      "phs_entry_size it = expected_entry_size (phs_class it)"
    using assms by (auto simp: program_headers_def Let_def split: if_splits option.splits)
  have "unat ts = unat (phs_remaining it) * unat (phs_entry_size it)" using t(1) by (auto simp: checked_simps unat_word_ariths mult.commute)
  moreover have "length (phs_bytes it) = unat te - unat (oh_program_header_offset (oe_header elf))" using slice_get_Some [OF t(3)] by blast
  ultimately show ?thesis using checked_add_unat [OF t(2)] t(4) by (simp add: headers_inv_def)
qed

text \<open>
  (C40) The iterator over program headers keeps its contract as an exact-size iterator: a
  loop over it ends after exactly as many headers as its size hint says, and none of them
  is an error, for both classes and both byte orders.
\<close>

theorem program_headers_exact_size:
  assumes "program_headers elf = Inr it"
  shows "size_hint it = (of_nat (length (collect_headers it)), Some (of_nat (length (collect_headers it))))
    \<and> list_all (\<lambda>r. \<exists>h. r = Inr h) (collect_headers it)"
proof -
  have inv: "headers_inv it" by (rule program_headers_inv [OF assms])
  let ?k = "unat (phs_entry_size it)"
  have k: "phs_entry_size it = expected_entry_size (phs_class it)" "length (phs_bytes it) = unat (phs_remaining it) * ?k"
    using inv by (simp_all add: headers_inv_def)
  have "length (chunks_exact ?k (phs_bytes it)) = unat (phs_remaining it)"
    using chunks_exact_index [OF _ k(2)] k(1) by simp
  then have "length (collect_headers it) = unat (phs_remaining it)" by (simp add: collect_headers_eq [OF inv])
  moreover have "\<exists>h. program_header_parse c (phs_class it) e = Inr h" if "c \<in> set (chunks_exact ?k (phs_bytes it))" for c e
    using length_chunk [OF that] k(1) by (intro program_header_parse_ok) simp
  ultimately show ?thesis by (auto simp: size_hint_def list_all_iff collect_headers_eq [OF inv])
qed

subsection \<open>Agreement with the kernel\<close>

text \<open>A program header as the root server sees it, and the segment it stands for.\<close>

definition omega_header :: "Phdr \<Rightarrow> ProgramHeader" where
  "omega_header p = \<lparr>p_segment_type = header_type_from_u32 (ph_type p), p_flags = ph_flags p, p_file_offset = ph_offset p,
     p_virtual_address = ph_vaddr p, p_physical_address = ph_paddr p, p_file_size = ph_filesz p, p_memory_size = ph_memsz p,
     p_alignment = ph_align p\<rparr>"

definition header_segment :: "u8 list \<Rightarrow> ProgramHeader \<Rightarrow> ElfError + Segment" where
  "header_segment bytes h = phdr_segment bytes \<lparr>ph_type = 1, ph_flags = p_flags h, ph_offset = p_file_offset h, ph_vaddr = p_virtual_address h,
     ph_paddr = p_physical_address h, ph_filesz = p_file_size h, ph_memsz = p_memory_size h, ph_align = p_alignment h\<rparr>"

lemma from_bytes_Little [simp]: "from_bytes Little bs = from_le_bytes bs"
  by (simp add: from_bytes_def)

lemma program_header_parse_phdr: "program_header_parse (phdr_bytes p) Elf64 Little = Inr (omega_header p)"
proof -
  have "slice_ok (phdr_bytes p)" by (simp add: slice_ok_def)
  then have "program_header_parse (phdr_bytes p) Elf64 Little = Inr (omega_header (phdr_of (phdr_bytes p)))"
    by (simp add: program_header_parse_def Let_def omega_header_def phdr_of_def)
  moreover have "phdr_of (phdr_bytes p) = p" by (simp add: phdr_of_def phdr_bytes_def)
  ultimately show ?thesis by simp
qed

lemma header_segment_phdr: "header_segment bytes (omega_header p) = phdr_segment bytes p"
  by (simp add: header_segment_def omega_header_def phdr_segment_def)

lemma header_type_load: "header_type_from_u32 v = PtLoad \<longleftrightarrow> v = 1"
  by (simp add: header_type_from_u32_def)

lemma omega_parses_image:
  assumes im: "static_image im bytes" and ok: "slice_ok bytes"
  obtains h where "elf_header_parse bytes = Inr h" "oh_class h = Elf64" "oh_endianness h = Little" "oh_entry h = im_entry im"
    "oh_program_header_offset h = im_phoff im" "oh_program_header_entry_size h = 56" "oh_program_header_count h = of_nat (length (im_phdrs im))"
proof -
  have fs: "length (im_abi im) = 9" "length (im_sections im) = 6" and "piece_at bytes 0 (image_header im)"
    using im by (simp_all add: static_image_def)
  moreover note header_fields(1) [OF fs]
  ultimately have h: "take 64 bytes = image_header im" "64 \<le> length bytes" by (simp_all add: piece_at_def)
  define rest where "rest = drop 64 bytes"
  have bs: "bytes = image_header im @ rest" using h by (metis append_take_drop_id rest_def)
  have l: "length ELF_IDENT = 7" by (simp add: ELF_IDENT_def)
  have id: "take 4 bytes = [0x7F, 0x45, 0x4C, 0x46]" "bytes ! 4 = 2" "bytes ! 5 = 1"
    unfolding bs image_header_def ELF_IDENT_def by simp_all
  have n: "take 2 (drop 16 bytes) = to_le_bytes 2 (2 :: u16)" "take 2 (drop 18 bytes) = to_le_bytes 2 (62 :: u16)"
      "take 8 (drop 24 bytes) = to_le_bytes 8 (im_entry im)" "take 8 (drop 32 bytes) = to_le_bytes 8 (im_phoff im)"
      "take 2 (drop 52 bytes) = to_le_bytes 2 (64 :: u16)" "take 2 (drop 54 bytes) = to_le_bytes 2 (56 :: u16)"
      "take 2 (drop 56 bytes) = to_le_bytes 2 (of_nat (length (im_phdrs im)) :: u16)"
    using fs l unfolding bs image_header_def by simp_all
  show thesis
    using h(2) ok by (intro that) (simp add: elf_header_parse_def read_array_at Let_def id n class_from_u8_def endianness_from_u8_def
        elf_type_from_u16_def isa_from_u16_def, simp_all)
qed

lemma omega_reads_image:
  assumes im: "static_image im bytes" and ok: "slice_ok bytes"
  obtains oe it where "omega_elf_parse bytes = Inr oe" "omega_entry oe = im_entry im" "program_headers oe = Inr it"
    "collect_headers it = map (\<lambda>p. Inr (omega_header p)) (im_phdrs im)"
proof -
  obtain h where h: "elf_header_parse bytes = Inr h" "oh_class h = Elf64" "oh_endianness h = Little" "oh_entry h = im_entry im"
    "oh_program_header_offset h = im_phoff im" "oh_program_header_entry_size h = 56" "oh_program_header_count h = of_nat (length (im_phdrs im))"
    by (rule omega_parses_image [OF im ok])
  let ?n = "length (im_phdrs im)"
  let ?it = "\<lparr>phs_bytes = image_table im, phs_class = Elf64, phs_endianness = Little, phs_entry_size = 56, phs_remaining = ucast (of_nat ?n :: u16)\<rparr>"
  have n: "?n < 2 ^ 16" and t: "piece_at bytes (unat (im_phoff im)) (image_table im)" using im by (simp_all add: static_image_def)
  have m: "checked_mul (56 :: usize) (ucast (of_nat ?n :: u16)) = Some (of_nat (56 * ?n))"
    using checked_table_size [OF n] by (simp add: checked_mul_def mult.commute split: if_splits)
  have u: "unat (of_nat (56 * ?n) :: usize) = 56 * ?n" using n by (intro unat_of_nat_u64) simp
  have "unat (im_phoff im) + 56 * ?n < 2 ^ 64" using t ok by (simp add: piece_at_def slice_ok_def)
  then obtain e where e: "checked_add (im_phoff im) (of_nat (56 * ?n)) = Some e" "unat e = unat (im_phoff im) + 56 * ?n"
    using u by (metis checked_add_ret)
  have "slice_get bytes (im_phoff im) e = Some (image_table im)" using t e(2) by (intro piece_at_slice) simp_all
  then have ph: "program_headers \<lparr>oe_bytes = bytes, oe_header = h\<rparr> = Inr ?it"
    using h m e(1) by (simp add: program_headers_def Let_def)
  then have "collect_headers ?it = map (\<lambda>p. Inr (omega_header p)) (im_phdrs im)"
    by (simp add: collect_headers_eq [OF program_headers_inv] program_header_parse_phdr)
  then show thesis using that [of "\<lparr>oe_bytes = bytes, oe_header = h\<rparr>" ?it] ph h(1,4) by (simp add: omega_elf_parse_def omega_entry_def)
qed

lemma readers_agree:
  assumes "slice_ok bytes" "elf_parse bytes = Ret (Inr e)"
  shows "\<exists>oe it hs. omega_elf_parse bytes = Inr oe \<and> omega_entry oe = elf_entry e \<and> program_headers oe = Inr it
    \<and> collect_headers it = map Inr hs
    \<and> elf_segments e = Ret (map (header_segment bytes) (filter (\<lambda>h. p_segment_type h = PtLoad) hs))"
proof -
  obtain im where im: "static_image im bytes" "e = image_elf im bytes" by (rule elf_parse_accepted [OF assms(2)])
  obtain oe it where o: "omega_elf_parse bytes = Inr oe" "omega_entry oe = im_entry im" "program_headers oe = Inr it"
      "collect_headers it = map (\<lambda>p. Inr (omega_header p)) (im_phdrs im)"
    by (rule omega_reads_image [OF im(1) assms(1)])
  have "map (phdr_segment bytes) (filter (\<lambda>p. ph_type p = 1) ps)
      = map (header_segment bytes) (filter (\<lambda>h. p_segment_type h = PtLoad) (map omega_header ps))" for ps
    by (induction ps) (simp_all add: header_segment_phdr, simp_all add: omega_header_def header_type_load)
  then have "elf_segments e = Ret (map (header_segment bytes) (filter (\<lambda>h. p_segment_type h = PtLoad) (map omega_header (im_phdrs im))))"
    using elf_segments_image [OF assms(1)] im(2) by simp
  moreover have "collect_headers it = map Inr (map omega_header (im_phdrs im))" using o(4) by simp
  moreover have "omega_entry oe = elf_entry e" using o(2) im(2) by (simp add: image_elf_def)
  ultimately show ?thesis using o(1,3) by blast
qed

text \<open>
  (C34) The two ELF readers agree: every file the kernel's reader accepts is accepted by the
  root server's, with the same entry point, and the loadable program headers the root
  server sees stand for exactly the segments the kernel sees.
\<close>

theorem elf_readers_agree:
  assumes "slice_ok bytes" "elf_parse bytes = Ret (Inr e)"
  shows "\<exists>oe it hs. omega_elf_parse bytes = Inr oe \<and> omega_entry oe = elf_entry e \<and> program_headers oe = Inr it
    \<and> collect_headers it = map Inr hs
    \<and> elf_segments e = Ret (map (header_segment bytes) (filter (\<lambda>h. p_segment_type h = PtLoad) hs))"
  by (rule readers_agree [OF assms])

theorem program_headers_exact_size_witness:
  "\<exists>oe it. omega_elf_parse sample_elf = Inr oe \<and> program_headers oe = Inr it \<and> size_hint it = (1, Some 1)"
proof -
  obtain oe it where o: "omega_elf_parse sample_elf = Inr oe" "program_headers oe = Inr it"
      "collect_headers it = map (\<lambda>p. Inr (omega_header p)) (im_phdrs sample_image)"
    by (rule omega_reads_image [OF sample_static(1,2)])
  then show ?thesis using program_headers_exact_size [OF o(2)] by (auto simp: sample_image_def)
qed

theorem elf_readers_agree_witness:
  "\<exists>oe. omega_elf_parse sample_elf = Inr oe \<and> omega_entry oe = 0x400078"
  using elf_readers_agree [OF sample_static(2) elf_parse_image [OF sample_static(1,2)]]
  by (auto simp: image_elf_def sample_image_def)

end
