(* ===== verification/Cpio.thy ===== *)
theory Cpio
  imports Bytes
begin

section \<open>The initramfs archive\<close>

text \<open>
  \<open>src/src/format/cpio.rs\<close>: looking up a file in a CPIO archive of the newc format, which the
  kernel does before any user program runs. The archive comes from the boot loader and is
  not trusted: the arithmetic is on \<open>usize\<close> and an overflow panics, as does a slice out of
  range. \<open>find_step\<close> is the body of the loop: \<open>Inl\<close> is a return, \<open>Inr\<close> the offset of the
  next entry. Its offset always grows, which is why the loop ends on every input.
\<close>

record Header =
  c_magic :: "u8 list"
  c_ino :: "u8 list"
  c_mode :: "u8 list"
  c_uid :: "u8 list"
  c_gid :: "u8 list"
  c_nlink :: "u8 list"
  c_mtime :: "u8 list"
  c_filesize :: "u8 list"
  c_devmajor :: "u8 list"
  c_devminor :: "u8 list"
  c_rdevmajor :: "u8 list"
  c_rdevminor :: "u8 list"
  c_namesize :: "u8 list"
  c_check :: "u8 list"

text \<open>\<open>core::mem::size_of::<Header>()\<close>\<close>

definition HEADER_SIZE :: usize where
  "HEADER_SIZE = 110"

definition header_field :: "nat \<Rightarrow> u8 list \<Rightarrow> u8 list" where
  "header_field i bytes = take 8 (drop (6 + 8 * i) bytes)"

definition header_from_bytes :: "u8 list \<Rightarrow> Header option" where
  "header_from_bytes bytes =
     (if slice_len bytes < HEADER_SIZE then None
      else let header = \<lparr>c_magic = take 6 bytes, c_ino = header_field 0 bytes, c_mode = header_field 1 bytes,
             c_uid = header_field 2 bytes, c_gid = header_field 3 bytes, c_nlink = header_field 4 bytes,
             c_mtime = header_field 5 bytes, c_filesize = header_field 6 bytes, c_devmajor = header_field 7 bytes,
             c_devminor = header_field 8 bytes, c_rdevmajor = header_field 9 bytes, c_rdevminor = header_field 10 bytes,
             c_namesize = header_field 11 bytes, c_check = header_field 12 bytes\<rparr>
        in if c_magic header \<noteq> ascii ''070701'' then None else Some header)"

definition find_step :: "u8 list \<Rightarrow> u8 list \<Rightarrow> usize \<Rightarrow> (u8 list option + usize) panics" where
  "find_step archive target header_start = do {
     rest \<leftarrow> slice_from archive header_start;
     (case header_from_bytes rest of
        None \<Rightarrow> Ret (Inl None)
      | Some header \<Rightarrow> do {
          offset \<leftarrow> checked_add header_start HEADER_SIZE;
          (case parse_field (c_filesize header) of
             None \<Rightarrow> Ret (Inl None)
           | Some file_len \<Rightarrow>
          (case parse_field (c_namesize header) of
             None \<Rightarrow> Ret (Inl None)
           | Some name_len \<Rightarrow> do {
               name_end \<leftarrow> checked_add offset name_len;
               if slice_len archive < name_end then Ret (Inl None)
               else do {
                 name_bytes \<leftarrow> slice archive offset name_end;
                 (case from_utf8 name_bytes of
                    None \<Rightarrow> Ret (Inl None)
                  | Some str \<Rightarrow>
                      let name = trim_end_nul str in
                      if name = ascii ''TRAILER!!!'' then Ret (Inl None)
                      else do {
                        n \<leftarrow> checked_add HEADER_SIZE name_len;
                        n \<leftarrow> checked_add n 3;
                        data_start \<leftarrow> checked_add header_start (n AND NOT 3);
                        data_end \<leftarrow> checked_add data_start file_len;
                        if slice_len archive < data_end then Ret (Inl None)
                        else if name = target then do {
                          data \<leftarrow> slice archive data_start data_end;
                          Ret (Inl (Some data)) }
                        else do {
                          m \<leftarrow> checked_add file_len 3;
                          next \<leftarrow> checked_add data_start (m AND NOT 3);
                          Ret (Inr next) } }) } })) }) }"

lemma find_step_advances: "find_step archive target o1 = Ret (Inr o2) \<Longrightarrow> unat o1 < unat o2"
proof -
  assume "find_step archive target o1 = Ret (Inr o2)"
  then obtain n0 n a d m where n: "checked_add HEADER_SIZE n0 = Some n" "checked_add n 3 = Some a"
      "checked_add o1 (a AND NOT 3) = Some d" "checked_add d (m AND NOT 3) = Some o2"
    unfolding find_step_def Let_def by (auto split: bind_splits option.splits if_splits)
  have "unat a = 113 + unat n0" using checked_add_unat [OF n(1)] checked_add_unat [OF n(2)] by (simp add: HEADER_SIZE_def)
  then have "0 < unat (a AND NOT 3)" by (simp add: unat_and_not_3)
  then show ?thesis using checked_add_unat [OF n(3)] checked_add_unat [OF n(4)] by simp
qed

function find_loop :: "u8 list \<Rightarrow> u8 list \<Rightarrow> usize \<Rightarrow> u8 list option panics" where
  "find_loop archive target offset = do {
     header_end \<leftarrow> checked_add offset HEADER_SIZE;
     if header_end \<le> slice_len archive then
       if slice_len archive < header_end then Ret None
       else do {
         r \<leftarrow> find_step archive target offset;
         (case r of Inl found \<Rightarrow> Ret found | Inr next \<Rightarrow> find_loop archive target next) }
     else Ret None }"
  by pat_completeness auto

termination
proof (relation "measure (\<lambda>(archive, target, offset). 2 ^ 64 - unat offset)")
  fix archive target offset header_end r "next"
  assume "find_step archive target offset = Ret r" "r = Inr next"
  then show "((archive, target, next), archive, target, offset) \<in> measure (\<lambda>(archive, target, offset). 2 ^ 64 - unat offset)"
    using find_step_advances [of archive target offset "next"] unat_u64_bound [of "next"] by simp
qed simp

declare find_loop.simps [simp del]

definition find_file :: "u8 list \<Rightarrow> u8 list \<Rightarrow> u8 list option panics" where
  "find_file archive target = find_loop archive target 0"

subsection \<open>Any archive\<close>

lemma header_from_bytes_fields:
  assumes "header_from_bytes bytes = Some header" "slice_ok bytes"
  shows "length (c_filesize header) = 8" "length (c_namesize header) = 8"
  using assms by (auto simp: header_from_bytes_def Let_def header_field_def HEADER_SIZE_def word_less_nat_alt split: if_splits)

text \<open>The sums that the body forms cannot overflow: its two numbers have at most 32 bits.\<close>

lemma find_step_sums:
  assumes here: "unat header_start + 110 \<le> length archive" and ok: "slice_ok archive"
    and len: "unat file_len < 2 ^ 32" "unat name_len < 2 ^ 32"
  obtains offset name_end n n' data_start data_end m "next" where
    "checked_add header_start HEADER_SIZE = Some offset" "unat offset = unat header_start + 110"
    "checked_add offset name_len = Some name_end" "unat name_end = unat offset + unat name_len"
    "checked_add HEADER_SIZE name_len = Some n" "checked_add n 3 = Some n'"
    "checked_add header_start (n' AND - 4) = Some data_start" "unat data_start = unat header_start + (113 + unat name_len) div 4 * 4"
    "checked_add data_start file_len = Some data_end" "unat data_end = unat data_start + unat file_len"
    "checked_add file_len 3 = Some m"
    "checked_add data_start (m AND - 4) = Some next" "unat next = unat data_start + (unat file_len + 3) div 4 * 4"
proof -
  have bound: "length archive < 2 ^ 63" using ok by (simp add: slice_ok_def)
  have h: "unat HEADER_SIZE = 110" by (simp add: HEADER_SIZE_def)
  obtain offset where 1: "checked_add header_start HEADER_SIZE = Some offset" "unat offset = unat header_start + 110"
    using here bound h by (auto intro: checked_add_ret [of header_start HEADER_SIZE])
  obtain name_end where 2: "checked_add offset name_len = Some name_end" "unat name_end = unat offset + unat name_len"
    using here bound len 1 by (auto intro: checked_add_ret [of offset name_len])
  obtain n where 3: "checked_add HEADER_SIZE name_len = Some n" "unat n = 110 + unat name_len"
    using len h by (auto intro: checked_add_ret [of HEADER_SIZE name_len])
  obtain n' where 4: "checked_add n 3 = Some n'" "unat n' = 113 + unat name_len"
    using len 3 by (auto intro: checked_add_ret [of n 3])
  obtain ds where 5: "checked_add header_start (n' AND - 4) = Some ds" "unat ds = unat header_start + (113 + unat name_len) div 4 * 4"
    using here bound len 4 by (auto simp: unat_and_not_3 intro: checked_add_ret [of header_start "n' AND - 4"])
  obtain de where 6: "checked_add ds file_len = Some de" "unat de = unat ds + unat file_len"
    using here bound len 5 by (auto intro: checked_add_ret [of ds file_len])
  obtain m where 7: "checked_add file_len 3 = Some m" "unat m = unat file_len + 3"
    using len by (auto intro: checked_add_ret [of file_len 3])
  obtain nx where 8: "checked_add ds (m AND - 4) = Some nx" "unat nx = unat ds + (unat file_len + 3) div 4 * 4"
    using here bound len 5 7 by (auto simp: unat_and_not_3 intro: checked_add_ret [of ds "m AND - 4"])
  show thesis using that [OF 1 2 3(1) 4(1) 5 6 7(1) 8] .
qed

text \<open>One step in terms of positions in the archive.\<close>

lemma find_step_eq:
  assumes ok: "slice_ok archive" and here: "unat hs + 110 \<le> length archive"
    and header: "header_from_bytes (drop (unat hs) archive) = Some header"
    and p: "parse_field (c_filesize header) = Some fl" "parse_field (c_namesize header) = Some nl"
  defines "name \<equiv> take (unat nl) (drop (unat hs + 110) archive)" and "data \<equiv> unat hs + (113 + unat nl) div 4 * 4"
  shows "find_step archive target hs = Ret
    (if length archive < unat hs + 110 + unat nl \<or> \<not> utf8_valid name \<or> trim_end_nul name = ascii ''TRAILER!!!''
          \<or> length archive < data + unat fl then Inl None
     else if trim_end_nul name = target then Inl (Some (take (unat fl) (drop data archive)))
     else Inr (of_nat (data + (unat fl + 3) div 4 * 4)))"
proof -
  have rest: "slice_from archive hs = Ret (drop (unat hs) archive)" "slice_ok (drop (unat hs) archive)"
    using here ok by (simp_all add: slice_from_def slice_ok_def)
  note len = parse_field_bound [OF p(1) header_from_bytes_fields(1) [OF header rest(2)]]
    parse_field_bound [OF p(2) header_from_bytes_fields(2) [OF header rest(2)]]
  obtain offset name_end n n' ds de m nx where sums:
    "checked_add hs HEADER_SIZE = Some offset" "unat offset = unat hs + 110"
    "checked_add offset nl = Some name_end" "unat name_end = unat offset + unat nl"
    "checked_add HEADER_SIZE nl = Some n" "checked_add n 3 = Some n'"
    "checked_add hs (n' AND - 4) = Some ds" "unat ds = data"
    "checked_add ds fl = Some de" "unat de = unat ds + unat fl"
    "checked_add fl 3 = Some m" "checked_add ds (m AND - 4) = Some nx" "unat nx = unat ds + (unat fl + 3) div 4 * 4"
    unfolding data_def by (rule find_step_sums [OF here ok len])
  have name: "slice archive offset name_end = Ret name" if "unat hs + 110 + unat nl \<le> length archive"
    using that sums(2,4) by (simp add: slice_def slice_get_take name_def)
  have data: "slice archive ds de = Ret (take (unat fl) (drop data archive))" if "data + unat fl \<le> length archive"
    using that sums(8,10) by (simp add: slice_def slice_get_take)
  have ends: "slice_len archive < name_end \<longleftrightarrow> length archive < unat hs + 110 + unat nl" "slice_len archive < de \<longleftrightarrow> length archive < data + unat fl"
    using sums ok by (simp_all add: word_less_nat_alt)
  have nx: "nx = of_nat (data + (unat fl + 3) div 4 * 4)" using sums(8,13) by (intro eq_of_unat) simp
  show ?thesis
    unfolding find_step_def using sums(1,3,5,6,7,9,11,12) name data
    by (simp add: rest header p Let_def ends from_utf8_def nx)
qed

lemma find_step_early:
  assumes "slice_ok archive" "unat hs + 110 \<le> length archive"
    and "header_from_bytes (drop (unat hs) archive) = None
      \<or> (\<exists>h. header_from_bytes (drop (unat hs) archive) = Some h \<and> (parse_field (c_filesize h) = None \<or> parse_field (c_namesize h) = None))"
  shows "find_step archive target hs = Ret (Inl None)"
proof -
  obtain off where "checked_add hs HEADER_SIZE = Some off"
    using assms(1,2) by (auto simp: slice_ok_def HEADER_SIZE_def intro: checked_add_ret [of hs 110])
  then show ?thesis using assms(2,3) by (auto simp: find_step_def slice_from_def split: option.splits)
qed

lemma find_step_safe:
  assumes ok: "slice_ok archive" and here: "unat hs + 110 \<le> length archive"
  obtains r where "find_step archive target hs = Ret r" "\<And>d. r = Inl (Some d) \<Longrightarrow> \<exists>i. piece_at archive i d"
    "\<And>n. r = Inr n \<Longrightarrow> unat n \<le> length archive + 3"
proof (cases "\<exists>h fl nl. header_from_bytes (drop (unat hs) archive) = Some h \<and> parse_field (c_filesize h) = Some fl \<and> parse_field (c_namesize h) = Some nl")
  case True
  then obtain h fl nl where p: "header_from_bytes (drop (unat hs) archive) = Some h" "parse_field (c_filesize h) = Some fl" "parse_field (c_namesize h) = Some nl"
    by blast
  define r where "r = the (find_step archive target hs)"
  have r: "find_step archive target hs = Ret r" using find_step_eq [OF ok here p, of target] by (simp add: r_def)
  then have req: "r = (if length archive < unat hs + 110 + unat nl \<or> \<not> utf8_valid (take (unat nl) (drop (unat hs + 110) archive))
          \<or> trim_end_nul (take (unat nl) (drop (unat hs + 110) archive)) = ascii ''TRAILER!!!''
          \<or> length archive < unat hs + (113 + unat nl) div 4 * 4 + unat fl then Inl None
     else if trim_end_nul (take (unat nl) (drop (unat hs + 110) archive)) = target
     then Inl (Some (take (unat fl) (drop (unat hs + (113 + unat nl) div 4 * 4) archive)))
     else Inr (of_nat (unat hs + (113 + unat nl) div 4 * 4 + (unat fl + 3) div 4 * 4)))"
    using find_step_eq [OF ok here p, of target] by simp
  show thesis
  proof (rule that [OF r])
    fix d assume "r = Inl (Some d)"
    then have "d = take (unat fl) (drop (unat hs + (113 + unat nl) div 4 * 4) archive)"
        "unat hs + (113 + unat nl) div 4 * 4 + unat fl \<le> length archive"
      using req by (simp_all split: if_splits)
    then have "piece_at archive (unat hs + (113 + unat nl) div 4 * 4) d" by (simp add: piece_at_def)
    then show "\<exists>i. piece_at archive i d" ..
  next
    fix n assume "r = Inr n"
    then have "n = of_nat (unat hs + (113 + unat nl) div 4 * 4 + (unat fl + 3) div 4 * 4)"
        and d: "unat hs + (113 + unat nl) div 4 * 4 + unat fl \<le> length archive"
      using req by (simp_all split: if_splits)
    moreover have "unat hs + (113 + unat nl) div 4 * 4 + (unat fl + 3) div 4 * 4 \<le> length archive + 3" using d by linarith
    ultimately show "unat n \<le> length archive + 3" using unat_of_nat_le order.trans by blast
  qed
next
  case False
  then have "find_step archive target hs = Ret (Inl None)" by (intro find_step_early [OF ok here]) (metis option.exhaust)
  then show thesis by (rule that) simp_all
qed

lemma find_loop_safe:
  assumes "slice_ok archive" "unat offset \<le> length archive + 3"
  shows "\<exists>r. find_loop archive target offset = Ret r \<and> (\<forall>d. r = Some d \<longrightarrow> (\<exists>i. piece_at archive i d))"
  using assms
proof (induction archive target offset rule: find_loop.induct)
  case (1 archive target offset)
  obtain e where e: "checked_add offset HEADER_SIZE = Some e" "unat e = unat offset + 110"
    using 1(2,3) by (auto simp: slice_ok_def HEADER_SIZE_def intro: checked_add_ret [of offset 110])
  show ?case
  proof (cases "unat offset + 110 \<le> length archive")
    case False
    then show ?thesis using e 1(2) by (subst find_loop.simps) (simp add: le_slice_len)
  next
    case True
    then have g: "e \<le> slice_len archive" using e 1(2) by (simp add: le_slice_len)
    obtain r where r: "find_step archive target offset = Ret r" "\<And>d. r = Inl (Some d) \<Longrightarrow> \<exists>i. piece_at archive i d"
        "\<And>n. r = Inr n \<Longrightarrow> unat n \<le> length archive + 3"
      using find_step_safe [OF 1(2) True, of target] by blast
    show ?thesis
    proof (cases r)
      case (Inl f)
      then show ?thesis using r e g by (subst find_loop.simps) auto
    next
      case (Inr n)
      then have "\<exists>r. find_loop archive target n = Ret r \<and> (\<forall>d. r = Some d \<longrightarrow> (\<exists>i. piece_at archive i d))"
        using 1(1) [OF e(1) g _ r(1)] g r(3) 1(2) by auto
      then show ?thesis using r(1) e g Inr by (subst find_loop.simps) auto
    qed
  qed
qed

text \<open>
  (C32) On any archive, however malformed, the search ends without a panic, and what it
  returns is a piece of the archive.
\<close>

theorem find_file_total:
  assumes "slice_ok archive"
  shows "\<exists>r. find_file archive target = Ret r \<and> (\<forall>data. r = Some data \<longrightarrow> (\<exists>i. piece_at archive i data))"
  using find_loop_safe [OF assms, of 0 target] by (simp add: find_file_def)

theorem find_file_total_witness:
  "\<exists>r. find_file (ascii ''070701XXXXXXXXXXXXXXXXXXXXXXXXXXXXXXXXXXXXXXXXXXXXXXXXFFFFFFFF'') (ascii ''init'') = Ret r \<and> r = None"
proof -
  let ?a = "ascii ''070701XXXXXXXXXXXXXXXXXXXXXXXXXXXXXXXXXXXXXXXXXXXXXXXXFFFFFFFF''"
  have ok: "slice_ok ?a" by (simp add: slice_ok_def ascii_def)
  then obtain r where r: "find_file ?a (ascii ''init'') = Ret r" using find_file_total by blast
  have "find_file ?a (ascii ''init'') = Ret None"
    by (simp add: find_file_def find_loop.simps [of _ _ 0] checked_add_def HEADER_SIZE_def slice_len_def ascii_def)
  then show ?thesis using r by simp
qed

subsection \<open>Well-formed archives\<close>

text \<open>
  What an archiver writes: for each file the header, the name with its NUL bytes, the
  contents, both padded to a multiple of four, and at the end the trailer entry. The
  header fields the kernel does not read are arbitrary.
\<close>

record Entry =
  e_name :: "u8 list"
  e_nuls :: nat
  e_data :: "u8 list"
  e_ino_to_mtime :: "u8 list"
  e_devices :: "u8 list"
  e_check :: "u8 list"

definition pad4 :: "nat \<Rightarrow> u8 list" where
  "pad4 n = replicate ((n + 3) div 4 * 4 - n) 0"

definition entry_bytes :: "Entry \<Rightarrow> u8 list" where
  "entry_bytes e =
     ascii ''070701'' @ e_ino_to_mtime e @ hex_chars 8 (length (e_data e)) @ e_devices e
     @ hex_chars 8 (length (e_name e) + e_nuls e) @ e_check e
     @ (e_name e @ replicate (e_nuls e) 0) @ pad4 (110 + (length (e_name e) + e_nuls e)) @ e_data e @ pad4 (length (e_data e))"

definition entry_shape :: "Entry \<Rightarrow> bool" where
  "entry_shape e \<longleftrightarrow> length (e_ino_to_mtime e) = 48 \<and> length (e_devices e) = 32 \<and> length (e_check e) = 8
     \<and> length (e_data e) < 2 ^ 32 \<and> length (e_name e) + e_nuls e < 2 ^ 32
     \<and> utf8_valid (e_name e) \<and> (e_name e = [] \<or> last (e_name e) \<noteq> 0)"

definition archive_bytes :: "Entry list \<Rightarrow> Entry \<Rightarrow> u8 list \<Rightarrow> u8 list" where
  "archive_bytes files trailer rest = concat (map entry_bytes files) @ entry_bytes trailer @ rest"

lemma entry_header:
  assumes e: "entry_shape e" and ok: "slice_ok (entry_bytes e @ rest)"
  obtains h where "header_from_bytes (entry_bytes e @ rest) = Some h"
    "c_filesize h = hex_chars 8 (length (e_data e))" "c_namesize h = hex_chars 8 (length (e_name e) + e_nuls e)"
proof -
  let ?bs = "entry_bytes e @ rest"
  have l: "length (ascii ''070701'') = 6" by (simp add: ascii_def)
  have "take 6 ?bs = ascii ''070701''" "header_field 6 ?bs = hex_chars 8 (length (e_data e))"
      "header_field 11 ?bs = hex_chars 8 (length (e_name e) + e_nuls e)"
    using e by (simp_all add: entry_bytes_def entry_shape_def header_field_def l)
  moreover have "\<not> slice_len ?bs < HEADER_SIZE"
  proof -
    have "110 \<le> length ?bs" using e by (simp add: entry_bytes_def entry_shape_def l)
    then show ?thesis using ok by (simp add: HEADER_SIZE_def word_less_nat_alt)
  qed
  ultimately show thesis using that by (simp add: header_from_bytes_def Let_def)
qed

lemma length_entry: "entry_shape e \<Longrightarrow> length (entry_bytes e) = (113 + (length (e_name e) + e_nuls e)) div 4 * 4 + (length (e_data e) + 3) div 4 * 4"
  by (simp add: entry_bytes_def entry_shape_def pad4_def ascii_def)

text \<open>Where the name and the data of an entry are.\<close>

lemma entry_parts:
  assumes e: "entry_shape e"
  defines "nl \<equiv> length (e_name e) + e_nuls e"
  shows "take nl (drop (length pre + 110) (pre @ entry_bytes e @ rest)) = e_name e @ replicate (e_nuls e) 0"
    "take (length (e_data e)) (drop (length pre + (113 + nl) div 4 * 4) (pre @ entry_bytes e @ rest)) = e_data e"
proof -
  let ?h = "ascii ''070701'' @ e_ino_to_mtime e @ hex_chars 8 (length (e_data e)) @ e_devices e
     @ hex_chars 8 nl @ e_check e" and ?n = "e_name e @ replicate (e_nuls e) 0"
  have h: "length ?h = 110" using e by (simp add: entry_shape_def ascii_def)
  have p: "length (?h @ ?n @ pad4 (110 + nl)) = (113 + nl) div 4 * 4" using h by (simp add: pad4_def nl_def)
  have eb: "entry_bytes e = ?h @ ?n @ pad4 (110 + nl) @ e_data e @ pad4 (length (e_data e))" by (simp add: entry_bytes_def nl_def)
  have "drop (length pre + 110) (pre @ entry_bytes e @ rest) = drop (length ?h) (entry_bytes e @ rest)" by (simp only: h drop_append) simp
  also have "\<dots> = ?n @ pad4 (110 + nl) @ e_data e @ pad4 (length (e_data e)) @ rest"
    unfolding eb append_assoc by (simp only: append_eq_conv_conj [symmetric] drop_append) simp
  finally show "take nl (drop (length pre + 110) (pre @ entry_bytes e @ rest)) = ?n" by (simp add: nl_def)
  have "drop (length pre + (113 + nl) div 4 * 4) (pre @ entry_bytes e @ rest)
      = drop (length (?h @ ?n @ pad4 (110 + nl))) (entry_bytes e @ rest)" by (simp only: p drop_append) simp
  also have "\<dots> = drop (length (?h @ ?n @ pad4 (110 + nl))) ((?h @ ?n @ pad4 (110 + nl)) @ e_data e @ pad4 (length (e_data e)) @ rest)"
    unfolding eb by (simp only: append_assoc)
  also have "\<dots> = e_data e @ pad4 (length (e_data e)) @ rest" by (simp only: append_eq_conv_conj [symmetric] drop_append) simp
  finally show "take (length (e_data e)) (drop (length pre + (113 + nl) div 4 * 4) (pre @ entry_bytes e @ rest)) = e_data e" by simp
qed

lemma find_step_entry:
  assumes e: "entry_shape e" and ok: "slice_ok (pre @ entry_bytes e @ rest)"
  shows "find_step (pre @ entry_bytes e @ rest) target (of_nat (length pre)) = Ret
    (if e_name e = ascii ''TRAILER!!!'' then Inl None else if e_name e = target then Inl (Some (e_data e))
     else Inr (of_nat (length (pre @ entry_bytes e))))"
proof -
  let ?a = "pre @ entry_bytes e @ rest" and ?nl = "length (e_name e) + e_nuls e"
  have len: "length ?a < 2 ^ 63" using ok by (simp add: slice_ok_def)
  then have pre: "unat (of_nat (length pre) :: usize) = length pre" by simp
  have ok': "slice_ok (entry_bytes e @ rest)" using ok by (simp add: slice_ok_def)
  obtain h where h: "header_from_bytes (entry_bytes e @ rest) = Some h" "c_filesize h = hex_chars 8 (length (e_data e))"
      "c_namesize h = hex_chars 8 ?nl"
    by (rule entry_header [OF e ok'])
  have small: "length (e_data e) < 2 ^ 32" "?nl < 2 ^ 32" using e by (simp_all add: entry_shape_def)
  then have p: "parse_field (c_filesize h) = Some (of_nat (length (e_data e)))" "parse_field (c_namesize h) = Some (of_nat ?nl)"
    unfolding h(2,3) using parse_field_hex by blast+
  have u: "unat (of_nat (length (e_data e)) :: usize) = length (e_data e)" "unat (of_nat ?nl :: usize) = ?nl"
    using small by (simp_all del: of_nat_add)
  have here: "unat (of_nat (length pre) :: usize) + 110 \<le> length ?a" "length pre + 110 + ?nl \<le> length ?a"
      "length pre + (113 + ?nl) div 4 * 4 + length (e_data e) \<le> length ?a"
    using length_entry [OF e] by (simp_all add: pre)
  have name: "utf8_valid (e_name e @ replicate (e_nuls e) 0)" "trim_end_nul (e_name e @ replicate (e_nuls e) 0) = e_name e"
    using e by (simp_all add: entry_shape_def trim_end_nul_replicate utf8_valid_append utf8_valid_ascii)
  have hd: "header_from_bytes (drop (unat (of_nat (length pre) :: usize)) ?a) = Some h" using h(1) by (simp add: pre)
  note eq = find_step_eq [OF ok here(1) hd p, unfolded u pre entry_parts [OF e] name, of target]
  show ?thesis unfolding eq using here(2,3) name(1) length_entry [OF e] by simp
qed

lemma find_loop_unfold:
  assumes "slice_ok archive" "unat offset + 110 \<le> length archive"
  shows "find_loop archive target offset =
    find_step archive target offset \<bind> (\<lambda>r. case r of Inl found \<Rightarrow> Ret found | Inr next \<Rightarrow> find_loop archive target next)"
proof -
  obtain e where e: "checked_add offset HEADER_SIZE = Some e" "unat e = unat offset + 110"
    using assms by (auto simp: slice_ok_def HEADER_SIZE_def intro: checked_add_ret [of offset 110])
  moreover have "e \<le> slice_len archive" using e assms by (simp add: le_slice_len)
  ultimately show ?thesis by (subst find_loop.simps) (auto simp: not_less [symmetric])
qed

lemma find_loop_archive:
  assumes "\<forall>e \<in> set files. entry_shape e \<and> e_name e \<noteq> ascii ''TRAILER!!!''"
    "entry_shape trailer" "e_name trailer = ascii ''TRAILER!!!''" "slice_ok (pre @ archive_bytes files trailer rest)"
  shows "find_loop (pre @ archive_bytes files trailer rest) target (of_nat (length pre))
    = Ret (map_option e_data (find (\<lambda>e. e_name e = target) files))"
  using assms
proof (induction files arbitrary: pre)
  case Nil
  have a: "archive_bytes [] trailer rest = entry_bytes trailer @ rest" by (simp add: archive_bytes_def)
  have "find_loop (pre @ entry_bytes trailer @ rest) target (of_nat (length pre)) = Ret None"
    using find_step_entry [OF Nil.prems(2), of pre rest target] Nil.prems(3,4) length_entry [OF Nil.prems(2)] unfolding a
    by (subst find_loop_unfold) (simp_all add: slice_ok_def)
  then show ?case by (simp add: a)
next
  case (Cons e files)
  let ?rest = "archive_bytes files trailer rest"
  have a: "pre @ archive_bytes (e # files) trailer rest = pre @ entry_bytes e @ ?rest" by (simp add: archive_bytes_def)
  have e: "entry_shape e" "e_name e \<noteq> ascii ''TRAILER!!!''" and ok: "slice_ok (pre @ entry_bytes e @ ?rest)"
    using Cons.prems unfolding a by simp_all
  have IH: "find_loop (pre @ entry_bytes e @ ?rest) target (of_nat (length (pre @ entry_bytes e)))
      = Ret (map_option e_data (find (\<lambda>e. e_name e = target) files))"
    using Cons.IH [of "pre @ entry_bytes e"] Cons.prems ok by simp
  have small: "length pre < 18446744073709551616" using ok by (simp add: slice_ok_def)
  have "find_loop (pre @ entry_bytes e @ ?rest) target (of_nat (length pre)) = Ret (map_option e_data (find (\<lambda>e. e_name e = target) (e # files)))"
    using find_step_entry [OF e(1) ok, of target] IH e(2) length_entry [OF e(1)] small
    by (subst find_loop_unfold [OF ok]) simp_all
  then show ?case unfolding a .
qed

text \<open>
  (C22) Looking a name up in an archive that an archiver wrote gives exactly the contents of
  the first file of that name, and nothing when there is none; bytes after the trailer
  do not matter.
\<close>

theorem find_file_archive:
  assumes "\<forall>e \<in> set files. entry_shape e \<and> e_name e \<noteq> ascii ''TRAILER!!!''"
    "entry_shape trailer" "e_name trailer = ascii ''TRAILER!!!''" "slice_ok (archive_bytes files trailer rest)"
  shows "find_file (archive_bytes files trailer rest) target = Ret (map_option e_data (find (\<lambda>e. e_name e = target) files))"
  using find_loop_archive [OF assms(1-3), of "[]" rest target] assms(4) by (simp add: find_file_def)

definition sample_entry :: "string \<Rightarrow> u8 list \<Rightarrow> Entry" where
  "sample_entry name data = \<lparr>e_name = ascii name, e_nuls = 1, e_data = data, e_ino_to_mtime = replicate 48 48,
     e_devices = replicate 32 48, e_check = replicate 8 48\<rparr>"

lemma sample_entry_shape: "length data < 2 ^ 32 \<Longrightarrow> name \<in> {''omega3'', ''echo.elf'', ''TRAILER!!!''} \<Longrightarrow> entry_shape (sample_entry name data)"
  by (auto simp: entry_shape_def sample_entry_def ascii_def utf8_width_def)

theorem find_file_archive_witness:
  "find_file (archive_bytes [sample_entry ''omega3'' [1, 2, 3], sample_entry ''echo.elf'' [4, 5, 6, 7, 8]] (sample_entry ''TRAILER!!!'' []) [0, 0])
     (ascii ''echo.elf'') = Ret (Some [4, 5, 6, 7, 8])"
proof -
  let ?files = "[sample_entry ''omega3'' [1, 2, 3], sample_entry ''echo.elf'' [4, 5, 6, 7, 8]]" and ?t = "sample_entry ''TRAILER!!!'' []"
  have e: "\<forall>e \<in> set ?files. entry_shape e \<and> e_name e \<noteq> ascii ''TRAILER!!!''" "entry_shape ?t" "e_name ?t = ascii ''TRAILER!!!''"
    by (simp_all add: sample_entry_shape) (simp_all add: sample_entry_def ascii_def)
  have "slice_ok (archive_bytes ?files ?t [0, 0])"
    using e by (simp add: slice_ok_def archive_bytes_def length_entry) (simp add: sample_entry_def ascii_def)
  then show ?thesis using find_file_archive [OF e, of "[0, 0]" "ascii ''echo.elf''"] by (simp add: sample_entry_def ascii_def)
qed

end
