(* ===== verification/Omega_Cpio.thy ===== *)
theory Omega_Cpio
  imports Cpio
begin

section \<open>The archive reader of the root server\<close>

text \<open>
  \<open>src/userspace/omega3/src/cpio.rs\<close>: the root server's \<open>find_file\<close> on the archive that the
  kernel mapped into its space. It is the kernel's loop without the length of the archive:
  the slices are made from raw pointers, so the model reads them from memory (\<open>m\<close> is the
  root server's view of it) at the archive's address. Sums of offsets are checked as in
  any debug build; adding an offset to the pointer is not.
\<close>

definition raw_slice :: "mem \<Rightarrow> usize \<Rightarrow> usize \<Rightarrow> usize \<Rightarrow> u8 list" where
  "raw_slice m archive offset len = read_bytes m (archive + offset) (unat len)"

definition raw_find_step :: "mem \<Rightarrow> usize \<Rightarrow> u8 list \<Rightarrow> usize \<Rightarrow> (u8 list option + usize) panics" where
  "raw_find_step m archive target header_start =
     (case header_from_bytes (raw_slice m archive header_start HEADER_SIZE) of
        None \<Rightarrow> Ret (Inl None)
      | Some header \<Rightarrow> do {
          offset \<leftarrow> checked_add header_start HEADER_SIZE;
          (case parse_field (c_filesize header) of
             None \<Rightarrow> Ret (Inl None)
           | Some file_len \<Rightarrow>
          (case parse_field (c_namesize header) of
             None \<Rightarrow> Ret (Inl None)
           | Some name_len \<Rightarrow>
               (case from_utf8 (raw_slice m archive offset name_len) of
                  None \<Rightarrow> Ret (Inl None)
                | Some str \<Rightarrow>
                    let name = trim_end_nul str in
                    if name = ascii ''TRAILER!!!'' then Ret (Inl None)
                    else do {
                      n \<leftarrow> checked_add HEADER_SIZE name_len;
                      n \<leftarrow> checked_add n 3;
                      data_start \<leftarrow> checked_add header_start (n AND NOT 3);
                      if name = target then Ret (Inl (Some (raw_slice m archive data_start file_len)))
                      else do {
                        k \<leftarrow> checked_add file_len 3;
                        next \<leftarrow> checked_add data_start (k AND NOT 3);
                        Ret (Inr next) } }))) })"

lemma raw_find_step_advances: "raw_find_step m archive target o1 = Ret (Inr o2) \<Longrightarrow> unat o1 < unat o2"
proof -
  assume "raw_find_step m archive target o1 = Ret (Inr o2)"
  then obtain n0 n a d k where n: "checked_add HEADER_SIZE n0 = Some n" "checked_add n 3 = Some a"
      "checked_add o1 (a AND NOT 3) = Some d" "checked_add d (k AND NOT 3) = Some o2"
    unfolding raw_find_step_def Let_def by (auto split: bind_splits option.splits if_splits)
  have "unat a = 113 + unat n0" using checked_add_unat [OF n(1)] checked_add_unat [OF n(2)] by (simp add: HEADER_SIZE_def)
  then have "0 < unat (a AND NOT 3)" by (simp add: unat_and_not_3)
  then show ?thesis using checked_add_unat [OF n(3)] checked_add_unat [OF n(4)] by simp
qed

text \<open>The loop; it ends because the offset grows and may not overflow.\<close>

function raw_find_loop :: "mem \<Rightarrow> usize \<Rightarrow> u8 list \<Rightarrow> usize \<Rightarrow> u8 list option panics" where
  "raw_find_loop m archive target offset = do {
     r \<leftarrow> raw_find_step m archive target offset;
     (case r of Inl found \<Rightarrow> Ret found | Inr next \<Rightarrow> raw_find_loop m archive target next) }"
  by pat_completeness auto
termination
proof (relation "measure (\<lambda>(m, archive, target, offset). 2 ^ 64 - unat offset)")
  fix m archive target offset r "next"
  assume "raw_find_step m archive target offset = Ret r" "r = Inr next"
  then show "((m, archive, target, next), m, archive, target, offset) \<in> measure (\<lambda>(m, archive, target, offset). 2 ^ 64 - unat offset)"
    using raw_find_step_advances [of m archive target offset "next"] unat_u64_bound [of "next"] by simp
qed simp

declare raw_find_loop.simps [simp del]

definition raw_find_file :: "mem \<Rightarrow> usize \<Rightarrow> u8 list \<Rightarrow> u8 list option panics" where
  "raw_find_file m archive target = raw_find_loop m archive target 0"

subsection \<open>Agreement with the kernel's reader\<close>

lemma raw_slice_eq:
  assumes holds: "read_bytes m archive (length bs) = bs" and ok: "slice_ok bs" and le: "unat off + unat len \<le> length bs"
  shows "raw_slice m archive off len = take (unat len) (drop (unat off) bs)"
proof (rule nth_equalityI)
  fix i assume "i < length (raw_slice m archive off len)"
  then have i: "i < unat len" by (simp add: raw_slice_def)
  have "bs ! (unat off + i) = m (archive + of_nat (unat off + i))"
    using i le arg_cong [OF holds, of "\<lambda>xs. xs ! (unat off + i)"] by (simp add: read_bytes_def)
  then show "raw_slice m archive off len ! i = take (unat len) (drop (unat off) bs) ! i"
    using i le by (simp add: raw_slice_def read_bytes_def add.assoc)
qed (use le in \<open>simp add: raw_slice_def\<close>)

lemma header_from_first_bytes:
  assumes "110 \<le> length bytes" "slice_ok bytes"
  shows "header_from_bytes (take 110 bytes) = header_from_bytes bytes"
proof -
  have "header_field i (take 110 bytes) = header_field i bytes" if "i \<le> 12" for i
    using that by (simp add: header_field_def drop_take min_def)
  moreover have "slice_ok (take 110 bytes)" using assms(2) by (simp add: slice_ok_def)
  ultimately show ?thesis
    using assms by (simp add: header_from_bytes_def HEADER_SIZE_def word_less_nat_alt Let_def)
qed

lemma raw_find_step_agrees:
  assumes holds: "read_bytes m archive (length bs) = bs" and ok: "slice_ok bs" and here: "unat hs + 110 \<le> length bs"
    and step: "find_step bs target hs = Ret r" "r \<noteq> Inl None"
  shows "raw_find_step m archive target hs = Ret r"
proof -
  have rest: "slice_ok (drop (unat hs) bs)" "110 \<le> length (drop (unat hs) bs)" using ok here by (simp_all add: slice_ok_def)
  have hd: "header_from_bytes (raw_slice m archive hs HEADER_SIZE) = header_from_bytes (drop (unat hs) bs)"
    using raw_slice_eq [OF holds ok, of hs HEADER_SIZE] here header_from_first_bytes [OF rest(2,1)] by (simp add: HEADER_SIZE_def)
  obtain header fl nl where p: "header_from_bytes (drop (unat hs) bs) = Some header" "parse_field (c_filesize header) = Some fl"
      "parse_field (c_namesize header) = Some nl"
    using find_step_early [OF ok here, of target] step by (metis not_None_eq option.inject)
  note len = parse_field_bound [OF p(2) header_from_bytes_fields(1) [OF p(1) rest(1)]]
    parse_field_bound [OF p(3) header_from_bytes_fields(2) [OF p(1) rest(1)]]
  obtain offset name_end n n' ds de k nx where sums:
    "checked_add hs HEADER_SIZE = Some offset" "unat offset = unat hs + 110"
    "checked_add offset nl = Some name_end" "unat name_end = unat offset + unat nl"
    "checked_add HEADER_SIZE nl = Some n" "checked_add n 3 = Some n'"
    "checked_add hs (n' AND - 4) = Some ds" "unat ds = unat hs + (113 + unat nl) div 4 * 4"
    "checked_add ds fl = Some de" "unat de = unat ds + unat fl"
    "checked_add fl 3 = Some k" "checked_add ds (k AND - 4) = Some nx" "unat nx = unat ds + (unat fl + 3) div 4 * 4"
    by (rule find_step_sums [OF here ok len])
  let ?name = "take (unat nl) (drop (unat hs + 110) bs)" and ?data = "unat hs + (113 + unat nl) div 4 * 4"
  have r: "r = (if length bs < unat hs + 110 + unat nl \<or> \<not> utf8_valid ?name \<or> trim_end_nul ?name = ascii ''TRAILER!!!''
          \<or> length bs < ?data + unat fl then Inl None
     else if trim_end_nul ?name = target then Inl (Some (take (unat fl) (drop ?data bs)))
     else Inr (of_nat (?data + (unat fl + 3) div 4 * 4)))"
    using find_step_eq [OF ok here p, of target] step(1) by simp
  then have c: "unat hs + 110 + unat nl \<le> length bs" "utf8_valid ?name" "trim_end_nul ?name \<noteq> ascii ''TRAILER!!!''" "?data + unat fl \<le> length bs"
    using step(2) by (auto split: if_splits)
  have sl: "raw_slice m archive offset nl = ?name" "raw_slice m archive ds fl = take (unat fl) (drop ?data bs)"
    using raw_slice_eq [OF holds ok, of offset nl] raw_slice_eq [OF holds ok, of ds fl] c(1,4) sums(2,8) by simp_all
  have nx: "nx = of_nat (?data + (unat fl + 3) div 4 * 4)" using sums(8,13) by (intro eq_of_unat) simp
  have "raw_find_step m archive target hs = Ret (if trim_end_nul ?name = target then Inl (Some (take (unat fl) (drop ?data bs))) else Inr nx)"
    unfolding raw_find_step_def using sums(1,5,6,7,11,12) sl c(2,3) by (simp add: hd p from_utf8_def Let_def)
  moreover have "r = (if trim_end_nul ?name = target then Inl (Some (take (unat fl) (drop ?data bs))) else Inr nx)"
    unfolding r nx using c by (simp add: not_less)
  ultimately show ?thesis by simp
qed

lemma raw_find_loop_agrees:
  assumes "read_bytes m archive (length bs) = bs" "slice_ok bs" "find_loop bs target offset = Ret (Some d)"
  shows "raw_find_loop m archive target offset = Ret (Some d)"
  using assms
proof (induction bs target offset rule: find_loop.induct)
  case (1 bs target offset)
  obtain e where e: "checked_add offset HEADER_SIZE = Some e" "e \<le> slice_len bs"
    using "1.prems"(3) by (subst (asm) find_loop.simps) (auto split: bind_splits if_splits)
  then have here: "unat offset + 110 \<le> length bs"
    using checked_add_unat [OF e(1)] "1.prems"(2) by (simp add: le_slice_len HEADER_SIZE_def)
  obtain r where r: "find_step bs target offset = Ret r" "(case r of Inl found \<Rightarrow> Ret found | Inr next \<Rightarrow> find_loop bs target next) = Ret (Some d)"
    using "1.prems"(3) unfolding find_loop_unfold [OF "1.prems"(2) here] by (auto split: bind_splits)
  have "r \<noteq> Inl None" using r(2) by auto
  then have "raw_find_step m archive target offset = Ret r"
    using raw_find_step_agrees [OF "1.prems"(1,2) here r(1)] by blast
  moreover have "raw_find_loop m archive target n = Ret (Some d)" if "r = Inr n" for n
    using "1.IH" [OF e(1) e(2) _ r(1) that] that r(2) "1.prems"(1,2) e(2) by (simp add: not_less)
  ultimately show ?case using r(2) by (subst raw_find_loop.simps) (auto split: sum.splits)
qed

text \<open>
  Both readers of the archive agree: whatever file the kernel's bounds-checked \<open>find_file\<close>
  finds in an archive, the root server's unchecked one finds in the same bytes of its
  memory, with the same contents, and it panics no more than the kernel's does.
\<close>

theorem cpio_readers_agree:
  assumes "read_bytes m archive (length bs) = bs" "slice_ok bs" "find_file bs target = Ret (Some d)"
  shows "raw_find_file m archive target = Ret (Some d)"
  using raw_find_loop_agrees [OF assms(1,2)] assms(3) by (simp add: find_file_def raw_find_file_def)

theorem cpio_readers_agree_witness:
  "raw_find_file (write_bytes (\<lambda>_. 0) 0x40000000 (archive_bytes [sample_entry ''omega3'' [1, 2, 3], sample_entry ''echo.elf'' [4, 5, 6, 7, 8]] (sample_entry ''TRAILER!!!'' []) []))
     0x40000000 (ascii ''echo.elf'') = Ret (Some [4, 5, 6, 7, 8])"
proof -
  let ?files = "[sample_entry ''omega3'' [1, 2, 3], sample_entry ''echo.elf'' [4, 5, 6, 7, 8]]" and ?t = "sample_entry ''TRAILER!!!'' []"
  have e: "\<forall>e \<in> set ?files. entry_shape e \<and> e_name e \<noteq> ascii ''TRAILER!!!''" "entry_shape ?t" "e_name ?t = ascii ''TRAILER!!!''"
    by (simp_all add: sample_entry_shape) (simp_all add: sample_entry_def ascii_def)
  have ok: "slice_ok (archive_bytes ?files ?t [])"
    using e by (simp add: slice_ok_def archive_bytes_def length_entry) (simp add: sample_entry_def ascii_def)
  have "find_file (archive_bytes ?files ?t []) (ascii ''echo.elf'') = Ret (Some [4, 5, 6, 7, 8])"
    using find_loop_archive [OF e, of "[]" "[]" "ascii ''echo.elf''"] ok by (simp add: find_file_def sample_entry_def ascii_def)
  then show ?thesis
    using ok by (intro cpio_readers_agree [OF _ ok]) (simp_all add: read_write_bytes slice_ok_def)
qed

end
