(* ===== verification/Bootstrap.thy ===== *)
theory Bootstrap
  imports Cpio Elf User_Correctness Stack_Pool Scheduler
begin

section \<open>Starting the first program\<close>

text \<open>
  \<open>src/src/task/bootstrap.rs\<close>: \<open>spawn\<close> finds a program in the initramfs, builds its address
  space, loads it and adds a task for it. \<open>load_elf\<close> maps every page of every loadable
  segment to a fresh frame that it fills with the file's bytes and zeros. The bytes of the
  file are a value here: the archive lies in memory the frame allocator never hands out.
\<close>

datatype ElfLoadError = AddressTranslationFailed | FailedToMapSegment | LoadOutOfMemory | LoadInvalidElf

text \<open>The body of the loop over the pages of a segment.\<close>

definition load_page ::
  "AddressSpace \<Rightarrow> DirectMap \<Rightarrow> Segment \<Rightarrow> usize \<Rightarrow> PagePermissions \<Rightarrow> usize \<Rightarrow> alloc_mem \<Rightarrow>
   ((ElfLoadError + unit) \<times> alloc_mem) panics" where
  "load_page space direct_map segment file_end permissions page s = do {
     (r, fa) \<leftarrow> alloc_nozero (fst s);
     (case r of
        None \<Rightarrow> Ret (Inl LoadOutOfMemory, fa, snd s)
      | Some physical \<Rightarrow>
          (case translate direct_map physical of
             None \<Rightarrow> do { fa \<leftarrow> dealloc fa physical; Ret (Inl AddressTranslationFailed, fa, snd s) }
           | Some destination \<Rightarrow> do {
               page_end \<leftarrow> checked_add page FRAME_SIZE;
               let copy_start = min (max page (seg_address segment)) page_end;
               let copy_end = max (min page_end file_end) copy_start;
               prefix \<leftarrow> checked_sub copy_start page;
               copied \<leftarrow> checked_sub copy_end copy_start;
               let m = fill_bytes (snd s) destination 0 (unat prefix);
               m \<leftarrow> (if copied \<noteq> 0 then do {
                       skip \<leftarrow> checked_sub copy_start (seg_address segment);
                       Ret (write_bytes m (destination + prefix) (take (unat copied) (drop (unat skip) (seg_data segment)))) }
                     else Ret m);
               rest \<leftarrow> checked_sub FRAME_SIZE prefix;
               rest \<leftarrow> checked_sub rest copied;
               let m = fill_bytes m (destination + (prefix + copied)) 0 (unat rest);
               (r, fa, m) \<leftarrow> address_space_map space physical page permissions WriteBack (fa, m);
               (case r of
                  Inl _ \<Rightarrow> do { fa \<leftarrow> dealloc fa physical; Ret (Inl FailedToMapSegment, fa, m) }
                | Inr _ \<Rightarrow> Ret (Inr (), fa, m)) })) }"

fun load_pages ::
  "AddressSpace \<Rightarrow> DirectMap \<Rightarrow> Segment \<Rightarrow> usize \<Rightarrow> PagePermissions \<Rightarrow> usize list \<Rightarrow> alloc_mem \<Rightarrow>
   ((ElfLoadError + unit) \<times> alloc_mem) panics" where
  "load_pages space direct_map segment file_end permissions [] s = Ret (Inr (), s)"
| "load_pages space direct_map segment file_end permissions (page # pages) s = do {
     (r, s) \<leftarrow> load_page space direct_map segment file_end permissions page s;
     (case r of Inl e \<Rightarrow> Ret (Inl e, s) | Inr _ \<Rightarrow> load_pages space direct_map segment file_end permissions pages s) }"

text \<open>The loop over the segments; the flag is \<open>executable_entry\<close>.\<close>

fun load_segments ::
  "AddressSpace \<Rightarrow> DirectMap \<Rightarrow> usize \<Rightarrow> (ElfError + Segment) list \<Rightarrow> bool \<Rightarrow> alloc_mem \<Rightarrow>
   ((ElfLoadError + bool) \<times> alloc_mem) panics" where
  "load_segments space direct_map entry [] executable_entry s = Ret (Inr executable_entry, s)"
| "load_segments space direct_map entry (r # segments) executable_entry s =
     (case r of
        Inl _ \<Rightarrow> Ret (Inl LoadInvalidElf, s)
      | Inr segment \<Rightarrow>
          (case checked_add (seg_address segment) (seg_memory_size segment) of
             None \<Rightarrow> Ret (Inl LoadInvalidElf, s)
           | Some end_addr \<Rightarrow>
               if \<not> end_addr \<le> USER_SPACE_END then Ret (Inl LoadInvalidElf, s)
               else if seg_memory_size segment = 0 then load_segments space direct_map entry segments executable_entry s
               else do {
                 let executable_entry = (executable_entry
                       \<or> seg_executable segment \<and> seg_address segment \<le> entry \<and> entry < end_addr);
                 let page_start = seg_address segment AND NOT (FRAME_SIZE - 1);
                 file_end \<leftarrow> checked_add (seg_address segment) (slice_len (seg_data segment));
                 let permissions = page_permissions (seg_writable segment) (seg_executable segment) True;
                 (r, s) \<leftarrow> load_pages space direct_map segment file_end permissions (page_range page_start end_addr) s;
                 (case r of
                    Inl e \<Rightarrow> Ret (Inl e, s)
                  | Inr _ \<Rightarrow> load_segments space direct_map entry segments executable_entry s) }))"

definition load_elf ::
  "u8 list \<Rightarrow> AddressSpace \<Rightarrow> DirectMap \<Rightarrow> alloc_mem \<Rightarrow> ((ElfLoadError + VirtualAddr) \<times> alloc_mem) panics" where
  "load_elf bytes user_address_space direct_map s = do {
     r \<leftarrow> elf_parse bytes;
     (case r of
        Inl _ \<Rightarrow> Ret (Inl LoadInvalidElf, s)
      | Inr program \<Rightarrow> do {
          segments \<leftarrow> elf_segments program;
          (r, s) \<leftarrow> load_segments user_address_space direct_map (elf_entry program) segments False s;
          (case r of
             Inl e \<Rightarrow> Ret (Inl e, s)
           | Inr executable_entry \<Rightarrow>
               if \<not> executable_entry then Ret (Inl LoadInvalidElf, s) else Ret (Inr (elf_entry program), s)) }) }"

subsection \<open>Spawning\<close>

record InitramfsImage =
  initramfs_start :: VirtualAddr
  initramfs_length :: usize

definition initramfs_data :: "InitramfsImage \<Rightarrow> mem \<Rightarrow> u8 list" where
  "initramfs_data initramfs m = read_bytes m (initramfs_start initramfs) (unat (initramfs_length initramfs))"

text \<open>
  Every \<open>expect\<close> is a panic. \<open>active\<close> is the page table the processor uses and
  \<open>user_thread_entry\<close> the address of the assembly routine new threads start in.
\<close>

definition spawn ::
  "u8 list \<Rightarrow> InitramfsImage \<Rightarrow> AddressSpace \<Rightarrow> DirectMap \<Rightarrow> PageTable \<Rightarrow> usize \<Rightarrow> Scheduler \<Rightarrow> AddressSpaceTable \<Rightarrow> alloc_mem \<Rightarrow>
   (TaskId \<times> Scheduler \<times> AddressSpaceTable \<times> alloc_mem) panics" where
  "spawn name initramfs kernel_as direct_map active user_thread_entry sched spaces s = do {
     found \<leftarrow> find_file (initramfs_data initramfs (snd s)) name;
     bytes \<leftarrow> found;
     (r, sched, s) \<leftarrow> allocate_kernel_stack kernel_as sched s;
     (case r of
        Inl _ \<Rightarrow> Panic
      | Inr kernel_stack \<Rightarrow> do {
          physical \<leftarrow> address_space_to_physical kernel_as (snd s) (initramfs_start initramfs);
          (r, s) \<leftarrow> address_space_new_user kernel_as s;
          (case r of
             Inl _ \<Rightarrow> Panic
           | Inr address_space \<Rightarrow> do {
               len \<leftarrow> checked_add (initramfs_length initramfs) 0xFFF;
               (r, s) \<leftarrow> address_space_map_range address_space physical 0x40000000 (len AND NOT 0xFFF)
                           (page_permissions True False True) WriteBack s;
               (case r of
                  Inl _ \<Rightarrow> Panic
                | Inr _ \<Rightarrow> do {
                    (r, s) \<leftarrow> user_stack_allocate address_space s;
                    (case r of
                       Inl _ \<Rightarrow> Panic
                     | Inr user_stack \<Rightarrow> do {
                         (r, s) \<leftarrow> load_elf bytes address_space direct_map s;
                         (case r of
                            Inl _ \<Rightarrow> Panic
                          | Inr entry \<Rightarrow>
                              (case address_space_insert spaces address_space of
                                 (Inl _, spaces) \<Rightarrow> Panic
                               | (Inr as_id, spaces) \<Rightarrow> do {
                                   (task, m) \<leftarrow> tcb_new_user active user_thread_entry as_id kernel_stack entry (sm_top user_stack) (snd s);
                                   (r, sched) \<leftarrow> add_task task sched;
                                   (case r of
                                      Inl _ \<Rightarrow> Panic
                                    | Inr task_id \<Rightarrow> Ret (task_id, sched, spaces, fst s, m)) })) }) }) }) }) }"

subsection \<open>The contents of a page\<close>

text \<open>The byte that a segment puts at an address: the file's, and zero around and after it.\<close>

definition segment_byte :: "Segment \<Rightarrow> nat \<Rightarrow> u8" where
  "segment_byte segment a =
     (if unat (seg_address segment) \<le> a \<and> a < unat (seg_address segment) + length (seg_data segment)
      then seg_data segment ! (a - unat (seg_address segment)) else 0)"

text \<open>A page written in three pieces: zeros, bytes, zeros.\<close>

definition three_pieces :: "mem \<Rightarrow> usize \<Rightarrow> usize \<Rightarrow> u8 list \<Rightarrow> usize \<Rightarrow> nat \<Rightarrow> mem" where
  "three_pieces m dest pre bs copied rest =
     fill_bytes (write_bytes (fill_bytes m dest 0 (unat pre)) (dest + pre) bs) (dest + (pre + copied)) 0 rest"

lemma unat_diff_cases: "unat (x - y) = (if unat y \<le> unat x then unat x - unat y else 2 ^ 64 - (unat y - unat x))" for x y :: usize
  using unat_u64_bound [of x] unat_u64_bound [of y]
  by (auto simp: word_arith_nat_defs unat_sub_if' word_le_nat_alt not_le)

lemma three_pieces_at:
  assumes "unat pre + length bs + rest = 4096" "unat copied = length bs"
  shows "three_pieces m dest pre bs copied rest x =
    (if unat (x - dest) < 4096 then
       (if unat (x - dest) < unat pre \<or> unat pre + length bs \<le> unat (x - dest) then 0 else bs ! (unat (x - dest) - unat pre))
     else m x)"
proof -
  let ?d = "x - dest"
  have pc: "unat (pre + copied) = unat pre + length bs" using assms by (subst unat_add_no_overflow) auto
  have a: "x - (dest + pre) = ?d - pre" "x - (dest + (pre + copied)) = ?d - (pre + copied)" by simp_all
  show ?thesis
    unfolding three_pieces_def fill_bytes_def write_bytes_def a unat_diff_cases [of ?d] pc
    using assms(1) unat_u64_bound [of pre] by auto
qed

lemma unat_min_max: "unat (min a b) = min (unat a) (unat b)" "unat (max a b) = max (unat a) (unat b)" for a b :: usize
  by (simp_all add: min_def max_def word_le_nat_alt)

lemma load_page_eq:
  assumes al: "alloc_nozero (fst s) = Ret (Some f, fa1)" and tr: "translate dm f = Some dest"
    and page: "unat page + 4096 < 2 ^ 64" "unat (seg_address segment) < unat page + 4096"
    and fe: "unat file_end = unat (seg_address segment) + length (seg_data segment)"
  obtains m1 where "load_page space dm segment file_end perms page s = do {
      (r, fa, m) \<leftarrow> address_space_map space f page perms WriteBack (fa1, m1);
      (case r of
         Inl _ \<Rightarrow> do { fa \<leftarrow> dealloc fa f; Ret (Inl FailedToMapSegment, fa, m) }
       | Inr _ \<Rightarrow> Ret (Inr (), fa, m)) }"
    "\<And>i. i < 4096 \<Longrightarrow> m1 (dest + of_nat i) = segment_byte segment (unat page + i)"
    "\<And>x. 4096 \<le> unat (x - dest) \<Longrightarrow> m1 x = snd s x"
proof -
  let ?P = "unat page" and ?A = "unat (seg_address segment)" and ?L = "length (seg_data segment)"
  obtain pe where pe: "checked_add page FRAME_SIZE = Some pe" "unat pe = ?P + 4096"
    using page(1) by (auto simp: FRAME_SIZE_def intro: checked_add_ret [of page 4096])
  define cs where "cs = min (max page (seg_address segment)) pe"
  define ce where "ce = max (min pe file_end) cs"
  have cs: "unat cs = max ?P ?A" using pe(2) page(2) by (simp add: cs_def unat_min_max)
  have ce: "unat ce = max (min (?P + 4096) (?A + ?L)) (max ?P ?A)" using pe(2) fe cs by (simp add: ce_def unat_min_max)
  have le: "page \<le> cs" "cs \<le> ce" "seg_address segment \<le> cs" using cs ce by (simp_all add: word_le_nat_alt)
  define p where "p = cs - page"
  define c where "c = ce - cs"
  have p: "checked_sub cs page = Some p" "unat p = max ?P ?A - ?P" using le(1) cs by (simp_all add: checked_sub_def p_def unat_sub)
  have c: "checked_sub ce cs = Some c" "unat c = max (min (?P + 4096) (?A + ?L)) (max ?P ?A) - max ?P ?A"
    using le(2) ce cs by (simp_all add: checked_sub_def c_def unat_sub)
  have sk: "checked_sub cs (seg_address segment) = Some (cs - seg_address segment)" "unat (cs - seg_address segment) = max ?P ?A - ?A"
    using le(3) cs by (simp_all add: checked_sub_def unat_sub)
  have pc: "unat p + unat c \<le> 4096" using p(2) c(2) page(2) by (simp add: max_def min_def split: if_splits)
  have r1: "checked_sub FRAME_SIZE p = Some (FRAME_SIZE - p)" "unat (FRAME_SIZE - p) = 4096 - unat p"
    using pc by (simp_all add: checked_sub_def FRAME_SIZE_def word_le_nat_alt unat_sub)
  have r2: "checked_sub (FRAME_SIZE - p) c = Some (FRAME_SIZE - p - c)" "unat (FRAME_SIZE - p - c) = 4096 - unat p - unat c"
    using pc r1(2) by (simp_all add: checked_sub_def word_le_nat_alt unat_sub)
  let ?bs = "take (unat c) (drop (max ?P ?A - ?A) (seg_data segment))"
  have lb: "length ?bs = unat c" unfolding length_take length_drop using c(2) by linarith
  define m1 where "m1 = three_pieces (snd s) dest p ?bs c (unat (FRAME_SIZE - p - c))"
  have at: "m1 x = (if unat (x - dest) < 4096 then
       (if unat (x - dest) < unat p \<or> unat p + unat c \<le> unat (x - dest) then 0 else ?bs ! (unat (x - dest) - unat p))
     else snd s x)" for x
    unfolding m1_def using lb r2(2) pc by (subst three_pieces_at) simp_all
  show thesis
  proof (rule that)
    have "(if c \<noteq> 0 then Ret (write_bytes (fill_bytes (snd s) dest 0 (unat p)) (dest + p) ?bs) else Ret (fill_bytes (snd s) dest 0 (unat p)))
        = Ret (write_bytes (fill_bytes (snd s) dest 0 (unat p)) (dest + p) ?bs)"
      by (auto simp: write_bytes_def)
    then show "load_page space dm segment file_end perms page s = do {
      (r, fa, m) \<leftarrow> address_space_map space f page perms WriteBack (fa1, m1);
      (case r of
         Inl _ \<Rightarrow> do { fa \<leftarrow> dealloc fa f; Ret (Inl FailedToMapSegment, fa, m) }
       | Inr _ \<Rightarrow> Ret (Inr (), fa, m)) }"
      by (simp add: load_page_def al tr pe(1) Let_def p(1) c(1) sk r1(1) r2(1) m1_def three_pieces_def flip: cs_def ce_def cong: if_cong)
  next
    fix i :: nat assume i: "i < 4096"
    then have u: "unat (dest + of_nat i - dest) = i" by simp
    show "m1 (dest + of_nat i) = segment_byte segment (?P + i)"
    proof (cases "unat p \<le> i \<and> i < unat p + unat c")
      case True
      then have "max ?P ?A - ?A + (i - unat p) = ?P + i - ?A" "?A \<le> ?P + i" "?P + i < ?A + ?L"
        using p(2) c(2) by (simp_all add: max_def min_def split: if_splits)
      moreover have "?bs ! (i - unat p) = seg_data segment ! (max ?P ?A - ?A + (i - unat p))"
        using True lb by (subst nth_take) (auto intro!: nth_drop)
      ultimately show ?thesis using True i u by (simp add: at segment_byte_def)
    next
      case False
      then have "\<not> (?A \<le> ?P + i \<and> ?P + i < ?A + ?L)" using i p(2) c(2) by (simp add: max_def min_def split: if_splits; arith)
      then show ?thesis using False i u by (auto simp: at segment_byte_def)
    qed
  next
    fix x assume "4096 \<le> unat (x - dest)"
    then show "m1 x = snd s x" by (simp add: at)
  qed
qed

end
