(* ===== verification/Bootstrap_Correctness.thy ===== *)
theory Bootstrap_Correctness
  imports Bootstrap
begin

section \<open>Correctness of loading\<close>

text \<open>
  Loading only adds: what was mapped stays mapped, and the data frames keep their bytes
  (\<open>keeps\<close>). Each page that is loaded gets a frame of its own with the bytes of its
  segment. So after a successful load every address of every segment is mapped with the
  segment's permissions and holds the file's byte, or zero.
\<close>

definition frame_byte :: "AddressSpace \<Rightarrow> mem \<Rightarrow> FrameAddr \<Rightarrow> nat \<Rightarrow> u8" where
  "frame_byte space m f i = m (f + dm_offset (pt_direct_map (as_root space)) + of_nat i)"

definition keeps :: "AddressSpace \<Rightarrow> alloc_mem \<Rightarrow> alloc_mem \<Rightarrow> bool" where
  "keeps space s s' \<longleftrightarrow> as_inv space s' \<and> as_look space s \<subseteq>\<^sub>m as_look space s' \<and> as_owned space s \<subseteq> as_owned space s'
     \<and> (\<forall>f \<in> as_owned space s. \<forall>i<4096. frame_byte space (snd s') f i = frame_byte space (snd s) f i)"

lemma keeps_refl: "as_inv space s \<Longrightarrow> keeps space s s"
  by (simp add: keeps_def)

lemma keeps_trans: "keeps space s s' \<Longrightarrow> keeps space s' s'' \<Longrightarrow> keeps space s s''"
  unfolding keeps_def using map_le_trans by (metis subsetD order.trans)

lemma keeps_inv: "keeps space s s' \<Longrightarrow> as_inv space s'"
  by (simp add: keeps_def)

lemma keepsD:
  assumes "keeps space s s'"
  shows "as_look space s v = Some e \<Longrightarrow> as_look space s' v = Some e" "f \<in> as_owned space s \<Longrightarrow> f \<in> as_owned space s'"
    "f \<in> as_owned space s \<Longrightarrow> i < 4096 \<Longrightarrow> frame_byte space (snd s') f i = frame_byte space (snd s) f i"
  using assms by (auto simp: keeps_def map_le_def dom_def)

subsection \<open>The bytes of a frame\<close>

lemma owned_dm_frame:
  assumes "as_inv space s" "f \<in> as_owned space s"
  shows "dm_frame (as_root space) f"
  using assms fa_state_dm_frame [OF pt_invD(1), of "as_root space" "fst s" "snd s" f]
  by (auto simp: as_inv_def as_owned_def data_frames_def)

lemma frame_byte_address:
  assumes "dm_frame (as_root space) f" "i < 4096"
  shows "unat (f + dm_offset (pt_direct_map (as_root space)) + of_nat i) = unat f + unat (dm_offset (pt_direct_map (as_root space))) + i"
  using assms unat_add_small [of "f + dm_offset (pt_direct_map (as_root space))" i] by (simp add: dm_frame_unat dm_frame_def)

lemma same_except_frame_byte:
  assumes "same_except (as_root space) S m m'" "dm_frame (as_root space) f" "f \<notin> S" "\<And>g. g \<in> S \<Longrightarrow> dm_frame (as_root space) g" "i < 4096"
  shows "frame_byte space m' f i = frame_byte space m f i"
proof -
  let ?x = "f + dm_offset (pt_direct_map (as_root space)) + of_nat i"
  have "\<not> in_frame (as_root space) g ?x" if "g \<in> S" for g
    using frames_apart [of f g] assms(2,3,5) assms(4) [OF that] that frame_byte_address [OF assms(2,5)]
    by (cases "f = g") (auto simp: in_frame_def dm_frame_def)
  then show ?thesis using assms(1) by (simp add: same_except_def frame_byte_def)
qed

text \<open>Taking a frame without clearing it.\<close>

lemma as_inv_alloc_nozero:
  assumes inv: "as_inv space (fa, m)" and al: "alloc_nozero fa = Ret (Some f, fa')"
  shows "as_inv space (fa', m)" "as_look space (fa', m) = as_look space (fa, m)"
    "as_owned space (fa', m) = insert f (as_owned space (fa, m))" "f \<notin> as_owned space (fa, m)"
proof -
  let ?pt = "as_root space"
  have pinv: "pt_inv ?pt fa m" using inv by (simp add: as_inv_def)
  then have ok: "pt_ok ?pt fa" using pt_invD(1) by blast
  have f: "fa_inv fa'" "fa_direct_map fa' = fa_direct_map fa" "fa_state fa f = Some Free" "fa_state fa' = (fa_state fa)(f \<mapsto> Allocated)"
    using alloc_nozero_spec [of fa] ok al by (auto simp: pt_ok_def)
  have ok': "pt_ok ?pt fa'" using ok f(1,2) by (simp add: pt_ok_def)
  have new: "f \<notin> pt_tables ?pt m" using pt_invD(4) [OF pinv] f(3) by force
  have "pt_inv ?pt fa' m" by (rule pt_inv_frame [OF pinv ok']) (use f(4) pt_invD(4) [OF pinv] in auto)
  then show "as_inv space (fa', m)" by (simp add: as_inv_def)
  show "as_look space (fa', m) = as_look space (fa, m)" by (simp add: as_look_def fun_eq_iff)
  show "as_owned space (fa', m) = insert f (as_owned space (fa, m))" "f \<notin> as_owned space (fa, m)"
    using f(3,4) new by (auto simp: as_owned_def data_frames_def)
qed

text \<open>Writing inside one data frame.\<close>

lemma as_inv_write:
  assumes inv: "as_inv space (fa, m)" and f: "f \<in> as_owned space (fa, m)"
    and out: "\<And>x. 4096 \<le> unat (x - (f + dm_offset (pt_direct_map (as_root space)))) \<Longrightarrow> m' x = m x"
  shows "as_inv space (fa, m')" "as_look space (fa, m') = as_look space (fa, m)" "as_owned space (fa, m') = as_owned space (fa, m)"
    "\<And>g i. g \<in> as_owned space (fa, m) \<Longrightarrow> g \<noteq> f \<Longrightarrow> i < 4096 \<Longrightarrow> frame_byte space m' g i = frame_byte space m g i"
proof -
  let ?pt = "as_root space" and ?o = "dm_offset (pt_direct_map (as_root space))"
  have pinv: "pt_inv ?pt fa m" using inv by (simp add: as_inv_def)
  have dm: "dm_frame ?pt f" by (rule owned_dm_frame [OF inv f])
  have se: "same_except ?pt {f} m m'"
    unfolding same_except_def
  proof (intro allI impI)
    fix x assume "\<forall>g\<in>{f}. \<not> in_frame ?pt g x"
    then have "4096 \<le> unat (x - (f + ?o))"
      using dm dm_frame_unat [OF dm] unat_u64_bound [of x] unat_diff_cases [of x "f + ?o"] by (auto simp: in_frame_def dm_frame_def split: if_splits)
    then show "m' x = m x" by (rule out)
  qed
  have new: "f \<notin> pt_tables ?pt m" using f by (simp add: as_owned_def data_frames_def)
  have same: "ent ?pt m' g j = ent ?pt m g j" if "g \<in> pt_tables ?pt m" "j < 512" for g j
    using same_except_ent [OF se pt_invD(5) [OF pinv that(1)] _ _ that(2)] new dm that(1) by auto
  have k: "pt_inv ?pt fa m'" "pt_tables ?pt m' = pt_tables ?pt m" "\<And>b. page_entry ?pt m' b = page_entry ?pt m b"
    by (rule pt_inv_frame [OF pinv pt_invD(1) [OF pinv]]; (erule pt_invD(4) [OF pinv] | erule (1) same))+
  show "as_inv space (fa, m')" using k(1) by (simp add: as_inv_def)
  show "as_look space (fa, m') = as_look space (fa, m)" using k(3) by (simp add: as_look_def page_view_def fun_eq_iff)
  show "as_owned space (fa, m') = as_owned space (fa, m)" using k(2) by (simp add: as_owned_def data_frames_def)
  show "frame_byte space m' g i = frame_byte space m g i" if "g \<in> as_owned space (fa, m)" "g \<noteq> f" "i < 4096" for g i
    by (rule same_except_frame_byte [OF se owned_dm_frame [OF inv that(1)] _ _ that(3)]) (use that dm in auto)
qed

text \<open>Mapping a page writes page tables only.\<close>

lemma address_space_map_bytes:
  assumes inv: "as_inv space (fa, m)" and mp: "address_space_map space p v perms cache (fa, m) = Ret (r, fa', m')"
    and f: "f \<in> as_owned space (fa, m)" and i: "i < 4096"
  shows "frame_byte space m' f i = frame_byte space m f i"
  using mp
proof (rule address_space_map_cases)
  fix x assume p: "frame_aligned p" "page_table_map (as_root space) v p perms cache (as_kind space = KernelSpace) (fa, m) = Ret (x, fa', m')"
  let ?pt = "as_root space"
  have pinv: "pt_inv ?pt fa m" using inv by (simp add: as_inv_def)
  note dm = owned_dm_frame [OF inv f]
  have a: "fa_state fa f = Some Allocated" "f \<notin> pt_tables ?pt m" using f by (auto simp: as_owned_def data_frames_def)
  show ?thesis
  proof (cases x)
    case (Inl e)
    then have "same_except ?pt {g. fa_state fa g = Some Free} m m'"
      using page_table_map_spec [OF pinv p(1), of v perms cache "as_kind space = KernelSpace"] p(2) by (auto simp: unmapped_error_def)
    then show ?thesis
      by (rule same_except_frame_byte [OF _ dm _ _ i]) (use a(1) fa_state_dm_frame [OF pt_invD(1) [OF pinv]] in auto)
  next
    case (Inr u)
    then have mp: "pt_inv ?pt fa' m'" "same_except ?pt (pt_tables ?pt m') m m'" "\<forall>f\<in>pt_tables ?pt m' - pt_tables ?pt m. fa_state fa f = Some Free"
      using page_table_map_spec [OF pinv p(1), of v perms cache "as_kind space = KernelSpace"] p(2) by (auto simp: mapped_def)
    have "f \<notin> pt_tables ?pt m'" using mp(3) a by auto
    then show ?thesis by (rule same_except_frame_byte [OF mp(2) dm _ pt_invD(5) [OF mp(1)] i])
  qed
qed simp

subsection \<open>One page\<close>

text \<open>A page that holds the bytes of a segment, with its permissions, in a frame of its own.\<close>

definition page_loaded :: "AddressSpace \<Rightarrow> Segment \<Rightarrow> PagePermissions \<Rightarrow> alloc_mem \<Rightarrow> usize \<Rightarrow> bool" where
  "page_loaded space segment perms s page \<longleftrightarrow>
     (\<exists>f. as_look space s page = Some (f, perms) \<and> f \<in> as_owned space s
        \<and> (\<forall>i<4096. frame_byte space (snd s) f i = segment_byte segment (unat page + i)))"

lemma page_loaded_keeps: "page_loaded space segment perms s page \<Longrightarrow> keeps space s s' \<Longrightarrow> page_loaded space segment perms s' page"
proof -
  assume l: "page_loaded space segment perms s page" and k: "keeps space s s'"
  obtain f where f: "as_look space s page = Some (f, perms)" "f \<in> as_owned space s"
      "\<forall>i<4096. frame_byte space (snd s) f i = segment_byte segment (unat page + i)"
    using l unfolding page_loaded_def by blast
  then have "\<forall>i<4096. frame_byte space (snd s') f i = segment_byte segment (unat page + i)" using keepsD(3) [OF k] by simp
  then show ?thesis unfolding page_loaded_def using keepsD(1,2) [OF k] f(1,2) by blast
qed

lemma load_page_spec:
  assumes inv: "as_inv space s" and dm: "dm = pt_direct_map (as_root space)"
    and page: "unat page + 4096 < 2 ^ 64" "unat (seg_address segment) < unat page + 4096"
    and fe: "unat file_end = unat (seg_address segment) + length (seg_data segment)"
  obtains r s' where "load_page space dm segment file_end perms page s = Ret (r, s')" "keeps space s s'"
    "r = Inr () \<Longrightarrow> page_loaded space segment perms s' page"
proof -
  obtain fa m where s: "s = (fa, m)" by (cases s)
  have pinv: "pt_inv (as_root space) fa m" using inv s by (simp add: as_inv_def)
  then have fok: "fa_inv fa" using pt_invD(1) by (auto simp: pt_ok_def)
  obtain r1 fa1 where al: "alloc_nozero fa = Ret (r1, fa1)" "r1 = None \<Longrightarrow> fa1 = fa" using alloc_nozero_spec [OF fok] by force
  show thesis
  proof (cases r1)
    case None
    then show thesis using that [of "Inl LoadOutOfMemory" s] al s inv by (simp add: load_page_def keeps_refl)
  next
    case (Some f)
    note a = as_inv_alloc_nozero [of space fa m, OF _ al(1) [unfolded Some]]
    have inv1: "as_inv space (fa1, m)" using a(1) inv s by simp
    have own1: "as_owned space (fa1, m) = insert f (as_owned space (fa, m))" "f \<notin> as_owned space (fa, m)" using a(3,4) inv s by auto
    let ?dest = "f + dm_offset dm"
    have fd: "dm_frame (as_root space) f" using owned_dm_frame [OF inv1] own1 by simp
    then have tr: "translate dm f = Some ?dest" by (simp add: translate_Some_iff dm dm_frame_def)
    obtain m1 where m1: "load_page space dm segment file_end perms page s = do {
        (r, fa, m) \<leftarrow> address_space_map space f page perms WriteBack (fa1, m1);
        (case r of
           Inl _ \<Rightarrow> do { fa \<leftarrow> dealloc fa f; Ret (Inl FailedToMapSegment, fa, m) }
         | Inr _ \<Rightarrow> Ret (Inr (), fa, m)) }"
      "\<And>i. i < 4096 \<Longrightarrow> m1 (?dest + of_nat i) = segment_byte segment (unat page + i)"
      "\<And>x. 4096 \<le> unat (x - ?dest) \<Longrightarrow> m1 x = m x"
      using load_page_eq [of s f fa1 dm ?dest page segment file_end space perms] al(1) Some tr page fe s by auto
    have w: "as_inv space (fa1, m1)" "as_look space (fa1, m1) = as_look space (fa1, m)" "as_owned space (fa1, m1) = as_owned space (fa1, m)"
        "\<And>g i. g \<in> as_owned space (fa, m) \<Longrightarrow> i < 4096 \<Longrightarrow> frame_byte space m1 g i = frame_byte space m g i"
      using as_inv_write [OF inv1, of f m1] own1 m1(3) dm by (auto simp: subset_iff)
    obtain r2 s2 where r2': "address_space_map space f page perms WriteBack (fa1, m1) = Ret (r2, s2)" "as_inv space s2"
        "case r2 of
           Inl _ \<Rightarrow> as_look space s2 = as_look space (fa1, m1) \<and> as_owned space s2 = as_owned space (fa1, m1)
             \<and> fa_state (fst s2) = fa_state (fst (fa1, m1))
         | Inr _ \<Rightarrow> as_covers space page \<and> is_canonical (as_root space) page \<and> page mod PAGE_SIZE = 0 \<and> as_look space (fa1, m1) page = None
             \<and> as_look space s2 = (as_look space (fa1, m1))(page \<mapsto> (f, perms)) \<and> as_owned space s2 = as_owned space (fa1, m1)"
      using address_space_map_spec [OF w(1), of f page perms WriteBack] by blast
    obtain fa2 m2 where s2: "s2 = (fa2, m2)" by (cases s2)
    note r2 = r2' [unfolded s2]
    have look: "as_look space (fa1, m1) = as_look space s" using w(2) a(2) inv s by simp
    have owned: "as_owned space (fa2, m2) = insert f (as_owned space s)" "f \<notin> as_owned space s" using r2(3) w(3) own1 s by (auto split: sum.splits)
    have bytes: "frame_byte space m2 g i = frame_byte space m1 g i" if "g \<in> insert f (as_owned space s)" "i < 4096" for g i
      using address_space_map_bytes [OF w(1) r2(1) _ that(2)] that(1) w(3) own1 s by auto
    have kept: "frame_byte space m2 g i = frame_byte space (snd s) g i" if "g \<in> as_owned space s" "i < 4096" for g i
      using bytes [of g i] w(4) [of g i] that s by simp
    show thesis
    proof (cases r2)
      case (Inl e)
      obtain fa3 where fa3: "dealloc fa2 f = Ret fa3" "as_inv space (fa3, m2)" "as_look space (fa3, m2) = as_look space (fa2, m2)"
          "as_owned space (fa3, m2) = as_owned space (fa2, m2) - {f}"
        using as_inv_dealloc [OF r2(2), of f] owned by auto
      have "keeps space s (fa3, m2)"
        using fa3(2-4) r2(3) Inl look owned kept by (simp add: keeps_def)
      then show thesis using that [of "Inl FailedToMapSegment" "(fa3, m2)"] m1(1) r2(1) Inl fa3(1) by simp
    next
      case (Inr u)
      have "keeps space s (fa2, m2)"
        using r2(2,3) Inr look owned kept by (auto simp: keeps_def map_le_def)
      moreover have "frame_byte space m2 f i = segment_byte segment (unat page + i)" if "i < 4096" for i
        using bytes [of f i] m1(2) [OF that] that dm by (simp add: frame_byte_def)
      then have "page_loaded space segment perms (fa2, m2) page"
        using r2(3) Inr owned by (auto simp: page_loaded_def)
      ultimately show thesis using that [of "Inr ()" "(fa2, m2)"] m1(1) r2(1) Inr by simp
    qed
  qed
qed

subsection \<open>A segment\<close>

lemma load_pages_spec:
  assumes "as_inv space s" "dm = pt_direct_map (as_root space)"
    "\<And>page. page \<in> set pages \<Longrightarrow> unat page + 4096 < 2 ^ 64 \<and> unat (seg_address segment) < unat page + 4096"
    "unat file_end = unat (seg_address segment) + length (seg_data segment)"
  shows "\<exists>r s'. load_pages space dm segment file_end perms pages s = Ret (r, s') \<and> keeps space s s'
    \<and> (r = Inr () \<longrightarrow> (\<forall>page \<in> set pages. page_loaded space segment perms s' page))"
  using assms
proof (induction pages arbitrary: s)
  case Nil
  then show ?case by (simp add: keeps_refl)
next
  case (Cons page pages)
  obtain r1 s1 where 1: "load_page space dm segment file_end perms page s = Ret (r1, s1)" "keeps space s s1"
      "r1 = Inr () \<Longrightarrow> page_loaded space segment perms s1 page"
    using load_page_spec [OF Cons.prems(1,2) _ _ Cons.prems(4), of page perms] Cons.prems(3) [of page] by auto
  show ?case
  proof (cases r1)
    case (Inl e)
    then show ?thesis using 1 by simp
  next
    case (Inr u)
    obtain r2 s2 where 2: "load_pages space dm segment file_end perms pages s1 = Ret (r2, s2)" "keeps space s1 s2"
        "r2 = Inr () \<Longrightarrow> \<forall>page \<in> set pages. page_loaded space segment perms s2 page"
      using Cons.IH [OF keeps_inv [OF 1(2)] Cons.prems(2) _ Cons.prems(4)] Cons.prems(3) by auto
    show ?thesis
      using 1 2 Inr keeps_trans [OF 1(2) 2(2)] page_loaded_keeps [OF _ 2(2)] by auto
  qed
qed

text \<open>Every address of the segment is mapped as it says and holds its byte.\<close>

definition segment_loaded :: "AddressSpace \<Rightarrow> alloc_mem \<Rightarrow> Segment \<Rightarrow> bool" where
  "segment_loaded space s segment \<longleftrightarrow>
     (\<forall>a. unat (seg_address segment) \<le> a \<longrightarrow> a < unat (seg_address segment) + unat (seg_memory_size segment) \<longrightarrow>
        (\<exists>f. as_look space s (of_nat (a div 4096 * 4096)) = Some (f, page_permissions (seg_writable segment) (seg_executable segment) True)
           \<and> f \<in> as_owned space s \<and> frame_byte space (snd s) f (a mod 4096) = segment_byte segment a))"

lemma segment_loaded_keeps: "segment_loaded space s segment \<Longrightarrow> keeps space s s' \<Longrightarrow> segment_loaded space s' segment"
proof -
  assume l: "segment_loaded space s segment" and k: "keeps space s s'"
  have "\<exists>f. as_look space s' v = Some (f, e) \<and> f \<in> as_owned space s' \<and> frame_byte space (snd s') f (a mod 4096) = b"
    if "\<exists>f. as_look space s v = Some (f, e) \<and> f \<in> as_owned space s \<and> frame_byte space (snd s) f (a mod 4096) = b" for v e a b
    using that keepsD [OF k] by (metis mod_less_divisor zero_less_numeral)
  then show ?thesis using l unfolding segment_loaded_def by blast
qed

lemma segment_pages:
  assumes e: "unat e = unat a + unat n" "e \<le> USER_SPACE_END" and p: "p \<in> set (page_range (a AND NOT (FRAME_SIZE - 1)) e)"
  shows "unat p + 4096 < 2 ^ 64" "unat a < unat p + 4096"
proof -
  have "unat e \<le> 2 ^ 47" using e(2) by (simp add: USER_SPACE_END_def word_le_nat_alt)
  then have "a AND NOT (FRAME_SIZE - 1) \<le> p" "p < e"
    using p set_page_range [of "a AND NOT (FRAME_SIZE - 1)" e p] align_down_aligned [of a] by simp_all
  then show "unat p + 4096 < 2 ^ 64" "unat a < unat p + 4096"
    using align_down_aligned [of a] \<open>unat e \<le> 2 ^ 47\<close> unfolding word_le_nat_alt word_less_nat_alt by (simp, linarith)
qed

lemma pages_segment_loaded:
  assumes e: "unat e = unat (seg_address segment) + unat (seg_memory_size segment)" "e \<le> USER_SPACE_END"
    and pages: "\<forall>page \<in> set (page_range (seg_address segment AND NOT (FRAME_SIZE - 1)) e).
      page_loaded space segment (page_permissions (seg_writable segment) (seg_executable segment) True) s page"
  shows "segment_loaded space s segment"
  unfolding segment_loaded_def
proof (intro allI impI)
  fix a assume a: "unat (seg_address segment) \<le> a" "a < unat (seg_address segment) + unat (seg_memory_size segment)"
  let ?p = "of_nat (a div 4096 * 4096) :: usize"
  have ub: "unat e \<le> 2 ^ 47" using e(2) by (simp add: USER_SPACE_END_def word_le_nat_alt)
  have "a div 4096 * 4096 \<le> a" by simp
  then have u: "unat ?p = a div 4096 * 4096" using a(2) e(1) ub by (intro unat_of_nat_u64) simp
  have "unat (seg_address segment) div 4096 * 4096 \<le> a div 4096 * 4096" using a(1) by (simp add: div_le_mono)
  then have "?p \<in> set (page_range (seg_address segment AND NOT (FRAME_SIZE - 1)) e)"
    using set_page_range [of "seg_address segment AND NOT (FRAME_SIZE - 1)" e ?p] align_down_aligned [of "seg_address segment"]
      u ub a(2) e(1) \<open>a div 4096 * 4096 \<le> a\<close> by (simp add: word_le_nat_alt word_less_nat_alt del: of_nat_mult)
  then have "page_loaded space segment (page_permissions (seg_writable segment) (seg_executable segment) True) s ?p" using pages by blast
  then obtain f where f: "as_look space s ?p = Some (f, page_permissions (seg_writable segment) (seg_executable segment) True)" "f \<in> as_owned space s"
      "\<forall>i<4096. frame_byte space (snd s) f i = segment_byte segment (unat ?p + i)"
    unfolding page_loaded_def by blast
  have "frame_byte space (snd s) f (a mod 4096) = segment_byte segment (unat ?p + a mod 4096)" using f(3) by simp
  also have "unat ?p + a mod 4096 = a" unfolding u by simp
  finally show "\<exists>f. as_look space s ?p = Some (f, page_permissions (seg_writable segment) (seg_executable segment) True)
      \<and> f \<in> as_owned space s \<and> frame_byte space (snd s) f (a mod 4096) = segment_byte segment a"
    using f(1,2) by blast
qed

subsection \<open>All segments\<close>

text \<open>What the reader guarantees of a segment.\<close>

definition segment_ok :: "Segment \<Rightarrow> bool" where
  "segment_ok segment \<longleftrightarrow> length (seg_data segment) \<le> unat (seg_memory_size segment) \<and> slice_ok (seg_data segment)"

lemma phdr_segment_ok: "phdr_segment bytes p = Inr segment \<Longrightarrow> slice_ok bytes \<Longrightarrow> segment_ok segment"
  by (auto simp: phdr_segment_def segment_ok_def slice_ok_def word_le_nat_alt split: if_splits)

text \<open>An executable segment that contains an address.\<close>

definition executes :: "usize \<Rightarrow> Segment \<Rightarrow> bool" where
  "executes entry segment \<longleftrightarrow> seg_executable segment \<and> unat (seg_address segment) \<le> unat entry
     \<and> unat entry < unat (seg_address segment) + unat (seg_memory_size segment)"

definition in_user_half :: "Segment \<Rightarrow> bool" where
  "in_user_half segment \<longleftrightarrow> unat (seg_address segment) + unat (seg_memory_size segment) \<le> unat USER_SPACE_END"

lemma load_segments_step:
  assumes inv: "as_inv space s" and dm: "dm = pt_direct_map (as_root space)" and sok: "segment_ok segment"
    and e: "checked_add (seg_address segment) (seg_memory_size segment) = Some e" "e \<le> USER_SPACE_END"
  obtains r1 s1 where "keeps space s s1" "r1 = Inr () \<Longrightarrow> segment_loaded space s1 segment"
    "load_segments space dm entry (Inr segment # rs) ex s =
      (case r1 of Inl e \<Rightarrow> Ret (Inl e, s1) | Inr _ \<Rightarrow> load_segments space dm entry rs (ex \<or> executes entry segment) s1)"
proof (cases "seg_memory_size segment = 0")
  case True
  then have "\<not> executes entry segment" "segment_loaded space s segment" by (simp_all add: executes_def segment_loaded_def)
  then show thesis using that [of s "Inr ()"] True e keeps_refl [OF inv] by simp
next
  case False
  have ue: "unat e = unat (seg_address segment) + unat (seg_memory_size segment)" by (rule checked_add_unat [OF e(1)])
  have "unat (seg_address segment) + unat (slice_len (seg_data segment)) < 2 ^ 64"
    using sok ue unat_u64_bound [of e] by (simp add: segment_ok_def)
  then obtain fe where fe: "checked_add (seg_address segment) (slice_len (seg_data segment)) = Some fe"
      "unat fe = unat (seg_address segment) + length (seg_data segment)"
    using sok checked_add_ret [of "seg_address segment" "slice_len (seg_data segment)"] by (auto simp: segment_ok_def)
  let ?pages = "page_range (seg_address segment AND NOT (FRAME_SIZE - 1)) e"
  let ?perms = "page_permissions (seg_writable segment) (seg_executable segment) True"
  obtain r1 s1 where 1: "load_pages space dm segment fe ?perms ?pages s = Ret (r1, s1)" "keeps space s s1"
      "r1 = Inr () \<Longrightarrow> \<forall>page \<in> set ?pages. page_loaded space segment ?perms s1 page"
    using load_pages_spec [OF inv dm _ fe(2), of ?pages ?perms] segment_pages [OF ue e(2)] by blast
  have "(seg_executable segment \<and> seg_address segment \<le> entry \<and> entry < e) = executes entry segment"
    using ue by (simp add: executes_def word_le_nat_alt word_less_nat_alt)
  then have "load_segments space dm entry (Inr segment # rs) ex s =
      (case r1 of Inl e \<Rightarrow> Ret (Inl e, s1) | Inr _ \<Rightarrow> load_segments space dm entry rs (ex \<or> executes entry segment) s1)"
    using False fe(1) 1(1) e by (simp add: Let_def)
  then show thesis using that [of s1 r1] 1(2,3) pages_segment_loaded [OF ue e(2)] by blast
qed

lemma load_segments_spec:
  assumes "as_inv space s" "dm = pt_direct_map (as_root space)" "\<And>segment. Inr segment \<in> set rs \<Longrightarrow> segment_ok segment"
  shows "\<exists>r s'. load_segments space dm entry rs ex s = Ret (r, s') \<and> keeps space s s'
    \<and> (\<forall>ex'. r = Inr ex' \<longrightarrow> (\<exists>segments. rs = map Inr segments
         \<and> (\<forall>segment \<in> set segments. in_user_half segment \<and> segment_loaded space s' segment)
         \<and> ex' = (ex \<or> (\<exists>segment \<in> set segments. executes entry segment))))"
  using assms
proof (induction rs arbitrary: ex s)
  case Nil
  then show ?case by (simp add: keeps_refl)
next
  case (Cons r rs)
  show ?case
  proof (cases "\<exists>segment e. r = Inr segment \<and> checked_add (seg_address segment) (seg_memory_size segment) = Some e \<and> e \<le> USER_SPACE_END")
    case False
    then have "load_segments space dm entry (r # rs) ex s = Ret (Inl LoadInvalidElf, s)" by (auto split: sum.splits option.splits)
    then show ?thesis using Cons.prems(1) by (simp add: keeps_refl)
  next
    case True
    then obtain segment e where r: "r = Inr segment" "checked_add (seg_address segment) (seg_memory_size segment) = Some e" "e \<le> USER_SPACE_END"
      by blast
    have half: "in_user_half segment" using r(3) checked_add_unat [OF r(2)] by (simp add: in_user_half_def word_le_nat_alt)
    let ?ex = "ex \<or> executes entry segment"
    have sok: "segment_ok segment" using Cons.prems(3) r(1) by simp
    obtain r1 s1 where 1: "keeps space s s1" "r1 = Inr () \<Longrightarrow> segment_loaded space s1 segment"
        "load_segments space dm entry (r # rs) ex s = (case r1 of Inl e \<Rightarrow> Ret (Inl e, s1) | Inr _ \<Rightarrow> load_segments space dm entry rs ?ex s1)"
      using load_segments_step [OF Cons.prems(1,2) sok r(2,3), of entry rs ex] unfolding r(1) by blast
    show ?thesis
    proof (cases r1)
      case (Inl e)
      then show ?thesis using 1 by auto
    next
      case (Inr u)
      obtain r2 s2 where 2: "load_segments space dm entry rs ?ex s1 = Ret (r2, s2)" "keeps space s1 s2"
          "\<And>ex'. r2 = Inr ex' \<Longrightarrow> \<exists>segments. rs = map Inr segments
            \<and> (\<forall>segment \<in> set segments. in_user_half segment \<and> segment_loaded space s2 segment)
            \<and> ex' = (?ex \<or> (\<exists>segment \<in> set segments. executes entry segment))"
        using Cons.IH [OF keeps_inv [OF 1(1)] Cons.prems(2), of ?ex] Cons.prems(3) by auto
      have "segment_loaded space s2 segment" using segment_loaded_keeps [OF _ 2(2)] 1(2) Inr by simp
      then have "\<exists>segments. r # rs = map Inr segments
            \<and> (\<forall>segment \<in> set segments. in_user_half segment \<and> segment_loaded space s2 segment)
            \<and> ex' = (ex \<or> (\<exists>segment \<in> set segments. executes entry segment))" if r2: "r2 = Inr ex'" for ex'
        using 2(3) [OF r2] r(1) half by (elim exE) (rename_tac ss, rule_tac x = "segment # ss" in exI, auto)
      then show ?thesis using 1(3) Inr 2(1) keeps_trans [OF 1(1) 2(2)] by auto
    qed
  qed
qed

subsection \<open>The loader\<close>

text \<open>
  (C8) Loading a program never panics, and nothing that was mapped or stored before is lost.
  When it succeeds, the file is a static image; every loadable segment lies in the user
  half, and each of its addresses is mapped for the user with exactly the segment's
  write and execute permissions, in a frame of its own that holds the file's byte or, past
  the file's data, zero; and the entry point, which is returned, lies in an executable one.
\<close>

theorem load_elf_correct:
  assumes "as_inv space s" "slice_ok bytes"
  shows "\<exists>r s'. load_elf bytes space (pt_direct_map (as_root space)) s = Ret (r, s') \<and> keeps space s s'
    \<and> (\<forall>entry. r = Inr entry \<longrightarrow> (\<exists>im segments. static_image im bytes \<and> entry = im_entry im
         \<and> map (phdr_segment bytes) (filter (\<lambda>p. ph_type p = 1) (im_phdrs im)) = map Inr segments
         \<and> (\<forall>segment \<in> set segments. in_user_half segment \<and> segment_loaded space s' segment)
         \<and> (\<exists>segment \<in> set segments. executes entry segment)))"
proof -
  obtain r where p: "elf_parse bytes = Ret r" using elf_parse_ret by blast
  show ?thesis
  proof (cases r)
    case (Inl e)
    then show ?thesis using p assms(1) by (simp add: load_elf_def keeps_refl)
  next
    case (Inr elf)
    then obtain im where im: "static_image im bytes" "elf = image_elf im bytes" using p elf_parse_accepted by blast
    let ?rs = "map (phdr_segment bytes) (filter (\<lambda>p. ph_type p = 1) (im_phdrs im))"
    have rs: "elf_segments elf = Ret ?rs" using elf_segments_image [OF assms(2)] im(2) by simp
    have "segment_ok segment" if "Inr segment \<in> set ?rs" for segment
      using that phdr_segment_ok [OF _ assms(2)] by fastforce
    then obtain r2 s2 where 2: "load_segments space (pt_direct_map (as_root space)) (elf_entry elf) ?rs False s = Ret (r2, s2)" "keeps space s s2"
        "\<And>ex'. r2 = Inr ex' \<Longrightarrow> \<exists>segments. ?rs = map Inr segments
          \<and> (\<forall>segment \<in> set segments. in_user_half segment \<and> segment_loaded space s2 segment)
          \<and> ex' = (False \<or> (\<exists>segment \<in> set segments. executes (elf_entry elf) segment))"
      using load_segments_spec [OF assms(1) refl, of ?rs "elf_entry elf" False] by auto
    have entry: "elf_entry elf = im_entry im" using im(2) by (simp add: image_elf_def)
    have eq: "load_elf bytes space (pt_direct_map (as_root space)) s =
        (case r2 of Inl e \<Rightarrow> Ret (Inl e, s2) | Inr ex \<Rightarrow> if \<not> ex then Ret (Inl LoadInvalidElf, s2) else Ret (Inr (im_entry im), s2))"
      using p Inr rs 2(1) by (simp add: load_elf_def entry split: sum.splits)
    show ?thesis
    proof (cases r2)
      case (Inl e)
      then show ?thesis using eq 2(2) by (intro exI [of _ "Inl e"] exI [of _ s2]) simp
    next
      case (Inr ex)
      then show ?thesis
        using eq 2(2) 2(3) [OF Inr] im(1) entry
        by (intro exI [of _ "if ex then Inr (im_entry im) else Inl LoadInvalidElf"] exI [of _ s2]) auto
    qed
  qed
qed

text \<open>A small image is loaded by a machine with six free frames.\<close>

lemma sample_load_page:
  assumes fe: "unat fe = unat (seg_address segment) + length (seg_data segment)" and seg: "seg_address segment < 0x401000"
  obtains s' where "load_page sample_space (pt_direct_map sample_pt) segment fe (page_permissions False True True) 0x400000 (sample_fa8, zero_mem) = Ret (Inr (), s')"
proof -
  let ?v = "0x400000 :: usize" and ?F = "{0x2000, 0x3000, 0x4000, 0x5000, 0x6000, 0x7000 :: usize}"
  have pi: "pt_inv sample_pt sample_fa8 zero_mem" by (rule sample_pt_inv(1))
  then have "fa_inv sample_fa8" using pt_invD(1) by (auto simp: pt_ok_def)
  moreover have "fa_state sample_fa8 0x2000 = Some Free" by (simp add: sample_fa8_state)
  ultimately obtain f fa where f: "alloc_nozero sample_fa8 = Ret (Some f, fa)" "fa_state fa = (fa_state sample_fa8)(f \<mapsto> Allocated)" "fa_state sample_fa8 f = Some Free"
    using alloc_nozero_spec [of sample_fa8] by (fastforce split: option.splits)
  note a = as_inv_alloc_nozero [OF sample_space_inv f(1)]
  have fd: "dm_frame (as_root sample_space) f" using owned_dm_frame [OF a(1)] a(3) by simp
  have dm: "as_root sample_space = sample_pt" by (simp add: sample_space_def)
  then have tr: "translate (pt_direct_map sample_pt) f = Some (f + dm_offset (pt_direct_map sample_pt))"
    using fd by (simp add: translate_Some_iff dm_frame_def)
  have page: "unat ?v + 4096 < 2 ^ 64" "unat (seg_address segment) < unat ?v + 4096" using seg by (simp_all add: word_less_nat_alt)
  have al: "alloc_nozero (fst (sample_fa8, zero_mem)) = Ret (Some f, fa)" using f(1) by simp
  obtain m1 where m1: "load_page sample_space (pt_direct_map sample_pt) segment fe (page_permissions False True True) ?v (sample_fa8, zero_mem) = do {
        (r, fa, m) \<leftarrow> address_space_map sample_space f ?v (page_permissions False True True) WriteBack (fa, m1);
        (case r of
           Inl _ \<Rightarrow> do { fa \<leftarrow> dealloc fa f; Ret (Inl FailedToMapSegment, fa, m) }
         | Inr _ \<Rightarrow> Ret (Inr (), fa, m)) }"
      "\<And>x. 4096 \<le> unat (x - (f + dm_offset (pt_direct_map sample_pt))) \<Longrightarrow> m1 x = snd (sample_fa8, zero_mem) x"
    using load_page_eq [OF al tr page fe, where space = sample_space and perms = "page_permissions False True True"] by blast
  have w: "as_inv sample_space (fa, m1)" "as_look sample_space (fa, m1) = as_look sample_space (sample_fa8, zero_mem)"
    using as_inv_write [OF a(1), of f m1] a(2,3) m1(2) dm by simp_all
  have c: "is_canonical sample_pt ?v" "pt_config sample_pt = sample_config" by code_simp (simp add: sample_pt_def)
  have pe: "page_entry sample_pt m1 ?v = None"
    using fun_cong [OF w(2), of ?v] sample_pt_inv(2) c(1)
    by (simp add: as_look_def page_view_def as_covers_def sample_space_def PAGE_SIZE_def USER_SPACE_END_def)
  have fF: "f \<in> ?F" using f(3) by (simp only: sample_fa8_state)
  have free: "{g. fa_state fa g = Some Free} = ?F - {f}" using f(2) by (auto simp: sample_fa8_state)
  have small: "g < 0x10000000000 \<and> frame_aligned g" if "g \<in> ?F" for g using that by (auto simp: frame_aligned_def FRAME_SIZE_def)
  have d: "pt_depth sample_pt = 3" by code_simp
  have "card ?F = 6" by simp
  then have "pt_depth sample_pt \<le> card {g. fa_state fa g = Some Free}"
    unfolding d free using card_Diff_singleton [OF fF] by simp
  moreover have "\<forall>g. fa_state fa g = Some Free \<longrightarrow> g < physical_address_limit (pt_config sample_pt)"
    using free small c(2) sample_limit by auto
  moreover have "pt_inv sample_pt fa m1" using w(1) by (simp add: as_inv_def sample_space_def)
  ultimately obtain s' where "page_table_map sample_pt ?v f (page_permissions False True True) WriteBack True (fa, m1) = Ret (Inr (), s')"
    using page_table_map_ok [of sample_pt fa m1 f ?v] pe c small [OF fF] sample_limit
    by (force simp: PAGE_SIZE_def sample_config_def)
  then show thesis
    using m1(1) that small [OF fF]
    by (cases s') (auto simp: address_space_map_def sample_space_def from_start_address_def frame_aligned_def)
qed

theorem load_elf_correct_witness:
  "\<exists>s'. load_elf sample_elf sample_space (pt_direct_map sample_pt) (sample_fa8, zero_mem) = Ret (Inr 0x400078, s')
     \<and> keeps sample_space (sample_fa8, zero_mem) s'"
proof -
  let ?seg = "\<lparr>seg_data = [0xEB, 0xFE], seg_address = 0x400078, seg_memory_size = 4, seg_writable = False, seg_executable = True\<rparr>"
  have root: "as_root sample_space = sample_pt" by (simp add: sample_space_def)
  have ex: "elf_parse sample_elf = Ret (Inr (image_elf sample_image sample_elf))"
      "elf_segments (image_elf sample_image sample_elf) = Ret [Inr ?seg]"
    using elf_parse_image [OF sample_static(1,2)] sample_segments by simp_all
  have en: "elf_entry (image_elf sample_image sample_elf) = 0x400078" by (simp add: image_elf_def sample_image_def)
  have pr: "page_range (0x400078 AND NOT (FRAME_SIZE - 1)) 0x40007C = [0x400000]"
    by (simp add: page_range_def FRAME_SIZE_def)
  obtain s' where s': "load_page sample_space (pt_direct_map sample_pt) ?seg 0x40007A (page_permissions False True True) 0x400000 (sample_fa8, zero_mem) = Ret (Inr (), s')"
    by (rule sample_load_page [where segment = ?seg and fe = "0x40007A"]) simp_all
  have "load_elf sample_elf sample_space (pt_direct_map sample_pt) (sample_fa8, zero_mem) = Ret (Inr 0x400078, s')"
    using s' pr en by (simp add: load_elf_def ex checked_add_def USER_SPACE_END_def Let_def slice_len_def)
  then show ?thesis
    using load_elf_correct [OF sample_space_inv sample_static(2)] root by auto
qed

end
