(* ===== verification/Omega_Main.thy ===== *)
theory Omega_Main
  imports Omega_Elf Omega_Cpio Bootstrap_Correctness
begin

section \<open>The main program of the root server\<close>











subsection \<open>The contents of a page\<close>

text \<open>The list of the positions in a page stays folded.\<close>

declare upt_rec_numeral [simp del]







subsection \<open>What the actions do\<close>

text \<open>
  The effect of the calls as the kernel's theories describe it, from the side of the caller: the
  contents of its frames, the frame in its window, and for each space it made the pages mapped, in
  order, with their permissions and frames, and the tasks it started. The kernel's checks are
  guards: a write needs the window, pages are aligned and in the user half, a frame can be
  mapped at one place at a time, and a page only once.
\<close>

record World =
  w_frames :: "u8 list list"
  w_window :: "nat option"
  w_spaces :: "(usize \<times> usize \<times> nat) list list"
  w_tasks :: "(nat \<times> usize \<times> usize) list"

definition mapped_frames :: "World \<Rightarrow> nat set" where
  "mapped_frames w = (snd \<circ> snd) ` set (concat (w_spaces w))"
















subsection \<open>The segments\<close>








subsection \<open>Starting a program\<close>






lemma mapped_frames_update [simp]:
  "mapped_frames (w\<lparr>w_frames := x\<rparr>) = mapped_frames w" "mapped_frames (w\<lparr>w_window := y\<rparr>) = mapped_frames w"
  by (simp_all add: mapped_frames_def)
























end
