(* ===== verification/Paging_Destroy.thy ===== *)
theory Paging_Destroy
  imports Paging_Correctness
begin

section \<open>Destroying page tables\<close>

text \<open>
  \<open>destroy_children\<close> and its loop free the tables below a table, depth first. Under the
  invariant the tables below different entries are disjoint, so the loop over the entries
  frees exactly the tables reached through them (\<open>below_entries\<close>), each once, and writes only
  to the tables it visits.
\<close>

definition below_entries :: "PageTable \<Rightarrow> mem \<Rightarrow> FrameAddr \<Rightarrow> nat \<Rightarrow> nat set \<Rightarrow> FrameAddr set" where
  "below_entries pt m tbl below I = {f. \<exists>i\<in>I. \<exists>p. length p \<le> below \<and> walk (links pt m) tbl (i # p) = Some f}"

lemma below_entries_iff:
  "f \<in> below_entries pt m tbl below I \<longleftrightarrow> (\<exists>i\<in>I. \<exists>g. links pt m tbl i = Some g \<and> f \<in> reach (links pt m) g below)"
proof -
  have "(\<exists>p. length p \<le> below \<and> walk (links pt m) tbl (i # p) = Some f)
      \<longleftrightarrow> (\<exists>g. links pt m tbl i = Some g \<and> f \<in> reach (links pt m) g below)" for i
    by (cases "links pt m tbl i") (auto simp: reach_def)
  then show ?thesis by (simp add: below_entries_def)
qed

lemma below_entries_insert:
  "below_entries pt m tbl below (insert i I) =
     (case links pt m tbl i of None \<Rightarrow> {} | Some g \<Rightarrow> reach (links pt m) g below) \<union> below_entries pt m tbl below I"
  by (auto simp: below_entries_iff split: option.splits)

lemma reach_Suc: "reach (links pt m) tbl (Suc below) = insert tbl (below_entries pt m tbl below {..<512})"
proof -
  have "f \<in> reach (links pt m) tbl (Suc below) \<longleftrightarrow> f = tbl \<or> f \<in> below_entries pt m tbl below {..<512}" for f
  proof
    assume "f \<in> reach (links pt m) tbl (Suc below)"
    then obtain p where p: "length p \<le> Suc below" "walk (links pt m) tbl p = Some f" by (auto simp: reach_def)
    then show "f = tbl \<or> f \<in> below_entries pt m tbl below {..<512}"
    proof (cases p)
      case (Cons i q)
      then have "i < 512" using p(2) by (auto simp: links_def split: if_splits)
      then show ?thesis using p Cons by (auto simp: below_entries_def intro!: bexI [of _ i] exI [of _ q])
    qed (use p in simp)
  next
    assume "f = tbl \<or> f \<in> below_entries pt m tbl below {..<512}"
    then show "f \<in> reach (links pt m) tbl (Suc below)"
      by (auto simp: below_entries_def intro: reachI [of _ _ "_ # _"])
  qed
  then show ?thesis by blast
qed

lemma subtree_inj:
  assumes "tree_inj lk tbl (Suc n)" "lk tbl i = Some g"
  shows "tree_inj lk g n"
  unfolding tree_inj_def
proof (intro allI impI)
  fix p q f assume "length p \<le> n" "length q \<le> n" "walk lk g p = Some f" "walk lk g q = Some f"
  then show "p = q" using tree_injD [OF assms(1), of "i # p" "i # q" f] assms(2) by simp
qed

lemma root_not_below:
  assumes "tree_inj lk tbl (Suc n)" "lk tbl i = Some g"
  shows "tbl \<notin> reach lk g n"
proof
  assume "tbl \<in> reach lk g n"
  then obtain p where "length p \<le> n" "walk lk g p = Some tbl" by (auto simp: reach_def)
  then show False using tree_injD [OF assms(1), of "[]" "i # p" tbl] assms(2) by simp
qed

lemma subtrees_apart:
  assumes "tree_inj lk tbl (Suc n)" "lk tbl i = Some g" "lk tbl j = Some h" "i \<noteq> j"
  shows "reach lk g n \<inter> reach lk h n = {}"
proof (rule ccontr)
  assume "reach lk g n \<inter> reach lk h n \<noteq> {}"
  then obtain f p q where "length p \<le> n" "length q \<le> n" "walk lk g p = Some f" "walk lk h q = Some f" by (auto simp: reach_def)
  then show False using tree_injD [OF assms(1), of "i # p" "j # q" f] assms(2-4) by simp
qed

text \<open>After the tables below one entry are freed and the entry is cleared, the rest of the tree is as it was.\<close>

lemma entry_destroyed:
  assumes inj: "tree_inj (links pt m) tbl (Suc n)" and g: "links pt m tbl i = Some g" and i: "i < 512"
    and dm': "\<forall>f\<in>reach (links pt m) tbl (Suc n). dm_frame pt f"
    and se: "same_except pt (reach (links pt m) g n) m m1" and cfg: "config_ok (pt_config pt)"
  defines "m2 \<equiv> set_ent pt m1 tbl i 0"
  shows "walk (links pt m2) tbl [] = Some tbl"
    "length q \<le> n \<Longrightarrow> walk (links pt m2) tbl (j # q) = (if j = i then None else walk (links pt m) tbl (j # q))"
    "same_except pt (insert tbl (reach (links pt m) g n)) m m2"
proof -
  let ?R = "reach (links pt m) g n"
  have dm: "dm_frame pt f" if "f \<in> reach (links pt m) tbl (Suc n)" for f using dm' that by blast
  have R: "f \<in> reach (links pt m) tbl (Suc n)" if "f \<in> ?R" for f
  proof -
    obtain p where "length p \<le> n" "walk (links pt m) g p = Some f" using \<open>f \<in> ?R\<close> by (auto simp: reach_def)
    then show ?thesis using g by (intro reachI [of _ _ "i # p"]) auto
  qed
  have t: "tbl \<notin> ?R" "dm_frame pt tbl" using root_not_below [OF inj g] dm by auto
  show se2: "same_except pt (insert tbl ?R) m m2"
    unfolding m2_def by (rule same_except_trans [OF se set_ent_same_except [OF t(2) i]]) auto
  have at_tbl: "links pt m2 tbl k = (if k = i then None else links pt m tbl k)" for k
  proof (cases "k < 512")
    case True
    have "ent pt m1 tbl k = ent pt m tbl k" using same_except_ent [OF se t(2,1) dm [OF R] True] by simp
    then show ?thesis using True by (simp add: links_eq [OF cfg] m2_def ent_set_ent [OF t(2,2) i True])
  qed (simp add: links_def)
  have at_other: "links pt m2 f k = links pt m f k" if "f \<notin> insert tbl ?R" "dm_frame pt f" for f k
  proof (cases "k < 512")
    case True
    have "dm_frame pt x" if "x \<in> insert tbl ?R" for x using that dm R t(2) by blast
    then have "ent pt m2 f k = ent pt m f k" using same_except_ent [OF se2 that(2,1) _ True] by blast
    then show ?thesis by (simp add: links_def)
  qed (simp add: links_def)
  show "walk (links pt m2) tbl (j # q) = (if j = i then None else walk (links pt m) tbl (j # q))" if q: "length q \<le> n"
  proof (cases "j = i \<or> links pt m tbl j = None")
    case False
    then obtain h where h: "links pt m tbl j = Some h" "j \<noteq> i" by auto
    have "walk (links pt m2) h q = walk (links pt m) h q"
    proof (rule walk_cong)
      fix k f assume k: "k < length q" "walk (links pt m) h (take k q) = Some f"
      then have f: "f \<in> reach (links pt m) h n" using q by (intro reachI [of "links pt m" h "take k q"]) auto
      then have "f \<notin> ?R" "f \<noteq> tbl" using subtrees_apart [OF inj g h(1)] h(2) root_not_below [OF inj h(1)] by auto
      moreover have "f \<in> reach (links pt m) tbl (Suc n)"
        using k q h(1) by (intro reachI [of _ _ "j # take k q"]) auto
      ultimately show "links pt m2 f (q ! k) = links pt m f (q ! k)" using at_other dm by blast
    qed
    then show ?thesis using h at_tbl by simp
  qed (auto simp: at_tbl)
qed simp


subsection \<open>What the two functions free\<close>

definition freed :: "FrameAllocator \<Rightarrow> FrameAddr set \<Rightarrow> FrameAllocator \<Rightarrow> bool" where
  "freed fa S fa' \<longleftrightarrow> fa_inv fa' \<and> fa_direct_map fa' = fa_direct_map fa
     \<and> fa_state fa' = (\<lambda>f. if f \<in> S then Some Free else fa_state fa f)"

lemma freed_empty [simp]: "freed fa {} fa \<longleftrightarrow> fa_inv fa"
  by (simp add: freed_def)

lemma freed_trans: "freed fa S fa1 \<Longrightarrow> freed fa1 T fa2 \<Longrightarrow> freed fa (S \<union> T) fa2"
  by (auto simp: freed_def fun_eq_iff)

lemma freed_dealloc:
  assumes "freed fa S fa1" "fa_state fa f = Some Allocated" "f \<notin> S"
  obtains fa2 where "dealloc fa1 f = Ret fa2" "freed fa (insert f S) fa2"
proof -
  have "fa_state fa1 f = Some Allocated" "fa_inv fa1" using assms by (simp_all add: freed_def)
  then obtain fa2 where "dealloc fa1 f = Ret fa2" "fa_inv fa2" "fa_direct_map fa2 = fa_direct_map fa1" "fa_state fa2 = (fa_state fa1)(f \<mapsto> Free)"
    using dealloc_spec [of fa1 f] by auto
  then show thesis using assms(1) that by (auto simp: freed_def fun_eq_iff)
qed

text \<open>The tables below a table: a tree of allocated frames.\<close>

definition subtree_ok :: "PageTable \<Rightarrow> FrameAllocator \<Rightarrow> mem \<Rightarrow> FrameAddr \<Rightarrow> nat \<Rightarrow> bool" where
  "subtree_ok pt fa m tbl n \<longleftrightarrow> pt_ok pt fa \<and> tree_inj (links pt m) tbl n
     \<and> (\<forall>f\<in>reach (links pt m) tbl n. fa_state fa f = Some Allocated)"

lemma subtree_okD:
  assumes "subtree_ok pt fa m tbl n"
  shows "pt_ok pt fa" "config_ok (pt_config pt)" "fa_inv fa" "tree_inj (links pt m) tbl n"
    "\<And>f. f \<in> reach (links pt m) tbl n \<Longrightarrow> fa_state fa f = Some Allocated" "\<And>f. f \<in> reach (links pt m) tbl n \<Longrightarrow> dm_frame pt f"
  using assms fa_state_dm_frame by (auto simp: subtree_ok_def pt_ok_def)

lemma subtree_ok_child:
  assumes "subtree_ok pt fa m tbl (Suc n)" "links pt m tbl i = Some g"
  shows "subtree_ok pt fa m g n" "reach (links pt m) g n \<subseteq> reach (links pt m) tbl (Suc n)"
proof -
  show sub: "reach (links pt m) g n \<subseteq> reach (links pt m) tbl (Suc n)"
  proof
    fix f assume "f \<in> reach (links pt m) g n"
    then obtain p where "length p \<le> n" "walk (links pt m) g p = Some f" by (auto simp: reach_def)
    then show "f \<in> reach (links pt m) tbl (Suc n)" using assms(2) by (intro reachI [of _ _ "i # p"]) auto
  qed
  then show "subtree_ok pt fa m g n"
    using assms(1) subtree_inj [of "links pt m" tbl n i g] assms(2) by (auto simp: subtree_ok_def)
qed

text \<open>The state after one entry, and what it means for the entries that follow.\<close>

lemma subtree_ok_destroyed:
  assumes ok: "subtree_ok pt fa m tbl (Suc n)" and g: "links pt m tbl i = Some g" and i: "i < 512"
    and fr: "freed fa (reach (links pt m) g n) fa2" and se: "same_except pt (reach (links pt m) g n) m m1"
  defines "m2 \<equiv> set_ent pt m1 tbl i 0"
  shows "subtree_ok pt fa2 m2 tbl (Suc n)" "i \<notin> I \<Longrightarrow> below_entries pt m2 tbl n I = below_entries pt m tbl n I"
    "same_except pt (insert tbl (reach (links pt m) g n)) m m2"
proof -
  note inj = subtree_okD(4) [OF ok]
  have dm: "\<forall>f\<in>reach (links pt m) tbl (Suc n). dm_frame pt f" using subtree_okD(6) [OF ok] by blast
  note d = entry_destroyed [OF inj g i dm se subtree_okD(2) [OF ok], folded m2_def]
  show "same_except pt (insert tbl (reach (links pt m) g n)) m m2" by (rule d(3))
  show "below_entries pt m2 tbl n I = below_entries pt m tbl n I" if "i \<notin> I"
  proof -
    have "walk (links pt m2) tbl (j # p) = walk (links pt m) tbl (j # p)" if "j \<in> I" "length p \<le> n" for j p
      using d(2) [OF that(2), of j] that(1) \<open>i \<notin> I\<close> by auto
    then show ?thesis unfolding below_entries_def
      by (intro Collect_cong bex_cong ex_cong1 conj_cong refl) (simp del: walk.simps)
  qed
  have w: "walk (links pt m2) tbl q = None \<or> walk (links pt m2) tbl q = walk (links pt m) tbl q" if "length q \<le> Suc n" for q
    using that d(2) by (cases q) (auto simp del: walk.simps(2))
  note pi = prune_inj [OF inj w]
  have "f \<notin> reach (links pt m) g n" if "f \<in> reach (links pt m2) tbl (Suc n)" for f
  proof
    assume "f \<in> reach (links pt m) g n"
    then obtain p where p: "length p \<le> n" "walk (links pt m) tbl (i # p) = Some f" using g by (auto simp: reach_def)
    obtain q where q: "length q \<le> Suc n" "walk (links pt m2) tbl q = Some f" using \<open>f \<in> reach (links pt m2) tbl (Suc n)\<close> by (auto simp: reach_def)
    then have "walk (links pt m) tbl q = Some f" using w [OF q(1)] by auto
    then have "q = i # p" using tree_injD [OF inj q(1), of "i # p" f] p by simp
    then show False using q(2) d(2) [OF p(1), of i] by simp
  qed
  then show "subtree_ok pt fa2 m2 tbl (Suc n)"
    using pi subtree_okD(1,5) [OF ok] fr unfolding subtree_ok_def by (auto simp: freed_def pt_ok_def)
qed

lemma destroy_spec:
  "subtree_ok pt (fst s) (snd s) tbl n \<Longrightarrow>
   \<exists>fa' m'. destroy_children pt tbl n s = Ret (fa', m') \<and> freed (fst s) (reach (links pt (snd s)) tbl n - {tbl}) fa'
     \<and> same_except pt (reach (links pt (snd s)) tbl n) (snd s) m'"
  "subtree_ok pt (fst s) (snd s) tbl (Suc below) \<Longrightarrow> distinct is \<Longrightarrow> \<forall>i\<in>set is. i < 512 \<Longrightarrow>
   \<exists>fa' m'. destroy_entries pt tbl below is s = Ret (fa', m') \<and> freed (fst s) (below_entries pt (snd s) tbl below (set is)) fa'
     \<and> same_except pt (insert tbl (below_entries pt (snd s) tbl below (set is))) (snd s) m'"
proof (induction pt tbl n s and pt tbl below "is" s rule: destroy_children_destroy_entries.induct)
  case (1 pt tbl s)
  then show ?case using subtree_okD(3) by (cases s) (auto simp: reach_def)
next
  case (2 pt tbl below s)
  have "tbl \<notin> below_entries pt (snd s) tbl below {..<512}"
    using root_not_below [OF subtree_okD(4) [OF "2.prems"]] by (auto simp: below_entries_iff)
  moreover have "set [0..<512] = {..<512 :: nat}" by auto
  ultimately show ?case using "2.IH" [OF "2.prems"] by (simp add: reach_Suc)
next
  case (3 pt tbl below s)
  then show ?case using subtree_okD(3) by (cases s) (auto simp: below_entries_def)
next
  case (4 pt tbl below idx idxs fa m)
  note ok = "4.prems"(1) [unfolded fst_conv snd_conv]
  have idx: "idx < 512" "idx \<notin> set idxs" using "4.prems" by auto
  have dm: "dm_frame pt tbl" using subtree_okD(6) [OF ok] by simp
  have tb: "table pt tbl = Ret (tbl + dm_offset (pt_direct_map pt))" by (rule dm_frame_table [OF dm])
  let ?e = "ent pt m tbl idx"
  have lk: "links pt m tbl idx = (if \<not> is_present ?e \<or> is_huge ?e then None else table_frame ?e (pt_config pt))"
    using idx(1) by (simp add: links_def table_frame_def)
  show ?case
  proof (cases "\<not> is_present ?e \<or> is_huge ?e")
    case True
    then show ?thesis
      using "4.IH"(1) [OF tb refl] "4.prems" tb lk by (simp add: ent_def below_entries_insert)
  next
    case False
    then have "bit ?e 0" "\<not> bit ?e 7" by auto
    then obtain g where g: "links pt m tbl idx = Some g" "table_frame ?e (pt_config pt) = Ret g"
      using lk table_frame_eq [OF subtree_okD(2) [OF ok], of ?e] by simp
    let ?R = "reach (links pt m) g below"
    note gok = subtree_ok_child [OF ok g(1)]
    obtain fa1 m1 where c: "destroy_children pt g below (fa, m) = Ret (fa1, m1)" "freed fa (?R - {g}) fa1" "same_except pt ?R m m1"
      using "4.IH"(2) [OF tb refl, of g] False g(2) gok(1) by (auto simp: ent_def)
    have "fa_state fa g = Some Allocated" using subtree_okD(5) [OF gok(1)] by simp
    then obtain fa2 where fa2: "dealloc fa1 g = Ret fa2" "freed fa (insert g (?R - {g})) fa2" using freed_dealloc [OF c(2)] by blast
    have R: "insert g (?R - {g}) = ?R" by auto
    note d = subtree_ok_destroyed [OF ok g(1) idx(1) fa2(2) [unfolded R] c(3)]
    let ?m2 = "set_ent pt m1 tbl idx 0"
    obtain fa' m' where r: "destroy_entries pt tbl below idxs (fa2, ?m2) = Ret (fa', m')"
        "freed fa2 (below_entries pt m tbl below (set idxs)) fa'" "same_except pt (insert tbl (below_entries pt m tbl below (set idxs))) ?m2 m'"
      using "4.IH"(3) [OF tb refl, of g "(fa1, m1)" fa1 m1 "tbl + dm_offset (pt_direct_map pt)" fa2] False g(2) c(1) tb fa2(1) d(1) d(2) [OF idx(2)] "4.prems"
      by (auto simp: ent_def set_ent_def)
    have "destroy_entries pt tbl below (idx # idxs) (fa, m) = Ret (fa', m')"
      using tb False g(2) c(1) fa2(1) r(1) by (simp add: ent_def set_ent_def)
    moreover have "freed fa (below_entries pt m tbl below (set (idx # idxs))) fa'"
      using freed_trans [OF fa2(2) [unfolded R] r(2)] g(1) by (simp add: below_entries_insert)
    moreover have "same_except pt (insert tbl (below_entries pt m tbl below (set (idx # idxs)))) m m'"
      using g(1) by (intro same_except_trans [OF d(3) r(3)]) (auto simp: below_entries_insert)
    ultimately show ?thesis by auto
  qed
qed

lemma page_table_destroy_spec:
  assumes inv: "pt_inv pt fa m" and idle: "is_active pt cr3 = Ret False"
  shows "\<exists>fa' m'. page_table_destroy pt cr3 (fa, m) = Ret (fa', m') \<and> freed fa (pt_tables pt m) fa'
     \<and> same_except pt (pt_tables pt m) m m'"
proof -
  have ok: "subtree_ok pt fa m (pt_frame pt) (pt_depth pt)" using pt_invD [OF inv] by (simp add: subtree_ok_def)
  obtain fa1 m1 where d: "destroy_children pt (pt_frame pt) (pt_depth pt) (fa, m) = Ret (fa1, m1)"
      "freed fa (pt_tables pt m - {pt_frame pt}) fa1" "same_except pt (pt_tables pt m) m m1"
    using destroy_spec(1) [of pt "(fa, m)" "pt_frame pt" "pt_depth pt"] ok by auto
  have "fa_state fa (pt_frame pt) = Some Allocated" using pt_invD(4) [OF inv] by simp
  then obtain fa2 where "dealloc fa1 (pt_frame pt) = Ret fa2" "freed fa (insert (pt_frame pt) (pt_tables pt m - {pt_frame pt})) fa2"
    using freed_dealloc [OF d(2)] by blast
  moreover have "insert (pt_frame pt) (pt_tables pt m - {pt_frame pt}) = pt_tables pt m" by auto
  ultimately show ?thesis using d(1,3) idle by (auto simp: page_table_destroy_def)
qed

text \<open>The tables of the lower half and the root: what a user space does not share with the kernel.\<close>

definition user_tables :: "PageTable \<Rightarrow> mem \<Rightarrow> FrameAddr set" where
  "user_tables pt m = insert (pt_frame pt) (below_entries pt m (pt_frame pt) (pt_depth pt - 1) {..<256})"

lemma pt_tables_Suc: "pt_tables pt m = insert (pt_frame pt) (below_entries pt m (pt_frame pt) (pt_depth pt - 1) {..<512})"
  using reach_Suc [of pt m "pt_frame pt" "pt_depth pt - 1"] pt_levels_nonempty(1) [of pt] by simp

lemma user_tables_subset: "user_tables pt m \<subseteq> pt_tables pt m"
  unfolding pt_tables_Suc user_tables_def by (fastforce simp: below_entries_def simp del: walk.simps)

lemma page_table_destroy_user_spec:
  assumes inv: "pt_inv pt fa m" and idle: "is_active pt cr3 = Ret False"
  shows "\<exists>fa' m'. page_table_destroy_user pt cr3 (fa, m) = Ret (fa', m') \<and> freed fa (user_tables pt m) fa'
     \<and> same_except pt (user_tables pt m) m m'"
proof -
  let ?B = "below_entries pt m (pt_frame pt) (pt_depth pt - 1) {..<256}"
  have n: "Suc (pt_depth pt - 1) = pt_depth pt" using pt_levels_nonempty(1) [of pt] by simp
  have ok: "subtree_ok pt fa m (pt_frame pt) (Suc (pt_depth pt - 1))" using pt_invD [OF inv] unfolding n by (simp add: subtree_ok_def)
  have u: "set [0..<256] = {..<256 :: nat}" by auto
  obtain fa1 m1 where d: "destroy_entries pt (pt_frame pt) (pt_depth pt - 1) [0..<256] (fa, m) = Ret (fa1, m1)"
      "freed fa ?B fa1" "same_except pt (insert (pt_frame pt) ?B) m m1"
    using destroy_spec(2) [of pt "(fa, m)" "pt_frame pt" "pt_depth pt - 1" "[0..<256]"] ok unfolding u by auto
  have "fa_state fa (pt_frame pt) = Some Allocated" using pt_invD(4) [OF inv] by simp
  moreover have "pt_frame pt \<notin> ?B" using root_not_below [OF subtree_okD(4) [OF ok]] by (auto simp: below_entries_iff)
  ultimately obtain fa2 where "dealloc fa1 (pt_frame pt) = Ret fa2" "freed fa (insert (pt_frame pt) ?B) fa2"
    using freed_dealloc [OF d(2)] by blast
  then show ?thesis using d(1,3) idle by (auto simp: page_table_destroy_user_def user_tables_def)
qed

lemma freed_other_table:
  assumes "freed fa S fa'" "same_except pt S m m'" "pt_inv other fa m" "pt_direct_map pt = pt_direct_map other"
    "S \<inter> pt_tables other m = {}" "\<And>f. f \<in> S \<Longrightarrow> fa_state fa f = Some Allocated"
  shows "pt_inv other fa' m'" "pt_tables other m' = pt_tables other m" "page_entry other m' b = page_entry other m b"
proof -
  have ok: "pt_ok other fa'" using pt_invD(1) [OF assms(3)] assms(1) by (simp add: pt_ok_def freed_def)
  have st: "fa_state fa' f = Some Allocated" if "f \<in> pt_tables other m" for f
    using that assms(1,5) pt_invD(4) [OF assms(3) that] by (auto simp: freed_def)
  have se: "same_except other S m m'" using assms(2,4) by (simp add: same_except_def in_frame_def)
  have same: "ent other m' f j = ent other m f j" if "f \<in> pt_tables other m" "j < 512" for f j
    using same_except_ent [OF se pt_invD(5) [OF assms(3) that(1)] _ _ that(2)] assms(5,6) that(1)
      fa_state_dm_frame [OF pt_invD(1) [OF assms(3)]] by blast
  show "pt_inv other fa' m'" "pt_tables other m' = pt_tables other m" "page_entry other m' b = page_entry other m b"
    by (rule pt_inv_frame [OF assms(3) ok]; (erule st | erule (1) same))+
qed

end
