(* ===== verification/Kernel_Space.thy ===== *)
theory Kernel_Space
  imports Address_Space_Correctness Paging_Destroy
begin

section \<open>Building the kernel's address space and destroying spaces\<close>

text \<open>
  \<open>AddressSpace::destroy\<close> gives back the tables of a space, and \<open>AddressSpace::new_kernel\<close>
  builds the space the kernel runs in: the direct map of physical memory and the three
  segments of the kernel image. Every path of \<open>new_kernel\<close> is covered, the errors included.
\<close>

subsection \<open>Destroying a space\<close>

definition space_tables :: "AddressSpace \<Rightarrow> alloc_mem \<Rightarrow> FrameAddr set" where
  "space_tables space s =
     (case as_kind space of KernelSpace \<Rightarrow> pt_tables (as_root space) (snd s) | UserSpace \<Rightarrow> user_tables (as_root space) (snd s))"

lemma address_space_destroy_spec:
  assumes inv: "as_inv space s" and idle: "is_active (as_root space) cr3 = Ret False"
  shows "\<exists>s'. address_space_destroy space cr3 s = Ret s' \<and> freed (fst s) (space_tables space s) (fst s')
     \<and> same_except (as_root space) (space_tables space s) (snd s) (snd s')"
proof -
  obtain fa m where s: "s = (fa, m)" by (cases s)
  have "pt_inv (as_root space) fa m" using inv s by (simp add: as_inv_def)
  from page_table_destroy_spec [OF this idle] page_table_destroy_user_spec [OF this idle] show ?thesis
    unfolding address_space_destroy_def space_tables_def s by (cases "as_kind space") auto
qed

lemma space_tables_allocated:
  "as_inv space s \<Longrightarrow> f \<in> space_tables space s \<Longrightarrow> fa_state (fst s) f = Some Allocated"
  using user_tables_subset [of "as_root space" "snd s"] pt_invD(4)
  by (auto simp: space_tables_def as_inv_def split: AddressSpaceKind.splits)

text \<open>
  (C11) Destroying an address space never panics unless it is the one the processor runs on. It
  frees exactly the tables of the space - for a user space its root and the tables of its
  lower half, never the kernel's tables it shares - and the state of every other frame is
  unchanged. Every other space whose tables are apart from the freed ones keeps its
  invariant and maps exactly what it mapped.
\<close>

theorem address_space_destroy_correct:
  assumes "as_inv space s" "is_active (as_root space) cr3 = Ret False"
  shows "\<exists>s'. address_space_destroy space cr3 s = Ret s' \<and> fa_inv (fst s')
     \<and> fa_state (fst s') = (\<lambda>f. if f \<in> space_tables space s then Some Free else fa_state (fst s) f)
     \<and> (\<forall>other. as_inv other s \<and> space_tables space s \<inter> pt_tables (as_root other) (snd s) = {} \<longrightarrow>
          as_inv other s' \<and> as_look other s' = as_look other s)"
proof -
  obtain s' where s': "address_space_destroy space cr3 s = Ret s'" "freed (fst s) (space_tables space s) (fst s')"
      "same_except (as_root space) (space_tables space s) (snd s) (snd s')"
    using address_space_destroy_spec [OF assms] by blast
  have "as_inv other s' \<and> as_look other s' = as_look other s"
    if o: "as_inv other s" "space_tables space s \<inter> pt_tables (as_root other) (snd s) = {}" for other
  proof -
    have "pt_direct_map (as_root space) = pt_direct_map (as_root other)"
      using pt_invD(1) [of "as_root space"] pt_invD(1) [of "as_root other"] assms(1) o(1) by (auto simp: as_inv_def pt_ok_def)
    note f = freed_other_table [OF s'(2,3) o(1) [unfolded as_inv_def] this o(2) space_tables_allocated [OF assms(1)]]
    show ?thesis using f(1,3) by (auto simp: as_inv_def as_look_def page_view_def fun_eq_iff)
  qed
  then show ?thesis using s' by (auto simp: freed_def)
qed

theorem address_space_destroy_correct_witness:
  "\<exists>s'. address_space_destroy sample_space 0x5000 (sample_fa8, zero_mem) = Ret s' \<and> fa_state (fst s') 0x1000 = Some Free"
proof -
  have "is_active (as_root sample_space) 0x5000 = Ret False" by code_simp
  moreover have "0x1000 \<in> space_tables sample_space (sample_fa8, zero_mem)"
    using root_in_reach [of "pt_frame sample_pt"] by (simp add: space_tables_def sample_space_def sample_pt_def)
  ultimately show ?thesis using address_space_destroy_correct [OF sample_space_inv, of "0x5000"] by auto
qed

subsection \<open>The ranges the kernel maps\<close>

text \<open>A range: where it is, where it is mapped, its length and its permissions.\<close>

type_synonym Range = "PhysicalAddr \<times> VirtualAddr \<times> usize \<times> PagePermissions"

definition region_range :: "DirectMap \<Rightarrow> MemoryRegion \<Rightarrow> Range" where
  "region_range dm region =
     (region_start region, region_start region + dm_offset dm, region_length region, page_permissions True False False)"

definition segment_range :: "KernelSegment \<Rightarrow> Range" where
  "segment_range segment = (seg_physical_base segment, seg_virtual_base segment, seg_length segment, seg_permissions segment)"

definition kernel_ranges :: "DirectMap \<Rightarrow> KernelSegment list \<Rightarrow> MemoryRegion list \<Rightarrow> Range list" where
  "kernel_ranges dm segments regions =
     map (region_range dm) (filter (\<lambda>r. \<not> region_excluded segments r) regions) @ map segment_range segments"

fun range_maps :: "Range \<Rightarrow> usize \<Rightarrow> FrameAddr \<times> PagePermissions \<Rightarrow> bool" where
  "range_maps (ps, vs, len, perms) v e \<longleftrightarrow>
     (\<exists>k<unat (len div FRAME_SIZE). v = vs + of_nat (k * 4096) \<and> e = (ps + of_nat (k * 4096), perms))"

text \<open>The map of a space after some ranges were added to it.\<close>

definition adds :: "AddressSpace \<Rightarrow> Range list \<Rightarrow> alloc_mem \<Rightarrow> alloc_mem \<Rightarrow> bool" where
  "adds space ranges s s' \<longleftrightarrow> as_inv space s' \<and> as_owned space s' = as_owned space s
     \<and> (\<forall>v e. as_look space s' v = Some e \<longleftrightarrow> as_look space s v = Some e \<or> (\<exists>r\<in>set ranges. range_maps r v e))"

lemma adds_Nil: "as_inv space s \<Longrightarrow> adds space [] s s"
  by (simp add: adds_def)

lemma adds_append: "adds space rs s s1 \<Longrightarrow> adds space rs' s1 s2 \<Longrightarrow> adds space (rs @ rs') s s2"
  by (simp add: adds_def) blast

lemma map_range_adds:
  assumes "as_inv space s" "address_space_map_range space ps vs len perms cache s = Ret (Inr u, s')"
  shows "adds space [(ps, vs, len, perms)] s s'"
proof -
  let ?n = "unat (len div FRAME_SIZE)"
  have r: "as_inv space s'" "as_owned space s' = as_owned space s"
      "\<And>k. k < ?n \<Longrightarrow> as_look space s (vs + of_nat (k * 4096)) = None
            \<and> as_look space s' (vs + of_nat (k * 4096)) = Some (ps + of_nat (k * 4096), perms)"
      "\<And>v. (\<forall>k<?n. v \<noteq> vs + of_nat (k * 4096)) \<Longrightarrow> as_look space s' v = as_look space s v"
    using address_space_map_range_spec [OF assms(1), of ps vs len perms cache] assms(2) by (auto simp del: of_nat_mult)
  have "as_look space s' v = Some e \<longleftrightarrow> as_look space s v = Some e \<or> range_maps (ps, vs, len, perms) v e" for v e
  proof (cases "\<exists>k<?n. v = vs + of_nat (k * 4096)")
    case True
    then show ?thesis using r(3) by (auto simp del: of_nat_mult)
  next
    case False
    then show ?thesis using r(4) [of v] by (auto simp del: of_nat_mult)
  qed
  then show ?thesis using r(1,2) by (simp add: adds_def del: range_maps.simps)
qed

subsection \<open>The kernel's own space\<close>

definition allocated :: "alloc_mem \<Rightarrow> FrameAddr set" where
  "allocated s = {f. fa_state (fst s) f = Some Allocated}"

text \<open>
  How the two loops of \<open>new_kernel\<close> end: with all ranges added, or with an error. An error of
  \<open>map_range\<close> destroys the tables; a region outside the direct map leaves them.
\<close>

definition loop_result ::
  "AddressSpace \<Rightarrow> Range list \<Rightarrow> alloc_mem \<Rightarrow> (AddressSpaceCreateError + unit) \<times> alloc_mem \<Rightarrow> bool" where
  "loop_result space ranges s rs' \<longleftrightarrow>
     (case rs' of
        (Inr _, s') \<Rightarrow> adds space ranges s s'
      | (Inl CreateAddressOutsideDirectMap, s') \<Rightarrow> as_inv space s' \<and> as_owned space s' = as_owned space s
      | (Inl _, s') \<Rightarrow> fa_inv (fst s') \<and> allocated s' = as_owned space s)"

lemma loop_result_Inr [simp]: "loop_result space ranges s (Inr u, s') \<longleftrightarrow> adds space ranges s s'"
  by (simp add: loop_result_def)

lemma loop_result_append:
  assumes "adds space rs s s1" "loop_result space rs' s1 res"
  shows "loop_result space (rs @ rs') s res"
proof -
  have "as_owned space s1 = as_owned space s" using assms(1) by (simp add: adds_def)
  then show ?thesis
    using assms(2) adds_append [OF assms(1)] by (auto simp: loop_result_def split: sum.splits AddressSpaceCreateError.splits)
qed

lemma mapping_failed:
  assumes inv: "as_inv space s" and k: "as_kind space = KernelSpace" and idle: "is_active (as_root space) cr3 = Ret False"
    and r: "address_space_map_range space ps vs len perms cache s = Ret (Inl err, s1)"
  shows "\<exists>s'. address_space_destroy space cr3 s1 = Ret s' \<and> loop_result space ranges s (Inl (CreateMap err), s')"
proof -
  have s1: "as_inv space s1" "as_owned space s1 = as_owned space s"
    using address_space_map_range_spec [OF inv, of ps vs len perms cache] r by auto
  obtain s' where s': "address_space_destroy space cr3 s1 = Ret s'" "freed (fst s1) (pt_tables (as_root space) (snd s1)) (fst s')"
    using address_space_destroy_spec [OF s1(1) idle] k by (auto simp: space_tables_def)
  have "allocated s' = as_owned space s1" using s'(2) by (auto simp: allocated_def as_owned_def data_frames_def freed_def)
  then show ?thesis using s' s1(2) by (auto simp: loop_result_def freed_def)
qed

lemma map_direct_regions_spec:
  assumes "as_inv space s" "as_kind space = KernelSpace" "is_active (as_root space) cr3 = Ret False"
  shows "\<exists>res. map_direct_regions space dm segments cr3 regions s = Ret res
     \<and> loop_result space (map (region_range dm) (filter (\<lambda>r. \<not> region_excluded segments r) regions)) s res"
  using assms
proof (induction regions arbitrary: s)
  case (Cons region regions)
  let ?rest = "map (region_range dm) (filter (\<lambda>r. \<not> region_excluded segments r) regions)"
  show ?case
  proof (cases "region_excluded segments region")
    case True
    then show ?thesis using Cons by simp
  next
    case False
    show ?thesis
    proof (cases "translate dm (region_start region)")
      case None
      then show ?thesis using False Cons.prems(1) by (simp add: loop_result_def)
    next
      case (Some vs)
      then have vs: "vs = region_start region + dm_offset dm" by (simp add: translate_Some_iff)
      obtain r s1 where r: "address_space_map_range space (region_start region) vs (region_length region)
          (page_permissions True False False) (region_cache_policy region) s = Ret (r, s1)"
        using address_space_map_range_spec [OF Cons.prems(1)] by blast
      show ?thesis
      proof (cases r)
        case (Inl err)
        then show ?thesis using mapping_failed [OF Cons.prems r [unfolded Inl]] r Some False by fastforce
      next
        case (Inr u)
        have a: "adds space [region_range dm region] s s1"
          using map_range_adds [OF Cons.prems(1) r [unfolded Inr]] by (simp add: region_range_def vs)
        then obtain res where "map_direct_regions space dm segments cr3 regions s1 = Ret res" "loop_result space ?rest s1 res"
          using Cons.IH [of s1] Cons.prems by (auto simp: adds_def)
        then show ?thesis using loop_result_append [OF a] r Inr Some False by fastforce
      qed
    qed
  qed
qed (simp add: adds_Nil)

text \<open>What the debug assertion of the second loop checks: the segments follow each other in physical memory.\<close>

fun contiguous :: "usize option \<Rightarrow> KernelSegment list \<Rightarrow> bool" where
  "contiguous stop [] \<longleftrightarrow> True"
| "contiguous stop (segment # segments) \<longleftrightarrow> stop \<in> {None, Some (seg_physical_base segment)}
     \<and> unat (seg_physical_base segment) + unat (seg_length segment) < 2 ^ 64
     \<and> contiguous (Some (seg_physical_base segment + seg_length segment)) segments"

lemma map_segments_spec:
  assumes "as_inv space s" "as_kind space = KernelSpace" "is_active (as_root space) cr3 = Ret False" "contiguous stop segments"
  shows "\<exists>res. map_segments space cr3 segments stop s = Ret res \<and> loop_result space (map segment_range segments) s res"
  using assms
proof (induction segments arbitrary: s stop)
  case (Cons segment segments)
  let ?stop = "seg_physical_base segment + seg_length segment"
  have stop: "checked_add (seg_physical_base segment) (seg_length segment) = Some ?stop"
    "\<not> (stop \<noteq> None \<and> stop \<noteq> Some (seg_physical_base segment))"
    using Cons.prems(4) by (auto simp: checked_add_Some_iff)
  obtain r s1 where r: "address_space_map_range space (seg_physical_base segment) (seg_virtual_base segment) (seg_length segment)
      (seg_permissions segment) WriteBack s = Ret (r, s1)"
    using address_space_map_range_spec [OF Cons.prems(1)] by blast
  show ?case
  proof (cases r)
    case (Inl err)
    then show ?thesis using mapping_failed [OF Cons.prems(1-3) r [unfolded Inl]] r stop by fastforce
  next
    case (Inr u)
    have a: "adds space [segment_range segment] s s1"
      using map_range_adds [OF Cons.prems(1) r [unfolded Inr]] by (simp add: segment_range_def)
    then obtain res where "map_segments space cr3 segments (Some ?stop) s1 = Ret res" "loop_result space (map segment_range segments) s1 res"
      using Cons.IH [of s1 "Some ?stop"] Cons.prems by (auto simp: adds_def)
    then show ?thesis using loop_result_append [OF a] r Inr stop by fastforce
  qed
qed (simp add: adds_Nil)

lemma read_cr3_ok: "config_ok cfg \<Longrightarrow> \<exists>f. read_cr3 cfg cr3 = Ret f"
  using from_start_address_masked [of cfg cr3] by (auto simp: read_cr3_def)

lemma page_view_empty: "(\<And>b. page_entry pt m b = None) \<Longrightarrow> page_view pt m v = None"
  by (simp add: page_view_def)

text \<open>The state right after the root table was made.\<close>

lemma new_root:
  assumes "pt_inv root fa1 m1" "fa_state fa (pt_frame root) = Some Free" "fa_state fa1 = (fa_state fa)(pt_frame root \<mapsto> Allocated)"
    "pt_tables root m1 = {pt_frame root}" "\<And>b. page_entry root m1 b = None"
  defines "space \<equiv> \<lparr>as_root = root, as_kind = KernelSpace\<rparr>"
  shows "as_inv space (fa1, m1)" "as_owned space (fa1, m1) = {f. fa_state fa f = Some Allocated}" "as_look space (fa1, m1) v = None"
  using assms by (auto simp: as_inv_def as_owned_def data_frames_def as_look_def page_view_empty)

lemma address_space_new_kernel_spec:
  assumes fa: "fa_inv fa" "config_ok cfg" "dm = fa_direct_map fa"
    and cr3: "\<And>f. read_cr3 cfg cr3 = Ret f \<Longrightarrow> fa_state fa f \<noteq> Some Free" and seg: "contiguous None segments"
  shows "\<exists>r s'. address_space_new_kernel dm regions segments cfg cr3 (fa, m) = Ret (r, s') \<and> fa_inv (fst s') \<and>
    (case r of
       Inr space \<Rightarrow> as_kind space = KernelSpace \<and> as_inv space s' \<and> pt_config (as_root space) = cfg \<and> as_owned space s' = allocated (fa, m)
         \<and> (\<forall>v e. as_look space s' v = Some e \<longleftrightarrow> (\<exists>r\<in>set (kernel_ranges dm segments regions). range_maps r v e))
     | Inl e \<Rightarrow> if e = CreateAddressOutsideDirectMap then allocated (fa, m) \<subset> allocated s' else allocated s' = allocated (fa, m))"
proof -
  obtain r fa1 m1 where new: "page_table_new dm cfg (fa, m) = Ret (r, fa1, m1)" "fa_inv fa1"
      "case r of
       Inr pt \<Rightarrow> pt_inv pt fa1 m1 \<and> pt_config pt = cfg \<and> fa_state fa (pt_frame pt) = Some Free
         \<and> fa_state fa1 = (fa_state fa)(pt_frame pt \<mapsto> Allocated) \<and> pt_tables pt m1 = {pt_frame pt} \<and> (\<forall>b. page_entry pt m1 b = None)
     | Inl e \<Rightarrow> fa_state fa1 = fa_state fa"
    using page_table_new_spec [OF fa, of m] by (fastforce split: sum.splits)
  show ?thesis
  proof (cases r)
    case (Inl e)
    then show ?thesis
      using new by (cases e) (auto simp: address_space_new_kernel_def allocated_def)
  next
    case (Inr root)
    define space where "space = \<lparr>as_root = root, as_kind = KernelSpace\<rparr>"
    have root: "pt_config root = cfg" "fa_state fa (pt_frame root) = Some Free" using new(3) Inr by auto
    have s1: "as_inv space (fa1, m1)" "as_owned space (fa1, m1) = allocated (fa, m)" "\<And>v. as_look space (fa1, m1) v = None"
      using new_root [of root fa1 m1 fa] new(3) Inr by (auto simp: space_def allocated_def)
    have k: "as_kind space = KernelSpace" "as_root space = root" by (simp_all add: space_def)
    obtain a where a: "read_cr3 cfg cr3 = Ret a" using read_cr3_ok [OF fa(2)] by blast
    then have idle: "is_active (as_root space) cr3 = Ret False" using cr3 [OF a] root k by (auto simp: is_active_def)
    have outside: "fa_inv (fst s2) \<and> allocated (fa, m) \<subset> allocated s2" if "loop_result space rs (fa1, m1) (Inl CreateAddressOutsideDirectMap, s2)" for rs s2
    proof -
      have s2: "as_inv space s2" "as_owned space s2 = allocated (fa, m)" using that s1(2) by (simp_all add: loop_result_def)
      have "pt_frame root \<in> allocated s2"
        using pt_invD(4) [of root "fst s2" "snd s2"] s2(1) k(2) by (simp add: as_inv_def allocated_def)
      moreover have "pt_frame root \<notin> allocated (fa, m)" using root(2) by (simp add: allocated_def)
      moreover have "as_owned space s2 \<subseteq> allocated s2" by (auto simp: as_owned_def data_frames_def allocated_def)
      ultimately show ?thesis using s2 pt_invD(1) [of root "fst s2" "snd s2"] k(2) by (auto simp: as_inv_def pt_ok_def)
    qed
    have failed: "fa_inv (fst s2) \<and> (if e = CreateAddressOutsideDirectMap then allocated (fa, m) \<subset> allocated s2 else allocated s2 = allocated (fa, m))"
      if "loop_result space rs (fa1, m1) (Inl e, s2)" for rs e s2
      using outside [of rs s2] that s1(2) by (cases e) (auto simp: loop_result_def)
    obtain r1 s2 where d: "map_direct_regions space dm segments cr3 regions (fa1, m1) = Ret (r1, s2)"
        "loop_result space (map (region_range dm) (filter (\<lambda>r. \<not> region_excluded segments r) regions)) (fa1, m1) (r1, s2)"
      using map_direct_regions_spec [OF s1(1) k(1) idle, of dm segments regions] by auto
    have eq: "address_space_new_kernel dm regions segments cfg cr3 (fa, m) =
        (case r1 of
           Inl e \<Rightarrow> Ret (Inl e, s2)
         | Inr _ \<Rightarrow> do {
             (r, s) \<leftarrow> map_segments space cr3 segments None s2;
             (case r of Inl e \<Rightarrow> Ret (Inl e, s) | Inr _ \<Rightarrow> Ret (Inr space, s)) })"
      using new(1) Inr d(1) by (cases s2) (simp add: address_space_new_kernel_def space_def cong: sum.case_cong)
    show ?thesis
    proof (cases r1)
      case (Inl e)
      then show ?thesis using eq failed d(2) by auto
    next
      case (Inr u)
      then have d': "adds space (map (region_range dm) (filter (\<lambda>r. \<not> region_excluded segments r) regions)) (fa1, m1) s2" using d(2) by simp
      then obtain r2 s3 where e: "map_segments space cr3 segments None s2 = Ret (r2, s3)" "loop_result space (map segment_range segments) s2 (r2, s3)"
        using map_segments_spec [OF _ k(1) idle seg, of s2] by (auto simp: adds_def)
      note all = loop_result_append [OF d' e(2), folded kernel_ranges_def]
      show ?thesis
      proof (cases r2)
        case (Inl e)
        then show ?thesis using eq Inr \<open>map_segments space cr3 segments None s2 = _\<close> failed all by auto
      next
        case (Inr u)
        then have ad: "adds space (kernel_ranges dm segments regions) (fa1, m1) s3" using all by simp
        then have "fa_inv (fst s3)" using pt_invD(1) [of root "fst s3" "snd s3"] k(2) by (auto simp: adds_def as_inv_def pt_ok_def)
        then show ?thesis
          using eq \<open>r1 = Inr _\<close> e(1) Inr ad s1(2,3) k root(1) by (auto simp: adds_def)
      qed
    qed
  qed
qed

end
