(* ===== verification/Boot_Info.thy ===== *)
theory Boot_Info
  imports Kernel_Space Bootstrap
begin

section \<open>What the boot loader hands over\<close>








datatype BootError =
  UnsupportedBaseRevision | FailedToGetKernelAddress | FailedToGetKernelCmdline | FailedToGetModules
| FailedToGetInitramfs | FailedToGetHHDMAddress | FailedToGetMemmap | TooManyMemoryRegions
| FailedToLocateKernel | FailedToGetRsdp


text \<open>\<open>x.ok_or(e)?\<close>\<close>

definition ok_or :: "'a option \<Rightarrow> BootError \<Rightarrow> ('a \<Rightarrow> (BootError + 'b) panics) \<Rightarrow> (BootError + 'b) panics" where
  "ok_or x e k = (case x of None \<Rightarrow> Ret (Inl e) | Some a \<Rightarrow> k a)"








subsection \<open>The memory map\<close>



subsection \<open>The errors and the result\<close>


definition first_missing :: "(bool \<times> BootError) list \<Rightarrow> BootError option" where
  "first_missing checks = map_option snd (List.find (\<lambda>c. \<not> fst c) checks)"






lemma ok_or_simps [simp]: "ok_or None e k = Ret (Inl e)" "ok_or (Some a) e k = k a"
  by (simp_all add: ok_or_def)

lemma first_missing_simps [simp]:
  "first_missing [] = None" "first_missing ((True, e) # cs) = first_missing cs" "first_missing ((False, e) # cs) = Some e"
  by (simp_all add: first_missing_def)









subsection \<open>The kernel image in the kernel's address space\<close>










end
