(* ===== verification/Devices.thy ===== *)
theory Devices
  imports Paging_Cells Kernel
begin

section \<open>The processor's registers and the ports\<close>

text \<open>
  The hardware the kernel drives is a parameter: a \<open>'d Bus\<close> gives for a hardware state of type
  \<open>'d\<close> what each access returns and does, and the definitions thread that state through the
  accesses in the order of the code. \<open>cpuid\<close> is a function, as the instruction has no effect. This
  theory has the detection of processor features (\<open>cpu.rs\<close>) and the serial port
  (\<open>serial.rs\<close>); the interrupt controllers have their own. What a theorem relies on of the
  hardware is a named hypothesis: \<open>efer_register\<close> here says that the register \<open>IA32_EFER\<close> reads back
  the bits written, \<open>uart\<close> that a serial port is a UART.
\<close>

record CpuidResult =
  cpuid_eax :: u32
  cpuid_ebx :: u32
  cpuid_ecx :: u32
  cpuid_edx :: u32

record 'd Bus =
  bus_cpuid :: "u32 \<Rightarrow> CpuidResult"
  bus_read_msr :: "u32 \<Rightarrow> 'd \<Rightarrow> u64 \<times> 'd"
  bus_write_msr :: "u32 \<Rightarrow> u64 \<Rightarrow> 'd \<Rightarrow> 'd"
  bus_read_cr4 :: "'d \<Rightarrow> usize \<times> 'd"
  bus_write_cr4 :: "usize \<Rightarrow> 'd \<Rightarrow> 'd"
  bus_in :: "u16 \<Rightarrow> 'd \<Rightarrow> u8 \<times> 'd"
  bus_out :: "u16 \<Rightarrow> u8 \<Rightarrow> 'd \<Rightarrow> 'd"
  bus_load :: "usize \<Rightarrow> 'd \<Rightarrow> u32 \<times> 'd"
  bus_store :: "usize \<Rightarrow> u32 \<Rightarrow> 'd \<Rightarrow> 'd"

subsection \<open>Processor features\<close>

datatype CpuFeaturesError =
  CpuidFeaturesNotSupported | SyscallNotSupported | InvalidPhysicalAddressWidth | InvalidVirtualAddressWidth

record CpuFeatures =
  nx_supported :: bool
  nx_enabled :: bool
  global_pages :: bool
  physical_address_bits :: u8
  cf_virtual_address_bits :: u8
  five_level_paging_active :: bool

definition IA32_EFER :: u32 where
  "IA32_EFER = 0xC0000080"

text \<open>The last part of \<open>detect_features_and_enable\<close>: no-execute pages, when the processor has them.\<close>

definition enable_nx :: "'d Bus \<Rightarrow> u32 \<Rightarrow> CpuFeatures \<Rightarrow> 'd \<Rightarrow> (CpuFeaturesError + CpuFeatures) \<times> 'd" where
  "enable_nx bus edx features d =
     (if nx_supported features then
        if edx AND push_bit 5 1 = 0 then (Inl CpuidFeaturesNotSupported, d)
        else
          let (efer, d) = bus_read_msr bus IA32_EFER d;
              d = bus_write_msr bus IA32_EFER (efer OR push_bit 11 1) d;
              (efer, d) = bus_read_msr bus IA32_EFER d
          in (Inr (features\<lparr>nx_enabled := efer AND push_bit 11 1 \<noteq> 0\<rparr>), d)
      else (Inr features, d))"

definition detect_features_and_enable :: "'d Bus \<Rightarrow> 'd \<Rightarrow> (CpuFeaturesError + CpuFeatures) \<times> 'd" where
  "detect_features_and_enable bus d =
     (let features = \<lparr>nx_supported = False, nx_enabled = False, global_pages = False, physical_address_bits = 0,
            cf_virtual_address_bits = 0, five_level_paging_active = False\<rparr> in
      if cpuid_eax (bus_cpuid bus 0x80000000) < 0x80000008 then (Inl CpuidFeaturesNotSupported, d)
      else
        let edx = cpuid_edx (bus_cpuid bus 0x80000001);
            features = features\<lparr>nx_supported := edx AND push_bit 20 1 \<noteq> 0\<rparr> in
        if edx AND push_bit 11 1 = 0 then (Inl SyscallNotSupported, d)
        else
          let (efer, d) = bus_read_msr bus IA32_EFER d;
              d = bus_write_msr bus IA32_EFER (efer OR 1) d;
              eax = cpuid_eax (bus_cpuid bus 0x80000008);
              features = features\<lparr>physical_address_bits := ucast (eax AND 0xFF)\<rparr> in
          if \<not> (12 \<le> physical_address_bits features \<and> physical_address_bits features \<le> 52) then (Inl InvalidPhysicalAddressWidth, d)
          else
            let features = features\<lparr>cf_virtual_address_bits := ucast (drop_bit 8 eax AND 0xFF)\<rparr>;
                (cr4, d) = bus_read_cr4 bus d;
                features = features\<lparr>five_level_paging_active := cr4 AND push_bit 12 1 \<noteq> 0\<rparr>;
                required_virtual_address_bits = (if five_level_paging_active features then 57 else 48) in
            if cf_virtual_address_bits features < required_virtual_address_bits then (Inl InvalidVirtualAddressWidth, d)
            else
              let edx = cpuid_edx (bus_cpuid bus 1);
                  features = features\<lparr>global_pages := edx AND push_bit 13 1 \<noteq> 0\<rparr>;
                  d = (if global_pages features then let (cr4, d) = bus_read_cr4 bus d in bus_write_cr4 bus (cr4 OR push_bit 7 1) d else d)
              in enable_nx bus edx features d)"

text \<open>\<open>PagingConfig::from_features\<close>, and \<open>arch::init\<close> with the outcome it panics on.\<close>

definition from_features :: "CpuFeatures \<Rightarrow> PagingConfig" where
  "from_features features =
     \<lparr>pc_physical_address_bits = unat (physical_address_bits features), pc_global_pages = global_pages features,
      pc_nx_enabled = nx_enabled features, pc_mode = (if five_level_paging_active features then FiveLevel else FourLevel)\<rparr>"

definition arch_init :: "'d Bus \<Rightarrow> 'd \<Rightarrow> (PagingConfig \<times> 'd) panics" where
  "arch_init bus d =
     (case detect_features_and_enable bus d of
        (Inl _, _) \<Rightarrow> Panic
      | (Inr features, d) \<Rightarrow> Ret (from_features features, d))"

text \<open>The register \<open>IA32_EFER\<close> and \<open>CR4\<close> of a hardware state, and what accesses do to them.\<close>

definition efer_register :: "'d Bus \<Rightarrow> ('d \<Rightarrow> u64) \<Rightarrow> ('d \<Rightarrow> usize) \<Rightarrow> bool" where
  "efer_register bus efer cr4 \<longleftrightarrow>
     (\<forall>d. fst (bus_read_msr bus IA32_EFER d) = efer d \<and> efer (snd (bus_read_msr bus IA32_EFER d)) = efer d
        \<and> cr4 (snd (bus_read_msr bus IA32_EFER d)) = cr4 d)
   \<and> (\<forall>d x. efer (bus_write_msr bus IA32_EFER x d) = x \<and> cr4 (bus_write_msr bus IA32_EFER x d) = cr4 d)
   \<and> (\<forall>d. fst (bus_read_cr4 bus d) = cr4 d \<and> efer (snd (bus_read_cr4 bus d)) = efer d \<and> cr4 (snd (bus_read_cr4 bus d)) = cr4 d)
   \<and> (\<forall>d x. efer (bus_write_cr4 bus x d) = efer d \<and> cr4 (bus_write_cr4 bus x d) = x)"

lemma flag_test: "(x AND push_bit k 1 = 0) \<longleftrightarrow> \<not> bit (x :: 'l::len word) k"
  by (metis and_exp_eq_0_iff_not_bit push_bit_of_1)

lemma enable_nx_Inr:
  assumes "efer_register bus efer cr4" "enable_nx bus edx f d = (Inr f', d')" "\<not> nx_enabled f"
  shows "f' = f\<lparr>nx_enabled := nx_supported f\<rparr>" "efer d' = efer d OR (if nx_supported f then push_bit 11 1 else 0)" "cr4 d' = cr4 d"
  using assms unfolding enable_nx_def flag_test efer_register_def
  by (auto simp: Let_def case_prod_beta bit_simps split: if_splits)

lemma detect_Inr:
  assumes "detect_features_and_enable bus d = (Inr f', d')"
  defines "d1 \<equiv> snd (bus_read_msr bus IA32_EFER d)" and "e \<equiv> fst (bus_read_msr bus IA32_EFER d)"
  defines "d2 \<equiv> bus_write_msr bus IA32_EFER (e OR 1) d1"
  obtains edx f d3 where "enable_nx bus edx f d3 = (Inr f', d')" "\<not> nx_enabled f"
    "nx_supported f \<longleftrightarrow> bit (cpuid_edx (bus_cpuid bus 0x80000001)) 20" "12 \<le> physical_address_bits f" "physical_address_bits f \<le> 52"
    "five_level_paging_active f \<longleftrightarrow> bit (fst (bus_read_cr4 bus d2)) 12"
    "d3 = (if global_pages f then let (c, d) = bus_read_cr4 bus (snd (bus_read_cr4 bus d2)) in bus_write_cr4 bus (c OR push_bit 7 1) d
           else snd (bus_read_cr4 bus d2))"
proof -
  let ?eax = "cpuid_eax (bus_cpuid bus 0x80000008)" and ?edx = "cpuid_edx (bus_cpuid bus 1)"
  let ?f = "\<lparr>nx_supported = bit (cpuid_edx (bus_cpuid bus 0x80000001)) 20, nx_enabled = False, global_pages = bit ?edx 13,
    physical_address_bits = ucast (?eax AND 0xFF), cf_virtual_address_bits = ucast (drop_bit 8 ?eax AND 0xFF),
    five_level_paging_active = bit (fst (bus_read_cr4 bus d2)) 12\<rparr>"
  have "enable_nx bus ?edx ?f (if bit ?edx 13 then let (c, d) = bus_read_cr4 bus (snd (bus_read_cr4 bus d2)) in bus_write_cr4 bus (c OR push_bit 7 1) d
           else snd (bus_read_cr4 bus d2)) = (Inr f', d')
     \<and> 12 \<le> physical_address_bits ?f \<and> physical_address_bits ?f \<le> 52"
    using assms(1) unfolding detect_features_and_enable_def flag_test d2_def d1_def e_def Let_def case_prod_beta
    by (simp split: if_split_asm)
  then show thesis by (intro that [of ?edx ?f]) auto
qed

text \<open>
  What the kernel learns about the processor is what the page tables need. When the
  detection succeeds, the configuration it yields has a physical address width the page-table
  code supports, uses the number of levels the processor's \<open>CR4\<close> says is active, uses
  no-execute bits exactly when the processor has them and \<open>IA32_EFER\<close> has them enabled, and
  marks pages global exactly when \<open>CR4\<close> allows it; \<open>SYSCALL\<close> is enabled and no other bit of the
  two registers has changed.
\<close>

theorem detected_features_sound:
  assumes "efer_register bus efer cr4" "arch_init bus d = Ret (cfg, d')"
  shows "config_ok cfg
     \<and> pc_mode cfg = (if bit (cr4 d) 12 then FiveLevel else FourLevel)
     \<and> (pc_nx_enabled cfg \<longleftrightarrow> bit (cpuid_edx (bus_cpuid bus 0x80000001)) 20)
     \<and> (pc_nx_enabled cfg \<longrightarrow> bit (efer d') 11)
     \<and> (pc_global_pages cfg \<longrightarrow> bit (cr4 d') 7)
     \<and> efer d' = efer d OR 1 OR (if pc_nx_enabled cfg then push_bit 11 1 else 0)
     \<and> cr4 d' = cr4 d OR (if pc_global_pages cfg then push_bit 7 1 else 0)"
proof -
  obtain f' where f': "detect_features_and_enable bus d = (Inr f', d')" "cfg = from_features f'"
    using assms(2) by (auto simp: arch_init_def split: prod.splits sum.splits)
  from f'(1) obtain edx f d3 where f: "enable_nx bus edx f d3 = (Inr f', d')" "\<not> nx_enabled f"
    "nx_supported f \<longleftrightarrow> bit (cpuid_edx (bus_cpuid bus 0x80000001)) 20" "12 \<le> physical_address_bits f" "physical_address_bits f \<le> 52"
    "five_level_paging_active f \<longleftrightarrow> bit (cr4 d) 12" "efer d3 = efer d OR 1" "cr4 d3 = cr4 d OR (if global_pages f then push_bit 7 1 else 0)"
    using assms(1) by (elim detect_Inr) (auto simp: efer_register_def case_prod_beta Let_def)
  show ?thesis
    using enable_nx_Inr [OF assms(1) f(1,2)] f(3-) unfolding f'(2) from_features_def config_ok_def
    by (auto simp: bit_simps word_le_nat_alt or.assoc)
qed

text \<open>A processor with 39 physical and 48 virtual address bits, all features and four levels.\<close>

definition sample_bus :: "(u64 \<times> usize) Bus" where
  "sample_bus =
     \<lparr>bus_cpuid = (\<lambda>leaf. \<lparr>cpuid_eax = (if leaf = 0x80000008 then 0x3027 else 0x80000008), cpuid_ebx = 0, cpuid_ecx = 0, cpuid_edx = 0x7FFFFFFF\<rparr>),
      bus_read_msr = (\<lambda>_ d. (fst d, d)), bus_write_msr = (\<lambda>_ x d. (x, snd d)),
      bus_read_cr4 = (\<lambda>d. (snd d, d)), bus_write_cr4 = (\<lambda>x d. (fst d, x)),
      bus_in = (\<lambda>_ d. (0, d)), bus_out = (\<lambda>_ _ d. d), bus_load = (\<lambda>_ d. (0, d)), bus_store = (\<lambda>_ _ d. d)\<rparr>"

theorem detected_features_sound_witness:
  "\<exists>cfg d'. arch_init sample_bus (0x500, 0x20) = Ret (cfg, d') \<and> config_ok cfg \<and> pc_mode cfg = FourLevel \<and> pc_nx_enabled cfg
     \<and> bit (fst d') 11"
proof -
  have law: "efer_register sample_bus fst snd" by (simp add: efer_register_def sample_bus_def)
  obtain cfg d' where a: "arch_init sample_bus (0x500, 0x20) = Ret (cfg, d')"
    by (simp add: arch_init_def detect_features_and_enable_def enable_nx_def sample_bus_def Let_def)
  show ?thesis
    using detected_features_sound [OF law a] a by (auto simp: sample_bus_def)
qed

subsection \<open>The serial port\<close>

definition COM1_BASE :: u16 where
  "COM1_BASE = 0x3F8"

datatype SerialPortError = NotFound | Faulty

text \<open>The port at \<open>base\<close>, its registers by their offset.\<close>

definition write_register :: "'d Bus \<Rightarrow> u16 \<Rightarrow> u16 \<Rightarrow> u8 \<Rightarrow> 'd \<Rightarrow> 'd" where
  "write_register bus base register value d = bus_out bus (base + register) value d"

definition read_register :: "'d Bus \<Rightarrow> u16 \<Rightarrow> u16 \<Rightarrow> 'd \<Rightarrow> u8 \<times> 'd" where
  "read_register bus base register d = bus_in bus (base + register) d"

definition can_transfer :: "'d Bus \<Rightarrow> u16 \<Rightarrow> 'd \<Rightarrow> bool \<times> 'd" where
  "can_transfer bus base d = (let (status, d) = read_register bus base 5 d in (status AND push_bit 5 1 \<noteq> 0, d))"

text \<open>The loop that waits for the transmitter; \<open>None\<close> is that it never ends.\<close>

partial_function (option) wait_transfer :: "'d Bus \<Rightarrow> u16 \<Rightarrow> 'd \<Rightarrow> 'd option" where
  "wait_transfer bus base d = (case can_transfer bus base d of (ready, d) \<Rightarrow> if ready then Some d else wait_transfer bus base d)"

definition put_byte :: "'d Bus \<Rightarrow> u16 \<Rightarrow> u8 \<Rightarrow> 'd \<Rightarrow> 'd option" where
  "put_byte bus base byte d = do { d \<leftarrow> wait_transfer bus base d; Some (write_register bus base 0 byte d) }"

definition write_byte :: "'d Bus \<Rightarrow> u16 \<Rightarrow> u8 \<Rightarrow> 'd \<Rightarrow> 'd option" where
  "write_byte bus base byte d = do {
     d \<leftarrow> (if byte = 10 then put_byte bus base 13 d else Some d);
     put_byte bus base byte d }"

primrec write_all :: "'d Bus \<Rightarrow> u16 \<Rightarrow> u8 list \<Rightarrow> 'd \<Rightarrow> 'd option" where
  "write_all bus base [] d = Some d"
| "write_all bus base (b # bytes) d = do { d \<leftarrow> write_byte bus base b d; write_all bus base bytes d }"

definition port_write_bytes :: "'d Bus \<Rightarrow> u8 list \<Rightarrow> 'd \<Rightarrow> 'd option" where
  "port_write_bytes bus bytes d = write_all bus COM1_BASE bytes d"

text \<open>
  \<open>SerialPort::init\<close>: probe the scratch register, set the speed and the line, and test the
  port in loopback mode with the byte \<open>0xAE\<close>.
\<close>

definition line_setup :: "'d Bus \<Rightarrow> u16 \<Rightarrow> 'd \<Rightarrow> 'd" where
  "line_setup bus base d =
     (let d = write_register bus base 1 0 d;
          d = write_register bus base 3 (push_bit 7 1) d;
          d = write_register bus base 0 1 d;
          d = write_register bus base 1 0 d;
          d = write_register bus base 3 0b11 d;
          d = write_register bus base 2 (push_bit 0 1 OR push_bit 1 1 OR push_bit 2 1 OR push_bit 6 0b11) d;
          d = write_register bus base 4 (push_bit 0 1 OR push_bit 1 1 OR push_bit 3 1) d
      in write_register bus base 4 (push_bit 1 1 OR push_bit 2 1 OR push_bit 3 1 OR push_bit 4 1) d)"

definition serial_init :: "'d Bus \<Rightarrow> u16 \<Rightarrow> 'd \<Rightarrow> ((SerialPortError + unit) \<times> 'd) option" where
  "serial_init bus base d =
     (let d = write_register bus base 7 0x42 d;
          (scratch, d) = read_register bus base 7 d in
      if scratch \<noteq> 0x42 then Some (Inl NotFound, d)
      else do {
        let d = line_setup bus base d;
        d \<leftarrow> write_byte bus base 0xAE d;
        let (echo, d) = read_register bus base 0 d;
        if echo \<noteq> 0xAE then Some (Inl Faulty, d)
        else Some (Inr (), write_register bus base 4 (push_bit 0 1 OR push_bit 1 1 OR push_bit 2 1 OR push_bit 3 1) d) })"

text \<open>
  What the code relies on of a UART: \<open>sent\<close> is what has gone out and \<open>delay\<close> how many reads of
  the line status it takes until the transmitter is empty. Reading the status sends nothing,
  and a byte stored to the data register while the transmitter is empty is sent.
\<close>

definition uart :: "'d Bus \<Rightarrow> u16 \<Rightarrow> ('d \<Rightarrow> u8 list) \<Rightarrow> ('d \<Rightarrow> nat) \<Rightarrow> bool" where
  "uart bus base sent delay \<longleftrightarrow>
     (\<forall>d. sent (snd (bus_in bus (base + 5) d)) = sent d
        \<and> (delay d = 0 \<longrightarrow> bit (fst (bus_in bus (base + 5) d)) 5 \<and> delay (snd (bus_in bus (base + 5) d)) = 0)
        \<and> (0 < delay d \<longrightarrow> \<not> bit (fst (bus_in bus (base + 5) d)) 5 \<and> delay (snd (bus_in bus (base + 5) d)) = delay d - 1))
   \<and> (\<forall>d b. delay d = 0 \<longrightarrow> sent (bus_out bus base b d) = sent d @ [b])"

lemma can_transfer_eq:
  "can_transfer bus base d = (bit (fst (bus_in bus (base + 5) d)) 5, snd (bus_in bus (base + 5) d))"
  unfolding can_transfer_def flag_test by (simp add: read_register_def case_prod_beta)

lemma wait_transfer_ends:
  assumes "uart bus base sent delay"
  shows "\<exists>d'. wait_transfer bus base d = Some d' \<and> sent d' = sent d \<and> delay d' = 0"
proof (induction "delay d" arbitrary: d)
  case 0
  then show ?case using assms
    by (subst wait_transfer.simps) (simp add: can_transfer_eq uart_def)
next
  case (Suc n)
  let ?d = "snd (bus_in bus (base + 5) d)"
  have s: "sent ?d = sent d" "delay ?d = n" "\<not> bit (fst (bus_in bus (base + 5) d)) 5" using assms Suc(2) by (auto simp: uart_def)
  then have "wait_transfer bus base d = wait_transfer bus base ?d"
    by (subst wait_transfer.simps) (simp add: can_transfer_eq)
  then show ?case using Suc(1) [of ?d] s by simp
qed

lemma put_byte_sends:
  assumes "uart bus base sent delay"
  shows "\<exists>d'. put_byte bus base b d = Some d' \<and> sent d' = sent d @ [b]"
  using wait_transfer_ends [OF assms, of d] assms by (auto simp: put_byte_def write_register_def uart_def)

lemma write_byte_sends:
  assumes "uart bus base sent delay"
  shows "\<exists>d'. write_byte bus base b d = Some d' \<and> sent d' = sent d @ serial_bytes [b]"
proof (cases "b = 10")
  case True
  obtain d1 where "put_byte bus base 13 d = Some d1" "sent d1 = sent d @ [13]" using put_byte_sends [OF assms, of 13 d] by blast
  then show ?thesis using put_byte_sends [OF assms, of b d1] True by (auto simp: write_byte_def serial_bytes_def)
next
  case False
  then show ?thesis using put_byte_sends [OF assms, of b d] by (simp add: write_byte_def serial_bytes_def)
qed

text \<open>
  (C36) Writing to the serial port ends and sends what the rest of the development says it does:
  on a UART, whatever its speed, \<open>write_bytes\<close> returns and has sent exactly the bytes of the
  abstract output, a carriage return before every newline, after everything sent before.
\<close>

theorem serial_output_refines:
  assumes "uart bus COM1_BASE sent delay"
  shows "\<exists>d'. port_write_bytes bus bytes d = Some d' \<and> sent d' = sent d @ serial_bytes bytes"
  unfolding port_write_bytes_def
proof (induction bytes arbitrary: d)
  case (Cons b bytes)
  then show ?case using write_byte_sends [OF assms, of b d] by (fastforce simp: serial_bytes_def)
qed (simp add: serial_bytes_def)

text \<open>A UART that is busy for some reads after every byte.\<close>

definition slow_bus :: "(u8 list \<times> nat) Bus" where
  "slow_bus =
     \<lparr>bus_cpuid = (\<lambda>_. \<lparr>cpuid_eax = 0, cpuid_ebx = 0, cpuid_ecx = 0, cpuid_edx = 0\<rparr>),
      bus_read_msr = (\<lambda>_ d. (0, d)), bus_write_msr = (\<lambda>_ _ d. d), bus_read_cr4 = (\<lambda>d. (0, d)), bus_write_cr4 = (\<lambda>_ d. d),
      bus_in = (\<lambda>_ (out, n). (if n = 0 then 0x20 else 0, (out, n - 1))), bus_out = (\<lambda>_ b (out, n). (out @ [b], 3)),
      bus_load = (\<lambda>_ d. (0, d)), bus_store = (\<lambda>_ _ d. d)\<rparr>"

theorem serial_output_refines_witness:
  "\<exists>d'. port_write_bytes slow_bus [72, 10] ([], 0) = Some d' \<and> fst d' = [72, 13, 10]"
proof -
  have "uart slow_bus COM1_BASE fst snd" by (auto simp: uart_def slow_bus_def bit_simps)
  then show ?thesis using serial_output_refines [of slow_bus fst snd "[72, 10]" "([], 0)"] by (simp add: serial_bytes_def)
qed

end
