(* ===== verification/Acpi.thy ===== *)
theory Acpi
  imports Bytes
begin

section \<open>ACPI tables\<close>

text \<open>
  \<open>src/src/platform/acpi.rs\<close>: finding the firmware's tables and reading the MADT, the table of
  interrupt controllers. The tables are foreign data in physical memory, read through the
  direct map: \<open>m\<close> is that memory. Packed structures are decoded from their bytes. The
  iterator over the MADT is the record \<open>MadtEntries\<close> with the function \<open>madt_next\<close>;
  \<open>madt_collect\<close> is what a loop over it sees.
\<close>

datatype AcpiError =
  AcpiInvalidInput | AcpiAddressOverflow | InvalidSdtLength | InvalidRootTableLength | MalformedAcpiTable | MalformedMadt
| MissingIoApic | MultipleIoApicsUnsupported

definition le16 :: "nat \<Rightarrow> u8 list \<Rightarrow> u16" where
  "le16 k bs = from_le_bytes (take 2 (drop k bs))"

definition le32 :: "nat \<Rightarrow> u8 list \<Rightarrow> u32" where
  "le32 k bs = from_le_bytes (take 4 (drop k bs))"

definition le64 :: "nat \<Rightarrow> u8 list \<Rightarrow> u64" where
  "le64 k bs = from_le_bytes (take 8 (drop k bs))"

subsection \<open>Descriptors\<close>

record Rsdp =
  rsdp_signature :: "u8 list"
  rsdp_checksum :: u8
  rsdp_oem_id :: "u8 list"
  rsdp_revision :: u8
  rsdp_rsdt_address :: u32

definition rsdp_of :: "u8 list \<Rightarrow> Rsdp" where
  "rsdp_of bs = \<lparr>rsdp_signature = take 8 bs, rsdp_checksum = bs ! 8, rsdp_oem_id = take 6 (drop 9 bs), rsdp_revision = bs ! 15,
     rsdp_rsdt_address = le32 16 bs\<rparr>"

record Xsdp =
  xsdp_rsdp :: Rsdp
  xsdp_length :: u32
  xsdp_xsdt_address :: u64
  xsdp_extended_checksum :: u8
  xsdp_reserved :: "u8 list"

definition xsdp_of :: "u8 list \<Rightarrow> Xsdp" where
  "xsdp_of bs = \<lparr>xsdp_rsdp = rsdp_of bs, xsdp_length = le32 20 bs, xsdp_xsdt_address = le64 24 bs, xsdp_extended_checksum = bs ! 32,
     xsdp_reserved = take 3 (drop 33 bs)\<rparr>"

record SDTHeader =
  sdth_signature :: "u8 list"
  sdth_length :: u32
  sdth_revision :: u8
  sdth_checksum :: u8
  sdth_oem_id :: "u8 list"
  sdth_oem_table_id :: "u8 list"
  sdth_oem_revision :: u32
  sdth_creator_id :: u32
  sdth_creator_revision :: u32

definition sdt_header_of :: "u8 list \<Rightarrow> SDTHeader" where
  "sdt_header_of bs = \<lparr>sdth_signature = take 4 bs, sdth_length = le32 4 bs, sdth_revision = bs ! 8, sdth_checksum = bs ! 9,
     sdth_oem_id = take 6 (drop 10 bs), sdth_oem_table_id = take 8 (drop 16 bs), sdth_oem_revision = le32 24 bs,
     sdth_creator_id = le32 28 bs, sdth_creator_revision = le32 32 bs\<rparr>"

record Sdt =
  sdt_physical_addr :: PhysicalAddr
  sdt_length :: usize
  sdt_signature :: "u8 list"

datatype RootTable = Rsdt Sdt | Xsdt Sdt

fun root_table :: "RootTable \<Rightarrow> Sdt" where
  "root_table (Rsdt sdt) = sdt"
| "root_table (Xsdt sdt) = sdt"

fun entry_width :: "RootTable \<Rightarrow> usize" where
  "entry_width (Rsdt _) = 4"
| "entry_width (Xsdt _) = 8"

definition entry_count :: "RootTable \<Rightarrow> AcpiError + usize" where
  "entry_count root =
     (case checked_sub (sdt_length (root_table root)) 36 of
        None \<Rightarrow> Inl InvalidSdtLength
      | Some payload_length \<Rightarrow>
          if payload_length mod entry_width root \<noteq> 0 then Inl InvalidRootTableLength
          else Inr (payload_length div entry_width root))"

record AcpiTables =
  acpi_direct_map :: DirectMap
  acpi_root :: RootTable

subsection \<open>Reading\<close>

text \<open>\<open>read::<T>\<close> for a type of \<open>n\<close> bytes.\<close>

definition acpi_read :: "mem \<Rightarrow> DirectMap \<Rightarrow> PhysicalAddr \<Rightarrow> nat \<Rightarrow> AcpiError + u8 list" where
  "acpi_read m dm physical_addr n =
     (case translate dm physical_addr of
        None \<Rightarrow> Inl AcpiAddressOverflow
      | Some virtual_addr \<Rightarrow> Inr (read_bytes m virtual_addr n))"

primrec checksum_loop :: "mem \<Rightarrow> usize \<Rightarrow> nat \<Rightarrow> nat \<Rightarrow> u8 \<Rightarrow> AcpiError + u8" where
  "checksum_loop m virtual_addr 0 i acc = Inr acc"
| "checksum_loop m virtual_addr (Suc n) i acc =
     (case checked_add virtual_addr (of_nat i) of
        None \<Rightarrow> Inl AcpiAddressOverflow
      | Some byte_addr \<Rightarrow> checksum_loop m virtual_addr n (Suc i) (acc + m byte_addr))"

definition checksum_valid :: "mem \<Rightarrow> DirectMap \<Rightarrow> PhysicalAddr \<Rightarrow> usize \<Rightarrow> AcpiError + bool" where
  "checksum_valid m dm physical_addr len =
     (case translate dm physical_addr of
        None \<Rightarrow> Inl AcpiAddressOverflow
      | Some virtual_addr \<Rightarrow> and_then (checksum_loop m virtual_addr (unat len) 0 0) (\<lambda>acc. Inr (acc = 0)))"

text \<open>The loops of \<open>from_rsdp\<close> that add up bytes at a pointer.\<close>

definition byte_sum :: "mem \<Rightarrow> VirtualAddr \<Rightarrow> nat \<Rightarrow> u8" where
  "byte_sum m ptr n = fold (\<lambda>i acc. acc + m (ptr + of_nat i)) [0..<n] 0"

text \<open>The root table at a physical address, with its checksum and signature verified.\<close>

definition root_sdt :: "mem \<Rightarrow> DirectMap \<Rightarrow> PhysicalAddr \<Rightarrow> u8 list \<Rightarrow> AcpiError + Sdt" where
  "root_sdt m direct_map address signature =
     (case translate direct_map address of
        None \<Rightarrow> Inl AcpiAddressOverflow
      | Some virtual_addr \<Rightarrow>
          let sdt = sdt_header_of (read_bytes m virtual_addr 36) in
          if byte_sum m virtual_addr (unat (sdth_length sdt)) \<noteq> 0 then Inl MalformedAcpiTable
          else if sdth_signature sdt \<noteq> signature then Inl MalformedAcpiTable
          else Inr \<lparr>sdt_physical_addr = address, sdt_length = ucast (sdth_length sdt), sdt_signature = sdth_signature sdt\<rparr>)"

definition from_rsdp :: "mem \<Rightarrow> VirtualAddr \<Rightarrow> DirectMap \<Rightarrow> AcpiError + AcpiTables" where
  "from_rsdp m rsdp_ptr direct_map =
     (let rsdp = rsdp_of (read_bytes m rsdp_ptr 20) in
      if byte_sum m rsdp_ptr 20 \<noteq> 0 then Inl MalformedAcpiTable
      else if rsdp_signature rsdp \<noteq> ascii ''RSD PTR '' then Inl MalformedAcpiTable
      else and_then
        (if 2 \<le> rsdp_revision rsdp then
           (let xsdp = xsdp_of (read_bytes m rsdp_ptr 36) in
            if xsdp_length xsdp < 36 then Inl MalformedAcpiTable
            else if byte_sum m rsdp_ptr (unat (xsdp_length xsdp)) \<noteq> 0 then Inl MalformedAcpiTable
            else and_then (root_sdt m direct_map (xsdp_xsdt_address xsdp) (ascii ''XSDT'')) (\<lambda>sdt. Inr (Xsdt sdt)))
         else and_then (root_sdt m direct_map (ucast (rsdp_rsdt_address rsdp)) (ascii ''RSDT'')) (\<lambda>sdt. Inr (Rsdt sdt)))
        (\<lambda>root. Inr \<lparr>acpi_direct_map = direct_map, acpi_root = root\<rparr>))"

text \<open>The address in one entry of the root table.\<close>

definition root_entry :: "mem \<Rightarrow> AcpiTables \<Rightarrow> PhysicalAddr \<Rightarrow> AcpiError + PhysicalAddr" where
  "root_entry m acpi entry_addr =
     (case acpi_root acpi of
        Rsdt _ \<Rightarrow> and_then (acpi_read m (acpi_direct_map acpi) entry_addr 4) (\<lambda>bs. Inr (ucast (le32 0 bs)))
      | Xsdt _ \<Rightarrow> and_then (acpi_read m (acpi_direct_map acpi) entry_addr 8) (\<lambda>bs. Inr (le64 0 bs)))"

primrec find_table_loop :: "mem \<Rightarrow> AcpiTables \<Rightarrow> u8 list \<Rightarrow> usize \<Rightarrow> nat \<Rightarrow> nat \<Rightarrow> AcpiError + Sdt option" where
  "find_table_loop m acpi signature entries_start 0 i = Inr None"
| "find_table_loop m acpi signature entries_start (Suc n) i =
     (case checked_mul (of_nat i) (entry_width (acpi_root acpi)) of
        None \<Rightarrow> Inl AcpiAddressOverflow
      | Some offset \<Rightarrow>
          (case checked_add entries_start offset of
             None \<Rightarrow> Inl AcpiAddressOverflow
           | Some entry_addr \<Rightarrow>
               and_then (root_entry m acpi entry_addr) (\<lambda>physical_addr.
               and_then (acpi_read m (acpi_direct_map acpi) physical_addr 36) (\<lambda>bs.
               let header = sdt_header_of bs in
               if sdth_length header < 36 then Inl InvalidSdtLength
               else if sdth_signature header \<noteq> signature then find_table_loop m acpi signature entries_start n (Suc i)
               else and_then (checksum_valid m (acpi_direct_map acpi) physical_addr (ucast (sdth_length header))) (\<lambda>valid.
                 if \<not> valid then Inl MalformedAcpiTable
                 else Inr (Some \<lparr>sdt_physical_addr = physical_addr, sdt_length = ucast (sdth_length header),
                   sdt_signature = sdth_signature header\<rparr>))))))"

definition find_table :: "mem \<Rightarrow> AcpiTables \<Rightarrow> u8 list \<Rightarrow> AcpiError + Sdt option" where
  "find_table m acpi signature =
     (case checked_add (sdt_physical_addr (root_table (acpi_root acpi))) 36 of
        None \<Rightarrow> Inl AcpiAddressOverflow
      | Some entries_start \<Rightarrow> and_then (entry_count (acpi_root acpi)) (\<lambda>count.
          find_table_loop m acpi signature entries_start (unat count) 0))"

subsection \<open>The entries of the MADT\<close>

record MadtEntryHeader =
  eh_kind :: u8
  eh_length :: u8

record LocalApicEntry =
  la_processor_id :: u8
  la_id :: u8
  la_flags :: u32

record IoApicEntry =
  ioa_id :: u8
  ioa_reserved :: u8
  ioa_apic_address :: u32
  ioa_global_system_interrupt_base :: u32

record InterruptSourceOverride =
  iso_bus :: u8
  iso_source :: u8
  iso_global_interrupt :: u32
  iso_flags :: u16

record IoApicNmiEntry =
  ion_nmi_source :: u8
  ion_reserved :: u8
  ion_flags :: u16
  ion_global_system_interrupt :: u32

record LocalApicNmiEntry =
  lan_processor_id :: u8
  lan_flags :: u16
  lan_lint_num :: u8

record LocalApicAddressOverride =
  lao_reserved :: u16
  lao_local_apic_address :: u64

record LocalX2ApicEntry =
  x2_reserved :: u16
  x2_local_x2apic_id :: u32
  x2_flags :: u32
  x2_acpi_processor_uid :: u32

datatype MadtEntry =
  MeLocalApic LocalApicEntry | MeIoApic IoApicEntry | MeInterruptSourceOverride InterruptSourceOverride
| MeIoApicNmi IoApicNmiEntry | MeLocalApicNmi LocalApicNmiEntry | MeLocalApicAddressOverride LocalApicAddressOverride
| MeLocalX2Apic LocalX2ApicEntry | MeUnknown u8 u8

definition madt_entry_header_of :: "u8 list \<Rightarrow> MadtEntryHeader" where
  "madt_entry_header_of bs = \<lparr>eh_kind = bs ! 0, eh_length = bs ! 1\<rparr>"

definition local_apic_of :: "u8 list \<Rightarrow> LocalApicEntry" where
  "local_apic_of bs = \<lparr>la_processor_id = bs ! 0, la_id = bs ! 1, la_flags = le32 2 bs\<rparr>"

definition io_apic_of :: "u8 list \<Rightarrow> IoApicEntry" where
  "io_apic_of bs = \<lparr>ioa_id = bs ! 0, ioa_reserved = bs ! 1, ioa_apic_address = le32 2 bs, ioa_global_system_interrupt_base = le32 6 bs\<rparr>"

definition source_override_of :: "u8 list \<Rightarrow> InterruptSourceOverride" where
  "source_override_of bs = \<lparr>iso_bus = bs ! 0, iso_source = bs ! 1, iso_global_interrupt = le32 2 bs, iso_flags = le16 6 bs\<rparr>"

definition io_apic_nmi_of :: "u8 list \<Rightarrow> IoApicNmiEntry" where
  "io_apic_nmi_of bs = \<lparr>ion_nmi_source = bs ! 0, ion_reserved = bs ! 1, ion_flags = le16 2 bs, ion_global_system_interrupt = le32 4 bs\<rparr>"

definition local_apic_nmi_of :: "u8 list \<Rightarrow> LocalApicNmiEntry" where
  "local_apic_nmi_of bs = \<lparr>lan_processor_id = bs ! 0, lan_flags = le16 1 bs, lan_lint_num = bs ! 3\<rparr>"

definition address_override_of :: "u8 list \<Rightarrow> LocalApicAddressOverride" where
  "address_override_of bs = \<lparr>lao_reserved = le16 0 bs, lao_local_apic_address = le64 2 bs\<rparr>"

definition x2apic_of :: "u8 list \<Rightarrow> LocalX2ApicEntry" where
  "x2apic_of bs = \<lparr>x2_reserved = le16 0 bs, x2_local_x2apic_id = le32 2 bs, x2_flags = le32 6 bs, x2_acpi_processor_uid = le32 10 bs\<rparr>"

record MadtEntries =
  mes_direct_map :: DirectMap
  mes_current :: PhysicalAddr
  mes_end :: PhysicalAddr

definition read_body :: "mem \<Rightarrow> MadtEntries \<Rightarrow> MadtEntryHeader \<Rightarrow> usize \<Rightarrow> (u8 list \<Rightarrow> 'a) \<Rightarrow> AcpiError + 'a" where
  "read_body m it header size_of_T decode =
     (if ucast (eh_length header) < 2 + size_of_T then Inl MalformedAcpiTable
      else (case checked_add (mes_current it) 2 of
              None \<Rightarrow> Inl AcpiAddressOverflow
            | Some body_addr \<Rightarrow> and_then (acpi_read m (mes_direct_map it) body_addr (unat size_of_T)) (\<lambda>bs. Inr (decode bs))))"

definition madt_entry :: "mem \<Rightarrow> MadtEntries \<Rightarrow> MadtEntryHeader \<Rightarrow> AcpiError + MadtEntry" where
  "madt_entry m it header =
     (if eh_kind header = 0 then read_body m it header 6 (\<lambda>bs. MeLocalApic (local_apic_of bs))
      else if eh_kind header = 1 then read_body m it header 10 (\<lambda>bs. MeIoApic (io_apic_of bs))
      else if eh_kind header = 2 then read_body m it header 8 (\<lambda>bs. MeInterruptSourceOverride (source_override_of bs))
      else if eh_kind header = 3 then read_body m it header 8 (\<lambda>bs. MeIoApicNmi (io_apic_nmi_of bs))
      else if eh_kind header = 4 then read_body m it header 4 (\<lambda>bs. MeLocalApicNmi (local_apic_nmi_of bs))
      else if eh_kind header = 5 then read_body m it header 10 (\<lambda>bs. MeLocalApicAddressOverride (address_override_of bs))
      else if eh_kind header = 9 then read_body m it header 14 (\<lambda>bs. MeLocalX2Apic (x2apic_of bs))
      else Inr (MeUnknown (eh_kind header) (eh_length header)))"

definition read_next :: "mem \<Rightarrow> MadtEntries \<Rightarrow> (AcpiError + MadtEntry) \<times> MadtEntries" where
  "read_next m it =
     (case acpi_read m (mes_direct_map it) (mes_current it) 2 of
        Inl e \<Rightarrow> (Inl e, it)
      | Inr bs \<Rightarrow>
          let header = madt_entry_header_of bs in
          (case madt_entry m it header of
             Inl e \<Rightarrow> (Inl e, it)
           | Inr entry \<Rightarrow>
               (case checked_add (mes_current it) (ucast (eh_length header)) of
                  None \<Rightarrow> (Inl AcpiAddressOverflow, it)
                | Some current \<Rightarrow> (Inr entry, it\<lparr>mes_current := current\<rparr>))))"

definition madt_next :: "mem \<Rightarrow> MadtEntries \<Rightarrow> (AcpiError + MadtEntry) option \<times> MadtEntries" where
  "madt_next m it =
     (let stop = it\<lparr>mes_current := mes_end it\<rparr> in
      if mes_current it = mes_end it then (None, it)
      else if mes_end it < mes_current it then (Some (Inl MalformedAcpiTable), stop)
      else let remaining = mes_end it - mes_current it in
        if remaining < 2 then (Some (Inl MalformedAcpiTable), stop)
        else (case acpi_read m (mes_direct_map it) (mes_current it) 2 of
                Inl e \<Rightarrow> (Some (Inl e), stop)
              | Inr bs \<Rightarrow>
                  let len = (ucast (eh_length (madt_entry_header_of bs)) :: usize) in
                  if len < 2 \<or> remaining < len then (Some (Inl MalformedAcpiTable), stop)
                  else (case read_next m it of
                          (Inl e, _) \<Rightarrow> (Some (Inl e), stop)
                        | (Inr entry, it') \<Rightarrow> (Some (Inr entry), it'))))"

subsection \<open>A loop over the entries\<close>

definition madt_measure :: "MadtEntries \<Rightarrow> nat" where
  "madt_measure it = (if mes_end it < mes_current it then 1 else unat (mes_end it) - unat (mes_current it))"

lemma read_next_Inr:
  assumes "read_next m it = (Inr entry, it')"
  obtains bs where "acpi_read m (mes_direct_map it) (mes_current it) 2 = Inr bs" "madt_entry m it (madt_entry_header_of bs) = Inr entry"
    "checked_add (mes_current it) (ucast (eh_length (madt_entry_header_of bs))) = Some (mes_current it')" "it' = it\<lparr>mes_current := mes_current it'\<rparr>"
  using assms by (auto simp: read_next_def Let_def split: sum.splits option.splits)

text \<open>Each step either stops at the end of the table or moves to a later place inside it.\<close>

lemma madt_next_Inr:
  assumes "madt_next m it = (Some (Inr entry), it')"
  obtains bs where "acpi_read m (mes_direct_map it) (mes_current it) 2 = Inr bs" "madt_entry m it (madt_entry_header_of bs) = Inr entry"
    "unat (mes_current it') = unat (mes_current it) + unat (eh_length (madt_entry_header_of bs))" "2 \<le> unat (eh_length (madt_entry_header_of bs))"
    "unat (mes_current it') \<le> unat (mes_end it)" "it' = it\<lparr>mes_current := mes_current it'\<rparr>"
proof -
  obtain bs where bs: "acpi_read m (mes_direct_map it) (mes_current it) 2 = Inr bs"
      "\<not> (ucast (eh_length (madt_entry_header_of bs)) :: usize) < 2" "\<not> mes_end it - mes_current it < ucast (eh_length (madt_entry_header_of bs))"
      "read_next m it = (Inr entry, it')" "\<not> mes_end it < mes_current it"
    using assms by (auto simp: madt_next_def Let_def split: if_splits sum.splits prod.splits)
  obtain bs' where bs': "acpi_read m (mes_direct_map it) (mes_current it) 2 = Inr bs'" "madt_entry m it (madt_entry_header_of bs') = Inr entry"
      "checked_add (mes_current it) (ucast (eh_length (madt_entry_header_of bs'))) = Some (mes_current it')" "it' = it\<lparr>mes_current := mes_current it'\<rparr>"
    by (rule read_next_Inr [OF bs(4)])
  let ?l = "eh_length (madt_entry_header_of bs)"
  have u: "unat (ucast ?l :: usize) = unat ?l" by (rule unat_ucast_up)
  have l: "unat (mes_current it') = unat (mes_current it) + unat ?l" using checked_add_unat [OF bs'(3)] bs(1) bs'(1) u by simp
  have "2 \<le> unat ?l" using bs(2) by (simp add: word_less_nat_alt u)
  moreover have "unat ?l \<le> unat (mes_end it) - unat (mes_current it)"
    using bs(3,5) u by (simp add: word_less_nat_alt unat_sub word_le_nat_alt not_less)
  ultimately show thesis using that [of bs] bs(1,5) bs' l by (simp add: word_less_nat_alt)
qed

lemma madt_next_Inl:
  assumes "madt_next m it = (Some (Inl e), it')"
  shows "it' = it\<lparr>mes_current := mes_end it\<rparr>" "mes_current it \<noteq> mes_end it"
  using assms by (auto simp: madt_next_def Let_def split: if_splits sum.splits prod.splits)

lemma madt_next_measure: "madt_next m it = (Some r, it') \<Longrightarrow> madt_measure it' < madt_measure it"
proof (cases r)
  case (Inl e)
  moreover assume "madt_next m it = (Some r, it')"
  ultimately have "it' = it\<lparr>mes_current := mes_end it\<rparr>" "mes_current it \<noteq> mes_end it" using madt_next_Inl by blast+
  then show ?thesis by (auto simp: madt_measure_def word_less_nat_alt word_unat_eq_iff)
next
  case (Inr entry)
  moreover assume "madt_next m it = (Some r, it')"
  ultimately obtain l where "unat (mes_current it') = unat (mes_current it) + l" "2 \<le> l" "unat (mes_current it') \<le> unat (mes_end it)"
      "it' = it\<lparr>mes_current := mes_current it'\<rparr>"
    using madt_next_Inr by metis
  moreover then have "mes_end it' = mes_end it" by (metis MadtEntries.select_convs(3) MadtEntries.surjective MadtEntries.update_convs(2))
  ultimately show ?thesis by (simp add: madt_measure_def word_less_nat_alt)
qed

function madt_collect :: "mem \<Rightarrow> MadtEntries \<Rightarrow> (AcpiError + MadtEntry) list" where
  "madt_collect m it = (case madt_next m it of (None, _) \<Rightarrow> [] | (Some r, it') \<Rightarrow> r # madt_collect m it')"
  by pat_completeness auto

termination
  by (relation "measure (\<lambda>(m, it). madt_measure it)") (auto dest: madt_next_measure [OF sym])

declare madt_collect.simps [simp del]

subsection \<open>The table\<close>

record Madt =
  madt_acpi :: AcpiTables
  madt_table :: Sdt
  madt_local_apic_address :: PhysicalAddr
  madt_flags :: u32

definition MADT_ENTRIES_OFFSET :: usize where
  "MADT_ENTRIES_OFFSET = 36 + 8"

definition madt_entries :: "Madt \<Rightarrow> AcpiError + MadtEntries" where
  "madt_entries madt =
     (case checked_add (sdt_physical_addr (madt_table madt)) MADT_ENTRIES_OFFSET of
        None \<Rightarrow> Inl AcpiAddressOverflow
      | Some current \<Rightarrow>
          (case checked_add (sdt_physical_addr (madt_table madt)) (sdt_length (madt_table madt)) of
             None \<Rightarrow> Inl AcpiAddressOverflow
           | Some stop \<Rightarrow> Inr \<lparr>mes_direct_map = acpi_direct_map (madt_acpi madt), mes_current = current, mes_end = stop\<rparr>))"

definition madt_parse :: "mem \<Rightarrow> AcpiTables \<Rightarrow> Sdt \<Rightarrow> AcpiError + Madt" where
  "madt_parse m acpi table =
     (if sdt_signature table \<noteq> ascii ''APIC'' then Inl AcpiInvalidInput
      else if sdt_length table < 36 + 8 then Inl MalformedAcpiTable
      else (case checked_add (sdt_physical_addr table) 36 of
              None \<Rightarrow> Inl AcpiAddressOverflow
            | Some body_addr \<Rightarrow> and_then (acpi_read m (acpi_direct_map acpi) body_addr 8) (\<lambda>body.
                Inr \<lparr>madt_acpi = acpi, madt_table = table, madt_local_apic_address = ucast (le32 0 body), madt_flags = le32 4 body\<rparr>)))"

definition acpi_madt :: "mem \<Rightarrow> AcpiTables \<Rightarrow> AcpiError + Madt option" where
  "acpi_madt m acpi = and_then (find_table m acpi (ascii ''APIC'')) (\<lambda>found.
     (case found of
        Some table \<Rightarrow> and_then (madt_parse m acpi table) (\<lambda>t. Inr (Some t))
      | None \<Rightarrow> Inr None))"

fun last_override :: "PhysicalAddr \<Rightarrow> (AcpiError + MadtEntry) list \<Rightarrow> AcpiError + PhysicalAddr" where
  "last_override address [] = Inr address"
| "last_override address (r # rs) =
     and_then r (\<lambda>entry. case entry of
        MeLocalApicAddressOverride o1 \<Rightarrow> last_override (lao_local_apic_address o1) rs
      | _ \<Rightarrow> last_override address rs)"

definition effective_local_apic_address :: "mem \<Rightarrow> Madt \<Rightarrow> AcpiError + PhysicalAddr" where
  "effective_local_apic_address m madt =
     and_then (madt_entries madt) (\<lambda>it. last_override (madt_local_apic_address madt) (madt_collect m it))"

record IoApicInfo =
  ioi_id :: u8
  ioi_apic_address :: PhysicalAddr
  ioi_global_system_interrupt_base :: u32

text \<open>The closure of the \<open>filter_map\<close> in \<open>io_apics\<close>.\<close>

definition io_apic_item :: "AcpiError + MadtEntry \<Rightarrow> (AcpiError + IoApicInfo) option" where
  "io_apic_item r =
     (case r of
        Inr (MeIoApic e) \<Rightarrow> Some (Inr \<lparr>ioi_id = ioa_id e, ioi_apic_address = ucast (ioa_apic_address e),
          ioi_global_system_interrupt_base = ioa_global_system_interrupt_base e\<rparr>)
      | Inr _ \<Rightarrow> None
      | Inl e \<Rightarrow> Some (Inl e))"

definition io_apics :: "mem \<Rightarrow> Madt \<Rightarrow> AcpiError + (AcpiError + IoApicInfo) list" where
  "io_apics m madt = and_then (madt_entries madt) (\<lambda>it. Inr (List.map_filter io_apic_item (madt_collect m it)))"

definition sole_io_apic :: "mem \<Rightarrow> Madt \<Rightarrow> AcpiError + IoApicInfo" where
  "sole_io_apic m madt = and_then (io_apics m madt) (\<lambda>entries.
     (case entries of
        [] \<Rightarrow> Inl MissingIoApic
      | first # rest \<Rightarrow> and_then first (\<lambda>first.
          (case rest of
             [] \<Rightarrow> Inr first
           | second # _ \<Rightarrow> and_then second (\<lambda>_. Inl MultipleIoApicsUnsupported)))))"

datatype InterruptPolarity = ActiveHigh | ActiveLow
datatype TriggerMode = Edge | Level

record IsaIrqRoute =
  route_gsi :: u32
  route_polarity :: InterruptPolarity
  route_trigger :: TriggerMode

definition override_polarity :: "u16 \<Rightarrow> AcpiError + InterruptPolarity" where
  "override_polarity flags =
     (let f = flags AND 3 in
      if f = 0 \<or> f = 1 then Inr ActiveHigh else if f = 3 then Inr ActiveLow else Inl MalformedMadt)"

definition override_trigger :: "u16 \<Rightarrow> AcpiError + TriggerMode" where
  "override_trigger flags =
     (let f = drop_bit 2 flags AND 3 in
      if f = 0 \<or> f = 1 then Inr Edge else if f = 3 then Inr Level else Inl MalformedMadt)"

fun route_loop :: "u8 \<Rightarrow> (AcpiError + MadtEntry) list \<Rightarrow> AcpiError + IsaIrqRoute" where
  "route_loop irq [] = Inr \<lparr>route_gsi = ucast irq, route_polarity = ActiveHigh, route_trigger = Edge\<rparr>"
| "route_loop irq (r # rs) =
     and_then r (\<lambda>entry. case entry of
        MeInterruptSourceOverride o1 \<Rightarrow>
          if iso_bus o1 \<noteq> 0 then route_loop irq rs
          else if iso_source o1 \<noteq> irq then route_loop irq rs
          else and_then (override_polarity (iso_flags o1)) (\<lambda>polarity.
               and_then (override_trigger (iso_flags o1)) (\<lambda>trigger.
               Inr \<lparr>route_gsi = iso_global_interrupt o1, route_polarity = polarity, route_trigger = trigger\<rparr>))
      | _ \<Rightarrow> route_loop irq rs)"

definition isa_irq_route :: "mem \<Rightarrow> Madt \<Rightarrow> u8 \<Rightarrow> AcpiError + IsaIrqRoute" where
  "isa_irq_route m madt irq = and_then (madt_entries madt) (\<lambda>it. route_loop irq (madt_collect m it))"

subsection \<open>Nothing outside the table is read\<close>

text \<open>Two memories that hold the same bytes between two physical addresses.\<close>

definition same_between :: "DirectMap \<Rightarrow> PhysicalAddr \<Rightarrow> PhysicalAddr \<Rightarrow> mem \<Rightarrow> mem \<Rightarrow> bool" where
  "same_between dm start stop m m' \<longleftrightarrow> (\<forall>x. start \<le> x \<longrightarrow> x < stop \<longrightarrow> m' (x + dm_offset dm) = m (x + dm_offset dm))"

lemma acpi_read_cong:
  assumes same: "same_between dm start stop m m'" and "start \<le> a" "unat a + n \<le> unat stop"
  shows "acpi_read m' dm a n = acpi_read m dm a n"
proof -
  have "m' (a + dm_offset dm + of_nat i) = m (a + dm_offset dm + of_nat i)" if "i < n" for i
  proof -
    have "unat (a + of_nat i) = unat a + i" using that assms(3) unat_u64_bound [of stop] by (intro unat_add_small) simp
    then have "start \<le> a + of_nat i" "a + of_nat i < stop" using assms(2,3) that by (simp_all add: word_le_nat_alt word_less_nat_alt)
    then have "m' (a + of_nat i + dm_offset dm) = m (a + of_nat i + dm_offset dm)" using same by (simp add: same_between_def)
    then show ?thesis by (simp add: add_ac)
  qed
  then have "read_bytes m' (a + dm_offset dm) n = read_bytes m (a + dm_offset dm) n" by (simp add: read_bytes_def)
  then show ?thesis by (auto simp: acpi_read_def translate_def checked_add_def)
qed

lemma madt_next_cong:
  assumes same: "same_between (mes_direct_map it) start (mes_end it) m m'" and start: "start \<le> mes_current it"
  shows "madt_next m' it = madt_next m it"
proof (cases "mes_current it < mes_end it \<and> \<not> mes_end it - mes_current it < 2")
  case False
  then show ?thesis by (auto simp: madt_next_def Let_def)
next
  case True
  let ?a = "mes_current it" and ?dm = "mes_direct_map it" and ?e = "mes_end it"
  have d: "unat (?e - ?a) = unat ?e - unat ?a" using True by (simp add: unat_sub order.strict_implies_order)
  then have two: "unat ?a + 2 \<le> unat ?e" using True by (simp add: word_less_nat_alt) linarith
  have h: "acpi_read m' ?dm ?a 2 = acpi_read m ?dm ?a 2" using acpi_read_cong [OF same start] two by simp
  show ?thesis
  proof (cases "acpi_read m ?dm ?a 2")
    case (Inl e)
    then show ?thesis using h by (simp add: madt_next_def Let_def)
  next
    case (Inr bs)
    let ?h = "madt_entry_header_of bs"
    show ?thesis
    proof (cases "(ucast (eh_length ?h) :: usize) < 2 \<or> ?e - ?a < ucast (eh_length ?h)")
      case True
      then show ?thesis using h Inr by (auto simp: madt_next_def Let_def)
    next
      case False
      then have len: "2 \<le> unat (eh_length ?h)" "unat ?a + unat (eh_length ?h) \<le> unat ?e"
        using d two by (simp_all add: word_less_nat_alt not_less, linarith)
      have body: "read_body m' it ?h sz dec = read_body m it ?h sz dec" if "unat sz < 2 ^ 32" for sz and dec :: "u8 list \<Rightarrow> MadtEntry"
      proof (cases "ucast (eh_length ?h) < 2 + sz")
        case True
        then show ?thesis by (simp add: read_body_def)
      next
        case False
        have "unat (2 + sz) = 2 + unat sz" using that by (subst unat_add_no_overflow) simp_all
        then have sz: "2 + unat sz \<le> unat (eh_length ?h)" using False by (simp add: word_less_nat_alt)
        have "acpi_read m' ?dm b (unat sz) = acpi_read m ?dm b (unat sz)" if b: "checked_add ?a 2 = Some b" for b
          using checked_add_unat [OF b] len sz start
          by (intro acpi_read_cong [OF same]) (simp_all add: word_le_nat_alt)
        then show ?thesis by (simp add: read_body_def split: option.split)
      qed
      have "madt_entry m' it ?h = madt_entry m it ?h" by (simp add: madt_entry_def body)
      then have "read_next m' it = read_next m it" using h Inr by (simp add: read_next_def Let_def)
      then show ?thesis by (simp only: madt_next_def h)
    qed
  qed
qed

lemma madt_next_fields:
  assumes "madt_next m it = (Some r, it')"
  shows "mes_direct_map it' = mes_direct_map it" "mes_end it' = mes_end it"
    "mes_current it' = mes_end it' \<or> mes_current it \<le> mes_current it'"
proof -
  have "mes_direct_map it' = mes_direct_map it \<and> mes_end it' = mes_end it \<and> (mes_current it' = mes_end it' \<or> mes_current it \<le> mes_current it')"
  proof (cases r)
    case (Inl e)
    then show ?thesis using madt_next_Inl(1) [OF assms [unfolded Inl]] by simp
  next
    case (Inr entry)
    obtain c n where "it' = it\<lparr>mes_current := c\<rparr>" "unat c = unat (mes_current it) + n"
      using assms unfolding Inr by (rule madt_next_Inr) blast
    then show ?thesis by (simp add: word_le_nat_alt)
  qed
  then show "mes_direct_map it' = mes_direct_map it" "mes_end it' = mes_end it"
    "mes_current it' = mes_end it' \<or> mes_current it \<le> mes_current it'" by auto
qed

lemma madt_collect_cong:
  assumes "same_between (mes_direct_map it) start (mes_end it) m m'" "mes_current it = mes_end it \<or> start \<le> mes_current it"
  shows "madt_collect m' it = madt_collect m it"
  using assms
proof (induction m it rule: madt_collect.induct)
  case (1 m it)
  have nx: "madt_next m' it = madt_next m it"
    using 1(3) madt_next_cong [OF 1(2)] by (auto simp: madt_next_def Let_def)
  obtain r it' where r: "madt_next m it = (r, it')" by (cases "madt_next m it")
  show ?case
  proof (cases r)
    case None
    then show ?thesis using r nx by (simp add: madt_collect.simps [of _ it])
  next
    case (Some x)
    note f = madt_next_fields [OF r [unfolded Some]]
    have "mes_current it \<noteq> mes_end it" using r Some by (auto simp: madt_next_def Let_def)
    then have "mes_current it' = mes_end it' \<or> start \<le> mes_current it'" using f(3) 1(3) by auto
    then have "madt_collect m' it' = madt_collect m it'" using 1(1) [OF r [symmetric] Some] 1(2) f(1,2) by simp
    then show ?thesis using r nx Some by (simp add: madt_collect.simps [of _ it])
  qed
qed

text \<open>An error ends the iteration.\<close>

lemma madt_collect_shape: "\<exists>es. madt_collect m it = map Inr es \<or> (\<exists>e. madt_collect m it = map Inr es @ [Inl e])"
proof (induction m it rule: madt_collect.induct)
  case (1 m it)
  obtain r it' where r: "madt_next m it = (r, it')" by (cases "madt_next m it")
  show ?case
  proof (cases r)
    case None
    then show ?thesis using r by (simp add: madt_collect.simps [of _ it])
  next
    case (Some x)
    show ?thesis
    proof (cases x)
      case (Inl e)
      then have "it' = it\<lparr>mes_current := mes_end it\<rparr>" using madt_next_Inl r Some by blast
      then have "madt_collect m it' = []" by (subst madt_collect.simps) (simp add: madt_next_def Let_def)
      then have "madt_collect m it = map Inr [] @ [Inl e]" using r Some Inl by (simp add: madt_collect.simps [of _ it])
      then show ?thesis by blast
    next
      case (Inr entry)
      obtain es where "madt_collect m it' = map Inr es \<or> (\<exists>e. madt_collect m it' = map Inr es @ [Inl e])"
        using 1 [OF r [symmetric] Some] by blast
      then have "madt_collect m it = map Inr (entry # es) \<or> (\<exists>e. madt_collect m it = map Inr (entry # es) @ [Inl e])"
        using r Some Inr by (auto simp: madt_collect.simps [of _ it])
      then show ?thesis by blast
    qed
  qed
qed

text \<open>
  Whatever the firmware put into the MADT, a loop over its entries ends, nothing
  outside the table is read (changing any other byte of memory changes nothing it sees),
  and an error can only be the last thing it sees.
\<close>

theorem madt_entries_bounded:
  assumes "madt_entries t = Inr it"
    and "same_between (mes_direct_map it) (sdt_physical_addr (madt_table t)) (sdt_physical_addr (madt_table t) + sdt_length (madt_table t)) m m'"
  shows "madt_collect m' it = madt_collect m it
    \<and> (\<exists>es. madt_collect m it = map Inr es \<or> (\<exists>e. madt_collect m it = map Inr es @ [Inl e]))"
proof -
  let ?p = "sdt_physical_addr (madt_table t)"
  have it: "checked_add ?p MADT_ENTRIES_OFFSET = Some (mes_current it)" "mes_end it = ?p + sdt_length (madt_table t)"
    using assms(1) by (auto simp: madt_entries_def checked_simps split: option.splits)
  have "?p \<le> mes_current it" using checked_add_unat [OF it(1)] by (simp add: word_le_nat_alt)
  then have "madt_collect m' it = madt_collect m it"
    using assms(2) unfolding it(2) [symmetric] by (intro madt_collect_cong) auto
  then show ?thesis using madt_collect_shape by blast
qed

subsection \<open>Well-formed tables\<close>

text \<open>
  How firmware writes an entry: its kind, its length, its fields, and possibly more bytes
  that a later revision of the format added.
\<close>

fun entry_kind :: "MadtEntry \<Rightarrow> u8" where
  "entry_kind (MeLocalApic _) = 0"
| "entry_kind (MeIoApic _) = 1"
| "entry_kind (MeInterruptSourceOverride _) = 2"
| "entry_kind (MeIoApicNmi _) = 3"
| "entry_kind (MeLocalApicNmi _) = 4"
| "entry_kind (MeLocalApicAddressOverride _) = 5"
| "entry_kind (MeLocalX2Apic _) = 9"
| "entry_kind (MeUnknown kind _) = kind"

fun entry_fields :: "MadtEntry \<Rightarrow> u8 list" where
  "entry_fields (MeLocalApic e) = [la_processor_id e, la_id e] @ to_le_bytes 4 (la_flags e)"
| "entry_fields (MeIoApic e) = [ioa_id e, ioa_reserved e] @ to_le_bytes 4 (ioa_apic_address e) @ to_le_bytes 4 (ioa_global_system_interrupt_base e)"
| "entry_fields (MeInterruptSourceOverride e) = [iso_bus e, iso_source e] @ to_le_bytes 4 (iso_global_interrupt e) @ to_le_bytes 2 (iso_flags e)"
| "entry_fields (MeIoApicNmi e) = [ion_nmi_source e, ion_reserved e] @ to_le_bytes 2 (ion_flags e) @ to_le_bytes 4 (ion_global_system_interrupt e)"
| "entry_fields (MeLocalApicNmi e) = [lan_processor_id e] @ to_le_bytes 2 (lan_flags e) @ [lan_lint_num e]"
| "entry_fields (MeLocalApicAddressOverride e) = to_le_bytes 2 (lao_reserved e) @ to_le_bytes 8 (lao_local_apic_address e)"
| "entry_fields (MeLocalX2Apic e) = to_le_bytes 2 (x2_reserved e) @ to_le_bytes 4 (x2_local_x2apic_id e) @ to_le_bytes 4 (x2_flags e)
     @ to_le_bytes 4 (x2_acpi_processor_uid e)"
| "entry_fields (MeUnknown _ _) = []"

definition item_length :: "MadtEntry \<times> u8 list \<Rightarrow> nat" where
  "item_length item = 2 + length (entry_fields (fst item)) + length (snd item)"

definition item_bytes :: "MadtEntry \<times> u8 list \<Rightarrow> u8 list" where
  "item_bytes item = [entry_kind (fst item), of_nat (item_length item)] @ entry_fields (fst item) @ snd item"

definition item_ok :: "MadtEntry \<times> u8 list \<Rightarrow> bool" where
  "item_ok item \<longleftrightarrow> item_length item < 256 \<and>
     (case fst item of MeUnknown kind len \<Rightarrow> kind \<notin> {0, 1, 2, 3, 4, 5, 9} \<and> unat len = item_length item | _ \<Rightarrow> True)"

lemma length_item_bytes [simp]: "length (item_bytes item) = item_length item"
  by (simp add: item_bytes_def item_length_def)

lemma read_bytes_part:
  assumes "read_bytes m a (length bs) = bs" "k + n \<le> length bs"
  shows "read_bytes m (a + of_nat k) n = take n (drop k bs)"
proof (rule nth_equalityI)
  fix i assume "i < length (read_bytes m (a + of_nat k) n)"
  then have i: "i < n" by (simp add: read_bytes_def)
  have "bs ! (k + i) = read_bytes m a (length bs) ! (k + i)" using assms(1) by simp
  also have "\<dots> = m (a + of_nat (k + i))" using i assms(2) by (simp add: read_bytes_def)
  finally show "read_bytes m (a + of_nat k) n ! i = take n (drop k bs) ! i"
    using i assms(2) by (simp add: read_bytes_def add_ac)
qed (use assms(2) in \<open>simp add: read_bytes_def\<close>)

text \<open>Reading inside bytes that are known.\<close>

lemma acpi_read_part:
  assumes "read_bytes m (a + dm_offset dm) (length bs) = bs" "unat a + unat (dm_offset dm) + length bs < 2 ^ 64" "k + n \<le> length bs"
  shows "acpi_read m dm (a + of_nat k) n = Inr (take n (drop k bs))"
proof -
  have "k < 2 ^ 64" "unat a + k < 2 ^ 64" using assms(2,3) by simp_all
  then have "unat (a + of_nat k) = unat a + k" by (intro unat_add_small) simp
  then have "translate dm (a + of_nat k) = Some (a + dm_offset dm + of_nat k)"
    using assms(2,3) by (simp add: translate_Some_iff)
  then show ?thesis using read_bytes_part [OF assms(1,3)] by (simp add: acpi_read_def)
qed

lemmas decode_defs = local_apic_of_def io_apic_of_def source_override_of_def io_apic_nmi_of_def local_apic_nmi_of_def
  address_override_of_def x2apic_of_def le16_def le32_def le64_def

lemma decode_fields:
  "local_apic_of ([la_processor_id e1, la_id e1] @ to_le_bytes 4 (la_flags e1)) = e1"
  "io_apic_of ([ioa_id e2, ioa_reserved e2] @ to_le_bytes 4 (ioa_apic_address e2) @ to_le_bytes 4 (ioa_global_system_interrupt_base e2)) = e2"
  "source_override_of ([iso_bus e3, iso_source e3] @ to_le_bytes 4 (iso_global_interrupt e3) @ to_le_bytes 2 (iso_flags e3)) = e3"
  "io_apic_nmi_of ([ion_nmi_source e4, ion_reserved e4] @ to_le_bytes 2 (ion_flags e4) @ to_le_bytes 4 (ion_global_system_interrupt e4)) = e4"
  "local_apic_nmi_of ([lan_processor_id e5] @ to_le_bytes 2 (lan_flags e5) @ [lan_lint_num e5]) = e5"
  "address_override_of (to_le_bytes 2 (lao_reserved e6) @ to_le_bytes 8 (lao_local_apic_address e6)) = e6"
  "x2apic_of (to_le_bytes 2 (x2_reserved e7) @ to_le_bytes 4 (x2_local_x2apic_id e7) @ to_le_bytes 4 (x2_flags e7) @ to_le_bytes 4 (x2_acpi_processor_uid e7)) = e7"
  by (simp_all add: decode_defs nth_append)

lemma madt_entry_item:
  assumes mem: "read_bytes m (mes_current it + dm_offset (mes_direct_map it)) (length bs) = bs"
      "unat (mes_current it) + unat (dm_offset (mes_direct_map it)) + length bs < 2 ^ 64"
    and bs: "bs = item_bytes item @ rest" and ok: "item_ok item"
  shows "madt_entry m it \<lparr>eh_kind = entry_kind (fst item), eh_length = of_nat (item_length item)\<rparr> = Inr (fst item)"
proof -
  let ?h = "\<lparr>eh_kind = entry_kind (fst item), eh_length = of_nat (item_length item)\<rparr>"
  have small: "item_length item < 256" using ok by (simp add: item_ok_def)
  then have len: "unat (of_nat (item_length item) :: u8) = item_length item" by (simp add: unat_of_nat)
  obtain b where b: "checked_add (mes_current it) 2 = Some b" "b = mes_current it + of_nat 2"
    using mem(2) bs by (auto simp: checked_add_def item_length_def)
  have body: "read_body m it ?h sz dec = Inr (dec (entry_fields (fst item)))"
    if "unat sz = length (entry_fields (fst item))" for sz and dec :: "u8 list \<Rightarrow> MadtEntry"
  proof -
    have "unat (2 + sz) = 2 + unat sz" using that small by (subst unat_add_no_overflow) (simp_all add: item_length_def)
    then have "\<not> ucast (of_nat (item_length item) :: u8) < 2 + sz" using that len by (simp add: word_less_nat_alt item_length_def)
    moreover have "acpi_read m (mes_direct_map it) b (unat sz) = Inr (take (unat sz) (drop 2 bs))"
      unfolding b(2) by (rule acpi_read_part [OF mem]) (simp add: bs item_length_def that)
    moreover have "take (unat sz) (drop 2 bs) = entry_fields (fst item)" by (simp add: bs item_bytes_def that)
    ultimately show ?thesis using b(1) by (simp add: read_body_def)
  qed
  show ?thesis
  proof (cases "fst item")
    case (MeUnknown kind l)
    then have "l = of_nat (item_length item)" using ok len by (simp add: item_ok_def word_unat_eq_iff)
    then show ?thesis using MeUnknown ok by (simp add: madt_entry_def item_ok_def)
  qed (use body in \<open>simp_all add: madt_entry_def decode_fields [simplified]\<close>)
qed

lemma madt_next_item:
  assumes mem: "read_bytes m (mes_current it + dm_offset (mes_direct_map it)) (length bs) = bs"
      "unat (mes_current it) + unat (dm_offset (mes_direct_map it)) + length bs < 2 ^ 64"
    and bs: "bs = item_bytes item @ rest" and ok: "item_ok item" and stop: "unat (mes_end it) = unat (mes_current it) + length bs"
  shows "madt_next m it = (Some (Inr (fst item)), it\<lparr>mes_current := mes_current it + of_nat (item_length item)\<rparr>)"
proof -
  let ?l = "item_length item"
  have two: "2 \<le> ?l" "?l < 256" using ok by (simp_all add: item_length_def item_ok_def)
  have len: "unat (of_nat ?l :: u8) = ?l" using two by (simp add: unat_of_nat)
  have lb: "?l \<le> length bs" by (simp add: bs)
  have lt: "mes_current it < mes_end it" unfolding word_less_nat_alt using stop lb two by linarith
  then have ne: "mes_current it \<noteq> mes_end it" "\<not> unat (mes_end it) < unat (mes_current it)" by (auto simp: word_less_nat_alt)
  have rem: "unat (mes_end it - mes_current it) = length bs" using stop lt by (simp add: unat_sub order.strict_implies_order)
  have "acpi_read m (mes_direct_map it) (mes_current it + of_nat 0) 2 = Inr (take 2 (drop 0 bs))"
    by (rule acpi_read_part [OF mem]) (use lb two in simp)
  then have rd: "acpi_read m (mes_direct_map it) (mes_current it) 2 = Inr [entry_kind (fst item), of_nat ?l]"
    by (simp add: bs item_bytes_def)
  have hd: "madt_entry_header_of [entry_kind (fst item), of_nat ?l] = \<lparr>eh_kind = entry_kind (fst item), eh_length = of_nat ?l\<rparr>"
    by (simp add: madt_entry_header_of_def)
  have "ucast (of_nat ?l :: u8) = (of_nat ?l :: usize)" by (rule eq_of_unat) (simp add: len)
  moreover have "checked_add (mes_current it) (of_nat ?l) = Some (mes_current it + of_nat ?l)"
    using mem(2) lb two by (simp add: checked_add_def)
  ultimately have "read_next m it = (Inr (fst item), it\<lparr>mes_current := mes_current it + of_nat ?l\<rparr>)"
    using madt_entry_item [OF mem bs ok] by (simp add: read_next_def rd hd Let_def)
  then show ?thesis
    using ne two lb len rem by (simp add: madt_next_def Let_def rd hd word_less_nat_alt)
qed

lemma madt_collect_items:
  assumes "\<forall>item \<in> set items. item_ok item"
    and "read_bytes m (mes_current it + dm_offset (mes_direct_map it)) (length (concat (map item_bytes items))) = concat (map item_bytes items)"
    and "unat (mes_current it) + unat (dm_offset (mes_direct_map it)) + length (concat (map item_bytes items)) < 2 ^ 64"
    and "unat (mes_end it) = unat (mes_current it) + length (concat (map item_bytes items))"
  shows "madt_collect m it = map (\<lambda>item. Inr (fst item)) items"
  using assms
proof (induction items arbitrary: it)
  case Nil
  then have "mes_current it = mes_end it" by (simp add: word_unat_eq_iff)
  then show ?case by (subst madt_collect.simps) (simp add: madt_next_def)
next
  case (Cons item items)
  let ?rest = "concat (map item_bytes items)" and ?l = "item_length item"
  let ?it = "it\<lparr>mes_current := mes_current it + of_nat ?l\<rparr>"
  have bs: "concat (map item_bytes (item # items)) = item_bytes item @ ?rest" by simp
  have ok: "item_ok item" using Cons.prems(1) by simp
  have nx: "madt_next m it = (Some (Inr (fst item)), ?it)"
    by (rule madt_next_item [OF Cons.prems(2,3) bs ok Cons.prems(4)])
  have u: "unat (mes_current it + of_nat ?l) = unat (mes_current it) + ?l"
    using Cons.prems(3) by (intro unat_add_small) simp
  have "read_bytes m (mes_current it + dm_offset (mes_direct_map it) + of_nat ?l) (length ?rest) = take (length ?rest) (drop ?l (item_bytes item @ ?rest))"
    using Cons.prems(2) unfolding bs by (rule read_bytes_part) simp
  then have "read_bytes m (mes_current ?it + dm_offset (mes_direct_map ?it)) (length ?rest) = ?rest" by (simp add: add_ac)
  then have "madt_collect m ?it = map (\<lambda>item. Inr (fst item)) items"
    using Cons.prems u by (intro Cons.IH) simp_all
  then show ?case using nx by (subst madt_collect.simps) simp
qed

text \<open>The interrupt source overrides of the ISA bus for an interrupt line.\<close>

definition overrides :: "u8 \<Rightarrow> MadtEntry \<Rightarrow> bool" where
  "overrides irq e = (case e of MeInterruptSourceOverride o1 \<Rightarrow> iso_bus o1 = 0 \<and> iso_source o1 = irq | _ \<Rightarrow> False)"

definition override_route :: "MadtEntry \<Rightarrow> AcpiError + IsaIrqRoute" where
  "override_route e = (case e of
     MeInterruptSourceOverride o1 \<Rightarrow> and_then (override_polarity (iso_flags o1)) (\<lambda>p. and_then (override_trigger (iso_flags o1)) (\<lambda>t.
       Inr \<lparr>route_gsi = iso_global_interrupt o1, route_polarity = p, route_trigger = t\<rparr>))
   | _ \<Rightarrow> Inl MalformedMadt)"

lemma route_loop_entries:
  "route_loop irq (map Inr es) = (case find (overrides irq) es of
     None \<Rightarrow> Inr \<lparr>route_gsi = ucast irq, route_polarity = ActiveHigh, route_trigger = Edge\<rparr>
   | Some e \<Rightarrow> override_route e)"
  by (induction es) (auto simp: overrides_def override_route_def split: MadtEntry.split)

text \<open>
  (C37) From a MADT that holds a list of entries, the kernel reads back exactly these
  entries, whatever bytes later revisions appended to each of them; an ISA interrupt is
  routed by the first override for its line and otherwise to the input of the same number.
\<close>

theorem madt_roundtrip:
  assumes table: "sdt_length (madt_table t) = of_nat (44 + length (concat (map item_bytes items)))" "length hdr = 44"
      "read_bytes m (sdt_physical_addr (madt_table t) + dm_offset (acpi_direct_map (madt_acpi t))) (44 + length (concat (map item_bytes items)))
        = hdr @ concat (map item_bytes items)"
    and range: "unat (sdt_physical_addr (madt_table t)) + unat (dm_offset (acpi_direct_map (madt_acpi t)))
        + (44 + length (concat (map item_bytes items))) < 2 ^ 64"
    and items: "\<forall>item \<in> set items. item_ok item"
  shows "(\<exists>it. madt_entries t = Inr it \<and> madt_collect m it = map Inr (map fst items))
    \<and> isa_irq_route m t irq = (case find (overrides irq) (map fst items) of
         None \<Rightarrow> Inr \<lparr>route_gsi = ucast irq, route_polarity = ActiveHigh, route_trigger = Edge\<rparr>
       | Some e \<Rightarrow> override_route e)"
proof -
  let ?p = "sdt_physical_addr (madt_table t)" and ?dm = "acpi_direct_map (madt_acpi t)" and ?bs = "concat (map item_bytes items)"
  let ?it = "\<lparr>mes_direct_map = ?dm, mes_current = ?p + 44, mes_end = ?p + of_nat (44 + length ?bs)\<rparr>"
  have len: "unat (of_nat (44 + length ?bs) :: usize) = 44 + length ?bs" using range by (intro unat_of_nat_u64) simp
  have u: "unat (?p + 44) = unat ?p + 44" "unat (?p + of_nat (44 + length ?bs)) = unat ?p + (44 + length ?bs)"
    using range len by (subst unat_add_no_overflow; simp del: of_nat_add)+
  have e: "madt_entries t = Inr ?it"
    using range len by (simp add: madt_entries_def table(1) MADT_ENTRIES_OFFSET_def checked_add_def del: of_nat_add)
  have "read_bytes m (?p + dm_offset ?dm + of_nat 44) (length ?bs) = take (length ?bs) (drop 44 (hdr @ ?bs))"
    by (rule read_bytes_part) (use table(2,3) in simp_all)
  then have "read_bytes m (?p + 44 + dm_offset ?dm) (length ?bs) = ?bs" using table(2) by (simp add: add_ac)
  then have c: "madt_collect m ?it = map (\<lambda>item. Inr (fst item)) items"
    using range u by (intro madt_collect_items [OF items]) (simp_all del: of_nat_add)
  then have "madt_collect m ?it = map Inr (map fst items)" by simp
  then show ?thesis using e by (simp only: isa_irq_route_def and_then_simps route_loop_entries) simp
qed

text \<open>A table with one I/O APIC, an override of the timer interrupt and an entry of a later revision.\<close>

definition sample_items :: "(MadtEntry \<times> u8 list) list" where
  "sample_items = [
     (MeIoApic \<lparr>ioa_id = 0, ioa_reserved = 0, ioa_apic_address = 0xFEC00000, ioa_global_system_interrupt_base = 0\<rparr>, []),
     (MeInterruptSourceOverride \<lparr>iso_bus = 0, iso_source = 0, iso_global_interrupt = 2, iso_flags = 0xF\<rparr>, []),
     (MeUnknown 0x10 4, [7, 7])]"

definition sample_madt :: Madt where
  "sample_madt = \<lparr>madt_acpi = \<lparr>acpi_direct_map = \<lparr>dm_offset = 0x1000000\<rparr>, acpi_root = Xsdt \<lparr>sdt_physical_addr = 0, sdt_length = 36, sdt_signature = []\<rparr>\<rparr>,
     madt_table = \<lparr>sdt_physical_addr = 0x1000, sdt_length = 70, sdt_signature = ascii ''APIC''\<rparr>, madt_local_apic_address = 0, madt_flags = 0\<rparr>"

definition sample_madt_mem :: mem where
  "sample_madt_mem = write_bytes (\<lambda>_. 0) 0x1001000 (replicate 44 0 @ concat (map item_bytes sample_items))"

lemma sample_items_ok: "\<forall>item \<in> set sample_items. item_ok item" "length (concat (map item_bytes sample_items)) = 26"
  by (simp_all add: sample_items_def item_ok_def item_length_def)

lemma sample_madt_bytes: "read_bytes sample_madt_mem 0x1001000 (44 + length (concat (map item_bytes sample_items)))
    = replicate 44 0 @ concat (map item_bytes sample_items)"
proof -
  have l: "length (replicate 44 0 @ concat (map item_bytes sample_items)) = 70"
    unfolding length_append sample_items_ok(2) length_replicate by simp
  have small: "(70 :: nat) \<le> 2 ^ 64" by simp
  then have "read_bytes sample_madt_mem 0x1001000 70 = replicate 44 0 @ concat (map item_bytes sample_items)"
    unfolding sample_madt_mem_def by (metis l read_write_bytes small)
  then show ?thesis unfolding sample_items_ok(2) by simp
qed

theorem madt_roundtrip_witness:
  "isa_irq_route sample_madt_mem sample_madt 0 = Inr \<lparr>route_gsi = 2, route_polarity = ActiveLow, route_trigger = Level\<rparr>
   \<and> isa_irq_route sample_madt_mem sample_madt 1 = Inr \<lparr>route_gsi = 1, route_polarity = ActiveHigh, route_trigger = Edge\<rparr>"
proof -
  have m: "sdt_length (madt_table sample_madt) = of_nat (44 + length (concat (map item_bytes sample_items)))" "length (replicate 44 (0 :: u8)) = 44"
      "read_bytes sample_madt_mem (sdt_physical_addr (madt_table sample_madt) + dm_offset (acpi_direct_map (madt_acpi sample_madt)))
        (44 + length (concat (map item_bytes sample_items))) = replicate 44 0 @ concat (map item_bytes sample_items)"
      "unat (sdt_physical_addr (madt_table sample_madt)) + unat (dm_offset (acpi_direct_map (madt_acpi sample_madt)))
        + (44 + length (concat (map item_bytes sample_items))) < 2 ^ 64"
    using sample_madt_bytes unfolding sample_items_ok(2) by (simp_all add: sample_madt_def)
  note r = conjunct2 [OF madt_roundtrip [OF m sample_items_ok(1)]]
  show ?thesis
    unfolding r by (simp add: sample_items_def overrides_def override_route_def override_polarity_def override_trigger_def Let_def)
qed

theorem madt_entries_bounded_witness:
  "\<exists>it. madt_entries sample_madt = Inr it \<and> madt_collect (sample_madt_mem (0x1000FFF := 9, 0x1001046 := 9)) it = madt_collect sample_madt_mem it"
proof -
  obtain it where it: "madt_entries sample_madt = Inr it" "mes_direct_map it = \<lparr>dm_offset = 0x1000000\<rparr>"
    by (simp add: madt_entries_def sample_madt_def checked_add_def MADT_ENTRIES_OFFSET_def)
  have "x + 0x1000000 \<noteq> (0x1000FFF :: usize) \<and> x + 0x1000000 \<noteq> (0x1001046 :: usize)" if "0x1000 \<le> x" "x < 0x1046" for x :: usize
    using that by (auto simp: eq_diff_eq [symmetric])
  then have "same_between (mes_direct_map it) (sdt_physical_addr (madt_table sample_madt))
      (sdt_physical_addr (madt_table sample_madt) + sdt_length (madt_table sample_madt)) sample_madt_mem (sample_madt_mem (0x1000FFF := 9, 0x1001046 := 9))"
    by (simp add: same_between_def it(2) sample_madt_def)
  then show ?thesis using madt_entries_bounded [OF it(1)] it(1) by blast
qed

end
