(* ===== verification/Io_Apic.thy ===== *)
theory Io_Apic
  imports Devices Acpi Address_Space_Correctness
begin

section \<open>The I/O APIC\<close>

text \<open>
  \<open>io_apic.rs\<close>: the controller that routes device interrupts. It is reached through two memory
  locations, the register select at its base and the data window 16 bytes above, and each
  interrupt line has a redirection entry of two 32-bit registers. The hardware is the bus of
  theory \<open>Devices\<close>; the hypothesis \<open>io_apic_device\<close> states the documented behaviour the driver relies
  on: what is selected is what the window accesses, and the driver's bits of a redirection
  register read back what was stored; the status bits and the reserved bits are the hardware's.
\<close>

datatype IoApicError = IdMismatch u8 u8 | GsiOutsideRange | FailedToMapIoApic | InvalidRedirectionIndex

record RedirectionConfig =
  rc_vector :: u8
  rc_destination :: u8
  rc_polarity :: InterruptPolarity
  rc_trigger :: TriggerMode

record IoApic =
  io_base :: VirtualAddr
  io_global_interrupt_base :: u32
  io_redirection_entry_count :: u32

definition IOWIN :: usize where "IOWIN = 0x10"
definition IOAPIC_ID :: u8 where "IOAPIC_ID = 0x00"
definition IOAPIC_VERSION :: u8 where "IOAPIC_VERSION = 0x01"
definition IOAPIC_REDIRECTION_BASE :: u8 where "IOAPIC_REDIRECTION_BASE = 0x10"
definition MASKED :: u32 where "MASKED = push_bit 16 1"

definition IOAPIC_VIRTUAL_ADDRESS :: VirtualAddr where
  "IOAPIC_VIRTUAL_ADDRESS = 0xFFFFFFFD10000000"

definition io_read :: "'d Bus \<Rightarrow> IoApic \<Rightarrow> u8 \<Rightarrow> 'd \<Rightarrow> u32 \<times> 'd" where
  "io_read bus io register d = bus_load bus (io_base io + IOWIN) (bus_store bus (io_base io) (ucast register) d)"

definition io_write :: "'d Bus \<Rightarrow> IoApic \<Rightarrow> u8 \<Rightarrow> u32 \<Rightarrow> 'd \<Rightarrow> 'd" where
  "io_write bus io register value d = bus_store bus (io_base io + IOWIN) value (bus_store bus (io_base io) (ucast register) d)"

definition io_apic_new ::
  "'d Bus \<Rightarrow> u8 \<Rightarrow> PhysicalAddr \<Rightarrow> u32 \<Rightarrow> VirtualAddr \<Rightarrow> AddressSpace \<Rightarrow> alloc_mem \<Rightarrow> 'd \<Rightarrow>
   ((IoApicError + IoApic) \<times> alloc_mem \<times> 'd) panics" where
  "io_apic_new bus expected_id physical_address global_interrupt_base virtual_address space s d = do {
     (r, s) \<leftarrow> address_space_map space physical_address virtual_address (page_permissions True False False) Uncacheable s;
     (case r of
        Inl _ \<Rightarrow> Ret (Inl FailedToMapIoApic, s, d)
      | Inr _ \<Rightarrow>
          let io = \<lparr>io_base = virtual_address, io_global_interrupt_base = global_interrupt_base, io_redirection_entry_count = 0\<rparr>;
              (version, d) = io_read bus io IOAPIC_VERSION d;
              io = io\<lparr>io_redirection_entry_count := (drop_bit 16 version AND 0xFF) + 1\<rparr>;
              (id_register, d) = io_read bus io IOAPIC_ID d;
              id = ucast (drop_bit 24 id_register AND 0xF)
          in if id \<noteq> expected_id then Ret (Inl (IdMismatch expected_id id), s, d) else Ret (Inr io, s, d)) }"

definition redirection_index :: "IoApic \<Rightarrow> u32 \<Rightarrow> IoApicError + u32" where
  "redirection_index io gsi =
     (case checked_sub gsi (io_global_interrupt_base io) of
        None \<Rightarrow> Inl GsiOutsideRange
      | Some index \<Rightarrow> if io_redirection_entry_count io \<le> index then Inl GsiOutsideRange else Inr index)"

definition handles_gsi :: "IoApic \<Rightarrow> u32 \<Rightarrow> bool" where
  "handles_gsi io gsi =
     (case checked_sub gsi (io_global_interrupt_base io) of
        Some index \<Rightarrow> index < io_redirection_entry_count io
      | None \<Rightarrow> False)"

text \<open>\<open>u8::try_from\<close>, and the register numbers of a redirection entry; the sums can overflow in principle.\<close>

definition u8_try_from :: "u32 \<Rightarrow> IoApicError + u8" where
  "u8_try_from x = (if x \<le> 0xFF then Inr (ucast x) else Inl InvalidRedirectionIndex)"

definition redirection_registers :: "IoApic \<Rightarrow> u32 \<Rightarrow> (IoApicError + u8 \<times> u8) panics" where
  "redirection_registers io gsi =
     (case redirection_index io gsi of
        Inl e \<Rightarrow> Ret (Inl e)
      | Inr index \<Rightarrow> do {
          double \<leftarrow> checked_mul index 2;
          low \<leftarrow> checked_add (ucast IOAPIC_REDIRECTION_BASE) double;
          (case u8_try_from low of
             Inl e \<Rightarrow> Ret (Inl e)
           | Inr low_register \<Rightarrow> do {
               high \<leftarrow> checked_add low 1;
               (case u8_try_from high of
                  Inl e \<Rightarrow> Ret (Inl e)
                | Inr high_register \<Rightarrow> Ret (Inr (low_register, high_register))) }) })"

text \<open>The redirection entry \<open>configure_masked\<close> builds.\<close>

definition redirection_entry :: "RedirectionConfig \<Rightarrow> u64" where
  "redirection_entry config =
     (ucast (rc_vector config)
      OR (case rc_polarity config of ActiveHigh \<Rightarrow> push_bit 13 0 | ActiveLow \<Rightarrow> push_bit 13 1)
      OR (case rc_trigger config of Edge \<Rightarrow> push_bit 15 0 | Level \<Rightarrow> push_bit 15 1)
      OR push_bit 16 1
      OR push_bit 56 (ucast (rc_destination config)))"

definition configure_masked :: "'d Bus \<Rightarrow> IoApic \<Rightarrow> u32 \<Rightarrow> RedirectionConfig \<Rightarrow> 'd \<Rightarrow> ((IoApicError + unit) \<times> 'd) panics" where
  "configure_masked bus io gsi config d = do {
     let entry = redirection_entry config;
     registers \<leftarrow> redirection_registers io gsi;
     (case registers of
        Inl e \<Rightarrow> Ret (Inl e, d)
      | Inr (low_register, high_register) \<Rightarrow>
          let (old_low, d) = io_read bus io low_register d;
              d = io_write bus io low_register (old_low OR MASKED) d;
              d = io_write bus io high_register (ucast (drop_bit 32 entry)) d;
              d = io_write bus io low_register (ucast entry OR MASKED) d
          in Ret (Inr (), d)) }"

definition io_unmask :: "'d Bus \<Rightarrow> IoApic \<Rightarrow> u32 \<Rightarrow> 'd \<Rightarrow> ((IoApicError + unit) \<times> 'd) panics" where
  "io_unmask bus io gsi d = do {
     registers \<leftarrow> redirection_registers io gsi;
     (case registers of
        Inl e \<Rightarrow> Ret (Inl e, d)
      | Inr (low_register, _) \<Rightarrow>
          let (low, d) = io_read bus io low_register d
          in Ret (Inr (), io_write bus io low_register (low AND NOT MASKED) d)) }"

definition io_mask :: "'d Bus \<Rightarrow> IoApic \<Rightarrow> u32 \<Rightarrow> 'd \<Rightarrow> ((IoApicError + unit) \<times> 'd) panics" where
  "io_mask bus io gsi d = do {
     registers \<leftarrow> redirection_registers io gsi;
     (case registers of
        Inl e \<Rightarrow> Ret (Inl e, d)
      | Inr (low_register, _) \<Rightarrow>
          let (low, d) = io_read bus io low_register d
          in Ret (Inr (), io_write bus io low_register (low OR MASKED) d)) }"

subsection \<open>Which registers a line has\<close>

text \<open>The number of entries is a byte plus one, so register numbers never overflow 32 bits.\<close>

definition io_ok :: "IoApic \<Rightarrow> bool" where
  "io_ok io \<longleftrightarrow> unat (io_redirection_entry_count io) \<le> 256"

lemma redirection_index_Inr:
  "redirection_index io gsi = Inr i \<longleftrightarrow>
     handles_gsi io gsi \<and> i = gsi - io_global_interrupt_base io"
  by (auto simp: redirection_index_def handles_gsi_def checked_simps split: option.splits if_splits)

lemma redirection_registers_eq:
  assumes "io_ok io"
  shows "redirection_registers io gsi =
     Ret (if \<not> handles_gsi io gsi then Inl GsiOutsideRange
          else let i = unat (gsi - io_global_interrupt_base io) in
            if 120 \<le> i then Inl InvalidRedirectionIndex else Inr (of_nat (16 + 2 * i), of_nat (17 + 2 * i)))"
proof (cases "redirection_index io gsi")
  case (Inl e)
  then have "\<not> handles_gsi io gsi" "e = GsiOutsideRange"
    by (auto simp: redirection_index_def handles_gsi_def split: option.splits if_splits)
  then show ?thesis using Inl by (simp add: redirection_registers_def)
next
  case (Inr i)
  then have i: "handles_gsi io gsi" "i = gsi - io_global_interrupt_base io" by (simp_all add: redirection_index_Inr)
  then have small: "unat i < 256"
    using assms by (auto simp: handles_gsi_def io_ok_def checked_simps word_less_nat_alt split: option.splits)
  have d: "unat (i * 2) = unat i * 2" using small by (simp add: unat_word_ariths)
  have l: "unat (16 + i * 2) = 16 + unat i * 2" using small d by (simp add: unat_word_ariths)
  have h: "unat (16 + i * 2 + 1) = 17 + unat i * 2" using small l by (simp add: unat_word_ariths)
  have u: "(ucast x :: u8) = of_nat n" if "unat x = n" for x :: u32 and n using that by (metis of_nat_unat)
  have "redirection_registers io gsi =
     Ret (case u8_try_from (16 + i * 2) of Inl e \<Rightarrow> Inl e | Inr a \<Rightarrow> (case u8_try_from (16 + i * 2 + 1) of Inl e \<Rightarrow> Inl e | Inr b \<Rightarrow> Inr (a, b)))"
    using Inr small d l by (simp add: redirection_registers_def checked_mul_def checked_add_def IOAPIC_REDIRECTION_BASE_def split: sum.splits)
  also have "\<dots> = Ret (if 120 \<le> unat i then Inl InvalidRedirectionIndex else Inr (of_nat (16 + 2 * unat i), of_nat (17 + 2 * unat i)))"
    using u [OF l] u [OF h] l h by (auto simp: u8_try_from_def word_le_nat_alt mult.commute split: sum.splits if_splits)
  finally show ?thesis using i by (simp add: Let_def)
qed

subsection \<open>Programming a line\<close>

text \<open>Bits of the registers that are not the driver's: delivery status and remote IRR in the low, reserved bits in the high one.\<close>

definition hardware_bits :: "u8 \<Rightarrow> u32" where
  "hardware_bits r = (if r < 16 then 0 else if even (unat r) then 0x5000 else 0x00FFFFFF)"

definition io_apic_device :: "'d Bus \<Rightarrow> usize \<Rightarrow> ('d \<Rightarrow> u8 \<Rightarrow> u32) \<Rightarrow> bool" where
  "io_apic_device bus base reg \<longleftrightarrow>
     (\<forall>r d. fst (bus_load bus (base + IOWIN) (bus_store bus base (ucast r) d)) AND NOT (hardware_bits r) = reg d r
        \<and> reg (snd (bus_load bus (base + IOWIN) (bus_store bus base (ucast r) d))) = reg d)
   \<and> (\<forall>r v d. 16 \<le> r \<longrightarrow>
        reg (bus_store bus (base + IOWIN) v (bus_store bus base (ucast r) d)) = (reg d)(r := v AND NOT (hardware_bits r)))"

lemma io_read_reg:
  assumes "io_apic_device bus (io_base io) reg" "io_read bus io r d = (v, d')"
  shows "v AND NOT (hardware_bits r) = reg d r" "reg d' = reg d"
  using assms by (metis io_apic_device_def io_read_def fst_conv, metis io_apic_device_def io_read_def snd_conv)

lemma io_write_reg:
  assumes "io_apic_device bus (io_base io) reg" "16 \<le> r"
  shows "reg (io_write bus io r v d) = (reg d)(r := v AND NOT (hardware_bits r))"
  using assms by (auto simp: io_apic_device_def io_write_def)

text \<open>What a redirection entry means to the controller.\<close>

definition entry_of :: "u32 \<Rightarrow> u32 \<Rightarrow> u64" where
  "entry_of low high = ucast low OR push_bit 32 (ucast high)"

definition entry_config :: "u64 \<Rightarrow> RedirectionConfig" where
  "entry_config e = \<lparr>rc_vector = ucast e, rc_destination = ucast (drop_bit 56 e),
     rc_polarity = (if bit e 13 then ActiveLow else ActiveHigh), rc_trigger = (if bit e 15 then Level else Edge)\<rparr>"

definition entry_masked :: "u64 \<Rightarrow> bool" where
  "entry_masked e \<longleftrightarrow> bit e 16"

text \<open>Delivery mode fixed, destination mode physical.\<close>

definition entry_fixed :: "u64 \<Rightarrow> bool" where
  "entry_fixed e \<longleftrightarrow> (\<forall>n\<in>{8, 9, 10, 11}. \<not> bit e n)"

lemma u8_eqI:
  fixes a b :: u8
  assumes "list_all (\<lambda>n. bit a n = bit b n) [0, 1, 2, 3, 4, 5, 6, 7]"
  shows "a = b"
  using assms by (intro bit_word_eqI) (auto simp: numeral_eq_Suc less_Suc_eq)

lemma entry_fields:
  fixes c masked
  defines "e \<equiv> entry_of (((ucast (redirection_entry c) OR MASKED) AND NOT 0x5000) AND NOT (if masked then 0 else MASKED))
      (ucast (drop_bit 32 (redirection_entry c)) AND NOT 0x00FFFFFF)"
  shows "entry_config e = c" "entry_masked e \<longleftrightarrow> masked" "entry_fixed e"
proof -
  have above: "8 \<le> n \<Longrightarrow> \<not> bit b n" for b :: u8 and n by (auto dest: bit_imp_le_length)
  note defs = e_def entry_of_def redirection_entry_def MASKED_def above
  have v: "(ucast e :: u8) = rc_vector c"
    by (rule u8_eqI, cases "rc_polarity c"; cases "rc_trigger c"; simp add: defs bit_simps)
  have d: "(ucast (drop_bit 56 e) :: u8) = rc_destination c"
    by (rule u8_eqI, cases "rc_polarity c"; cases "rc_trigger c"; simp add: defs bit_simps)
  have p: "bit e 13 \<longleftrightarrow> rc_polarity c = ActiveLow" and t: "bit e 15 \<longleftrightarrow> rc_trigger c = Level"
    by (cases "rc_polarity c"; cases "rc_trigger c"; simp add: defs bit_simps)+
  show "entry_config e = c" using v d p t by (cases c; cases "rc_polarity c"; cases "rc_trigger c") (simp_all add: entry_config_def)
  show "entry_masked e \<longleftrightarrow> masked" "entry_fixed e"
    by (cases "rc_polarity c"; cases "rc_trigger c"; simp add: defs bit_simps entry_masked_def entry_fixed_def)+
qed

lemma line_registers:
  assumes "i < 120"
  shows "unat (of_nat (16 + 2 * i) :: u8) = 16 + 2 * i" "unat (of_nat (17 + 2 * i) :: u8) = 17 + 2 * i"
    "16 \<le> (of_nat (16 + 2 * i) :: u8)" "16 \<le> (of_nat (17 + 2 * i) :: u8)" "(of_nat (16 + 2 * i) :: u8) \<noteq> of_nat (17 + 2 * i)"
    "hardware_bits (of_nat (16 + 2 * i)) = 0x5000" "hardware_bits (of_nat (17 + 2 * i)) = 0x00FFFFFF"
proof -
  show u: "unat (of_nat (16 + 2 * i) :: u8) = 16 + 2 * i" "unat (of_nat (17 + 2 * i) :: u8) = 17 + 2 * i"
    using assms by (simp_all add: unat_of_nat take_bit_nat_eq_self del: of_nat_add of_nat_mult)
  show "16 \<le> (of_nat (16 + 2 * i) :: u8)" "16 \<le> (of_nat (17 + 2 * i) :: u8)" "(of_nat (16 + 2 * i) :: u8) \<noteq> of_nat (17 + 2 * i)"
    using u by (auto simp: word_le_nat_alt word_unat_eq_iff simp del: of_nat_add of_nat_mult)
  then show "hardware_bits (of_nat (16 + 2 * i)) = 0x5000" "hardware_bits (of_nat (17 + 2 * i)) = 0x00FFFFFF"
    unfolding hardware_bits_def u by (simp_all del: of_nat_add of_nat_mult flip: not_le)
qed

lemma mask_bits:
  "(x OR MASKED) AND NOT 0x5000 = (x AND NOT 0x5000) OR MASKED" "(x AND NOT MASKED) AND NOT 0x5000 = (x AND NOT 0x5000) AND NOT MASKED"
proof -
  have "MASKED AND NOT 0x5000 = MASKED" by (simp add: MASKED_def)
  then show "(x OR MASKED) AND NOT 0x5000 = (x AND NOT 0x5000) OR MASKED" by (simp only: bit.conj_disj_distrib2)
  show "(x AND NOT MASKED) AND NOT 0x5000 = (x AND NOT 0x5000) AND NOT MASKED" by (simp only: and.assoc and.commute [of "NOT MASKED"])
qed

lemma configure_masked_reg:
  assumes dev: "io_apic_device bus (io_base io) reg" and regs: "redirection_registers io gsi = Ret (Inr (low, high))"
    and l: "16 \<le> low" "16 \<le> high" "low \<noteq> high" "hardware_bits low = 0x5000" "hardware_bits high = 0x00FFFFFF"
  shows "\<exists>d1. configure_masked bus io gsi config d = Ret (Inr (), d1)
     \<and> reg d1 = (reg d)(high := ucast (drop_bit 32 (redirection_entry config)) AND NOT 0x00FFFFFF,
         low := (ucast (redirection_entry config) OR MASKED) AND NOT 0x5000)"
proof -
  obtain o0 d0 where r0: "io_read bus io low d = (o0, d0)" by (cases "io_read bus io low d")
  have "reg d0 = reg d" using io_read_reg [OF dev r0] by blast
  then show ?thesis
    using l by (auto simp: configure_masked_def regs r0 Let_def io_write_reg [OF dev] fun_upd_twist [of high low])
qed

lemma io_unmask_reg:
  assumes dev: "io_apic_device bus (io_base io) reg" and regs: "redirection_registers io gsi = Ret (Inr (low, high))"
    and l: "16 \<le> low" "hardware_bits low = 0x5000"
  shows "\<exists>d1. io_unmask bus io gsi d = Ret (Inr (), d1) \<and> reg d1 = (reg d)(low := reg d low AND NOT MASKED)"
proof -
  obtain o0 d0 where r0: "io_read bus io low d = (o0, d0)" by (cases "io_read bus io low d")
  have "reg d0 = reg d" "o0 AND NOT 0x5000 = reg d low" using io_read_reg [OF dev r0] l by simp_all
  then show ?thesis unfolding io_unmask_def regs using io_write_reg [OF dev l(1)] l(2) by (simp add: r0 mask_bits [simplified])
qed

lemma io_mask_reg:
  assumes dev: "io_apic_device bus (io_base io) reg" and regs: "redirection_registers io gsi = Ret (Inr (low, high))"
    and l: "16 \<le> low" "hardware_bits low = 0x5000"
  shows "\<exists>d1. io_mask bus io gsi d = Ret (Inr (), d1) \<and> reg d1 = (reg d)(low := reg d low OR MASKED)"
proof -
  obtain o0 d0 where r0: "io_read bus io low d = (o0, d0)" by (cases "io_read bus io low d")
  have "reg d0 = reg d" "o0 AND NOT 0x5000 = reg d low" using io_read_reg [OF dev r0] l by simp_all
  then show ?thesis unfolding io_mask_def regs using io_write_reg [OF dev l(1)] l(2) by (simp add: r0 mask_bits [simplified])
qed

text \<open>
  (C25) A line of the I/O APIC is programmed as asked, and only that line. For a line the
  controller has, \<open>configure_masked\<close> leaves a redirection entry that decodes to exactly the
  requested vector, destination, polarity and trigger mode, in fixed delivery mode and masked;
  \<open>unmask\<close> and then \<open>mask\<close> change the mask bit and nothing else, so masking restores the entry.
  No register of another line changes. A line outside the controller's range is refused without
  an access to the hardware, and no call panics.
\<close>

theorem io_apic_programs_line:
  fixes gsi :: u32
  assumes "io_apic_device bus (io_base io) reg" "io_ok io"
  defines "i \<equiv> unat (gsi - io_global_interrupt_base io)"
  defines "low \<equiv> of_nat (16 + 2 * i) :: u8" and "high \<equiv> of_nat (17 + 2 * i) :: u8"
  defines "entry \<equiv> \<lambda>d. entry_of (reg d low) (reg d high)"
  shows "if handles_gsi io gsi \<and> i < 120
     then \<exists>d1 d2 d3. configure_masked bus io gsi config d = Ret (Inr (), d1) \<and> io_unmask bus io gsi d1 = Ret (Inr (), d2)
            \<and> io_mask bus io gsi d2 = Ret (Inr (), d3)
            \<and> entry_config (entry d1) = config \<and> entry_masked (entry d1) \<and> entry_fixed (entry d1)
            \<and> entry_config (entry d2) = config \<and> \<not> entry_masked (entry d2) \<and> entry_fixed (entry d2)
            \<and> reg d3 = reg d1
            \<and> (\<forall>r. r \<noteq> low \<and> r \<noteq> high \<longrightarrow> reg d1 r = reg d r \<and> reg d2 r = reg d r)
     else \<exists>e. configure_masked bus io gsi config d = Ret (Inl e, d) \<and> io_unmask bus io gsi d = Ret (Inl e, d) \<and> io_mask bus io gsi d = Ret (Inl e, d)"
proof (cases "handles_gsi io gsi \<and> i < 120")
  case False
  then show ?thesis
    by (auto simp: configure_masked_def io_unmask_def io_mask_def redirection_registers_eq [OF assms(2)] Let_def i_def split: if_splits)
next
  case True
  then have i: "i < 120" by simp
  note l = line_registers(3-7) [OF i, folded low_def high_def]
  have regs: "redirection_registers io gsi = Ret (Inr (low, high))"
    using True unfolding low_def high_def redirection_registers_eq [OF assms(2)] i_def by (simp add: Let_def del: of_nat_add of_nat_mult)
  let ?low = "(ucast (redirection_entry config) OR MASKED) AND NOT 0x5000" and ?high = "ucast (drop_bit 32 (redirection_entry config)) AND NOT 0x00FFFFFF :: u32"
  obtain d1 where d1: "configure_masked bus io gsi config d = Ret (Inr (), d1)" "reg d1 = (reg d)(high := ?high, low := ?low)"
    using configure_masked_reg [OF assms(1) regs l] by blast
  obtain d2 where d2: "io_unmask bus io gsi d1 = Ret (Inr (), d2)" "reg d2 = (reg d1)(low := reg d1 low AND NOT MASKED)"
    using io_unmask_reg [OF assms(1) regs l(1,4)] by blast
  obtain d3 where d3: "io_mask bus io gsi d2 = Ret (Inr (), d3)" "reg d3 = (reg d2)(low := reg d2 low OR MASKED)"
    using io_mask_reg [OF assms(1) regs l(1,4)] by blast
  have "(?low AND NOT MASKED) OR MASKED = ?low" unfolding mask_bits(1) by (rule bit_word_eqI) (auto simp only: bit_or_iff bit_and_iff bit_not_iff)
  then have "reg d3 = reg d1" unfolding d3(2) d2(2) d1(2) by (simp only: fun_upd_same fun_upd_upd)
  moreover have "entry d1 = entry_of ?low ?high" "entry d2 = entry_of (?low AND NOT MASKED) ?high"
    using l(3) unfolding entry_def d2(2) d1(2) by (simp_all only: fun_upd_same fun_upd_other not_False_eq_True)
  then have "entry_config (entry d1) = config \<and> entry_masked (entry d1) \<and> entry_fixed (entry d1)"
    "entry_config (entry d2) = config \<and> \<not> entry_masked (entry d2) \<and> entry_fixed (entry d2)"
    using entry_fields [of config True, unfolded if_True bit.compl_zero and.right_neutral] entry_fields [of config False, unfolded if_False]
    by (simp_all only: simp_thms)
  moreover have "\<forall>r. r \<noteq> low \<and> r \<noteq> high \<longrightarrow> reg d1 r = reg d r \<and> reg d2 r = reg d r"
    unfolding d2(2) d1(2) by simp
  ultimately show ?thesis using d1(1) d2(1) d3(1) unfolding if_P [OF True] by blast
qed

text \<open>A controller with its registers in a function, the selected register first.\<close>

definition sample_io_bus :: "(u32 \<times> (u8 \<Rightarrow> u32)) Bus" where
  "sample_io_bus =
     \<lparr>bus_cpuid = (\<lambda>_. \<lparr>cpuid_eax = 0, cpuid_ebx = 0, cpuid_ecx = 0, cpuid_edx = 0\<rparr>),
      bus_read_msr = (\<lambda>_ d. (0, d)), bus_write_msr = (\<lambda>_ _ d. d), bus_read_cr4 = (\<lambda>d. (0, d)), bus_write_cr4 = (\<lambda>_ d. d),
      bus_in = (\<lambda>_ d. (0, d)), bus_out = (\<lambda>_ _ d. d),
      bus_load = (\<lambda>a d. (snd d (ucast (fst d)), d)),
      bus_store = (\<lambda>a v d. if a = IOAPIC_VIRTUAL_ADDRESS then (v, snd d) else (fst d, (snd d)(ucast (fst d) := v)))\<rparr>"

definition sample_io :: IoApic where
  "sample_io = \<lparr>io_base = IOAPIC_VIRTUAL_ADDRESS, io_global_interrupt_base = 0, io_redirection_entry_count = 24\<rparr>"

theorem io_apic_programs_line_witness:
  "\<exists>d1. configure_masked sample_io_bus sample_io 2 \<lparr>rc_vector = 0xF1, rc_destination = 3, rc_polarity = ActiveLow, rc_trigger = Edge\<rparr> (0, \<lambda>_. 0) = Ret (Inr (), d1)
     \<and> entry_config (entry_of (snd d1 20 AND NOT 0x5000) (snd d1 21 AND NOT 0x00FFFFFF)) = \<lparr>rc_vector = 0xF1, rc_destination = 3, rc_polarity = ActiveLow, rc_trigger = Edge\<rparr>"
proof -
  let ?reg = "\<lambda>d r. snd d r AND NOT (hardware_bits r)"
  have "ucast (ucast r :: u32) = r" for r :: u8 by (rule bit_word_eqI) (simp add: bit_simps)
  then have dev: "io_apic_device sample_io_bus (io_base sample_io) ?reg"
    by (auto simp: io_apic_device_def sample_io_bus_def sample_io_def IOWIN_def IOAPIC_VIRTUAL_ADDRESS_def)
  have "handles_gsi sample_io 2" "io_ok sample_io" by (simp_all add: handles_gsi_def sample_io_def io_ok_def checked_sub_def)
  moreover have "hardware_bits 20 = 0x5000" "hardware_bits 21 = 0x00FFFFFF" by (simp_all add: hardware_bits_def)
  ultimately show ?thesis
    using io_apic_programs_line [OF dev, of 2 "\<lparr>rc_vector = 0xF1, rc_destination = 3, rc_polarity = ActiveLow, rc_trigger = Edge\<rparr>" "(0, \<lambda>_. 0)"]
    by (simp add: sample_io_def) blast
qed

end
