(* ===== verification/Segments.thy ===== *)
theory Segments
  imports Prelude
begin

section \<open>Segments\<close>

text \<open>
  The global descriptor table and the task state segment of \<open>gdt.rs\<close>: the selectors, the
  descriptors as 64-bit words and the table \<open>gdt::init\<close> builds. The addresses of the statics
  \<open>GDT\<close>, \<open>TSS\<close> and \<open>DOUBLE_FAULT_STACK\<close> are chosen by the linker and are parameters;
  \<open>gdt_reload\<close> only loads the table into the processor. The second part reads a descriptor the
  way the processor does and shows what each selector of the kernel stands for.
\<close>

record Gdt =
  gdt_entries :: "u64 list"

definition gdt_new :: Gdt where
  "gdt_new = \<lparr>gdt_entries = replicate 7 0\<rparr>"

record GdtPointer =
  gp_limit :: u16
  gp_base :: u64

record TaskStateSegment =
  tss_reserved_0 :: u32
  tss_privilege_stacks :: "u64 list"
  tss_reserved_1 :: u64
  tss_interrupt_stacks :: "u64 list"
  tss_reserved_2 :: u64
  tss_reserved_3 :: u16
  tss_iomap_base :: u16

text \<open>The size of the packed structure, 104 bytes: the assertion of the source.\<close>

definition TSS_SIZE :: nat where
  "TSS_SIZE = 4 + 3 * 8 + 8 + 7 * 8 + 8 + 2 + 2"

definition tss_new :: TaskStateSegment where
  "tss_new =
     \<lparr>tss_reserved_0 = 0, tss_privilege_stacks = replicate 3 0, tss_reserved_1 = 0, tss_interrupt_stacks = replicate 7 0,
      tss_reserved_2 = 0, tss_reserved_3 = 0, tss_iomap_base = of_nat TSS_SIZE\<rparr>"

definition DOUBLE_FAULT_STACK_SIZE :: usize where
  "DOUBLE_FAULT_STACK_SIZE = 16 * 1024"

definition KERNEL_CODE_SELECTOR :: u16 where "KERNEL_CODE_SELECTOR = 1 * 8"
definition KERNEL_DATA_SELECTOR :: u16 where "KERNEL_DATA_SELECTOR = 2 * 8"
definition USER_DATA_SELECTOR :: u16 where "USER_DATA_SELECTOR = (3 * 8) OR 3"
definition USER_CODE_SELECTOR :: u16 where "USER_CODE_SELECTOR = (4 * 8) OR 3"
definition TSS_SELECTOR :: u16 where "TSS_SELECTOR = 5 * 8"

definition DESC_PRESENT :: u64 where "DESC_PRESENT = push_bit 47 1"
definition CODE_DATA_DESCRIPTOR :: u64 where "CODE_DATA_DESCRIPTOR = push_bit 44 1"
definition USER_PRIVILEGE :: u64 where "USER_PRIVILEGE = push_bit 45 3"
definition DESC_EXECUTABLE :: u64 where "DESC_EXECUTABLE = push_bit 43 1"
definition READ_WRITE :: u64 where "READ_WRITE = push_bit 41 1"
definition GRANULARITY :: u64 where "GRANULARITY = push_bit 55 1"
definition DESC_SIZE :: u64 where "DESC_SIZE = push_bit 54 1"
definition LONG_MODE :: u64 where "LONG_MODE = push_bit 53 1"

definition kernel_code_descriptor :: u64 where
  "kernel_code_descriptor = DESC_PRESENT OR CODE_DATA_DESCRIPTOR OR DESC_EXECUTABLE OR READ_WRITE OR LONG_MODE OR GRANULARITY"

definition kernel_data_descriptor :: u64 where
  "kernel_data_descriptor = DESC_PRESENT OR CODE_DATA_DESCRIPTOR OR READ_WRITE OR DESC_SIZE OR GRANULARITY"

definition user_code_descriptor :: u64 where
  "user_code_descriptor =
     DESC_PRESENT OR CODE_DATA_DESCRIPTOR OR USER_PRIVILEGE OR DESC_EXECUTABLE OR READ_WRITE OR LONG_MODE OR GRANULARITY"

definition user_data_descriptor :: u64 where
  "user_data_descriptor = DESC_PRESENT OR CODE_DATA_DESCRIPTOR OR USER_PRIVILEGE OR READ_WRITE OR DESC_SIZE OR GRANULARITY"

definition tss_descriptor :: "u64 \<Rightarrow> u64 list" where
  "tss_descriptor base =
     (let limit = of_nat (TSS_SIZE - 1) :: u64;
          low = (limit AND 0xFFFF)
             OR push_bit 16 (base AND 0x00FFFFFF)
             OR push_bit 40 0x09
             OR push_bit 47 1
             OR push_bit 48 (drop_bit 16 limit AND 0x0F)
             OR push_bit 56 (drop_bit 24 base AND 0xFF);
          high = drop_bit 32 base in
      [low, high])"

text \<open>\<open>gdt::init\<close>, and the two stack pointers the kernel keeps in the task state segment.\<close>

definition gdt_init :: "u64 \<Rightarrow> u64 \<Rightarrow> TaskStateSegment \<Rightarrow> (Gdt \<times> TaskStateSegment) panics" where
  "gdt_init tss_address stack_bottom tss = do {
     stack_top \<leftarrow> checked_add stack_bottom DOUBLE_FAULT_STACK_SIZE;
     let tss = tss\<lparr>tss_interrupt_stacks := (tss_interrupt_stacks tss)[0 := stack_top]\<rparr>;
     let gdt = \<lparr>gdt_entries =
           [0, kernel_code_descriptor, kernel_data_descriptor, user_data_descriptor, user_code_descriptor]
           @ tss_descriptor tss_address\<rparr>;
     Ret (gdt, tss) }"

definition gdt_pointer :: "u64 \<Rightarrow> GdtPointer" where
  "gdt_pointer gdt_address = \<lparr>gp_limit = of_nat (7 * 8 - 1), gp_base = gdt_address\<rparr>"

definition tss_set_kernel_stack :: "usize \<Rightarrow> TaskStateSegment \<Rightarrow> TaskStateSegment" where
  "tss_set_kernel_stack stack_top tss = tss\<lparr>tss_privilege_stacks := (tss_privilege_stacks tss)[0 := stack_top]\<rparr>"

subsection \<open>The processor's view\<close>

text \<open>A selector names a table entry and a privilege; a descriptor has its fields at fixed bits.\<close>

definition selector_index :: "u16 \<Rightarrow> nat" where
  "selector_index s = unat (drop_bit 3 s)"

definition selector_privilege :: "u16 \<Rightarrow> nat" where
  "selector_privilege s = unat (s AND 3)"

datatype SegmentUse = CodeSegment nat | DataSegment nat

text \<open>A 64-bit code segment has the long bit and not the size bit; a stack needs a writable data segment.\<close>

definition usable_segment :: "u64 \<Rightarrow> SegmentUse option" where
  "usable_segment d =
     (let dpl = unat (drop_bit 45 d AND 3) in
      if \<not> bit d 47 \<or> \<not> bit d 44 then None
      else if bit d 43 then (if bit d 53 \<and> \<not> bit d 54 then Some (CodeSegment dpl) else None)
      else if bit d 41 then Some (DataSegment dpl) else None)"

definition tss_base :: "u64 \<Rightarrow> u64 \<Rightarrow> u64" where
  "tss_base low high = (drop_bit 16 low AND 0xFFFFFF) OR push_bit 24 (drop_bit 56 low AND 0xFF) OR push_bit 32 high"

definition tss_limit :: "u64 \<Rightarrow> u64" where
  "tss_limit low = (low AND 0xFFFF) OR push_bit 16 (drop_bit 48 low AND 0xF)"

definition tss_available :: "u64 \<Rightarrow> bool" where
  "tss_available low \<longleftrightarrow> bit low 47 \<and> drop_bit 40 low AND 0x1F = 0x09"

lemmas selector_defs = KERNEL_CODE_SELECTOR_def KERNEL_DATA_SELECTOR_def USER_DATA_SELECTOR_def USER_CODE_SELECTOR_def
  TSS_SELECTOR_def

lemmas descriptor_defs = kernel_code_descriptor_def kernel_data_descriptor_def user_code_descriptor_def user_data_descriptor_def
  DESC_PRESENT_def CODE_DATA_DESCRIPTOR_def USER_PRIVILEGE_def DESC_EXECUTABLE_def READ_WRITE_def GRANULARITY_def
  DESC_SIZE_def LONG_MODE_def

text \<open>Equations between 64-bit words, bit by bit.\<close>

lemma upt_64: "[0..<64] =
     [0, 1, 2, 3, 4, 5, 6, 7, 8, 9, 10, 11, 12, 13, 14, 15, 16, 17, 18, 19, 20, 21, 22, 23, 24, 25, 26,
      27, 28, 29, 30, 31, 32, 33, 34, 35, 36, 37, 38, 39, 40, 41, 42, 43, 44, 45, 46, 47, 48, 49, 50, 51,
      52, 53, 54, 55, 56, 57, 58, 59, 60, 61, 62, 63]"
  by (simp add: upt_rec)

lemma u64_eqI:
  fixes a b :: u64
  assumes "list_all (\<lambda>n. bit a n = bit b n) [0..<64]"
  shows "a = b"
  using assms by (intro bit_word_eqI) (simp add: list_all_iff)

lemma tss_descriptor_fields:
  assumes "tss_descriptor base = [low, high]"
  shows "tss_base low high = base" "tss_limit low = 103" "tss_available low"
proof -
  have low: "low = 103 OR (push_bit 16 base AND 0xFFFFFF0000) OR 0x90000000000 OR 0x800000000000
      OR (push_bit 56 (drop_bit 24 base) AND 0xFF00000000000000)"
    and high: "high = drop_bit 32 base"
    using assms by (simp_all add: tss_descriptor_def TSS_SIZE_def Let_def)
  show "tss_base low high = base"
    unfolding tss_base_def low high by (rule u64_eqI) (simp add: upt_64 bit_simps)
  show "tss_limit low = 103"
    unfolding tss_limit_def low by (rule u64_eqI) (simp add: upt_64 bit_simps)
  show "tss_available low"
    unfolding tss_available_def low
    by (intro conjI; (rule u64_eqI)?) (simp_all add: upt_64 bit_simps)
qed

end
