(* ===== verification/Asm.thy ===== *)
theory Asm
  imports Syscalls Segments
begin

section \<open>The assembly of the kernel's entries and exits\<close>

text \<open>
  The naked functions and \<open>asm!\<close> blocks that move the processor between tasks and between
  user and kernel: \<open>switch_context\<close> and \<open>user_thread_entry\<close> (\<open>cpu.rs\<close>), \<open>syscall_entry\<close>
  (\<open>syscall.rs\<close>), the interrupt stubs and \<open>interrupt_common\<close> (\<open>idt.rs\<close>) and \<open>enter_user\<close>
  (\<open>mod.rs\<close>), as lists of the instructions the source writes, in its order. \<open>run\<close> is the
  semantics of those instructions. Memory is a function from the address of a 64-bit cell to
  its contents: all accesses are 64 bits wide and a multiple of 8 bytes apart. The operands
  \<open>in(reg)\<close> of \<open>enter_user\<close> are registers the compiler chooses, so they are parameters.
\<close>

datatype Reg = RAX | RBX | RCX | RDX | RSI | RDI | RBP | RSP | R8 | R9 | R10 | R11 | R12 | R13 | R14 | R15

record Cpu =
  regs :: "Reg \<Rightarrow> u64"
  cells :: "u64 \<Rightarrow> u64"
  rip :: u64
  rflags :: u64
  zf :: bool
  cs :: u64
  ss :: u64
  ds :: u64
  es :: u64
  fs :: u64
  gs :: u64
  gs_base :: u64
  kernel_gs_base :: u64
  star :: u64
  lstar :: u64
  cstar :: u64
  fmask :: u64

datatype Instr =
    Push Reg | Pop Reg | PushImm u64
  | Mov Reg Reg
  | Store Reg Reg
  | Load Reg Reg
  | PushGs u64 | PopGs u64 | LoadGs Reg u64 | StoreGs u64 Reg
  | XorSelf Reg
  | AddRsp u64
  | TestByte u64 u64
  | Jz nat
  | Swapgs
  | MovDs Reg | MovEs Reg | MovFs Reg | MovGs Reg
  | Cld
  | CallTo u64
  | RetI | Iretq | Sysretq

definition push :: "u64 \<Rightarrow> Cpu \<Rightarrow> Cpu" where
  "push x c = c\<lparr>regs := (regs c)(RSP := regs c RSP - 8), cells := (cells c)(regs c RSP - 8 := x)\<rparr>"

definition set_reg :: "Reg \<Rightarrow> u64 \<Rightarrow> Cpu \<Rightarrow> Cpu" where
  "set_reg r x c = c\<lparr>regs := (regs c)(r := x)\<rparr>"

definition pop :: "(u64 \<Rightarrow> Cpu \<Rightarrow> Cpu) \<Rightarrow> Cpu \<Rightarrow> Cpu" where
  "pop k c = k (cells c (regs c RSP)) (set_reg RSP (regs c RSP + 8) c)"

primrec exec :: "Instr \<Rightarrow> Cpu \<Rightarrow> Cpu" where
  "exec (Push r) c = push (regs c r) c"
| "exec (Pop r) c = pop (set_reg r) c"
| "exec (PushImm x) c = push x c"
| "exec (Mov d s) c = set_reg d (regs c s) c"
| "exec (Store a s) c = c\<lparr>cells := (cells c)(regs c a := regs c s)\<rparr>"
| "exec (Load d a) c = set_reg d (cells c (regs c a)) c"
| "exec (PushGs off) c = push (cells c (gs_base c + off)) c"
| "exec (PopGs off) c = pop (\<lambda>x c. c\<lparr>cells := (cells c)(gs_base c + off := x)\<rparr>) c"
| "exec (LoadGs d off) c = set_reg d (cells c (gs_base c + off)) c"
| "exec (StoreGs off s) c = c\<lparr>cells := (cells c)(gs_base c + off := regs c s)\<rparr>"
| "exec (XorSelf r) c = set_reg r 0 c"
| "exec (AddRsp n) c = set_reg RSP (regs c RSP + n) c"
| "exec (TestByte off m) c = c\<lparr>zf := cells c (regs c RSP + off) AND m AND 0xFF = 0\<rparr>"
| "exec (Jz n) c = c"
| "exec Swapgs c = c\<lparr>gs_base := kernel_gs_base c, kernel_gs_base := gs_base c\<rparr>"
| "exec (MovDs r) c = c\<lparr>ds := regs c r AND 0xFFFF\<rparr>"
| "exec (MovEs r) c = c\<lparr>es := regs c r AND 0xFFFF\<rparr>"
| "exec (MovFs r) c = c\<lparr>fs := regs c r AND 0xFFFF\<rparr>"
| "exec (MovGs r) c = c\<lparr>gs := regs c r AND 0xFFFF, gs_base := 0\<rparr>"
| "exec Cld c = c\<lparr>rflags := rflags c AND NOT 0x400\<rparr>"
| "exec (CallTo a) c = (push (rip c) c)\<lparr>rip := a\<rparr>"
| "exec RetI c = pop (\<lambda>x c. c\<lparr>rip := x\<rparr>) c"
| "exec Iretq c =
     (let sp = regs c RSP in
      set_reg RSP (cells c (sp + 24))
        (c\<lparr>rip := cells c sp, cs := cells c (sp + 8), rflags := cells c (sp + 16), ss := cells c (sp + 32)\<rparr>))"
| "exec Sysretq c =
     c\<lparr>rip := regs c RCX, rflags := (regs c R11 AND 0x3C7FD7) OR 2,
       cs := (drop_bit 48 (star c) + 16) OR 3, ss := (drop_bit 48 (star c) + 8) OR 3\<rparr>"

fun run :: "Instr list \<Rightarrow> Cpu \<Rightarrow> Cpu" where
  "run [] c = c"
| "run (Jz n # is) c = (if zf c then run (drop n is) c else run is c)"
| "run (i # is) c = run is (exec i c)"

text \<open>What the processor does on \<open>SYSCALL\<close> and when it delivers an interrupt on the stack \<open>sp\<close>.\<close>

definition syscall_instr :: "Cpu \<Rightarrow> Cpu" where
  "syscall_instr c =
     c\<lparr>regs := (regs c)(RCX := rip c, R11 := rflags c), rip := lstar c, rflags := rflags c AND NOT (fmask c),
       cs := drop_bit 32 (star c) AND 0xFFFC, ss := (drop_bit 32 (star c) AND 0xFFFF) + 8\<rparr>"

definition deliver_interrupt :: "u64 \<Rightarrow> u64 \<Rightarrow> u64 option \<Rightarrow> Cpu \<Rightarrow> Cpu" where
  "deliver_interrupt selector sp err c =
     (let c' = push (rip c) (push (cs c) (push (rflags c) (push (regs c RSP) (push (ss c) (set_reg RSP sp c))))) in
      (case err of None \<Rightarrow> c' | Some e \<Rightarrow> push e c')\<lparr>cs := selector, rflags := rflags c AND NOT 0x34300\<rparr>)"

subsection \<open>The code\<close>

definition RFLAGS_MASK :: u64 where
  "RFLAGS_MASK = 0x257FD5"

text \<open>\<open>syscall::init\<close>: the model-specific registers, then \<open>swapgs\<close>. \<open>entry\<close> is the address of \<open>syscall_entry\<close>.\<close>

definition syscall_init :: "u64 \<Rightarrow> u64 \<Rightarrow> Cpu \<Rightarrow> Cpu" where
  "syscall_init entry cpu_local c =
     (let star_value = push_bit 48 (ucast KERNEL_DATA_SELECTOR) OR push_bit 32 (ucast KERNEL_CODE_SELECTOR) in
      exec Swapgs (c\<lparr>star := star_value, lstar := entry, cstar := 0, fmask := RFLAGS_MASK, gs_base := 0,
        kernel_gs_base := cpu_local\<rparr>))"

definition switch_context :: "Instr list" where
  "switch_context =
     [Push RBP, Push RBX, Push R12, Push R13, Push R14, Push R15,
      Store RDI RSP, Load RSP RSI,
      Pop R15, Pop R14, Pop R13, Pop R12, Pop RBX, Pop RBP, RetI]"

definition user_thread_entry :: "u64 \<Rightarrow> Instr list" where
  "user_thread_entry enter_user_address = [Mov RDI R12, Mov RSI RBX, CallTo enter_user_address]"

text \<open>
  The operands of \<open>enter_user\<close>: \<open>ud\<close> and \<open>uc\<close> hold the selectors, \<open>ui\<close> the instruction pointer and \<open>us\<close> the
  stack pointer of the user.
\<close>

definition enter_user :: "Reg \<Rightarrow> Reg \<Rightarrow> Reg \<Rightarrow> Reg \<Rightarrow> Instr list" where
  "enter_user ud uc ui us =
     [MovDs ud, MovEs ud, MovFs ud,
      Push ud, Push us, PushImm 0x202, Push uc, Push ui,
      XorSelf RAX, XorSelf RBX, XorSelf RCX, XorSelf RDX, XorSelf RSI, XorSelf RDI, XorSelf RBP,
      XorSelf R8, XorSelf R9, XorSelf R10, XorSelf R11, XorSelf R12, XorSelf R13, XorSelf R14, XorSelf R15,
      Swapgs, MovGs ud, Iretq]"

text \<open>
  \<open>enter_kernel\<close>: the processor's data at \<open>cpu_local\<close> gets the stack for system calls, the registers for
  system calls are set, and the kernel goes on in \<open>kernel_main\<close> on its own stack; \<open>st\<close> and \<open>h\<close> are the
  operands, \<open>km\<close> the address of \<open>kernel_main\<close>.
\<close>

definition enter_kernel_code :: "Reg \<Rightarrow> Reg \<Rightarrow> u64 \<Rightarrow> Instr list" where
  "enter_kernel_code st h km = [Mov RSP st, XorSelf RBP, Mov RDI h, CallTo km]"

definition enter_kernel :: "u64 \<Rightarrow> u64 \<Rightarrow> Reg \<Rightarrow> Reg \<Rightarrow> u64 \<Rightarrow> usize \<Rightarrow> TaskStateSegment \<times> Cpu \<Rightarrow> TaskStateSegment \<times> Cpu" where
  "enter_kernel entry cpu_local st h km stack_top = (\<lambda>(tss, c).
     let tss = tss_set_kernel_stack stack_top tss;
         c = c\<lparr>cells := (cells c)(cpu_local := stack_top)\<rparr>;
         c = syscall_init entry cpu_local c
     in (tss, run (enter_kernel_code st h km) c))"

definition syscall_entry :: "Instr list" where
  "syscall_entry =
     [Swapgs, StoreGs 8 RSP, LoadGs RSP 0,
      PushGs 8, Push R11, Push RCX, Push RAX, Push RDI, Push RSI, Push RDX, Push R10, Push R8, Push R9,
      Push RBX, Push RBP, Push R12, Push R13, Push R14, Push R15,
      Mov RDI RSP]"

definition syscall_return :: "Instr list" where
  "syscall_return =
     [Pop R15, Pop R14, Pop R13, Pop R12, Pop RBP, Pop RBX, Pop R9, Pop R8, Pop R10, Pop RDX, Pop RSI, Pop RDI,
      Pop RAX, Pop RCX, Pop R11, PopGs 8,
      LoadGs RSP 8, Swapgs, Sysretq]"

definition stub_no_err :: "u64 \<Rightarrow> Instr list" where
  "stub_no_err vec = [PushImm 0, PushImm vec]"

definition stub_err :: "u64 \<Rightarrow> Instr list" where
  "stub_err vec = [PushImm vec]"

definition interrupt_common :: "Instr list" where
  "interrupt_common =
     [Push R15, Push R14, Push R13, Push R12, Push RBP, Push RBX, Push R11, Push R10, Push R9, Push R8,
      Push RDI, Push RSI, Push RDX, Push RCX, Push RAX,
      TestByte 144 3, Jz 1, Swapgs,
      Mov RDI RSP, Cld]"

definition interrupt_return :: "Instr list" where
  "interrupt_return =
     [TestByte 144 3, Jz 1, Swapgs,
      Pop RAX, Pop RCX, Pop RDX, Pop RSI, Pop RDI, Pop R8, Pop R9, Pop R10, Pop R11, Pop RBX, Pop RBP,
      Pop R12, Pop R13, Pop R14, Pop R15,
      AddRsp 16, Iretq]"

subsection \<open>The frames the handlers read\<close>

definition syscall_frame_at :: "(u64 \<Rightarrow> u64) \<Rightarrow> u64 \<Rightarrow> SyscallFrame" where
  "syscall_frame_at m a =
     \<lparr>sf_r15 = m a, sf_r14 = m (a + 8), sf_r13 = m (a + 16), sf_r12 = m (a + 24), sf_rbp = m (a + 32), sf_rbx = m (a + 40),
      sf_r9 = m (a + 48), sf_r8 = m (a + 56), sf_r10 = m (a + 64), sf_rdx = m (a + 72), sf_rsi = m (a + 80), sf_rdi = m (a + 88),
      sf_rax = m (a + 96), sf_user_rip = m (a + 104), sf_user_rflags = m (a + 112), sf_user_rsp = m (a + 120)\<rparr>"

record InterruptStackFrame =
  isf_instruction_pointer :: u64
  isf_code_segment :: u64
  isf_cpu_flags :: u64
  isf_stack_pointer :: u64
  isf_stack_segment :: u64

record InterruptFrame =
  if_rax :: u64
  if_rcx :: u64
  if_rdx :: u64
  if_rsi :: u64
  if_rdi :: u64
  if_r8 :: u64
  if_r9 :: u64
  if_r10 :: u64
  if_r11 :: u64
  if_rbx :: u64
  if_rbp :: u64
  if_r12 :: u64
  if_r13 :: u64
  if_r14 :: u64
  if_r15 :: u64
  if_vector :: u64
  if_error_code :: u64
  if_stack_frame :: InterruptStackFrame

definition interrupt_frame_at :: "(u64 \<Rightarrow> u64) \<Rightarrow> u64 \<Rightarrow> InterruptFrame" where
  "interrupt_frame_at m a =
     \<lparr>if_rax = m a, if_rcx = m (a + 8), if_rdx = m (a + 16), if_rsi = m (a + 24), if_rdi = m (a + 32),
      if_r8 = m (a + 40), if_r9 = m (a + 48), if_r10 = m (a + 56), if_r11 = m (a + 64), if_rbx = m (a + 72), if_rbp = m (a + 80),
      if_r12 = m (a + 88), if_r13 = m (a + 96), if_r14 = m (a + 104), if_r15 = m (a + 112),
      if_vector = m (a + 120), if_error_code = m (a + 128),
      if_stack_frame =
        \<lparr>isf_instruction_pointer = m (a + 136), isf_code_segment = m (a + 144), isf_cpu_flags = m (a + 152),
         isf_stack_pointer = m (a + 160), isf_stack_segment = m (a + 168)\<rparr>\<rparr>"

subsection \<open>Running the code\<close>

lemmas machine = push_def pop_def set_reg_def Let_def syscall_instr_def deliver_interrupt_def diff_diff_add add.assoc

lemmas entry_code = switch_context_def user_thread_entry_def enter_user_def syscall_entry_def syscall_return_def
  stub_no_err_def stub_err_def interrupt_common_def interrupt_return_def

lemmas frame_at = syscall_frame_at_def interrupt_frame_at_def

text \<open>Words that lie one after the other from an address on.\<close>

primrec words_at :: "(u64 \<Rightarrow> u64) \<Rightarrow> u64 \<Rightarrow> u64 list \<Rightarrow> bool" where
  "words_at m a [] \<longleftrightarrow> True"
| "words_at m a (w # ws) \<longleftrightarrow> m a = w \<and> words_at m (a + 8) ws"

definition word_span :: "u64 \<Rightarrow> nat \<Rightarrow> u64 set" where
  "word_span a n = (\<lambda>i. a + 8 * of_nat i) ` {..<n}"

lemma word_span_Suc: "word_span a (Suc n) = insert a (word_span (a + 8) n)"
  by (auto simp: word_span_def lessThan_Suc_eq_insert_0 image_image algebra_simps)

lemma words_at_cong: "(\<And>x. x \<in> word_span a (length ws) \<Longrightarrow> m x = m' x) \<Longrightarrow> words_at m a ws \<longleftrightarrow> words_at m' a ws"
  by (induction ws arbitrary: a) (simp_all add: word_span_Suc)

lemma below_span: "n < 2 ^ 60 \<Longrightarrow> a - 8 \<notin> word_span a n"
proof
  assume n: "n < 2 ^ 60" and "a - 8 \<in> word_span a n"
  then obtain i where i: "i < n" "a - 8 = a + 8 * of_nat i" by (auto simp: word_span_def)
  then have "(of_nat (8 * Suc i) :: u64) = 0" by (simp add: algebra_simps eq_diff_eq)
  then have "2 ^ LENGTH(64) dvd 8 * Suc i" by (simp only: word_of_nat_eq_0_iff)
  then have "2 ^ LENGTH(64) \<le> 8 * Suc i" by (rule dvd_imp_le) simp
  then show False using i(1) n by simp
qed

subsection \<open>Pushes and pops\<close>

lemma set_reg_simps [simp]:
  "regs (set_reg r x c) s = (if s = r then x else regs c s)" "cells (set_reg r x c) = cells c"
  "set_reg r x (set_reg r y c) = set_reg r x c" "set_reg r (regs c r) c = c"
  "(set_reg r x c)\<lparr>cells := m\<rparr> = set_reg r x (c\<lparr>cells := m\<rparr>)"
  "gs_base (set_reg r x c) = gs_base c" "kernel_gs_base (set_reg r x c) = kernel_gs_base c" "rip (set_reg r x c) = rip c"
  "cs (set_reg r x c) = cs c" "ss (set_reg r x c) = ss c" "rflags (set_reg r x c) = rflags c"
  by (auto simp: set_reg_def)

lemma set_reg_twist: "r \<noteq> s \<Longrightarrow> set_reg r x (set_reg s y c) = set_reg s y (set_reg r x c)"
  by (simp add: set_reg_def fun_upd_twist)

lemma push_words:
  assumes "words_at (cells c) (regs c RSP) ws" "length ws < 2 ^ 60"
  shows "words_at (cells (push x c)) (regs c RSP - 8) (x # ws)"
  using assms below_span [of "length ws" "regs c RSP"]
  by (auto simp: push_def intro!: words_at_cong [THEN iffD1, of _ _ "cells c"])

lemma run_pushes:
  assumes "RSP \<notin> set rs" "words_at (cells c) (regs c RSP) ws" "length ws + length rs < 2 ^ 60"
  shows "\<exists>m. run (map Push rs @ is) c = run is (set_reg RSP (regs c RSP - 8 * of_nat (length rs)) (c\<lparr>cells := m\<rparr>))
    \<and> words_at m (regs c RSP - 8 * of_nat (length rs)) (rev (map (regs c) rs) @ ws)
    \<and> (\<forall>a. a \<notin> word_span (regs c RSP - 8 * of_nat (length rs)) (length rs) \<longrightarrow> m a = cells c a)"
  using assms
proof (induction rs arbitrary: c ws)
  case Nil
  then show ?case by (intro exI [of _ "cells c"]) (simp add: set_reg_def fun_upd_idem)
next
  case (Cons r rs)
  let ?c = "push (regs c r) c"
  have p: "?c = set_reg RSP (regs c RSP - 8) (c\<lparr>cells := cells ?c\<rparr>)" by (simp add: push_def set_reg_def)
  then have sp: "regs ?c RSP = regs c RSP - 8" by (simp add: push_def)
  have w: "words_at (cells ?c) (regs ?c RSP) (regs c r # ws)" unfolding sp using push_words [OF Cons.prems(2)] Cons.prems(3) by simp
  have same: "map (regs ?c) rs = map (regs c) rs" using Cons.prems(1) by (auto simp: push_def)
  obtain m where "run (map Push rs @ is) ?c = run is (set_reg RSP (regs ?c RSP - 8 * of_nat (length rs)) (?c\<lparr>cells := m\<rparr>))"
    "words_at m (regs ?c RSP - 8 * of_nat (length rs)) (rev (map (regs ?c) rs) @ regs c r # ws)"
    "\<forall>a. a \<notin> word_span (regs ?c RSP - 8 * of_nat (length rs)) (length rs) \<longrightarrow> m a = cells ?c a"
    using Cons.IH [OF _ w] Cons.prems by auto
  moreover have "set_reg RSP x (?c\<lparr>cells := m\<rparr>) = set_reg RSP x (c\<lparr>cells := m\<rparr>)" for x by (subst p) simp
  moreover have "word_span (regs c RSP - 8 * of_nat (length (r # rs))) (length (r # rs))
      = insert (regs c RSP - 8) (word_span (regs c RSP - 8 - 8 * of_nat (length rs)) (length rs))"
    by (simp add: word_span_def lessThan_Suc algebra_simps)
  moreover have "a \<noteq> regs c RSP - 8 \<Longrightarrow> cells ?c a = cells c a" for a by (simp add: push_def)
  ultimately show ?case unfolding same sp by (intro exI [of _ m]) (simp add: algebra_simps)
qed

primrec load_regs :: "Reg list \<Rightarrow> u64 list \<Rightarrow> Cpu \<Rightarrow> Cpu" where
  "load_regs [] ws c = c"
| "load_regs (r # rs) ws c = load_regs rs (tl ws) (set_reg r (List.hd ws) c)"

lemma load_regs_RSP: "RSP \<notin> set rs \<Longrightarrow> load_regs rs ws (set_reg RSP x c) = set_reg RSP x (load_regs rs ws c)"
  by (induction rs arbitrary: ws c) (auto simp: set_reg_twist [of _ RSP])

lemma run_pops:
  assumes "RSP \<notin> set rs" "words_at (cells c) (regs c RSP) ws" "length ws = length rs"
  shows "run (map Pop rs @ is) c = run is (set_reg RSP (regs c RSP + 8 * of_nat (length rs)) (load_regs rs ws c))"
  using assms
proof (induction rs arbitrary: c ws)
  case Nil
  then show ?case by simp
next
  case (Cons r rs)
  obtain w ws' where ws: "ws = w # ws'" using Cons.prems(3) by (cases ws) auto
  let ?c = "set_reg RSP (regs c RSP + 8) (set_reg r w c)"
  have r: "r \<noteq> RSP" "RSP \<notin> set rs" using Cons.prems by auto
  then have c: "exec (Pop r) c = ?c" using Cons.prems ws by (simp add: pop_def set_reg_twist [of r])
  have "run (map Pop rs @ is) ?c = run is (set_reg RSP (regs ?c RSP + 8 * of_nat (length rs)) (load_regs rs ws' ?c))"
    using Cons.prems ws r by (intro Cons.IH) auto
  then show ?case using ws r by (simp add: c load_regs_RSP algebra_simps del: exec.simps)
qed

lemma load_regs_frame [simp]:
  "cells (load_regs rs ws c) = cells c" "gs_base (load_regs rs ws c) = gs_base c" "kernel_gs_base (load_regs rs ws c) = kernel_gs_base c"
  by (induction rs arbitrary: ws c) (simp_all add: set_reg_def)

lemma syscall_enters:
  fixes c :: Cpu
  defines "e \<equiv> run syscall_entry (syscall_instr c)"
  shows "syscall_frame_at (cells e) (regs e RSP) =
       \<lparr>sf_r15 = regs c R15, sf_r14 = regs c R14, sf_r13 = regs c R13, sf_r12 = regs c R12,
        sf_rbp = regs c RBP, sf_rbx = regs c RBX, sf_r9 = regs c R9, sf_r8 = regs c R8, sf_r10 = regs c R10,
        sf_rdx = regs c RDX, sf_rsi = regs c RSI, sf_rdi = regs c RDI, sf_rax = regs c RAX,
        sf_user_rip = rip c, sf_user_rflags = rflags c, sf_user_rsp = regs c RSP\<rparr>"
    and "regs e RSP = cells c (kernel_gs_base c) - 128" "regs e RDI = regs e RSP"
    and "gs_base e = kernel_gs_base c" "kernel_gs_base e = gs_base c" "rflags e = rflags c AND NOT (fmask c)"
proof -
  let ?pushed = "[R11, RCX, RAX, RDI, RSI, RDX, R10, R8, R9, RBX, RBP, R12, R13, R14, R15]"
  let ?c = "run [Swapgs, StoreGs 8 RSP, LoadGs RSP 0, PushGs 8] (syscall_instr c)"
  have code: "run syscall_entry (syscall_instr c) = run (map Push ?pushed @ [Mov RDI RSP]) ?c" by (simp add: syscall_entry_def)
  have p: "RSP \<notin> set ?pushed" "words_at (cells ?c) (regs ?c RSP) [regs c RSP]" "length [regs c RSP] + length ?pushed < 2 ^ 60"
    "regs ?c RSP - 8 * of_nat (length ?pushed) = cells c (kernel_gs_base c) - 128"
    by (simp_all add: machine)
  obtain m where e: "e = run [Mov RDI RSP] (set_reg RSP (cells c (kernel_gs_base c) - 128) (?c\<lparr>cells := m\<rparr>))"
      and m: "words_at m (cells c (kernel_gs_base c) - 128) (rev (map (regs ?c) ?pushed) @ [regs c RSP])"
    using run_pushes [OF p(1,2,3), of "[Mov RDI RSP]"] unfolding p(4) e_def code by blast
  show "syscall_frame_at (cells e) (regs e RSP) =
       \<lparr>sf_r15 = regs c R15, sf_r14 = regs c R14, sf_r13 = regs c R13, sf_r12 = regs c R12,
        sf_rbp = regs c RBP, sf_rbx = regs c RBX, sf_r9 = regs c R9, sf_r8 = regs c R8, sf_r10 = regs c R10,
        sf_rdx = regs c RDX, sf_rsi = regs c RSI, sf_rdi = regs c RDI, sf_rax = regs c RAX,
        sf_user_rip = rip c, sf_user_rflags = rflags c, sf_user_rsp = regs c RSP\<rparr>"
    using m unfolding e by (simp add: frame_at machine)
  show "regs e RSP = cells c (kernel_gs_base c) - 128" "regs e RDI = regs e RSP"
    "gs_base e = kernel_gs_base c" "kernel_gs_base e = gs_base c" "rflags e = rflags c AND NOT (fmask c)"
    unfolding e by (simp_all add: machine)
qed

lemma syscall_returns:
  fixes d :: Cpu
  defines "F \<equiv> syscall_frame_at (cells d) (regs d RSP)" and "r \<equiv> run syscall_return d"
  shows "regs r x = ((regs d)(R15 := sf_r15 F, R14 := sf_r14 F, R13 := sf_r13 F, R12 := sf_r12 F,
        RBP := sf_rbp F, RBX := sf_rbx F, R9 := sf_r9 F, R8 := sf_r8 F, R10 := sf_r10 F,
        RDX := sf_rdx F, RSI := sf_rsi F, RDI := sf_rdi F, RAX := sf_rax F,
        RCX := sf_user_rip F, R11 := sf_user_rflags F, RSP := sf_user_rsp F)) x"
    and "rip r = sf_user_rip F" "rflags r = (sf_user_rflags F AND 0x3C7FD7) OR 2"
    and "gs_base r = kernel_gs_base d" "kernel_gs_base r = gs_base d"
proof -
  let ?popped = "[R15, R14, R13, R12, RBP, RBX, R9, R8, R10, RDX, RSI, RDI, RAX, RCX, R11]"
  let ?ws = "[sf_r15 F, sf_r14 F, sf_r13 F, sf_r12 F, sf_rbp F, sf_rbx F, sf_r9 F, sf_r8 F, sf_r10 F, sf_rdx F, sf_rsi F, sf_rdi F,
    sf_rax F, sf_user_rip F, sf_user_rflags F]"
  have "r = run (map Pop ?popped @ [PopGs 8, LoadGs RSP 8, Swapgs, Sysretq]) d" by (simp add: r_def syscall_return_def)
  also have "\<dots> = run [PopGs 8, LoadGs RSP 8, Swapgs, Sysretq] (set_reg RSP (regs d RSP + 120) (load_regs ?popped ?ws d))"
    by (subst run_pops [of _ d ?ws]) (simp_all add: F_def frame_at add.assoc)
  finally have r: "r = run [PopGs 8, LoadGs RSP 8, Swapgs, Sysretq] (set_reg RSP (regs d RSP + 120) (load_regs ?popped ?ws d))" .
  have sp: "cells d (regs d RSP + 120) = sf_user_rsp F" by (simp add: F_def frame_at)
  show "regs r x = ((regs d)(R15 := sf_r15 F, R14 := sf_r14 F, R13 := sf_r13 F, R12 := sf_r12 F,
        RBP := sf_rbp F, RBX := sf_rbx F, R9 := sf_r9 F, R8 := sf_r8 F, R10 := sf_r10 F,
        RDX := sf_rdx F, RSI := sf_rsi F, RDI := sf_rdi F, RAX := sf_rax F,
        RCX := sf_user_rip F, R11 := sf_user_rflags F, RSP := sf_user_rsp F)) x"
    unfolding r by (cases x) (simp_all add: pop_def sp)
  show "rip r = sf_user_rip F" "rflags r = (sf_user_rflags F AND 0x3C7FD7) OR 2"
    "gs_base r = kernel_gs_base d" "kernel_gs_base r = gs_base d"
    unfolding r by (simp_all add: machine)
qed

lemma swap_for_user:
  "run (TestByte off 3 # Jz 1 # Swapgs # is) c =
     run is (c\<lparr>zf := cells c (regs c RSP + off) AND 3 = 0,
       gs_base := (if cells c (regs c RSP + off) AND 3 = 0 then gs_base c else kernel_gs_base c),
       kernel_gs_base := (if cells c (regs c RSP + off) AND 3 = 0 then kernel_gs_base c else gs_base c)\<rparr>)"
  by (simp add: and.assoc)

lemma interrupt_enters:
  fixes c :: Cpu and vec selector sp :: u64
  defines "e \<equiv> \<lambda>err. run interrupt_common (run (case err of None \<Rightarrow> stub_no_err vec | Some _ \<Rightarrow> stub_err vec)
      (deliver_interrupt selector sp err c))"
  shows "interrupt_frame_at (cells (e err)) (regs (e err) RSP) =
       \<lparr>if_rax = regs c RAX, if_rcx = regs c RCX, if_rdx = regs c RDX, if_rsi = regs c RSI, if_rdi = regs c RDI,
        if_r8 = regs c R8, if_r9 = regs c R9, if_r10 = regs c R10, if_r11 = regs c R11, if_rbx = regs c RBX, if_rbp = regs c RBP,
        if_r12 = regs c R12, if_r13 = regs c R13, if_r14 = regs c R14, if_r15 = regs c R15,
        if_vector = vec, if_error_code = (case err of None \<Rightarrow> 0 | Some x \<Rightarrow> x),
        if_stack_frame = \<lparr>isf_instruction_pointer = rip c, isf_code_segment = cs c, isf_cpu_flags = rflags c,
          isf_stack_pointer = regs c RSP, isf_stack_segment = ss c\<rparr>\<rparr>" (is ?frame)
    and "regs (e err) RDI = regs (e err) RSP" "regs (e err) RSP = sp - 176"
    and "gs_base (e err) = (if cs c AND 3 = 0 then gs_base c else kernel_gs_base c)"
proof -
  let ?pushed = "[R15, R14, R13, R12, RBP, RBX, R11, R10, R9, R8, RDI, RSI, RDX, RCX, RAX]"
  let ?below = "[vec, case err of None \<Rightarrow> 0 | Some x \<Rightarrow> x, rip c, cs c, rflags c, regs c RSP, ss c]"
  let ?rest = "TestByte 144 3 # Jz 1 # Swapgs # [Mov RDI RSP, Cld]"
  define c1 where "c1 = run (case err of None \<Rightarrow> stub_no_err vec | Some _ \<Rightarrow> stub_err vec) (deliver_interrupt selector sp err c)"
  have c1: "words_at (cells c1) (regs c1 RSP) ?below" "regs c1 RSP = sp - 56" "gs_base c1 = gs_base c" "kernel_gs_base c1 = kernel_gs_base c"
    "x \<noteq> RSP \<Longrightarrow> regs c1 x = regs c x" for x
    by (cases err; simp add: c1_def machine entry_code)+
  have p: "RSP \<notin> set ?pushed" "length ?below + length ?pushed < 2 ^ 60" "regs c1 RSP - 8 * of_nat (length ?pushed) = sp - 176"
    "map (regs c1) ?pushed = map (regs c) ?pushed"
    using c1(5) by (simp_all add: c1(2))
  have code: "e err = run (map Push ?pushed @ ?rest) c1" unfolding e_def c1_def interrupt_common_def by (simp only: list.map append.simps)
  obtain m where "e err = run ?rest (set_reg RSP (sp - 176) (c1\<lparr>cells := m\<rparr>))"
      and m: "words_at m (sp - 176) (rev (map (regs c) ?pushed) @ ?below)"
    using run_pushes [OF p(1) c1(1) p(2), of ?rest] unfolding p(3,4) code by blast
  then have e: "e err = exec Cld (exec (Mov RDI RSP) (set_reg RSP (sp - 176) (c1\<lparr>cells := m, zf := cs c AND 3 = 0,
       gs_base := (if cs c AND 3 = 0 then gs_base c else kernel_gs_base c),
       kernel_gs_base := (if cs c AND 3 = 0 then kernel_gs_base c else gs_base c)\<rparr>)))"
    unfolding swap_for_user using m c1(3,4) by (simp add: set_reg_def)
  show ?frame using m unfolding e by (simp add: frame_at add.assoc)
  show "regs (e err) RDI = regs (e err) RSP" "regs (e err) RSP = sp - 176"
    "gs_base (e err) = (if cs c AND 3 = 0 then gs_base c else kernel_gs_base c)"
    unfolding e by simp_all
qed

lemma interrupt_returns:
  fixes d :: Cpu
  defines "F \<equiv> interrupt_frame_at (cells d) (regs d RSP)" and "r \<equiv> run interrupt_return d"
  shows "regs r x = ((regs d)(RAX := if_rax F, RCX := if_rcx F, RDX := if_rdx F, RSI := if_rsi F, RDI := if_rdi F,
        R8 := if_r8 F, R9 := if_r9 F, R10 := if_r10 F, R11 := if_r11 F, RBX := if_rbx F, RBP := if_rbp F,
        R12 := if_r12 F, R13 := if_r13 F, R14 := if_r14 F, R15 := if_r15 F,
        RSP := isf_stack_pointer (if_stack_frame F))) x" (is ?regs)
    and "rip r = isf_instruction_pointer (if_stack_frame F)" "cs r = isf_code_segment (if_stack_frame F)"
    and "rflags r = isf_cpu_flags (if_stack_frame F)" "ss r = isf_stack_segment (if_stack_frame F)"
    and "gs_base r = (if isf_code_segment (if_stack_frame F) AND 3 = 0 then gs_base d else kernel_gs_base d)"
proof -
  let ?popped = "[RAX, RCX, RDX, RSI, RDI, R8, R9, R10, R11, RBX, RBP, R12, R13, R14, R15]"
  let ?ws = "[if_rax F, if_rcx F, if_rdx F, if_rsi F, if_rdi F, if_r8 F, if_r9 F, if_r10 F, if_r11 F, if_rbx F, if_rbp F,
    if_r12 F, if_r13 F, if_r14 F, if_r15 F]"
  let ?user = "isf_code_segment (if_stack_frame F) AND 3 = 0"
  define d1 where "d1 = d\<lparr>zf := ?user, gs_base := (if ?user then gs_base d else kernel_gs_base d),
    kernel_gs_base := (if ?user then kernel_gs_base d else gs_base d)\<rparr>"
  have d1: "regs d1 = regs d" "cells d1 = cells d" "gs_base d1 = (if ?user then gs_base d else kernel_gs_base d)" by (simp_all add: d1_def)
  have "r = run (TestByte 144 3 # Jz 1 # Swapgs # (map Pop ?popped @ [AddRsp 16, Iretq])) d"
    by (simp add: r_def interrupt_return_def)
  also have "\<dots> = run (map Pop ?popped @ [AddRsp 16, Iretq]) d1"
    unfolding swap_for_user by (simp add: d1_def F_def frame_at)
  also have "\<dots> = run [AddRsp 16, Iretq] (set_reg RSP (regs d RSP + 120) (load_regs ?popped ?ws d1))"
    by (subst run_pops [of _ d1 ?ws]) (simp_all add: F_def frame_at d1 add.assoc)
  finally have r: "r = run [AddRsp 16, Iretq] (set_reg RSP (regs d RSP + 120) (load_regs ?popped ?ws d1))" .
  show ?regs unfolding r by (cases x) (simp_all add: d1 Let_def F_def frame_at add.assoc)
  show "rip r = isf_instruction_pointer (if_stack_frame F)" "cs r = isf_code_segment (if_stack_frame F)"
    "rflags r = isf_cpu_flags (if_stack_frame F)" "ss r = isf_stack_segment (if_stack_frame F)"
    "gs_base r = (if ?user then gs_base d else kernel_gs_base d)"
    unfolding r by (simp_all add: d1 Let_def F_def frame_at add.assoc)
qed

text \<open>What \<open>switch_context\<close> does: it saves the old context on its stack and loads the new one from its stack.\<close>

lemma switch_context_run:
  assumes "words_at (cells c) a [x15, x14, x13, x12, xb, xp, xr]" "a = cells c (regs c RSI)"
    and "\<forall>x \<in> insert (regs c RSI) (word_span a 7). x \<notin> insert (regs c RDI) (word_span (regs c RSP - 48) 6)"
    and "regs c RDI \<notin> word_span (regs c RSP - 48) 7"
  obtains m where
    "run switch_context c = (set_reg RSP (a + 56) (load_regs [R15, R14, R13, R12, RBX, RBP] [x15, x14, x13, x12, xb, xp] (c\<lparr>cells := m\<rparr>)))\<lparr>rip := xr\<rparr>"
    "words_at m (regs c RSP - 48) [regs c R15, regs c R14, regs c R13, regs c R12, regs c RBX, regs c RBP, cells c (regs c RSP)]"
    "m (regs c RDI) = regs c RSP - 48"
    "\<forall>x. x \<notin> insert (regs c RDI) (word_span (regs c RSP - 48) 6) \<longrightarrow> m x = cells c x"
proof -
  let ?pushed = "[RBP, RBX, R12, R13, R14, R15]" and ?popped = "[R15, R14, R13, R12, RBX, RBP]"
  let ?pop = "map Pop ?popped @ [RetI]"
  have p: "RSP \<notin> set ?pushed" "words_at (cells c) (regs c RSP) [cells c (regs c RSP)]" "length [cells c (regs c RSP)] + length ?pushed < 2 ^ 60"
    "regs c RSP - 8 * of_nat 6 = regs c RSP - 48" "length ?pushed = 6"
    by simp_all
  have code: "switch_context = map Push ?pushed @ (Store RDI RSP # Load RSP RSI # ?pop)"
    unfolding switch_context_def by (simp only: list.map append.simps)
  obtain m0 where m0: "run switch_context c = run (Store RDI RSP # Load RSP RSI # ?pop) (set_reg RSP (regs c RSP - 48) (c\<lparr>cells := m0\<rparr>))"
      "words_at m0 (regs c RSP - 48) (rev (map (regs c) ?pushed) @ [cells c (regs c RSP)])"
      "\<forall>x. x \<notin> word_span (regs c RSP - 48) 6 \<longrightarrow> m0 x = cells c x"
    using run_pushes [OF p(1,2,3), of "Store RDI RSP # Load RSP RSI # ?pop"] unfolding p(4,5) code by blast
  define m where "m = m0(regs c RDI := regs c RSP - 48)"
  have same: "\<forall>x. x \<notin> insert (regs c RDI) (word_span (regs c RSP - 48) 6) \<longrightarrow> m x = cells c x" using m0(3) by (simp add: m_def)
  have "words_at m0 (regs c RSP - 48) [regs c R15, regs c R14, regs c R13, regs c R12, regs c RBX, regs c RBP, cells c (regs c RSP)]"
    using m0(2) by simp
  then have saved: "words_at m (regs c RSP - 48) [regs c R15, regs c R14, regs c R13, regs c R12, regs c RBX, regs c RBP, cells c (regs c RSP)]"
    by (rule words_at_cong [THEN iffD1, rotated]) (use assms(4) in \<open>auto simp: m_def eval_nat_numeral\<close>)
  have a: "m (regs c RSI) = a" using same assms(2,3) by simp
  have ws: "words_at m a [x15, x14, x13, x12, xb, xp, xr]"
    by (rule words_at_cong [THEN iffD2, OF _ assms(1)]) (use same assms(3) in \<open>auto simp: eval_nat_numeral\<close>)
  let ?c = "set_reg RSP a (c\<lparr>cells := m\<rparr>)"
  have "run switch_context c = run ?pop ?c"
    unfolding m0(1) using a by (simp add: m_def)
  also have "\<dots> = run [RetI] (set_reg RSP (a + 48) (load_regs ?popped [x15, x14, x13, x12, xb, xp] ?c))"
    by (subst run_pops [of _ ?c "[x15, x14, x13, x12, xb, xp]"]) (use ws in \<open>simp_all add: add.assoc\<close>)
  also have "\<dots> = (set_reg RSP (a + 56) (load_regs ?popped [x15, x14, x13, x12, xb, xp] (c\<lparr>cells := m\<rparr>)))\<lparr>rip := xr\<rparr>"
    using ws by (subst load_regs_RSP) (simp_all add: pop_def add.assoc)
  finally show thesis using that saved same by (simp add: m_def)
qed

text \<open>
  (C14) A system call takes the registers to the kernel and back. After \<open>SYSCALL\<close> and
  \<open>syscall_entry\<close> the processor is on the kernel stack of the current task with the kernel's GS
  base, and \<open>rdi\<close> points at a \<open>SyscallFrame\<close> that holds every register of the user, the
  instruction pointer, the flags and the stack pointer. Whatever \<open>syscall_dispatch\<close> does to the
  other registers and the rest of memory, on its return each register gets the value that the
  frame then holds, the user's stack pointer and GS base come back, and execution goes on
  behind the \<open>SYSCALL\<close> instruction.
\<close>

theorem syscall_entry_return:
  fixes c d :: Cpu
  defines "e \<equiv> run syscall_entry (syscall_instr c)"
    and "F \<equiv> \<lambda>c. syscall_frame_at (cells c) (regs c RSP)"
    and "r \<equiv> run syscall_return d"
  assumes "gs_base d = gs_base e" "kernel_gs_base d = kernel_gs_base e"
  shows "F e = \<lparr>sf_r15 = regs c R15, sf_r14 = regs c R14, sf_r13 = regs c R13, sf_r12 = regs c R12,
           sf_rbp = regs c RBP, sf_rbx = regs c RBX, sf_r9 = regs c R9, sf_r8 = regs c R8, sf_r10 = regs c R10,
           sf_rdx = regs c RDX, sf_rsi = regs c RSI, sf_rdi = regs c RDI, sf_rax = regs c RAX,
           sf_user_rip = rip c, sf_user_rflags = rflags c, sf_user_rsp = regs c RSP\<rparr>
     \<and> regs e RSP = cells c (kernel_gs_base c) - 128 \<and> regs e RDI = regs e RSP
     \<and> gs_base e = kernel_gs_base c \<and> rflags e = rflags c AND NOT (fmask c)
     \<and> regs r = (regs d)(R15 := sf_r15 (F d), R14 := sf_r14 (F d), R13 := sf_r13 (F d), R12 := sf_r12 (F d),
           RBP := sf_rbp (F d), RBX := sf_rbx (F d), R9 := sf_r9 (F d), R8 := sf_r8 (F d), R10 := sf_r10 (F d),
           RDX := sf_rdx (F d), RSI := sf_rsi (F d), RDI := sf_rdi (F d), RAX := sf_rax (F d),
           RCX := sf_user_rip (F d), R11 := sf_user_rflags (F d), RSP := sf_user_rsp (F d))
     \<and> rip r = sf_user_rip (F d) \<and> rflags r = (sf_user_rflags (F d) AND 0x3C7FD7) OR 2
     \<and> gs_base r = gs_base c \<and> kernel_gs_base r = kernel_gs_base c"
  using assms(4,5) syscall_enters [of c] unfolding e_def F_def r_def
  by (intro conjI ext) (simp_all add: syscall_returns)

definition sample_cpu :: Cpu where
  "sample_cpu = \<lparr>regs = (\<lambda>_. 7), cells = (\<lambda>_. 0x9000), rip = 0x400010, rflags = 0x202, zf = False, cs = 0x23, ss = 0x1B,
     ds = 0x1B, es = 0x1B, fs = 0x1B, gs = 0, gs_base = 0, kernel_gs_base = 0x5000,
     star = 0, lstar = 0, cstar = 0, fmask = RFLAGS_MASK\<rparr>"

lemma sample_cpu_fields [simp]:
  "regs sample_cpu r = 7" "cells sample_cpu a = 0x9000" "rip sample_cpu = 0x400010" "kernel_gs_base sample_cpu = 0x5000"
  by (simp_all add: sample_cpu_def)

theorem syscall_entry_return_witness:
  "let e = run syscall_entry (syscall_instr sample_cpu); r = run syscall_return e in
   rip r = 0x400010 \<and> regs r RSP = 7 \<and> regs e RSP = 0x9000 - 128 \<and> gs_base e = 0x5000"
proof -
  define e where "e = run syscall_entry (syscall_instr sample_cpu)"
  define F where "F = syscall_frame_at (cells e) (regs e RSP)"
  show ?thesis
    using syscall_entry_return [OF refl refl, of sample_cpu, folded e_def, folded F_def] by (simp add: Let_def flip: e_def)
qed

text \<open>
  (C27) An interrupt takes the registers to the kernel and back. The stub of a vector for which
  the processor pushes an error code pushes only the vector, the others push a zero first; so
  after \<open>interrupt_common\<close> \<open>rdi\<close> points at an \<open>InterruptFrame\<close> with the vector, the error code
  (zero where there is none), every register and the interrupted state in its place. The GS
  base is the kernel's exactly when the interrupted code was the user's or had it before. On
  the return from the handler all registers, the instruction pointer, the code segment, the
  flags and the stack are those of the frame.
\<close>

theorem interrupt_entry_return:
  fixes c d :: Cpu and vec selector sp :: u64
  defines "e \<equiv> \<lambda>err. run interrupt_common (run (case err of None \<Rightarrow> stub_no_err vec | Some _ \<Rightarrow> stub_err vec)
      (deliver_interrupt selector sp err c))"
    and "F \<equiv> \<lambda>c. interrupt_frame_at (cells c) (regs c RSP)"
    and "r \<equiv> run interrupt_return d"
  shows "F (e err) = \<lparr>if_rax = regs c RAX, if_rcx = regs c RCX, if_rdx = regs c RDX, if_rsi = regs c RSI, if_rdi = regs c RDI,
           if_r8 = regs c R8, if_r9 = regs c R9, if_r10 = regs c R10, if_r11 = regs c R11, if_rbx = regs c RBX, if_rbp = regs c RBP,
           if_r12 = regs c R12, if_r13 = regs c R13, if_r14 = regs c R14, if_r15 = regs c R15,
           if_vector = vec, if_error_code = (case err of None \<Rightarrow> 0 | Some x \<Rightarrow> x),
           if_stack_frame = \<lparr>isf_instruction_pointer = rip c, isf_code_segment = cs c, isf_cpu_flags = rflags c,
             isf_stack_pointer = regs c RSP, isf_stack_segment = ss c\<rparr>\<rparr>
     \<and> regs (e err) RDI = regs (e err) RSP \<and> regs (e err) RSP = sp - 176
     \<and> gs_base (e err) = (if cs c AND 3 = 0 then gs_base c else kernel_gs_base c)
     \<and> regs r = (regs d)(RAX := if_rax (F d), RCX := if_rcx (F d), RDX := if_rdx (F d), RSI := if_rsi (F d), RDI := if_rdi (F d),
           R8 := if_r8 (F d), R9 := if_r9 (F d), R10 := if_r10 (F d), R11 := if_r11 (F d), RBX := if_rbx (F d), RBP := if_rbp (F d),
           R12 := if_r12 (F d), R13 := if_r13 (F d), R14 := if_r14 (F d), R15 := if_r15 (F d),
           RSP := isf_stack_pointer (if_stack_frame (F d)))
     \<and> rip r = isf_instruction_pointer (if_stack_frame (F d)) \<and> cs r = isf_code_segment (if_stack_frame (F d))
     \<and> rflags r = isf_cpu_flags (if_stack_frame (F d)) \<and> ss r = isf_stack_segment (if_stack_frame (F d))
     \<and> gs_base r = (if isf_code_segment (if_stack_frame (F d)) AND 3 = 0 then gs_base d else kernel_gs_base d)"
  unfolding e_def F_def r_def
  by (intro conjI ext) (rule interrupt_enters interrupt_returns)+

text \<open>
  The segments the kernel's selectors name are what the processor needs. In the table that
  \<open>gdt::init\<close> builds, the kernel's and the user's code selectors name 64-bit code segments and
  the data selectors writable data segments, each of the privilege of the selector; the task
  state selector names a descriptor that decodes to the segment's address and size, whose first
  interrupt stack is the double-fault stack. The selectors that \<open>SYSCALL\<close> and \<open>SYSRET\<close> compute
  from the value \<open>syscall::init\<close> writes to \<open>STAR\<close> are these same selectors, the kernel runs
  with the GS base of its processor data, and interrupts, single steps and the direction flag
  are off when \<open>syscall_entry\<close> starts.
\<close>

theorem segments_correct:
  fixes c :: Cpu and entry cpu_local :: u64
  assumes "gdt_init tss_address stack_bottom tss_new = Ret (gdt, tss)"
  defines "k \<equiv> syscall_init entry cpu_local c" and "seg \<equiv> \<lambda>s. usable_segment (gdt_entries gdt ! selector_index s)"
  shows "seg KERNEL_CODE_SELECTOR = Some (CodeSegment (selector_privilege KERNEL_CODE_SELECTOR)) \<and> selector_privilege KERNEL_CODE_SELECTOR = 0
     \<and> seg KERNEL_DATA_SELECTOR = Some (DataSegment (selector_privilege KERNEL_DATA_SELECTOR)) \<and> selector_privilege KERNEL_DATA_SELECTOR = 0
     \<and> seg USER_CODE_SELECTOR = Some (CodeSegment (selector_privilege USER_CODE_SELECTOR)) \<and> selector_privilege USER_CODE_SELECTOR = 3
     \<and> seg USER_DATA_SELECTOR = Some (DataSegment (selector_privilege USER_DATA_SELECTOR)) \<and> selector_privilege USER_DATA_SELECTOR = 3
     \<and> (\<exists>low high. drop (selector_index TSS_SELECTOR) (gdt_entries gdt) = [low, high]
          \<and> tss_base low high = tss_address \<and> unat (tss_limit low) + 1 = TSS_SIZE \<and> tss_available low)
     \<and> unat (gp_limit (gdt_pointer a)) + 1 = 8 * length (gdt_entries gdt)
     \<and> unat (tss_interrupt_stacks tss ! 0) = unat stack_bottom + unat DOUBLE_FAULT_STACK_SIZE
     \<and> cs (syscall_instr k) = ucast KERNEL_CODE_SELECTOR \<and> ss (syscall_instr k) = ucast KERNEL_DATA_SELECTOR
     \<and> cs (exec Sysretq k) = ucast USER_CODE_SELECTOR \<and> ss (exec Sysretq k) = ucast USER_DATA_SELECTOR
     \<and> gs_base k = cpu_local \<and> rip (syscall_instr k) = entry
     \<and> (\<forall>f\<in>{8, 9, 10}. \<not> bit (rflags (syscall_instr k)) f)"
proof -
  obtain low high where td: "tss_descriptor tss_address = [low, high]" by (simp add: tss_descriptor_def Let_def)
  have g: "gdt_entries gdt = [0, kernel_code_descriptor, kernel_data_descriptor, user_data_descriptor, user_code_descriptor, low, high]"
    and st: "unat (tss_interrupt_stacks tss ! 0) = unat stack_bottom + unat DOUBLE_FAULT_STACK_SIZE"
    using assms(1) td by (auto simp: gdt_init_def tss_new_def checked_add_unat split: bind_splits)
  show ?thesis
    using st tss_descriptor_fields [OF td] unfolding k_def seg_def g
    by (simp add: selector_defs descriptor_defs selector_index_def selector_privilege_def usable_segment_def gdt_pointer_def TSS_SIZE_def
        syscall_init_def syscall_instr_def RFLAGS_MASK_def Let_def bit_simps)
qed

theorem segments_correct_witness:
  "\<exists>gdt tss. gdt_init 0xFFFFFFFF80001000 0xFFFFFFFF80002000 tss_new = Ret (gdt, tss)
     \<and> cs (exec Sysretq (syscall_init 0 0 sample_cpu)) = 0x23
     \<and> unat (tss_interrupt_stacks tss ! 0) = unat (0xFFFFFFFF80006000 :: u64)"
proof -
  obtain gdt tss where g: "gdt_init 0xFFFFFFFF80001000 0xFFFFFFFF80002000 tss_new = Ret (gdt, tss)"
    by (simp add: gdt_init_def checked_add_def DOUBLE_FAULT_STACK_SIZE_def)
  then show ?thesis
    using segments_correct [OF g, where c = sample_cpu and entry = 0 and cpu_local = 0] by (simp add: USER_CODE_SELECTOR_def DOUBLE_FAULT_STACK_SIZE_def)
qed

subsection \<open>Switching between tasks\<close>

text \<open>
  (C9) A task that is switched away from resumes where it was. Let \<open>switch_context\<close> run in the
  state \<open>c\<close>, whose task's context is stored at \<open>rdi\<close>, and let it run again later, in a state \<open>c2\<close>
  of some other task that switches to the context stored there. If the cells of the suspended
  task, its context and the seven cells from its saved stack pointer on, still hold what they
  held and are not on the stack of the other task, then the callee-saved registers and the
  stack pointer are those of \<open>c\<close> and execution goes on at the return address of the first call.
\<close>

theorem switch_context_roundtrip:
  fixes c c2 :: Cpu
  defines "c1 \<equiv> run switch_context c" and "c3 \<equiv> run switch_context c2"
    and "mine \<equiv> insert (regs c RDI) (word_span (regs c RSP - 48) 7)"
  assumes there: "words_at (cells c) (cells c (regs c RSI)) ws" "length ws = 7"
    and apart: "\<forall>x \<in> insert (regs c RSI) (word_span (cells c (regs c RSI)) 7). x \<notin> insert (regs c RDI) (word_span (regs c RSP - 48) 6)"
      "regs c RDI \<notin> word_span (regs c RSP - 48) 7"
    and again: "regs c2 RSI = regs c RDI" "\<forall>x\<in>mine. cells c2 x = cells c1 x"
      "\<forall>x\<in>mine. x \<notin> insert (regs c2 RDI) (word_span (regs c2 RSP - 48) 6)" "regs c2 RDI \<notin> word_span (regs c2 RSP - 48) 7"
  shows "(\<forall>r\<in>{RBX, RBP, R12, R13, R14, R15}. regs c3 r = regs c r)
     \<and> regs c3 RSP = regs c RSP + 8 \<and> rip c3 = cells c (regs c RSP)
     \<and> regs c1 RSP = cells c (regs c RSI) + 56 \<and> rip c1 = ws ! 6"
proof -
  obtain x15 x14 x13 x12 xb xp xr where ws: "ws = [x15, x14, x13, x12, xb, xp, xr]"
    using there(2) by (auto simp: numeral_eq_Suc length_Suc_conv)
  obtain m where m: "c1 = (set_reg RSP (cells c (regs c RSI) + 56)
         (load_regs [R15, R14, R13, R12, RBX, RBP] [x15, x14, x13, x12, xb, xp] (c\<lparr>cells := m\<rparr>)))\<lparr>rip := xr\<rparr>"
      "words_at m (regs c RSP - 48) [regs c R15, regs c R14, regs c R13, regs c R12, regs c RBX, regs c RBP, cells c (regs c RSP)]"
      "m (regs c RDI) = regs c RSP - 48"
    using switch_context_run [OF there(1) [unfolded ws] refl apart] unfolding c1_def by blast
  have c1: "cells c1 = m" unfolding m(1) by simp
  have ctx: "cells c2 (regs c2 RSI) = regs c RSP - 48" using again(1,2) m(3) c1 by (simp add: mine_def)
  have "words_at (cells c2) (regs c RSP - 48) [regs c R15, regs c R14, regs c R13, regs c R12, regs c RBX, regs c RBP, cells c (regs c RSP)]"
    by (rule words_at_cong [THEN iffD2, OF _ m(2)]) (use again(2) c1 in \<open>auto simp: mine_def eval_nat_numeral\<close>)
  then obtain m' where c3: "c3 = (set_reg RSP (regs c RSP - 48 + 56) (load_regs [R15, R14, R13, R12, RBX, RBP]
         [regs c R15, regs c R14, regs c R13, regs c R12, regs c RBX, regs c RBP] (c2\<lparr>cells := m'\<rparr>)))\<lparr>rip := cells c (regs c RSP)\<rparr>"
    using switch_context_run [of c2 "regs c RSP - 48"] ctx again unfolding c3_def mine_def by metis
  show ?thesis using ws unfolding m(1) c3 by simp
qed

definition sample_switch :: Cpu where
  "sample_switch = sample_cpu\<lparr>regs := (\<lambda>r. if r = RDI then 0x1000 else if r = RSI then 0x2000 else if r = RSP then 0x9048 else 5),
     cells := (\<lambda>a. if a = 0x2000 then 0x8000 else 3)\<rparr>"

definition sample_switch_back :: Cpu where
  "sample_switch_back = (run switch_context sample_switch)
     \<lparr>regs := (\<lambda>r. if r = RDI then 0x2000 else if r = RSI then 0x1000 else if r = RSP then 0x8100 else 6)\<rparr>"

lemma sample_switch_fields [simp]:
  "regs sample_switch r = (if r = RDI then 0x1000 else if r = RSI then 0x2000 else if r = RSP then 0x9048 else 5)"
  "cells sample_switch a = (if a = 0x2000 then 0x8000 else 3)"
  "regs sample_switch_back r = (if r = RDI then 0x2000 else if r = RSI then 0x1000 else if r = RSP then 0x8100 else 6)"
  "cells sample_switch_back = cells (run switch_context sample_switch)"
  by (simp_all add: sample_switch_def sample_switch_back_def)

lemma word_span_eval:
  "word_span a 0 = {}" "word_span a (numeral n) = insert a (word_span (a + 8) (pred_numeral n))"
  by (simp_all add: word_span_def numeral_eq_Suc flip: word_span_Suc [unfolded word_span_def])

theorem switch_context_roundtrip_witness:
  "regs (run switch_context sample_switch_back) RSP = 0x9050 \<and> regs (run switch_context sample_switch_back) R12 = 5
     \<and> rip (run switch_context sample_switch_back) = 3"
proof -
  have "words_at (cells sample_switch) (cells sample_switch (regs sample_switch RSI)) [3, 3, 3, 3, 3, 3, 3]" "length [3, 3, 3, 3, 3, 3, 3 :: u64] = 7"
    "\<forall>x \<in> insert (regs sample_switch RSI) (word_span (cells sample_switch (regs sample_switch RSI)) 7).
       x \<notin> insert (regs sample_switch RDI) (word_span (regs sample_switch RSP - 48) 6)"
    "regs sample_switch RDI \<notin> word_span (regs sample_switch RSP - 48) 7"
    "\<forall>x \<in> insert (regs sample_switch RDI) (word_span (regs sample_switch RSP - 48) 7).
       x \<notin> insert (regs sample_switch_back RDI) (word_span (regs sample_switch_back RSP - 48) 6)"
    "regs sample_switch_back RDI \<notin> word_span (regs sample_switch_back RSP - 48) 7"
    by (simp_all add: word_span_eval word_span_Suc)
  then show ?thesis
    using switch_context_roundtrip [of sample_switch "[3, 3, 3, 3, 3, 3, 3]" sample_switch_back] by simp
qed

lemma run_xors: "run (map XorSelf rs @ is) c = run is (c\<lparr>regs := (\<lambda>r. if r \<in> set rs then 0 else regs c r)\<rparr>)"
proof (induction rs arbitrary: c)
  case (Cons r rs)
  have "set_reg r 0 c\<lparr>regs := (\<lambda>x. if x \<in> set rs then 0 else regs (set_reg r 0 c) x)\<rparr> = c\<lparr>regs := (\<lambda>x. if x \<in> set (r # rs) then 0 else regs c x)\<rparr>"
    by (simp add: set_reg_def) (rule arg_cong [of _ _ "\<lambda>f. c\<lparr>regs := f\<rparr>"], auto)
  then show ?case using Cons.IH [of "set_reg r 0 c"] by (simp only: list.map append.simps run.simps exec.simps)
qed simp

lemma enter_user_run:
  fixes c :: Cpu and ud uc ui us :: Reg
  assumes "RSP \<notin> {ud, uc, ui, us}"
  defines "u \<equiv> run (enter_user ud uc ui us) c"
  shows "rip u = regs c ui" "cs u = regs c uc" "rflags u = 0x202" "ss u = regs c ud" "regs u RSP = regs c us" "r \<noteq> RSP \<Longrightarrow> regs u r = 0"
    "gs_base u = 0" "kernel_gs_base u = gs_base c" "gs u = 0"
    "ds u = regs c ud AND 0xFFFF" "es u = regs c ud AND 0xFFFF" "fs u = regs c ud AND 0xFFFF"
proof -
  let ?xors = "[RAX, RBX, RCX, RDX, RSI, RDI, RBP, R8, R9, R10, R11, R12, R13, R14, R15]"
  let ?start = "[MovDs ud, MovEs ud, MovFs ud, Push ud, Push us, PushImm 0x202, Push uc, Push ui]"
  have all: "r \<in> set ?xors \<longleftrightarrow> r \<noteq> RSP" for r by (cases r) simp_all
  define c1 where "c1 = run ?start c"
  have c1: "cells c1 (regs c1 RSP) = regs c ui" "cells c1 (regs c1 RSP + 8) = regs c uc" "cells c1 (regs c1 RSP + 16) = 0x202"
    "cells c1 (regs c1 RSP + 24) = regs c us" "cells c1 (regs c1 RSP + 32) = regs c ud" "gs_base c1 = gs_base c"
    "ds c1 = regs c ud AND 0xFFFF" "es c1 = regs c ud AND 0xFFFF" "fs c1 = regs c ud AND 0xFFFF"
    using assms(1) unfolding c1_def by (auto simp: machine)
  have "u = run (map XorSelf ?xors @ [Swapgs, MovGs ud, Iretq]) c1"
    unfolding u_def enter_user_def c1_def by (simp del: exec.simps)
  then have u: "u = run [Swapgs, MovGs ud, Iretq] (c1\<lparr>regs := (\<lambda>r. if r \<noteq> RSP then 0 else regs c1 r)\<rparr>)"
    unfolding run_xors all .
  show "rip u = regs c ui" "cs u = regs c uc" "rflags u = 0x202" "ss u = regs c ud" "regs u RSP = regs c us" "r \<noteq> RSP \<Longrightarrow> regs u r = 0"
    "gs_base u = 0" "kernel_gs_base u = gs_base c" "gs u = 0"
    "ds u = regs c ud AND 0xFFFF" "es u = regs c ud AND 0xFFFF" "fs u = regs c ud AND 0xFFFF"
    using assms(1) c1 unfolding u by (auto simp: Let_def set_reg_def)
qed

text \<open>
  (C15) A new task reaches its program, and nothing of the kernel leaks into it. When
  \<open>switch_context\<close> first switches to a task whose stack holds the words that \<open>ThreadContext::new\<close>
  stores, execution goes through \<open>user_thread_entry\<close> to \<open>enter_user\<close> with the task's entry point
  and stack as arguments. Whatever registers the compiler chooses for the operands, the
  processor leaves \<open>enter_user\<close> at the entry point on the user's stack, with the user's code and
  data segments, interrupts enabled and all other general registers zero; the kernel's GS base
  waits in \<open>IA32_KERNEL_GS_BASE\<close>. The selector in GS is zero and not the user data selector the
  code names, because the register that holds it has been cleared by then.
\<close>

theorem new_task_enters_user:
  fixes c d :: Cpu and ud uc ui us :: Reg
  defines "a \<equiv> cells c (regs c RSI)" and "n \<equiv> run switch_context c" and "u \<equiv> run (enter_user ud uc ui us) d"
  assumes "words_at (cells c) a [0, 0, 0, user_entry, user_stack, 0, entry_address]"
    and "\<forall>x \<in> insert (regs c RSI) (word_span a 7). x \<notin> insert (regs c RDI) (word_span (regs c RSP - 48) 6)"
    and "regs c RDI \<notin> word_span (regs c RSP - 48) 7"
    and operands: "RSP \<notin> {ud, uc, ui, us}" "regs d ud = ucast USER_DATA_SELECTOR" "regs d uc = ucast USER_CODE_SELECTOR"
      "regs d ui = regs (run (user_thread_entry eu) n) RDI" "regs d us = regs (run (user_thread_entry eu) n) RSI" "gs_base d = gs_base c"
  shows "rip n = entry_address \<and> rip (run (user_thread_entry eu) n) = eu
     \<and> rip u = user_entry \<and> regs u RSP = user_stack \<and> (\<forall>r. r \<noteq> RSP \<longrightarrow> regs u r = 0)
     \<and> cs u = ucast USER_CODE_SELECTOR \<and> ss u = ucast USER_DATA_SELECTOR \<and> rflags u = 0x202
     \<and> kernel_gs_base u = gs_base c \<and> gs_base u = 0
     \<and> ds u = ucast USER_DATA_SELECTOR \<and> gs u = 0"
proof -
  obtain m where n: "n = (set_reg RSP (a + 56) (load_regs [R15, R14, R13, R12, RBX, RBP] [0, 0, 0, user_entry, user_stack, 0] (c\<lparr>cells := m\<rparr>)))
      \<lparr>rip := entry_address\<rparr>"
    using switch_context_run [OF assms(4) a_def [THEN meta_eq_to_obj_eq] assms(5,6)] unfolding n_def by blast
  have t: "rip n = entry_address" "rip (run (user_thread_entry eu) n) = eu" "regs d ui = user_entry" "regs d us = user_stack"
    using operands(4,5) unfolding n by (simp_all add: user_thread_entry_def push_def)
  show ?thesis
    using enter_user_run [OF operands(1), where c = d] t operands unfolding u_def by (simp add: USER_DATA_SELECTOR_def)
qed

text \<open>The words are those that \<open>ThreadContext::new\<close> stores from the saved stack pointer on.\<close>

lemma thread_context_words:
  assumes "thread_context_new pt ute user_entry user_stack top m = Ret (ctx, m')"
  shows "virt_write_words pt (ctx_rsp ctx) [0, 0, 0, user_entry, user_stack, 0, ute] m = Ret m'" "ctx_rsp ctx + 56 = top"
  using assms by (auto simp: thread_context_new_def checked_sub_Some_iff split: bind_splits)

theorem new_task_enters_user_witness:
  "let c = sample_cpu\<lparr>regs := (\<lambda>r. if r = RDI then 0x1000 else if r = RSI then 0x2000 else if r = RSP then 0x9048 else 5),
         cells := (\<lambda>a. if a = 0x2000 then 0x8000 else if a = 0x8018 then 0x400000 else if a = 0x8020 then 0x7000 else if a = 0x8030 then 0xF000 else 0)\<rparr>;
       n = run switch_context c;
       d = c\<lparr>regs := (\<lambda>r. if r = RAX then 0x1B else if r = RBX then 0x23 else if r = RDI then regs (run (user_thread_entry 0xE000) n) RDI
             else regs (run (user_thread_entry 0xE000) n) RSI)\<rparr>;
       u = run (enter_user RAX RBX RDI RSI) d in
   rip n = 0xF000 \<and> rip u = 0x400000 \<and> regs u RSP = 0x7000 \<and> regs u RDI = 0 \<and> cs u = 0x23"
proof -
  define c where "c = sample_cpu\<lparr>regs := (\<lambda>r. if r = RDI then 0x1000 else if r = RSI then 0x2000 else if r = RSP then 0x9048 else 5),
         cells := (\<lambda>a. if a = 0x2000 then 0x8000 else if a = 0x8018 then 0x400000 else if a = 0x8020 then 0x7000 else if a = 0x8030 then 0xF000 else 0)\<rparr>"
  define n where "n = run switch_context c"
  define d where "d = c\<lparr>regs := (\<lambda>r. if r = RAX then 0x1B else if r = RBX then 0x23 else if r = RDI then regs (run (user_thread_entry 0xE000) n) RDI
             else regs (run (user_thread_entry 0xE000) n) RSI)\<rparr>"
  have c: "words_at (cells c) (cells c (regs c RSI)) [0, 0, 0, 0x400000, 0x7000, 0, 0xF000]"
    "\<forall>x \<in> insert (regs c RSI) (word_span (cells c (regs c RSI)) 7). x \<notin> insert (regs c RDI) (word_span (regs c RSP - 48) 6)"
    "regs c RDI \<notin> word_span (regs c RSP - 48) 7"
    by (simp_all add: c_def word_span_eval word_span_Suc)
  have d: "RSP \<notin> {RAX, RBX, RDI, RSI}" "regs d RAX = ucast USER_DATA_SELECTOR" "regs d RBX = ucast USER_CODE_SELECTOR"
      "regs d RDI = regs (run (user_thread_entry 0xE000) n) RDI" "regs d RSI = regs (run (user_thread_entry 0xE000) n) RSI" "gs_base d = gs_base c"
    by (simp_all add: d_def selector_defs)
  show ?thesis
    using new_task_enters_user [OF c d [unfolded n_def]]
    unfolding Let_def c_def [symmetric] n_def [symmetric] d_def [symmetric] by (simp add: USER_CODE_SELECTOR_def)
qed

text \<open>After \<open>enter_kernel\<close> system calls and interrupts from user code find the kernel stack.\<close>

lemma enter_kernel_stacks:
  assumes "enter_kernel entry cpu_local st h km stack_top (tss, c) = (tss', c')" "length (tss_privilege_stacks tss) = 3"
    and "regs c st = stack_top" "regs c h = handoff" "{st, h} \<inter> {RSP, RBP, RDI} = {}" "cpu_local \<noteq> stack_top - 8"
  shows "tss_privilege_stacks tss' ! 0 = stack_top" "cells c' (gs_base c') = stack_top" "regs c' RSP = stack_top - 8"
    "regs c' RDI = handoff" "rip c' = km" "lstar c' = entry"
  using assms
  by (auto simp: enter_kernel_def enter_kernel_code_def syscall_init_def tss_set_kernel_stack_def Let_def push_def set_reg_def)

end
