(* ===== verification/Idt.thy ===== *)
theory Idt
  imports Asm
begin

section \<open>The interrupt descriptor table\<close>

text \<open>
  \<open>idt.rs\<close>, and the installation of the handlers in \<open>exceptions.rs\<close> and \<open>apic_vectors.rs\<close>. The
  stubs are a datatype, with the vector each pushes and whether it leaves room for the
  processor's error code; the address of a stub is chosen by the linker and a parameter. The
  second part reads a gate the way the processor does.
\<close>

record IdtEntry =
  ie_offset_low :: u16
  ie_code_selector :: u16
  ie_ist :: u8
  ie_attributes :: u8
  ie_offset_middle :: u16
  ie_offset_high :: u32
  ie_reserved :: u32

definition idt_entry_missing :: IdtEntry where
  "idt_entry_missing =
     \<lparr>ie_offset_low = 0, ie_code_selector = 0, ie_ist = 0, ie_attributes = 0, ie_offset_middle = 0, ie_offset_high = 0, ie_reserved = 0\<rparr>"

record IdtPointer =
  ip_limit :: u16
  ip_base :: u64

definition INTERRUPT_GATE :: u8 where "INTERRUPT_GATE = 0b1110"
definition GATE_PRESENT :: u8 where "GATE_PRESENT = push_bit 7 1"
definition KERNEL_INTERRUPT_GATE :: u8 where "KERNEL_INTERRUPT_GATE = GATE_PRESENT OR INTERRUPT_GATE"
definition USER_DPL :: u8 where "USER_DPL = push_bit 5 3"
definition USER_INTERRUPT_GATE :: u8 where "USER_INTERRUPT_GATE = GATE_PRESENT OR USER_DPL OR INTERRUPT_GATE"

record Idt =
  idt_entries :: "IdtEntry list"

definition idt_new :: Idt where
  "idt_new = \<lparr>idt_entries = replicate 256 idt_entry_missing\<rparr>"

definition set_handler_address :: "u8 \<Rightarrow> usize \<Rightarrow> u8 \<Rightarrow> u8 \<Rightarrow> Idt \<Rightarrow> Idt" where
  "set_handler_address vector address ist attributes idt =
     idt\<lparr>idt_entries := (idt_entries idt)[unat vector :=
       \<lparr>ie_offset_low = ucast address, ie_code_selector = KERNEL_CODE_SELECTOR, ie_ist = ist AND 0b111, ie_attributes = attributes,
        ie_offset_middle = ucast (drop_bit 16 address), ie_offset_high = ucast (drop_bit 32 address), ie_reserved = 0\<rparr>]\<rparr>"

definition set_handler :: "u8 \<Rightarrow> usize \<Rightarrow> u8 \<Rightarrow> Idt \<Rightarrow> Idt" where
  "set_handler vector handler ist idt = set_handler_address vector handler ist KERNEL_INTERRUPT_GATE idt"

definition set_user_handler :: "u8 \<Rightarrow> usize \<Rightarrow> u8 \<Rightarrow> Idt \<Rightarrow> Idt" where
  "set_user_handler vector handler ist idt = set_handler_address vector handler ist USER_INTERRUPT_GATE idt"

subsection \<open>The stubs and their installation\<close>

datatype Stub =
  StubDivideError | StubDebug | StubNonMaskableInterrupt | StubBreakpoint | StubInvalidOpcode | StubDeviceNotAvailable
| StubDoubleFault | StubInvalidTss | StubSegmentNotPresent | StubStackSegmentFault | StubGeneralProtection | StubPageFault
| StubX87FloatingPoint | StubAlignmentCheck | StubMachineCheck | StubSimdFloatingPoint | StubUserTestExit
| StubPitCalibration | StubApicTimer | StubApicError | StubApicSpurious

primrec stub_code :: "Stub \<Rightarrow> Instr list" where
  "stub_code StubDivideError = stub_no_err 0"
| "stub_code StubDebug = stub_no_err 1"
| "stub_code StubNonMaskableInterrupt = stub_no_err 2"
| "stub_code StubBreakpoint = stub_no_err 3"
| "stub_code StubInvalidOpcode = stub_no_err 6"
| "stub_code StubDeviceNotAvailable = stub_no_err 7"
| "stub_code StubDoubleFault = stub_err 8"
| "stub_code StubInvalidTss = stub_err 10"
| "stub_code StubSegmentNotPresent = stub_err 11"
| "stub_code StubStackSegmentFault = stub_err 12"
| "stub_code StubGeneralProtection = stub_err 13"
| "stub_code StubPageFault = stub_err 14"
| "stub_code StubX87FloatingPoint = stub_no_err 16"
| "stub_code StubAlignmentCheck = stub_err 17"
| "stub_code StubMachineCheck = stub_no_err 18"
| "stub_code StubSimdFloatingPoint = stub_no_err 19"
| "stub_code StubUserTestExit = stub_no_err 0x80"
| "stub_code StubPitCalibration = stub_no_err 0xF1"
| "stub_code StubApicTimer = stub_no_err 0xFD"
| "stub_code StubApicError = stub_no_err 0xFE"
| "stub_code StubApicSpurious = stub_no_err 0xFF"

definition PIT_CALIBRATION_VECTOR :: u8 where "PIT_CALIBRATION_VECTOR = 0xF1"
definition APIC_TIMER_VECTOR :: u8 where "APIC_TIMER_VECTOR = 0xFD"
definition APIC_ERROR_VECTOR :: u8 where "APIC_ERROR_VECTOR = 0xFE"
definition APIC_SPURIOUS_VECTOR :: u8 where "APIC_SPURIOUS_VECTOR = 0xFF"

definition exceptions_install :: "(Stub \<Rightarrow> usize) \<Rightarrow> Idt \<Rightarrow> Idt" where
  "exceptions_install address idt =
     (let idt = set_handler 0 (address StubDivideError) 0 idt;
          idt = set_handler 1 (address StubDebug) 0 idt;
          idt = set_handler 2 (address StubNonMaskableInterrupt) 0 idt;
          idt = set_user_handler 3 (address StubBreakpoint) 0 idt;
          idt = set_handler 6 (address StubInvalidOpcode) 0 idt;
          idt = set_handler 7 (address StubDeviceNotAvailable) 0 idt;
          idt = set_handler 8 (address StubDoubleFault) 1 idt;
          idt = set_handler 10 (address StubInvalidTss) 0 idt;
          idt = set_handler 11 (address StubSegmentNotPresent) 0 idt;
          idt = set_handler 12 (address StubStackSegmentFault) 0 idt;
          idt = set_handler 13 (address StubGeneralProtection) 0 idt;
          idt = set_handler 14 (address StubPageFault) 0 idt;
          idt = set_handler 16 (address StubX87FloatingPoint) 0 idt;
          idt = set_handler 17 (address StubAlignmentCheck) 0 idt;
          idt = set_handler 18 (address StubMachineCheck) 0 idt;
          idt = set_handler 19 (address StubSimdFloatingPoint) 0 idt
      in set_user_handler 0x80 (address StubUserTestExit) 0 idt)"

definition apic_install :: "(Stub \<Rightarrow> usize) \<Rightarrow> Idt \<Rightarrow> Idt" where
  "apic_install address idt =
     (let idt = set_handler PIT_CALIBRATION_VECTOR (address StubPitCalibration) 0 idt;
          idt = set_handler APIC_ERROR_VECTOR (address StubApicError) 0 idt;
          idt = set_handler APIC_TIMER_VECTOR (address StubApicTimer) 0 idt
      in set_handler APIC_SPURIOUS_VECTOR (address StubApicSpurious) 0 idt)"

definition idt_init :: "(Stub \<Rightarrow> usize) \<Rightarrow> usize \<Rightarrow> Idt \<times> IdtPointer" where
  "idt_init address idt_address =
     (let idt = idt_new;
          idt = exceptions_install address idt;
          idt = apic_install address idt
      in (idt, \<lparr>ip_limit = of_nat (256 * 16 - 1), ip_base = idt_address\<rparr>))"

subsection \<open>The processor's view\<close>

definition gate_present :: "IdtEntry \<Rightarrow> bool" where
  "gate_present e \<longleftrightarrow> bit (ie_attributes e) 7"

definition gate_address :: "IdtEntry \<Rightarrow> usize" where
  "gate_address e = ucast (ie_offset_low e) OR push_bit 16 (ucast (ie_offset_middle e)) OR push_bit 32 (ucast (ie_offset_high e))"

definition gate_privilege :: "IdtEntry \<Rightarrow> nat" where
  "gate_privilege e = unat (drop_bit 5 (ie_attributes e) AND 3)"

text \<open>An interrupt gate: type 14, which disables interrupts on entry.\<close>

definition gate_interrupt :: "IdtEntry \<Rightarrow> bool" where
  "gate_interrupt e \<longleftrightarrow> ie_attributes e AND 0x1F = 0x0E"

lemma gate_address_parts:
  "(ucast (ucast a :: u16) :: u64) OR push_bit 16 (ucast (ucast (drop_bit 16 a) :: u16)) OR push_bit 32 (ucast (ucast (drop_bit 32 a) :: u32)) = a"
  for a :: u64
  by (rule u64_eqI) (simp add: upt_64 bit_simps)

text \<open>The gate a call of \<open>set_handler_address\<close> leaves, and the table as a function of the vector.\<close>

definition gate_for :: "usize \<Rightarrow> u8 \<Rightarrow> bool \<Rightarrow> IdtEntry \<Rightarrow> bool" where
  "gate_for address ist user e \<longleftrightarrow> gate_present e \<and> gate_interrupt e \<and> gate_address e = address
     \<and> gate_privilege e = (if user then 3 else 0) \<and> ie_code_selector e = KERNEL_CODE_SELECTOR \<and> ie_ist e = ist"

definition gate_at :: "Idt \<Rightarrow> u8 \<Rightarrow> IdtEntry" where
  "gate_at idt v = idt_entries idt ! unat v"

text \<open>The vectors for which the processor pushes an error code.\<close>

definition pushes_error_code :: "u8 \<Rightarrow> bool" where
  "pushes_error_code v \<longleftrightarrow> v \<in> {8, 10, 11, 12, 13, 14, 17, 21, 29, 30}"

definition full :: "Idt \<Rightarrow> bool" where
  "full idt \<longleftrightarrow> length (idt_entries idt) = 256"

lemma set_handler_address_gate:
  assumes "full idt"
  shows "full (set_handler_address v a i t idt)"
    "gate_at (set_handler_address v a i t idt) w =
       (if w = v then \<lparr>ie_offset_low = ucast a, ie_code_selector = KERNEL_CODE_SELECTOR, ie_ist = i AND 0b111, ie_attributes = t,
          ie_offset_middle = ucast (drop_bit 16 a), ie_offset_high = ucast (drop_bit 32 a), ie_reserved = 0\<rparr>
        else gate_at idt w)"
proof -
  have "unat v < 256" using unsigned_less [of v] by simp
  then show "full (set_handler_address v a i t idt)"
    "gate_at (set_handler_address v a i t idt) w =
       (if w = v then \<lparr>ie_offset_low = ucast a, ie_code_selector = KERNEL_CODE_SELECTOR, ie_ist = i AND 0b111, ie_attributes = t,
          ie_offset_middle = ucast (drop_bit 16 a), ie_offset_high = ucast (drop_bit 32 a), ie_reserved = 0\<rparr>
        else gate_at idt w)"
    using assms by (auto simp: set_handler_address_def gate_at_def full_def nth_list_update word_unat_eq_iff)
qed

lemma full_set_handlers:
  "full idt \<Longrightarrow> full (set_handler v a i idt)" "full idt \<Longrightarrow> full (set_user_handler v a i idt)"
  by (simp_all add: set_handler_def set_user_handler_def set_handler_address_gate)

text \<open>A predicate on gates that says which stub a vector leads to.\<close>

definition leads_to :: "(Stub \<Rightarrow> usize) \<Rightarrow> Idt \<Rightarrow> u8 \<Rightarrow> Stub \<Rightarrow> u8 \<Rightarrow> bool \<Rightarrow> bool" where
  "leads_to address idt v s ist user \<longleftrightarrow> gate_for (address s) ist user (gate_at idt v)"

lemma set_handler_leads:
  assumes "full idt" "i = 0 \<or> i = 1"
  shows "leads_to address (set_handler v (address s) i idt) v s i False" "leads_to address (set_user_handler v (address s) i idt) v s i True"
  using assms
  by (auto simp: leads_to_def gate_for_def set_handler_def set_user_handler_def set_handler_address_gate gate_present_def gate_interrupt_def
      gate_address_def gate_address_parts gate_privilege_def KERNEL_INTERRUPT_GATE_def USER_INTERRUPT_GATE_def GATE_PRESENT_def
      INTERRUPT_GATE_def USER_DPL_def bit_simps)

lemma idt_new_gates: "full idt_new" "\<not> gate_present (gate_at idt_new w)"
proof -
  have "unat w < 256" using unsigned_less [of w] by simp
  then show "full idt_new" "\<not> gate_present (gate_at idt_new w)"
    by (simp_all add: full_def idt_new_def gate_at_def gate_present_def idt_entry_missing_def)
qed

text \<open>The installation as a list of its calls, in their order.\<close>

definition install :: "(Stub \<Rightarrow> usize) \<Rightarrow> u8 \<times> Stub \<times> u8 \<times> bool \<Rightarrow> Idt \<Rightarrow> Idt" where
  "install address = (\<lambda>(v, s, i, user). if user then set_user_handler v (address s) i else set_handler v (address s) i)"

definition handlers :: "(u8 \<times> Stub \<times> u8 \<times> bool) list" where
  "handlers =
     [(0, StubDivideError, 0, False), (1, StubDebug, 0, False), (2, StubNonMaskableInterrupt, 0, False), (3, StubBreakpoint, 0, True),
      (6, StubInvalidOpcode, 0, False), (7, StubDeviceNotAvailable, 0, False), (8, StubDoubleFault, 1, False),
      (10, StubInvalidTss, 0, False), (11, StubSegmentNotPresent, 0, False), (12, StubStackSegmentFault, 0, False),
      (13, StubGeneralProtection, 0, False), (14, StubPageFault, 0, False), (16, StubX87FloatingPoint, 0, False),
      (17, StubAlignmentCheck, 0, False), (18, StubMachineCheck, 0, False), (19, StubSimdFloatingPoint, 0, False),
      (0x80, StubUserTestExit, 0, True), (0xF1, StubPitCalibration, 0, False), (0xFE, StubApicError, 0, False),
      (0xFD, StubApicTimer, 0, False), (0xFF, StubApicSpurious, 0, False)]"

lemma idt_init_handlers: "fst (idt_init address base) = fold (install address) handlers idt_new"
  by (simp add: idt_init_def exceptions_install_def apic_install_def Let_def handlers_def install_def
      PIT_CALIBRATION_VECTOR_def APIC_TIMER_VECTOR_def APIC_ERROR_VECTOR_def APIC_SPURIOUS_VECTOR_def)

lemma install_gate:
  assumes "full idt" "i = 0 \<or> i = 1"
  shows "full (install address (v, s, i, user) idt)"
    "leads_to address (install address (v, s, i, user) idt) v s i user"
    "w \<noteq> v \<Longrightarrow> gate_at (install address (v, s, i, user) idt) w = gate_at idt w"
proof -
  show "full (install address (v, s, i, user) idt)" using assms(1) by (simp add: install_def full_set_handlers)
  show "leads_to address (install address (v, s, i, user) idt) v s i user"
    using set_handler_leads [OF assms] by (cases user) (simp_all add: install_def)
  show "w \<noteq> v \<Longrightarrow> gate_at (install address (v, s, i, user) idt) w = gate_at idt w"
    using assms(1) by (simp add: install_def set_handler_def set_user_handler_def set_handler_address_gate)
qed

lemma install_all:
  assumes "full idt" "distinct (map fst hs)" "list_all (\<lambda>(v, s, i, user). i = 0 \<or> i = 1) hs"
  shows "full (fold (install address) hs idt)
     \<and> (\<forall>(v, s, i, user)\<in>set hs. leads_to address (fold (install address) hs idt) v s i user)
     \<and> (\<forall>w. w \<notin> fst ` set hs \<longrightarrow> gate_at (fold (install address) hs idt) w = gate_at idt w)"
  using assms(2,3)
proof (induction hs rule: rev_induct)
  case Nil
  then show ?case using assms(1) by simp
next
  case (snoc h hs)
  obtain v s i user where h: "h = (v, s, i, user)" by (cases h)
  let ?idt = "fold (install address) hs idt"
  have IH: "full ?idt" "\<forall>(v, s, i, user)\<in>set hs. leads_to address ?idt v s i user"
    "\<forall>w. w \<notin> fst ` set hs \<longrightarrow> gate_at ?idt w = gate_at idt w" "i = 0 \<or> i = 1" "v \<notin> fst ` set hs"
    using snoc h by auto
  note g = install_gate [OF IH(1,4), where address = address and v = v and s = s and user = user]
  have "leads_to address (install address h ?idt) v' s' i' user'" if "(v', s', i', user') \<in> set hs" for v' s' i' user'
    using that IH(2,5) g(3) [of v'] unfolding h leads_to_def by (force simp: image_iff)
  then show ?case using g IH(3) h by auto
qed

text \<open>
  (C28) The interrupt table sends every vector to its own stub. After \<open>idt_init\<close> a gate is present
  for exactly the vectors the kernel handles, and the table covers all 256; each gate is an
  interrupt gate into the kernel's code segment at the address of the stub that pushes that very
  vector, with a zero in the place of the error code exactly when the processor pushes none.
  Only the double fault switches to the interrupt stack, and only the breakpoint and the test
  vector 0x80 can be raised by user code.
\<close>

theorem idt_routes_vectors:
  fixes v :: u8 and address :: "Stub \<Rightarrow> usize" and base :: usize
  defines "idt \<equiv> fst (idt_init address base)"
  shows "(gate_present (gate_at idt v) \<longleftrightarrow> v \<in> {0, 1, 2, 3, 6, 7, 8, 10, 11, 12, 13, 14, 16, 17, 18, 19, 0x80, 0xF1, 0xFD, 0xFE, 0xFF})
     \<and> (gate_present (gate_at idt v) \<longrightarrow>
          (\<exists>s. gate_for (address s) (if v = 8 then 1 else 0) (v = 3 \<or> v = 0x80) (gate_at idt v)
             \<and> stub_code s = (if pushes_error_code v then stub_err (ucast v) else stub_no_err (ucast v))))
     \<and> unat (ip_limit (snd (idt_init address base))) + 1 = 16 * length (idt_entries idt)"
proof -
  have h: "list_all (\<lambda>(v, s, i, user). i = 0 \<or> i = 1) handlers" "distinct (map fst handlers)"
    "fst ` set handlers = {0, 1, 2, 3, 6, 7, 8, 10, 11, 12, 13, 14, 16, 17, 18, 19, 0x80, 0xF1, 0xFD, 0xFE, 0xFF}"
    "list_all (\<lambda>(v, s, i, user). i = (if v = 8 then 1 else 0) \<and> user = (v = 3 \<or> v = 0x80)) handlers"
    "list_all (\<lambda>(v, s, i, user). stub_code s = (if pushes_error_code v then stub_err (ucast v) else stub_no_err (ucast v))) handlers"
    by (simp_all add: handlers_def pushes_error_code_def) auto
  note all = install_all [OF idt_new_gates(1) h(2,1), of address, folded idt_init_handlers [of _ base], folded idt_def]
  have gate: "\<exists>s. gate_for (address s) (if v = 8 then 1 else 0) (v = 3 \<or> v = 0x80) (gate_at idt v)
             \<and> stub_code s = (if pushes_error_code v then stub_err (ucast v) else stub_no_err (ucast v))"
    if v: "v \<in> fst ` set handlers"
  proof -
    obtain s i user where s: "(v, s, i, user) \<in> set handlers" using v by auto
    then show ?thesis using all h(4,5) unfolding list_all_iff leads_to_def by (intro exI [of _ s]) fastforce
  qed
  moreover have "gate_present (gate_at idt v) \<longleftrightarrow> v \<in> fst ` set handlers"
    using gate all idt_new_gates(2) by (metis gate_for_def)
  ultimately show ?thesis
    using all unfolding h(3) by (simp add: full_def idt_init_def)
qed

theorem idt_routes_vectors_witness:
  "let e = gate_at (fst (idt_init (\<lambda>_. 0xFFFFFFFF80001234) 0)) 14 in
   gate_present e \<and> gate_address e = 0xFFFFFFFF80001234 \<and> gate_privilege e = 0"
  using idt_routes_vectors [of "\<lambda>_. 0xFFFFFFFF80001234" 0 14] by (auto simp: Let_def gate_for_def)

end
