(* ===== verification/Interrupts.thy ===== *)
theory Interrupts
  imports Io_Apic Idt
begin

section \<open>Interrupts\<close>

text \<open>
  The local APIC (\<open>apic.rs\<close>), the interval timer (\<open>pit.rs\<close>), the calibration of the APIC timer
  (\<open>timer.rs\<close>), the handlers of the APIC's vectors (\<open>apic_vectors.rs\<close>), the dispatcher of all
  interrupts (\<open>idt.rs\<close>) and \<open>init_interrupt_controller\<close> (\<open>mod.rs\<close>), which composes them with the
  ACPI tables and the kernel's address space. The atomics the handlers share with the code that
  waits for them are fields of the state. The loop that waits for the timer interrupt is run
  against a schedule: for each turn of the loop, the vectors of the interrupts that arrive before
  it. The loop may wait forever, so its result is an option; \<open>None\<close> is that it is still waiting when
  the schedule ends.
\<close>

datatype LocalApicAccess = X2Apic | XApic

definition APIC_EOI :: u32 where "APIC_EOI = 0xB0"
definition APIC_ESR :: u32 where "APIC_ESR = 0x280"
definition LOCAL_APIC_VIRTUAL_ADDRESS :: VirtualAddr where "LOCAL_APIC_VIRTUAL_ADDRESS = 0xFFFFFFFD00000000"
definition APIC_LVT_TIMER :: u32 where "APIC_LVT_TIMER = 0x320"
definition APIC_TIMER_CURRENT_COUNT :: u32 where "APIC_TIMER_CURRENT_COUNT = 0x390"
definition IA32_APIC_BASE :: u32 where "IA32_APIC_BASE = 0x1B"
definition APIC_BASE_X2APIC_ENABLE :: u64 where "APIC_BASE_X2APIC_ENABLE = push_bit 10 1"

definition apic_read :: "'d Bus \<Rightarrow> LocalApicAccess \<Rightarrow> u32 \<Rightarrow> 'd \<Rightarrow> u64 \<times> 'd" where
  "apic_read bus access offset d =
     (case access of
        X2Apic \<Rightarrow> bus_read_msr bus (0x800 + offset div 16) d
      | XApic \<Rightarrow> let (v, d) = bus_load bus (LOCAL_APIC_VIRTUAL_ADDRESS + ucast offset) d in (ucast v, d))"

definition apic_write :: "'d Bus \<Rightarrow> LocalApicAccess \<Rightarrow> u32 \<Rightarrow> u64 \<Rightarrow> 'd \<Rightarrow> 'd" where
  "apic_write bus access offset value d =
     (case access of
        X2Apic \<Rightarrow> bus_write_msr bus (0x800 + offset div 16) value d
      | XApic \<Rightarrow> bus_store bus (LOCAL_APIC_VIRTUAL_ADDRESS + ucast offset) (ucast value) d)"

definition access_end_of_interrupt :: "'d Bus \<Rightarrow> LocalApicAccess \<Rightarrow> 'd \<Rightarrow> 'd" where
  "access_end_of_interrupt bus access d = apic_write bus access APIC_EOI 0 d"


record LocalApic =
  la_id :: u32
  la_access :: LocalApicAccess



definition start_timer :: "'d Bus \<Rightarrow> LocalApic \<Rightarrow> 'd \<Rightarrow> 'd" where
  "start_timer bus la d = apic_write bus (la_access la) APIC_LVT_TIMER (ucast APIC_TIMER_VECTOR) d"



definition current_access :: "'d Bus \<Rightarrow> 'd \<Rightarrow> LocalApicAccess \<times> 'd" where
  "current_access bus d =
     (let (apic_base, d) = bus_read_msr bus IA32_APIC_BASE d in
      (if apic_base AND APIC_BASE_X2APIC_ENABLE \<noteq> 0 then X2Apic else XApic, d))"

definition current_timer_count :: "'d Bus \<Rightarrow> 'd \<Rightarrow> u32 \<times> 'd" where
  "current_timer_count bus d =
     (let (access, d) = current_access bus d;
          (count, d) = apic_read bus access APIC_TIMER_CURRENT_COUNT d
      in (ucast count, d))"

definition end_of_interrupt :: "'d Bus \<Rightarrow> 'd \<Rightarrow> 'd" where
  "end_of_interrupt bus d = (let (access, d) = current_access bus d in access_end_of_interrupt bus access d)"

subsection \<open>The handlers\<close>

text \<open>The hardware and the atomics \<open>PIT_FIRED\<close>, \<open>LAPIC_COUNT_AT_PIT\<close>, \<open>APIC_ERROR_COUNT\<close>, \<open>LAST_APIC_ERROR\<close> and \<open>APIC_TIMER_COUNT\<close>.\<close>

record 'd Irq =
  irq_dev :: 'd
  pit_fired :: bool
  lapic_count_at_pit :: u32
  apic_error_count :: usize
  last_apic_error :: u32
  apic_timer_count :: usize

definition record_error :: "'d Bus \<Rightarrow> 'd Irq \<Rightarrow> 'd Irq" where
  "record_error bus irq =
     (let (access, d) = current_access bus (irq_dev irq);
          d = apic_write bus access APIC_ESR 0 d;
          (error, d) = apic_read bus access APIC_ESR d
      in irq\<lparr>irq_dev := d, last_apic_error := ucast error, apic_error_count := apic_error_count irq + 1\<rparr>)"

definition record_timer :: "'d Irq \<Rightarrow> 'd Irq" where
  "record_timer irq = irq\<lparr>apic_timer_count := apic_timer_count irq + 1\<rparr>"

definition record_pit_calibration :: "'d Bus \<Rightarrow> 'd Irq \<Rightarrow> 'd Irq" where
  "record_pit_calibration bus irq =
     (let (current, d) = current_timer_count bus (irq_dev irq)
      in irq\<lparr>irq_dev := d, lapic_count_at_pit := current, pit_fired := True\<rparr>)"

definition apic_handle :: "'d Bus \<Rightarrow> u8 \<Rightarrow> 'd Irq \<Rightarrow> 'd Irq" where
  "apic_handle bus vector irq =
     (if vector = PIT_CALIBRATION_VECTOR then
        let irq = record_pit_calibration bus irq in irq\<lparr>irq_dev := end_of_interrupt bus (irq_dev irq)\<rparr>
      else if vector = APIC_TIMER_VECTOR then
        let irq = record_timer irq in irq\<lparr>irq_dev := end_of_interrupt bus (irq_dev irq)\<rparr>
      else if vector = APIC_ERROR_VECTOR then
        let irq = record_error bus irq in irq\<lparr>irq_dev := end_of_interrupt bus (irq_dev irq)\<rparr>
      else irq)"

text \<open>
  \<open>interrupt_dispatch\<close>: exceptions and the test vector end in \<open>exceptions::handle\<close>, which yields an
  outcome of the kernel; the others return to the interrupted code, which is \<open>None\<close>.
\<close>

definition interrupt_dispatch :: "'d Bus \<Rightarrow> InterruptFrame \<Rightarrow> Kernel \<Rightarrow> 'd Irq \<Rightarrow> (Outcome option \<times> Kernel \<times> 'd Irq) panics" where
  "interrupt_dispatch bus frame k irq =
     (let vector = ucast (if_vector frame) :: u8 in
      if vector \<le> 31 \<or> vector = 0x80 then do {
        (out, k) \<leftarrow> handle_exception (isf_code_segment (if_stack_frame frame)) (if_vector frame) k;
        Ret (Some out, k, irq) }
      else if vector = PIT_CALIBRATION_VECTOR \<or> vector = APIC_TIMER_VECTOR \<or> vector = APIC_ERROR_VECTOR \<or> vector = APIC_SPURIOUS_VECTOR
      then Ret (None, k, apic_handle bus vector irq)
      else Ret (None, k, irq))"

subsection \<open>Calibrating the timer\<close>







subsection \<open>The controller\<close>






subsection \<open>The frequency\<close>











subsection \<open>Setting up the controller\<close>









end
