(* ===== verification/Boot.thy ===== *)
theory Boot
  imports Boot_Info Interrupts Syscalls_Control
begin

section \<open>From the boot loader to the first task\<close>






subsection \<open>The state the first task starts in\<close>












end
