(* ===== verification/Spec2Isabelle.thy ===== *)
theory Spec2Isabelle
  imports Stack_Pool Syscalls_Frames Dusk_Sys Omega_Main Boot
begin

text \<open>
  A verification development of DuskOS, a microkernel for x86-64 written in Rust.

  \<^bold>\<open>The program.\<close> The boot loader starts the kernel (\<open>src/src/main.rs\<close>), which builds an allocator
  of physical frames, its own address space and a kernel stack, sets up the interrupt controllers,
  loads the root server \<open>omega3\<close> from the initramfs and starts the scheduler. From then on the
  kernel acts only on system calls and exceptions of its tasks: eleven calls to yield, exit, write to the
  serial port, send and receive messages, allocate and free frames, create address spaces, map and
  unmap frames and create tasks. Tasks are scheduled cooperatively, one processor, one ready queue.
  User programs reach the kernel through the library \<open>dusk-sys\<close>.

  \<^bold>\<open>Conventions.\<close> Machine integers are words of their width. A function that can panic
  returns an option, \<open>Panic\<close> being any failed assertion, \<open>expect\<close>, index or checked arithmetic of a
  debug build, so that "does not panic" is always proved and never assumed; \<open>Result\<close> is a sum with the error
  on the left. Shared mutable state is passed explicitly: the frame allocator and memory as a pair
  (\<open>alloc_mem\<close>), the globals of the running kernel as the record \<open>Kernel\<close>, the devices as a state of
  any type \<open>'d\<close> that a \<open>'d Bus\<close> gives the behaviour of each access on. Memory is a function from addresses
  of the direct map to bytes; page tables are bytes of it.

  \<^bold>\<open>The theories\<close>, with the files under \<open>src/\<close> they model.
  \<^item> \<open>Prelude\<close>, \<open>Containers\<close>, \<open>Page_Map\<close>, \<open>Radix_Tree\<close>, \<open>Bytes\<close>: shared types and lemmas; the interfaces
    \<open>bounded_fifo\<close> (interpreted by the ready queue and the mailbox), \<open>slot_table\<close> (by the handle table and the
    table of address spaces), \<open>page_map\<close> (by address spaces and by stacks); slices, UTF-8 and numbers
    for the parsers.
  \<^item> \<open>Memory\<close> (\<open>src/memory/mod.rs\<close>), \<open>Frame\<close> and \<open>Frame_Correctness\<close> (\<open>src/memory/frame.rs\<close>): the bitmap allocator,
    which implements the interface \<open>frame_provider\<close>; initialisation, next-fit allocation, freeing, reclaiming.
  \<^item> \<open>Paging\<close> (\<open>src/arch/x86_64/paging.rs\<close>) and the proofs \<open>Paging_Entries\<close>, \<open>Paging_Cells\<close>, \<open>Paging_Lookup\<close>,
    \<open>Paging_Steps\<close>, \<open>Paging_Map\<close>, \<open>Paging_Unmap\<close>, \<open>Paging_Correctness\<close>, \<open>Paging_Destroy\<close>: the tables as a radix
    tree of memory cells with the invariant \<open>pt_inv\<close>; mapping, unmapping with pruning, sharing of the kernel
    half and destruction keep it, and their effect on every translation and every frame is stated.
  \<^item> \<open>Address_Space\<close>, \<open>Address_Space_Correctness\<close>, \<open>Kernel_Space\<close> (\<open>src/memory/address_space.rs\<close>): ranges
    with roll-back, user and kernel spaces, the table of spaces. An address space is seen as a map from pages to
    frames and permissions (\<open>as_look\<close>) and an account of frames (\<open>as_owned\<close>).
  \<^item> \<open>Stack\<close>, \<open>Stack_Correctness\<close>, \<open>Stack_Pool\<close> (\<open>src/memory/stack.rs\<close>); \<open>User\<close>, \<open>User_Correctness\<close>
    (\<open>src/memory/user.rs\<close>): stacks with guard pages, the pool of kernel stacks, validation of user ranges and the copies.
  \<^item> \<open>Tcb\<close>, \<open>Ready_Queue\<close>, \<open>Scheduler\<close>, \<open>Scheduler_Correctness\<close> (\<open>src/task/tcb.rs\<close>, \<open>src/task/scheduler.rs\<close>): an
    operation that gives up the processor returns the \<open>Switch\<close> to perform. The abstract scheduler \<open>SchedView\<close> is
    refined by every operation; \<open>sched_step\<close> and its reachable states satisfy \<open>sched_inv\<close>.
  \<^item> \<open>Kernel\<close>, \<open>Syscalls\<close> (\<open>src/syscall/mod.rs\<close>, \<open>src/syscall/table.rs\<close>, \<open>exceptions.rs\<close>) and the proofs
    \<open>Syscalls_Invariant\<close>, \<open>Syscalls_Control\<close>, \<open>Syscalls_Memory\<close>, \<open>Syscalls_Frames\<close>: every call with every error. A call
    that switches tasks is split at the switch, its rest being kept in \<open>k_pending\<close> as the code keeps it on the
    task's stack. The relation \<open>kernel_step\<close> has the calls, resumptions and exceptions; the invariants hold in
    all its reachable states.
  \<^item> \<open>Cpio\<close>, \<open>Elf\<close>, \<open>Bootstrap\<close>, \<open>Bootstrap_Correctness\<close> (\<open>src/format\<close>, \<open>src/task/bootstrap.rs\<close>): the archive and
    the program reader on untrusted bytes, and loading, with the contents of every page loaded.
  \<^item> \<open>Segments\<close>, \<open>Asm\<close>, \<open>Idt\<close> (\<open>gdt.rs\<close>, \<open>cpu.rs\<close>, \<open>syscall.rs\<close>, \<open>idt.rs\<close>, \<open>mod.rs\<close> of \<open>src/arch/x86_64\<close>): descriptors,
    and the naked functions and assembly blocks as the instruction sequences of the source, run by an interpreter
    of the instructions they use.
  \<^item> \<open>Acpi\<close>, \<open>Devices\<close>, \<open>Io_Apic\<close>, \<open>Interrupts\<close> (\<open>src/platform/acpi.rs\<close>, \<open>cpu.rs\<close>, \<open>serial.rs\<close>, \<open>io_apic.rs\<close>, \<open>apic.rs\<close>,
    \<open>pit.rs\<close>, \<open>timer.rs\<close>, \<open>apic_vectors.rs\<close>): firmware tables, feature detection, serial port, interrupt controllers
    and timer calibration.
  \<^item> \<open>Boot_Info\<close>, \<open>Boot\<close> (\<open>src/boot/limine.rs\<close>, \<open>src/main.rs\<close>): what the loader hands over, and the composition of
    all components from the loader to the first task.
  \<^item> \<open>Dusk_Sys\<close>, \<open>Omega_Elf\<close>, \<open>Omega_Cpio\<close>, \<open>Omega_Main\<close> (\<open>userspace/dusk-sys\<close>, \<open>userspace/omega3\<close>): the user side of the system calls,
    the root server's two parsers, compared with the kernel's, and its main program as the sequence of its calls,
    with what these calls leave in the address spaces it makes.

  \<^bold>\<open>What the theorems show.\<close> Mapping, unmapping and destruction change exactly the translations and frames they
  should, and roll back completely. The kernel's own space has no page that is writable and executable. A user
  range is accepted exactly when every page of it is mapped for the user with the access asked for. The frame calls on a task's own
  memory can neither panic nor corrupt it. The scheduler is consistent in all reachable states, round-robin
  and free of starvation; the processor always uses the current task's own page table and kernel stack, from boot on.
  Messages arrive unchanged and in order. Context switch, system call entry and interrupt entry restore every
  register. The parsers never leave their input, end on every input and accept exactly the well-formed files.
  The root server gives each program it starts a space with exactly that program's image and stack.

  \<^bold>\<open>Termination and bounds.\<close> No definition uses fuel. The loops over archives end because the offset grows below
  \<open>2 ^ 64\<close>; the iterators over ELF headers and the MADT by their remaining length; \<open>destroy_children\<close> by the level.
  The two loops that wait for hardware, for the serial port and for the timer interrupt, are option-valued
  and run against the device or against a given sequence of interrupts. Sizes of fixed arrays (32 tasks, 32
  handles, 4 messages of 128 bytes, 64 stacks, 128 regions) are those of the code.

  \<^bold>\<open>Hypotheses on foreign parts.\<close> \<open>efer_register\<close> (the register reads back what was written), \<open>uart\<close> (a busy port
  becomes ready and sends each byte once), \<open>io_apic_device\<close> (index and window registers). The loader's answers, the
  codes of its interface, the linker's symbols, the addresses of assembly routines and the layout of the handoff
  record are arguments.

  \<^bold>\<open>Not modelled.\<close> The text of messages and reports and the formatting macros; TLB flushes, the loading of CR3 and of the
  descriptor tables, \<open>in\<close>, \<open>out\<close>, \<open>hlt\<close>, \<open>cli\<close> and \<open>sti\<close> as instructions (their data effects are arguments or fields of the
  state, and the operations they protect are single steps); interrupts that arrive while a task runs, which only
  acknowledge the controller; the two demonstration programs, which call modelled stubs only; the build files.
\<close>

end
